(* ===== verification/Prelude.thy ===== *)
theory Prelude
  imports Main "HOL-Library.Char_ord" "HOL-Library.List_Lexorder"
begin

text \<open>
  Shared vocabulary of the development: JavaScript errors as values, instants, the string
  operations the program applies to identifiers and addresses, first-occurrence
  de-duplication (\<open>[...new Set(xs)]\<close>), SQL statements over tables held as lists of rows, and
  one interface (a locale) for state machines that keep an invariant.

  Strings are lists of \<open>char\<close>: the code units below U+0100. An instant is an epoch
  millisecond, as \<open>Date.getTime()\<close> returns it.
\<close>

type_synonym instant = int

datatype js_error = RangeError string | TypeError string | Error string

named_theorems model_simps \<open>equations that evaluate the small operations of the model\<close>
named_theorems table_simps \<open>rows and keys of a table after an SQL statement\<close>

subsection \<open>Results\<close>

definition res_bind :: "'e + 'a \<Rightarrow> ('a \<Rightarrow> 'e + 'b) \<Rightarrow> 'e + 'b" where
  "res_bind m f = (case m of Inl e \<Rightarrow> Inl e | Inr x \<Rightarrow> f x)"

lemma res_bind_simps [simp]:
  "res_bind (Inl e) f = Inl e"
  "res_bind (Inr x) f = f x"
  by (simp_all add: res_bind_def)

lemma res_bind_Inr_iff: "res_bind m f = Inr y \<longleftrightarrow> (\<exists>x. m = Inr x \<and> f x = Inr y)"
  by (cases m) auto

lemma res_bind_Inl_iff:
  "res_bind m f = Inl e \<longleftrightarrow> m = Inl e \<or> (\<exists>x. m = Inr x \<and> f x = Inl e)"
  by (cases m) auto

text \<open>Running a list of events through a step that may raise: the first error stops the run.\<close>

fun run_steps :: "('s \<Rightarrow> 'e \<Rightarrow> 'err + 's) \<Rightarrow> 's \<Rightarrow> 'e list \<Rightarrow> 'err + 's" where
  "run_steps step s [] = Inr s"
| "run_steps step s (e # es) = res_bind (step s e) (\<lambda>s'. run_steps step s' es)"

lemma run_steps_append:
  "run_steps step s (es @ fs) = res_bind (run_steps step s es) (\<lambda>s'. run_steps step s' fs)"
proof (induction es arbitrary: s)
  case Nil
  show ?case by simp
next
  case (Cons e es)
  then show ?case by (cases "step s e") simp_all
qed

text \<open>A loop over a list whose body may raise; the results are collected in order.\<close>

fun res_map :: "('a \<Rightarrow> 'e + 'b) \<Rightarrow> 'a list \<Rightarrow> 'e + 'b list" where
  "res_map f [] = Inr []"
| "res_map f (x # xs) = res_bind (f x) (\<lambda>y. res_bind (res_map f xs) (\<lambda>ys. Inr (y # ys)))"

lemma res_map_Inr_iff: "res_map f xs = Inr ys \<longleftrightarrow> list_all2 (\<lambda>x y. f x = Inr y) xs ys"
  by (induction xs arbitrary: ys) (auto simp: res_bind_Inr_iff list_all2_Cons1)

lemma res_map_origin: "res_map f xs = Inr ys \<Longrightarrow> y \<in> set ys \<Longrightarrow> \<exists>x \<in> set xs. f x = Inr y"
proof (induction xs arbitrary: ys)
  case Nil
  then show ?case by simp
next
  case (Cons x xs)
  then show ?case by (fastforce simp: res_bind_Inr_iff)
qed

lemma res_map_total: "(\<And>x. x \<in> set xs \<Longrightarrow> f x = Inr (g x)) \<Longrightarrow> res_map f xs = Inr (map g xs)"
  by (induction xs) simp_all

subsection \<open>State machines that keep an invariant\<close>

text \<open>
  The contract of a component whose operations are the steps of a machine: every step on an
  event admissible in the state keeps the invariant. A client gets it after every run. The
  second contract adds progress: in a state that satisfies the invariant no admissible event
  raises.
\<close>

fun admissible_run ::
  "('s \<Rightarrow> 'e \<Rightarrow> 'err + 's) \<Rightarrow> ('s \<Rightarrow> 'e \<Rightarrow> bool) \<Rightarrow> 's \<Rightarrow> 'e list \<Rightarrow> bool" where
  "admissible_run step adm s [] = True"
| "admissible_run step adm s (e # es) =
     (adm s e \<and> (case step s e of Inl _ \<Rightarrow> True | Inr s' \<Rightarrow> admissible_run step adm s' es))"

lemma admissible_run_always: "list_all p es \<Longrightarrow> admissible_run step (\<lambda>_. p) s es"
  by (induction es arbitrary: s) (auto split: sum.split)

locale invariant_machine =
  fixes step :: "'s \<Rightarrow> 'e \<Rightarrow> 'err + 's"
    and inv :: "'s \<Rightarrow> bool"
    and admissible :: "'s \<Rightarrow> 'e \<Rightarrow> bool"
  assumes inv_step: "inv s \<Longrightarrow> admissible s e \<Longrightarrow> step s e = Inr s' \<Longrightarrow> inv s'"
begin

lemma inv_run:
  "inv s \<Longrightarrow> admissible_run step admissible s es \<Longrightarrow> run_steps step s es = Inr s' \<Longrightarrow> inv s'"
proof (induction es arbitrary: s)
  case Nil
  then show ?case by simp
next
  case (Cons e es)
  then obtain s1 where "step s e = Inr s1" "run_steps step s1 es = Inr s'"
    by (auto simp: res_bind_Inr_iff)
  moreover from this Cons.prems have "inv s1" by (auto intro: inv_step)
  ultimately show ?case using Cons by simp
qed

end

locale progress_machine = invariant_machine +
  assumes progress: "inv s \<Longrightarrow> admissible s e \<Longrightarrow> \<exists>s'. step s e = Inr s'"
begin

lemma run_returns:
  "inv s \<Longrightarrow> admissible_run step admissible s es \<Longrightarrow>
   \<exists>s'. run_steps step s es = Inr s' \<and> inv s'"
proof (induction es arbitrary: s)
  case Nil
  then show ?case by simp
next
  case (Cons e es)
  then obtain s' where "step s e = Inr s'" "inv s'"
    using progress inv_step by fastforce
  with Cons show ?case by simp
qed

end

subsection \<open>Strings\<close>

definition js_space :: "char \<Rightarrow> bool" where
  "js_space c \<longleftrightarrow> (let n = (of_char c :: nat) in (9 \<le> n \<and> n \<le> 13) \<or> n = 32 \<or> n = 160)"

definition js_trim :: "string \<Rightarrow> string" where
  "js_trim s = rev (dropWhile js_space (rev (dropWhile js_space s)))"

text \<open>Lower case of a code unit below U+0100 (the ASCII letters and U+00C0 to U+00DE but U+00D7).\<close>

definition js_lower_char :: "char \<Rightarrow> char" where
  "js_lower_char c = (let n = (of_char c :: nat) in
     if (65 \<le> n \<and> n \<le> 90) \<or> (192 \<le> n \<and> n \<le> 222 \<and> n \<noteq> 215) then char_of (n + 32) else c)"

definition js_lower :: "string \<Rightarrow> string" where
  "js_lower = map js_lower_char"

definition js_startsWith :: "string \<Rightarrow> string \<Rightarrow> bool" where
  "js_startsWith s p \<longleftrightarrow> take (length p) s = p"

definition js_endsWith :: "string \<Rightarrow> string \<Rightarrow> bool" where
  "js_endsWith s p \<longleftrightarrow> length p \<le> length s \<and> drop (length s - length p) s = p"

text \<open>An optional string is truthy when present and not empty.\<close>

definition truthy :: "string option \<Rightarrow> bool" where
  "truthy v = (case v of None \<Rightarrow> False | Some s \<Rightarrow> s \<noteq> [])"

lemma truthy_simps [simp]: "\<not> truthy None" "truthy (Some s) \<longleftrightarrow> s \<noteq> []"
  by (simp_all add: truthy_def)

lemma truthyE: "truthy v \<Longrightarrow> (\<And>s. v = Some s \<Longrightarrow> s \<noteq> [] \<Longrightarrow> P) \<Longrightarrow> P"
  by (cases v) auto

lemma length_js_lower [simp]: "length (js_lower s) = length s"
  by (simp add: js_lower_def)

lemma js_lower_char_idem: "js_lower_char (js_lower_char c) = js_lower_char c"
proof -
  have small: "(of_char c :: nat) < 256"
    by (rule nat_of_char_less_256)
  show ?thesis
    by (auto simp: js_lower_char_def Let_def small)
qed

lemma js_lower_idem [simp]: "js_lower (js_lower s) = js_lower s"
  by (simp add: js_lower_def js_lower_char_idem)

lemma js_space_lower: "js_space (js_lower_char c) = js_space c"
proof -
  have small: "(of_char c :: nat) < 256"
    by (rule nat_of_char_less_256)
  show ?thesis
    by (auto simp: js_lower_char_def js_space_def Let_def small)
qed

lemma dropWhile_space_lower:
  "dropWhile js_space (map js_lower_char s) = map js_lower_char (dropWhile js_space s)"
  by (induction s) (auto simp: js_space_lower)

lemma js_trim_lower: "js_trim (js_lower s) = js_lower (js_trim s)"
  by (simp add: js_trim_def js_lower_def dropWhile_space_lower rev_map)

lemma dropWhile_idem: "dropWhile p (dropWhile p s) = dropWhile p s"
  by (induction s) auto

lemma dropWhile_rev_dropWhile:
  "dropWhile p (rev (dropWhile p (rev (dropWhile p s)))) = rev (dropWhile p (rev (dropWhile p s)))"
proof (cases "dropWhile p s")
  case Nil
  show ?thesis by (simp only: Nil) simp
next
  case (Cons a t)
  then have "\<not> p a"
    by (metis dropWhile_eq_Cons_conv)
  with Cons show ?thesis
    by (simp add: dropWhile_append)
qed

lemma js_trim_idem [simp]: "js_trim (js_trim s) = js_trim s"
  by (simp add: js_trim_def dropWhile_rev_dropWhile dropWhile_idem)

subsection \<open>Optional values\<close>

text \<open>\<open>v ?? d\<close>.\<close>

definition or_else :: "'a option \<Rightarrow> 'a \<Rightarrow> 'a" where
  "or_else v d = (case v of None \<Rightarrow> d | Some x \<Rightarrow> x)"

lemma or_else_simps [simp]: "or_else None d = d" "or_else (Some x) d = x"
  by (simp_all add: or_else_def)

subsection \<open>Positions\<close>

text \<open>\<open>Array.indexOf\<close> and \<open>Array.findIndex\<close>: -1 when there is none.\<close>

fun index_of :: "'a \<Rightarrow> 'a list \<Rightarrow> int" where
  "index_of x [] = -1"
| "index_of x (y # ys) =
     (if x = y then 0 else (let i = index_of x ys in if i = -1 then -1 else i + 1))"

fun findIndex :: "('a \<Rightarrow> bool) \<Rightarrow> 'a list \<Rightarrow> int" where
  "findIndex p [] = -1"
| "findIndex p (x # xs) =
     (if p x then 0 else (let i = findIndex p xs in if i < 0 then -1 else i + 1))"

subsection \<open>Decimal numerals\<close>

text \<open>A number interpolated into a string: \<open>`${n}`\<close>.\<close>

fun nat_string :: "nat \<Rightarrow> string" where
  "nat_string n =
     (if n < 10 then [char_of (48 + n)] else nat_string (n div 10) @ [char_of (48 + n mod 10)])"

declare nat_string.simps [simp del]

definition int_string :: "int \<Rightarrow> string" where
  "int_string i = (if i < 0 then CHR ''-'' # nat_string (nat (- i)) else nat_string (nat i))"

definition digit_value :: "char \<Rightarrow> nat" where
  "digit_value c = of_char c - 48"

lemma digit_value_char: "d < 10 \<Longrightarrow> digit_value (char_of (48 + d)) = d"
  by (simp add: digit_value_def)

definition read_nat :: "string \<Rightarrow> nat" where
  "read_nat s = foldl (\<lambda>a c. a * 10 + digit_value c) 0 s"

lemma read_nat_string [simp]: "read_nat (nat_string n) = n"
proof (induction n rule: nat_string.induct)
  case (1 n)
  show ?case
  proof (cases "n < 10")
    case True
    then show ?thesis
      by (subst nat_string.simps) (simp add: read_nat_def digit_value_char)
  next
    case False
    have "read_nat (nat_string (n div 10) @ [char_of (48 + n mod 10)]) =
        read_nat (nat_string (n div 10)) * 10 + digit_value (char_of (48 + n mod 10))"
      by (simp add: read_nat_def)
    also have "\<dots> = n div 10 * 10 + n mod 10"
      using 1 [OF False] by (simp add: digit_value_char del: of_char_of)
    finally show ?thesis
      using False by (subst nat_string.simps) simp
  qed
qed

lemma nat_string_inject [simp]: "nat_string m = nat_string n \<longleftrightarrow> m = n"
  by (metis read_nat_string)

lemma nat_string_digits: "c \<in> set (nat_string n) \<Longrightarrow> 48 \<le> (of_char c :: nat) \<and> (of_char c :: nat) \<le> 57"
proof (induction n rule: nat_string.induct)
  case (1 n)
  show ?case
  proof (cases "n < 10")
    case True
    with 1(2) show ?thesis
      by (subst (asm) nat_string.simps) auto
  next
    case False
    with 1(2) have "c \<in> set (nat_string (n div 10)) \<or> c = char_of (48 + n mod 10)"
      by (subst (asm) nat_string.simps) auto
    moreover have "n mod 10 < 10" by simp
    ultimately show ?thesis using 1(1) [OF False] by auto
  qed
qed

lemma nat_string_no_minus: "CHR ''-'' \<notin> set (nat_string n)"
  using nat_string_digits [of "CHR ''-''" n] by auto

lemma int_string_inject [simp]: "int_string i = int_string j \<longleftrightarrow> i = j"
proof -
  have "CHR ''-'' # s \<noteq> nat_string n" for s n
    using nat_string_no_minus [of n] by (metis list.set_intros(1))
  then show ?thesis by (auto simp: int_string_def dest: sym)
qed

lemma int_string_chars: "c \<in> set (int_string i) \<Longrightarrow> c = CHR ''-'' \<or> (48 \<le> (of_char c :: nat) \<and> (of_char c :: nat) \<le> 57)"
  by (auto simp: int_string_def split: if_splits dest: nat_string_digits)

subsection \<open>Thrown objects and SQL time-outs\<close>

fun js_includes :: "string \<Rightarrow> string \<Rightarrow> bool" where
  "js_includes [] p \<longleftrightarrow> p = []"
| "js_includes (c # s) p \<longleftrightarrow> js_startsWith (c # s) p \<or> js_includes s p"

text \<open>What a \<open>catch\<close> can see of a thrown value: whether it is an \<open>Error\<close>, its \<open>code\<close> if any and
  its message (\<open>String(error)\<close> when it is no \<open>Error\<close>). A primitive has neither.\<close>

datatype thrown =
    ThrownObject (is_error: bool) (err_code: "string option") (err_message: string)
  | ThrownPrimitive string

subsection \<open>First-occurrence de-duplication\<close>

text \<open>\<open>[...new Set(xs)]\<close>: a JavaScript set iterates in insertion order.\<close>

fun js_unique_from :: "'a list \<Rightarrow> 'a list \<Rightarrow> 'a list" where
  "js_unique_from seen [] = []"
| "js_unique_from seen (x # xs) =
     (if x \<in> set seen then js_unique_from seen xs else x # js_unique_from (x # seen) xs)"

definition js_unique :: "'a list \<Rightarrow> 'a list" where
  "js_unique xs = js_unique_from [] xs"

lemma set_js_unique_from: "set (js_unique_from seen xs) = set xs - set seen"
  by (induction xs arbitrary: seen) auto

lemma distinct_js_unique_from: "distinct (js_unique_from seen xs)"
  by (induction xs arbitrary: seen) (auto simp: set_js_unique_from)

lemma set_js_unique [simp]: "set (js_unique xs) = set xs"
  by (simp add: js_unique_def set_js_unique_from)

lemma distinct_js_unique [simp]: "distinct (js_unique xs)"
  by (simp add: js_unique_def distinct_js_unique_from)

lemma length_js_unique_from: "length (js_unique_from seen xs) \<le> length xs"
  by (induction xs arbitrary: seen) (auto simp: le_SucI)

lemma js_unique_from_same:
  "length (js_unique_from seen xs) = length xs \<Longrightarrow> distinct xs \<and> set xs \<inter> set seen = {}"
proof (induction xs arbitrary: seen)
  case Nil
  then show ?case by simp
next
  case (Cons x xs)
  show ?case
  proof (cases "x \<in> set seen")
    case True
    with Cons.prems length_js_unique_from [of seen xs] show ?thesis by simp
  next
    case False
    with Cons.prems Cons.IH [of "x # seen"] show ?thesis by auto
  qed
qed

lemma js_unique_from_distinct:
  "distinct xs \<Longrightarrow> set xs \<inter> set seen = {} \<Longrightarrow> js_unique_from seen xs = xs"
  by (induction xs arbitrary: seen) auto

lemma js_unique_distinct [simp]: "distinct xs \<Longrightarrow> js_unique xs = xs"
  by (simp add: js_unique_def js_unique_from_distinct)

lemma length_js_unique_iff: "length (js_unique xs) = length xs \<longleftrightarrow> distinct xs"
  using js_unique_from_same [of "[]" xs] by (auto simp: js_unique_def js_unique_from_distinct)

subsection \<open>SQL statements over a table\<close>

text \<open>
  A table is the list of its rows. \<open>update ... where p\<close> rewrites the rows that satisfy \<open>p\<close> and
  returns them as \<open>returning\<close> does; \<open>insert ... on conflict (key) do nothing\<close> adds the rows
  whose key is not taken and returns the rows added.
\<close>

definition sql_update :: "('r \<Rightarrow> bool) \<Rightarrow> ('r \<Rightarrow> 'r) \<Rightarrow> 'r list \<Rightarrow> 'r list" where
  "sql_update p f t = map (\<lambda>r. if p r then f r else r) t"

definition sql_delete :: "('r \<Rightarrow> bool) \<Rightarrow> 'r list \<Rightarrow> 'r list" where
  "sql_delete p t = filter (\<lambda>r. \<not> p r) t"

definition sql_returning :: "('r \<Rightarrow> bool) \<Rightarrow> ('r \<Rightarrow> 'r) \<Rightarrow> 'r list \<Rightarrow> 'r list" where
  "sql_returning p f t = map f (filter p t)"

fun sql_insert_new :: "('r \<Rightarrow> 'k) \<Rightarrow> 'r list \<Rightarrow> 'r list \<Rightarrow> 'r list \<times> 'r list" where
  "sql_insert_new key [] t = (t, [])"
| "sql_insert_new key (r # rs) t =
     (if key r \<in> key ` set t then sql_insert_new key rs t
      else (let (t', new) = sql_insert_new key rs (t @ [r]) in (t', r # new)))"

lemma map_key_sql_update [table_simps]:
  "(\<And>r. p r \<Longrightarrow> key (f r) = key r) \<Longrightarrow> map key (sql_update p f t) = map key t"
  by (auto simp: sql_update_def)

lemma set_sql_update: "set (sql_update p f t) = f ` {r \<in> set t. p r} \<union> {r \<in> set t. \<not> p r}"
  by (auto simp: sql_update_def)

lemma length_sql_update [simp]: "length (sql_update p f t) = length t"
  by (simp add: sql_update_def)

lemma list_all_sql_update:
  "list_all q t \<Longrightarrow> (\<And>r. p r \<Longrightarrow> q r \<Longrightarrow> q (f r)) \<Longrightarrow> list_all q (sql_update p f t)"
  by (auto simp: sql_update_def list_all_iff)

lemma sql_insert_new_append: "sql_insert_new key rs t = (t', new) \<Longrightarrow> t' = t @ new"
proof (induction rs arbitrary: t t' new)
  case Nil
  then show ?case by simp
next
  case (Cons r rs)
  then show ?case by (force split: if_splits prod.splits)
qed

lemma sql_insert_new_subset: "sql_insert_new key rs t = (t', new) \<Longrightarrow> set new \<subseteq> set rs"
proof (induction rs arbitrary: t t' new)
  case Nil
  then show ?case by simp
next
  case (Cons r rs)
  then show ?case by (force split: if_splits prod.splits)
qed

lemma sql_insert_new_keys:
  "sql_insert_new key rs t = (t', new) \<Longrightarrow> key ` set t' = key ` set t \<union> key ` set rs"
proof (induction rs arbitrary: t t' new)
  case Nil
  then show ?case by simp
next
  case (Cons r rs)
  then show ?case by (force split: if_splits prod.splits)
qed

lemma sql_insert_new_distinct:
  "sql_insert_new key rs t = (t', new) \<Longrightarrow> distinct (map key t) \<Longrightarrow> distinct (map key t')"
proof (induction rs arbitrary: t t' new)
  case Nil
  then show ?case by simp
next
  case (Cons r rs)
  show ?case
  proof (cases "key r \<in> key ` set t")
    case True
    with Cons show ?thesis by simp
  next
    case False
    then obtain t2 n2 where rec: "sql_insert_new key rs (t @ [r]) = (t2, n2)"
      by fastforce
    with False Cons.prems have "t' = t2" by simp
    moreover have "distinct (map key (t @ [r]))" using Cons.prems False by auto
    ultimately show ?thesis using Cons.IH [OF rec] by simp
  qed
qed

lemma sql_insert_new_taken:
  "key ` set rs \<subseteq> key ` set t \<Longrightarrow> sql_insert_new key rs t = (t, [])"
  by (induction rs arbitrary: t) auto

text \<open>Inserting the same rows a second time adds nothing.\<close>

lemma sql_insert_new_again:
  "sql_insert_new key rs t = (t', new) \<Longrightarrow> sql_insert_new key rs t' = (t', [])"
  by (rule sql_insert_new_taken) (auto dest: sql_insert_new_keys)

text \<open>
  \<open>insert ... on conflict (key) do update set\<close> every other column: a row whose key is taken
  replaces the old row. The rows of one statement have distinct keys.
\<close>

fun sql_upsert :: "('r \<Rightarrow> 'k) \<Rightarrow> 'r list \<Rightarrow> 'r list \<Rightarrow> 'r list" where
  "sql_upsert key [] t = t"
| "sql_upsert key (r # rs) t =
     sql_upsert key rs
       (if key r \<in> key ` set t then map (\<lambda>x. if key x = key r then r else x) t else t @ [r])"

definition row_at :: "('r \<Rightarrow> 'k) \<Rightarrow> 'k \<Rightarrow> 'r list \<Rightarrow> 'r option" where
  "row_at key k t = find (\<lambda>r. key r = k) t"

lemma row_at_Nil [simp]: "row_at key k [] = None"
  by (simp add: row_at_def)

lemma row_at_Cons [simp]: "row_at key k (r # t) = (if key r = k then Some r else row_at key k t)"
  by (simp add: row_at_def)

lemma row_at_append: "row_at key k (t @ u) = (case row_at key k t of None \<Rightarrow> row_at key k u | Some r \<Rightarrow> Some r)"
  by (induction t) auto

lemma row_at_None_iff: "row_at key k t = None \<longleftrightarrow> k \<notin> key ` set t"
  by (induction t) auto

lemma row_at_Some: "row_at key k t = Some r \<Longrightarrow> r \<in> set t \<and> key r = k"
  by (induction t) (auto split: if_splits)

lemma row_at_distinct:
  "distinct (map key t) \<Longrightarrow> r \<in> set t \<Longrightarrow> row_at key (key r) t = Some r"
  by (induction t) force+

lemma row_at_replace:
  "row_at key k (map (\<lambda>x. if key x = key r then r else x) t) =
     (if k = key r \<and> key r \<in> key ` set t then Some r else row_at key k t)"
  by (induction t) auto

lemma row_at_upsert:
  "distinct (map key rs) \<Longrightarrow>
   row_at key k (sql_upsert key rs t) =
     (case row_at key k rs of Some r \<Rightarrow> Some r | None \<Rightarrow> row_at key k t)"
proof (induction rs arbitrary: t)
  case Nil
  then show ?case by simp
next
  case (Cons r rs)
  let ?t = "if key r \<in> key ` set t then map (\<lambda>x. if key x = key r then r else x) t else t @ [r]"
  have new: "row_at key k ?t = (if k = key r then Some r else row_at key k t)"
  proof (cases "key r \<in> key ` set t")
    case True
    then show ?thesis by (simp add: row_at_replace)
  next
    case False
    then have "row_at key (key r) t = None" by (simp add: row_at_None_iff)
    with False show ?thesis by (simp add: row_at_append split: option.split)
  qed
  have "key r \<notin> key ` set rs" using Cons.prems by simp
  then have "k = key r \<Longrightarrow> row_at key k rs = None" by (auto simp: row_at_None_iff)
  with Cons new show ?case by (auto split: option.split)
qed

lemma map_key_replace: "map key (map (\<lambda>x. if key x = key r then r else x) t) = map key t"
  by auto

lemma sql_upsert_keys [table_simps]: "key ` set (sql_upsert key rs t) = key ` set t \<union> key ` set rs"
proof (induction rs arbitrary: t)
  case Nil
  show ?case by simp
next
  case (Cons r rs)
  have "key ` set (map (\<lambda>x. if key x = key r then r else x) t) = key ` set t"
    using map_key_replace [of key r t] by (metis set_map)
  with Cons show ?case by auto
qed

lemma sql_upsert_distinct: "distinct (map key t) \<Longrightarrow> distinct (map key (sql_upsert key rs t))"
proof (induction rs arbitrary: t)
  case Nil
  then show ?case by simp
next
  case (Cons r rs)
  then show ?case by (simp only: sql_upsert.simps split: if_split) (simp add: map_key_replace del: map_map)
qed

lemma sql_upsert_subset: "set (sql_upsert key rs t) \<subseteq> set rs \<union> set t"
proof (induction rs arbitrary: t)
  case Nil
  show ?case by simp
next
  case (Cons r rs)
  let ?t = "if key r \<in> key ` set t then map (\<lambda>x. if key x = key r then r else x) t else t @ [r]"
  have "set ?t \<subseteq> insert r (set t)" by auto
  with Cons.IH [of ?t] show ?case by auto
qed

lemma list_all_upsert: "list_all q rs \<Longrightarrow> list_all q t \<Longrightarrow> list_all q (sql_upsert key rs t)"
  using sql_upsert_subset [of key rs t] by (auto simp: list_all_iff)

text \<open>\<open>group by\<close>: the groups in the order of their first row.\<close>

definition sql_group :: "('r \<Rightarrow> 'k) \<Rightarrow> 'r list \<Rightarrow> ('k \<times> 'r list) list" where
  "sql_group key rows = map (\<lambda>k. (k, filter (\<lambda>r. key r = k) rows)) (js_unique (map key rows))"

lemma map_fst_sql_group [simp]: "map fst (sql_group key rows) = js_unique (map key rows)"
  by (simp add: sql_group_def comp_def)

lemma sql_group_iff:
  "(k, g) \<in> set (sql_group key rows) \<longleftrightarrow> k \<in> key ` set rows \<and> g = filter (\<lambda>r. key r = k) rows"
  by (auto simp: sql_group_def)

lemma sum_over_keys:
  fixes h :: "'r \<Rightarrow> 'b::comm_monoid_add"
  assumes "distinct ks" and "key ` set rows \<subseteq> set ks"
  shows "(\<Sum>k\<leftarrow>ks. \<Sum>r\<leftarrow>filter (\<lambda>r. key r = k) rows. h r) = (\<Sum>r\<leftarrow>rows. h r)"
  using assms(2)
proof (induction rows)
  case Nil
  then show ?case by simp
next
  case (Cons r rows)
  have "(\<Sum>k\<leftarrow>ks. \<Sum>x\<leftarrow>filter (\<lambda>x. key x = k) (r # rows). h x) =
      (\<Sum>k\<leftarrow>ks. (if key r = k then h r else 0) + (\<Sum>x\<leftarrow>filter (\<lambda>x. key x = k) rows. h x))"
    by (intro arg_cong [of _ _ sum_list] map_cong) auto
  also have "\<dots> = (\<Sum>k\<leftarrow>ks. if key r = k then h r else 0) +
      (\<Sum>k\<leftarrow>ks. \<Sum>x\<leftarrow>filter (\<lambda>x. key x = k) rows. h x)"
    by (rule sum_list_addf)
  also have "(\<Sum>k\<leftarrow>ks. if key r = k then h r else 0) = h r"
    using assms(1) Cons.prems by (simp add: sum_list_distinct_conv_sum_set)
  finally show ?case using Cons by simp
qed

lemma sum_sql_group:
  fixes h :: "'r \<Rightarrow> 'b::comm_monoid_add"
  shows "(\<Sum>(k, g)\<leftarrow>sql_group key rows. \<Sum>r\<leftarrow>g. h r) = (\<Sum>r\<leftarrow>rows. h r)"
  using sum_over_keys [of "js_unique (map key rows)" key rows h]
  by (simp add: sql_group_def comp_def)

lemma row_at_sql_group:
  assumes "\<And>k g. key' (f k g) = k"
  shows "row_at key' k (map (\<lambda>(k, g). f k g) (sql_group key rows)) =
           (if k \<in> key ` set rows then Some (f k (filter (\<lambda>r. key r = k) rows)) else None)"
proof -
  have "row_at key' k (map (\<lambda>k. f k (F k)) ks) = (if k \<in> set ks then Some (f k (F k)) else None)" for ks F
    by (induction ks) (auto simp: assms)
  then show ?thesis by (simp add: sql_group_def comp_def)
qed

end
