(* ===== verification/Monitor_State.thy ===== *)
theory Monitor_State
  imports Prelude
begin

text \<open>
  The per-monitor state machine of \<open>lib/monitoring/types.ts\<close> and
  \<open>lib/monitoring/state-machine.ts\<close>: the persisted snapshot of a monitor, the check and
  lifecycle events, the pure transition \<open>transitionMonitor\<close> and the incident it asks for.
  The lemmas give the well-formedness invariant of a snapshot, show that no transition raises
  on a well-formed one, and relate the transition to the hysteresis automaton it implements.
\<close>

subsection \<open>Snapshots, events, transitions\<close>

datatype monitor_state =
  PENDING | UP | VERIFYING_DOWN | DOWN | VERIFYING_UP | PAUSED | ARCHIVED

text \<open>The dashboard sorts monitors by the position of their state in \<open>MONITOR_STATE_ORDER\<close>.\<close>

definition MONITOR_STATE_ORDER :: "monitor_state list" where
  "MONITOR_STATE_ORDER = [DOWN, VERIFYING_DOWN, VERIFYING_UP, PENDING, UP, PAUSED, ARCHIVED]"

instantiation monitor_state :: linorder
begin

definition less_eq_monitor_state :: "monitor_state \<Rightarrow> monitor_state \<Rightarrow> bool" where
  "less_eq_monitor_state a b \<longleftrightarrow> index_of a MONITOR_STATE_ORDER \<le> index_of b MONITOR_STATE_ORDER"

definition less_monitor_state :: "monitor_state \<Rightarrow> monitor_state \<Rightarrow> bool" where
  "less_monitor_state a b \<longleftrightarrow> index_of a MONITOR_STATE_ORDER < index_of b MONITOR_STATE_ORDER"

instance
proof
  fix a b :: monitor_state
  assume "a \<le> b" "b \<le> a"
  then show "a = b"
    by (cases a; cases b) (simp_all add: less_eq_monitor_state_def MONITOR_STATE_ORDER_def)
qed (auto simp: less_eq_monitor_state_def less_monitor_state_def)

end

datatype check_error_code =
    TIMEOUT | DNS_ERROR | CONNECTION_REFUSED | CONNECTION_RESET | TLS_ERROR
  | TOO_MANY_REDIRECTS | INVALID_REDIRECT | INVALID_STATUS | CONTENT_MISMATCH
  | BLOCKED_TARGET | INVALID_URL | RESPONSE_ERROR | UNKNOWN

record snapshot =
  m_monitorId :: string
  m_state :: monitor_state
  m_consecutiveFailures :: int
  m_consecutiveSuccesses :: int
  m_activatedAt :: "instant option"
  m_firstFailureAt :: "instant option"
  m_firstSuccessAt :: "instant option"
  m_lastCheckedAt :: "instant option"
  m_lastSuccessAt :: "instant option"
  m_lastFailureAt :: "instant option"
  m_lastStatusCode :: "int option"
  m_lastLatencyMs :: "int option"
  m_lastErrorCode :: "check_error_code option"
  m_activeIncidentId :: "string option"
  m_version :: int
  m_updatedAt :: instant

record check_event =
  e_checkedAt :: instant
  e_successful :: bool
  e_statusCode :: "int option"
  e_latencyMs :: int
  e_errorCode :: "check_error_code option"
  e_failureThreshold :: int
  e_recoveryThreshold :: int

datatype lifecycle_type = Disable | Archive | Enable | Restore

datatype transition_event =
    CheckEvent check_event
  | LifecycleEvent lifecycle_type instant

datatype incident_intent =
    OpenIncident (open_openedAt: instant) (open_firstFailureAt: instant)
  | ResolveIncident (res_incidentId: string) (res_openedAt: instant)
      (res_resolvedAt: instant) (res_firstSuccessAt: instant)

record state_transition =
  t_previousState :: monitor_state
  t_state :: snapshot
  t_changed :: bool
  t_incident :: "incident_intent option"

subsection \<open>The check transition\<close>

definition CHECK_STATES :: "monitor_state list" where
  "CHECK_STATES = [PENDING, UP, VERIFYING_DOWN, DOWN, VERIFYING_UP]"

definition validateThreshold :: "int \<Rightarrow> string \<Rightarrow> js_error + unit" where
  "validateThreshold value name =
     (if value < 1 then Inl (RangeError (name @ '' must be a positive integer'')) else Inr ())"

definition checkedSuccess ::
  "snapshot \<Rightarrow> check_event \<Rightarrow> snapshot \<Rightarrow> js_error + (snapshot \<times> incident_intent option)" where
  "checkedSuccess current event next0 =
    (let next = next0\<lparr>m_lastSuccessAt := Some (e_checkedAt event), m_lastErrorCode := None,
                      m_consecutiveFailures := 0,
                      m_activatedAt := (if m_activatedAt current = None
                                        then Some (e_checkedAt event)
                                        else m_activatedAt next0)\<rparr>
     in if m_state current \<in> {PENDING, UP, VERIFYING_DOWN} then
          Inr (next\<lparr>m_state := UP, m_firstFailureAt := None, m_consecutiveSuccesses := 0,
                    m_firstSuccessAt := None\<rparr>, None)
        else
          (let firstSuccessAt = (if m_state current = VERIFYING_UP
                                 then or_else (m_firstSuccessAt current) (e_checkedAt event)
                                 else e_checkedAt event);
               successes = (if m_state current = VERIFYING_UP
                            then m_consecutiveSuccesses current + 1 else 1);
               next = next\<lparr>m_firstSuccessAt := Some firstSuccessAt,
                           m_consecutiveSuccesses := successes,
                           m_firstFailureAt := m_firstFailureAt current\<rparr>
           in if successes < e_recoveryThreshold event then
                Inr (next\<lparr>m_state := VERIFYING_UP\<rparr>, None)
              else if \<not> truthy (m_activeIncidentId current) then
                Inl (Error ''Cannot resolve DOWN monitor without an active incident'')
              else (case m_firstFailureAt current of
                  None \<Rightarrow> Inl (Error ''Cannot resolve DOWN monitor without a first failure time'')
                | Some firstFailureAt \<Rightarrow>
                    Inr (next\<lparr>m_state := UP, m_consecutiveSuccesses := 0,
                              m_firstSuccessAt := None, m_firstFailureAt := None,
                              m_activeIncidentId := None\<rparr>,
                         Some (ResolveIncident (or_else (m_activeIncidentId current) [])
                                 firstFailureAt firstSuccessAt firstSuccessAt)))))"

definition checkedFailure ::
  "snapshot \<Rightarrow> check_event \<Rightarrow> snapshot \<Rightarrow> snapshot \<times> incident_intent option" where
  "checkedFailure current event next0 =
    (let next = next0\<lparr>m_lastFailureAt := Some (e_checkedAt event),
                      m_lastErrorCode := e_errorCode event,
                      m_consecutiveSuccesses := 0, m_firstSuccessAt := None\<rparr>
     in if m_state current = DOWN \<or> m_state current = VERIFYING_UP then
          (next\<lparr>m_state := DOWN,
                m_consecutiveFailures := max (m_consecutiveFailures current) (e_failureThreshold event),
                m_firstFailureAt := m_firstFailureAt current\<rparr>, None)
        else
          (let carried = (m_state current = VERIFYING_DOWN \<or> m_state current = PENDING);
               firstFailureAt = (if carried then or_else (m_firstFailureAt current) (e_checkedAt event)
                                 else e_checkedAt event);
               failures = (if carried then m_consecutiveFailures current + 1 else 1);
               next = next\<lparr>m_firstFailureAt := Some firstFailureAt, m_consecutiveFailures := failures\<rparr>
           in if failures < e_failureThreshold event then
                (next\<lparr>m_state := (if m_state current = PENDING then PENDING else VERIFYING_DOWN)\<rparr>, None)
              else if m_state current = PENDING \<and> m_activatedAt current = None then
                (next\<lparr>m_state := PENDING\<rparr>, None)
              else
                (next\<lparr>m_state := DOWN\<rparr>, Some (OpenIncident firstFailureAt firstFailureAt))))"

definition checkedState ::
  "snapshot \<Rightarrow> check_event \<Rightarrow> js_error + (snapshot \<times> incident_intent option)" where
  "checkedState current event =
    res_bind (validateThreshold (e_failureThreshold event) ''failureThreshold'') (\<lambda>_.
    res_bind (validateThreshold (e_recoveryThreshold event) ''recoveryThreshold'') (\<lambda>_.
      if m_state current \<notin> set CHECK_STATES then Inr (current, None)
      else
        (let next = current\<lparr>m_lastCheckedAt := Some (e_checkedAt event),
                            m_lastStatusCode := e_statusCode event,
                            m_lastLatencyMs := Some (e_latencyMs event),
                            m_updatedAt := e_checkedAt event,
                            m_version := m_version current + 1\<rparr>
         in if e_successful event then checkedSuccess current event next
            else Inr (checkedFailure current event next))))"

subsection \<open>The whole transition\<close>

text \<open>
  \<open>transitionMonitor\<close> compares objects by identity (\<open>next !== current\<close>). A check returns the
  same object exactly when the state is not a check state, and a fresh one always has a later
  version, so the comparison of states alone decides \<open>changed\<close>.
\<close>

definition lifecycleState :: "monitor_state \<Rightarrow> lifecycle_type \<Rightarrow> monitor_state" where
  "lifecycleState current ty =
    (let state = current;
         state = (if ty = Disable \<and> current \<in> set CHECK_STATES then PAUSED else state);
         state = (if ty = Archive \<and> current \<noteq> ARCHIVED then ARCHIVED else state);
         state = (if ty = Enable \<and> current = PAUSED then PENDING else state);
         state = (if ty = Restore \<and> current = ARCHIVED then PENDING else state)
     in state)"

definition transitionLifecycleEvent ::
  "snapshot \<Rightarrow> lifecycle_type \<Rightarrow> instant \<Rightarrow> state_transition" where
  "transitionLifecycleEvent current ty occurredAt =
    (let state = lifecycleState (m_state current) ty
     in if state = m_state current then
          \<lparr>t_previousState = m_state current, t_state = current, t_changed = False,
           t_incident = None\<rparr>
        else
          \<lparr>t_previousState = m_state current,
           t_state = current\<lparr>m_state := state, m_consecutiveFailures := 0,
                             m_consecutiveSuccesses := 0, m_firstFailureAt := None,
                             m_firstSuccessAt := None, m_version := m_version current + 1,
                             m_updatedAt := occurredAt\<rparr>,
           t_changed = True, t_incident = None\<rparr>)"

definition transitionMonitor :: "snapshot \<Rightarrow> transition_event \<Rightarrow> js_error + state_transition" where
  "transitionMonitor current event =
    (case event of
       CheckEvent e \<Rightarrow>
         res_bind (checkedState current e) (\<lambda>(next, incident).
           Inr \<lparr>t_previousState = m_state current, t_state = next,
                t_changed = (m_state next \<noteq> m_state current), t_incident = incident\<rparr>)
     | LifecycleEvent ty occurredAt \<Rightarrow> Inr (transitionLifecycleEvent current ty occurredAt))"

lemmas check_defs =
  checkedState_def checkedSuccess_def checkedFailure_def validateThreshold_def Let_def

subsection \<open>Well-formed snapshots\<close>

text \<open>
  What the program keeps true between the fields of a snapshot. An incident is attached
  exactly while the monitor is \<open>DOWN\<close> or \<open>VERIFYING_UP\<close>; the first failure of a failing streak
  and the first success of a recovering one are recorded; a monitor past its setup phase has
  an activation instant; paused and archived monitors carry no counters.
\<close>

definition in_outage :: "monitor_state \<Rightarrow> bool" where
  "in_outage st \<longleftrightarrow> st = DOWN \<or> st = VERIFYING_UP"

definition counters_ok :: "snapshot \<Rightarrow> bool" where
  "counters_ok s \<longleftrightarrow>
     (case m_state s of
        PENDING \<Rightarrow> 0 \<le> m_consecutiveFailures s \<and> m_consecutiveSuccesses s = 0 \<and>
          m_firstSuccessAt s = None \<and>
          (m_firstFailureAt s = None \<longleftrightarrow> m_consecutiveFailures s = 0)
      | UP \<Rightarrow> m_consecutiveFailures s = 0 \<and> m_consecutiveSuccesses s = 0 \<and>
          m_firstFailureAt s = None \<and> m_firstSuccessAt s = None \<and> m_activatedAt s \<noteq> None
      | VERIFYING_DOWN \<Rightarrow> 0 < m_consecutiveFailures s \<and> m_consecutiveSuccesses s = 0 \<and>
          m_firstFailureAt s \<noteq> None \<and> m_firstSuccessAt s = None \<and> m_activatedAt s \<noteq> None
      | DOWN \<Rightarrow> 0 < m_consecutiveFailures s \<and> m_consecutiveSuccesses s = 0 \<and>
          m_firstFailureAt s \<noteq> None \<and> m_firstSuccessAt s = None \<and> m_activatedAt s \<noteq> None
      | VERIFYING_UP \<Rightarrow> m_consecutiveFailures s = 0 \<and> 0 < m_consecutiveSuccesses s \<and>
          m_firstFailureAt s \<noteq> None \<and> m_firstSuccessAt s \<noteq> None \<and> m_activatedAt s \<noteq> None
      | _ \<Rightarrow> m_consecutiveFailures s = 0 \<and> m_consecutiveSuccesses s = 0 \<and>
          m_firstFailureAt s = None \<and> m_firstSuccessAt s = None)"

definition incident_ok :: "snapshot \<Rightarrow> bool" where
  "incident_ok s \<longleftrightarrow>
     (if in_outage (m_state s) then truthy (m_activeIncidentId s) else m_activeIncidentId s = None)"

definition snapshot_ok :: "snapshot \<Rightarrow> bool" where
  "snapshot_ok s \<longleftrightarrow> counters_ok s \<and> incident_ok s \<and> 0 \<le> m_version s"

definition thresholds_ok :: "check_event \<Rightarrow> bool" where
  "thresholds_ok e \<longleftrightarrow> 1 \<le> e_failureThreshold e \<and> 1 \<le> e_recoveryThreshold e"

lemma checkedState_bad_threshold:
  "\<not> thresholds_ok e \<Longrightarrow> \<exists>err. checkedState s e = Inl err"
  by (auto simp: thresholds_ok_def checkedState_def validateThreshold_def)

lemma validateThreshold_ok: "1 \<le> v \<Longrightarrow> validateThreshold v n = Inr ()"
  by (simp add: validateThreshold_def)

text \<open>The only way a check raises on good thresholds: an outage without its incident.\<close>

lemma checkedState_returns:
  assumes "snapshot_ok s" and "thresholds_ok e"
  shows "\<exists>n i. checkedState s e = Inr (n, i)"
  using assms
  by (cases "m_state s")
    (auto simp: snapshot_ok_def counters_ok_def incident_ok_def in_outage_def thresholds_ok_def
      check_defs CHECK_STATES_def truthy_def split: option.splits if_splits)

lemma checkedFailure_counters:
  assumes "counters_ok s" and "1 \<le> e_failureThreshold e" and "m_state s \<in> set CHECK_STATES"
    and "m_activatedAt n0 = m_activatedAt s"
  shows "counters_ok (fst (checkedFailure s e n0))"
  using assms
  by (cases "m_state s")
    (auto simp: counters_ok_def checkedFailure_def Let_def CHECK_STATES_def)

lemma checkedSuccess_counters:
  assumes "counters_ok s" and "m_state s \<in> set CHECK_STATES"
    and "m_activatedAt n0 = m_activatedAt s"
    and "checkedSuccess s e n0 = Inr (n, i)"
  shows "counters_ok n"
  using assms
  by (cases "m_state s")
    (auto simp: counters_ok_def checkedSuccess_def Let_def CHECK_STATES_def
      split: if_splits option.splits)

lemma checkedState_inactive:
  "thresholds_ok e \<Longrightarrow> m_state s \<notin> set CHECK_STATES \<Longrightarrow> checkedState s e = Inr (s, None)"
  by (simp add: checkedState_def thresholds_ok_def validateThreshold_ok)

definition checkBase :: "snapshot \<Rightarrow> check_event \<Rightarrow> snapshot" where
  "checkBase s e = s\<lparr>m_lastCheckedAt := Some (e_checkedAt e), m_lastStatusCode := e_statusCode e,
     m_lastLatencyMs := Some (e_latencyMs e), m_updatedAt := e_checkedAt e,
     m_version := m_version s + 1\<rparr>"

lemma checkedState_active:
  "thresholds_ok e \<Longrightarrow> m_state s \<in> set CHECK_STATES \<Longrightarrow>
   checkedState s e = (if e_successful e then checkedSuccess s e (checkBase s e)
                       else Inr (checkedFailure s e (checkBase s e)))"
  by (simp add: checkedState_def thresholds_ok_def validateThreshold_ok checkBase_def Let_def)

lemma checkedState_counters:
  assumes "counters_ok s" and "thresholds_ok e" and "checkedState s e = Inr (n, i)"
  shows "counters_ok n"
proof (cases "m_state s \<in> set CHECK_STATES")
  case False
  with assms show ?thesis by (simp add: checkedState_inactive)
next
  case True
  have base: "m_activatedAt (checkBase s e) = m_activatedAt s" by (simp add: checkBase_def)
  show ?thesis
  proof (cases "e_successful e")
    case ok: True
    with assms True have "checkedSuccess s e (checkBase s e) = Inr (n, i)"
      by (simp add: checkedState_active)
    with assms True base show ?thesis by (blast intro: checkedSuccess_counters)
  next
    case False
    with assms True have "n = fst (checkedFailure s e (checkBase s e))"
      by (simp add: checkedState_active)
    with assms True base show ?thesis
      by (simp add: checkedFailure_counters thresholds_ok_def)
  qed
qed

text \<open>The incident a check asks for, and the state it leaves, determine each other.\<close>

definition incident_fits :: "snapshot \<Rightarrow> snapshot \<Rightarrow> incident_intent option \<Rightarrow> bool" where
  "incident_fits s n i \<longleftrightarrow> (case i of
      None \<Rightarrow> incident_ok n \<and> m_activeIncidentId n = m_activeIncidentId s
    | Some (OpenIncident opn ff) \<Rightarrow> m_state n = DOWN \<and> m_activeIncidentId s = None \<and>
        \<not> in_outage (m_state s) \<and> opn = ff \<and> m_firstFailureAt n = Some ff
    | Some (ResolveIncident iid opn rs fs) \<Rightarrow> incident_ok n \<and> m_state n = UP \<and>
        in_outage (m_state s) \<and> m_activeIncidentId s = Some iid \<and>
        m_firstFailureAt s = Some opn \<and> rs = fs)"

lemma checkedFailure_incident:
  assumes "incident_ok s" and "m_state s \<in> set CHECK_STATES"
    and "m_activeIncidentId n0 = m_activeIncidentId s" and "checkedFailure s e n0 = (n, i)"
  shows "incident_fits s n i"
  using assms
  by (cases "m_state s")
    (auto simp: incident_fits_def incident_ok_def in_outage_def checkedFailure_def Let_def
      CHECK_STATES_def split: if_splits)

lemma checkedSuccess_incident:
  assumes "incident_ok s" and "m_state s \<in> set CHECK_STATES"
    and "m_activeIncidentId n0 = m_activeIncidentId s" and "checkedSuccess s e n0 = Inr (n, i)"
  shows "incident_fits s n i"
  using assms
  by (cases "m_state s")
    (auto simp: incident_fits_def incident_ok_def in_outage_def checkedSuccess_def Let_def
      CHECK_STATES_def elim!: truthyE split: if_splits option.splits)

lemma checkedState_incident:
  assumes "incident_ok s" and "thresholds_ok e" and "checkedState s e = Inr (n, i)"
  shows "incident_fits s n i"
proof (cases "m_state s \<in> set CHECK_STATES")
  case False
  with assms show ?thesis by (simp add: checkedState_inactive incident_fits_def)
next
  case True
  have base: "m_activeIncidentId (checkBase s e) = m_activeIncidentId s"
    by (simp add: checkBase_def)
  show ?thesis
  proof (cases "e_successful e")
    case ok: True
    with assms True have "checkedSuccess s e (checkBase s e) = Inr (n, i)"
      by (simp add: checkedState_active)
    with assms True base show ?thesis by (blast intro: checkedSuccess_incident)
  next
    case False
    with assms True have "checkedFailure s e (checkBase s e) = (n, i)"
      by (simp add: checkedState_active)
    with assms True base show ?thesis by (blast intro: checkedFailure_incident)
  qed
qed

lemma checkedState_version:
  "checkedState s e = Inr (n, i) \<Longrightarrow>
   m_version n = (if m_state s \<in> set CHECK_STATES then m_version s + 1 else m_version s)"
  by (auto simp: check_defs split: if_splits option.splits)

lemma checkedState_frame:
  "checkedState s e = Inr (n, i) \<Longrightarrow> m_monitorId n = m_monitorId s"
  by (auto simp: check_defs split: if_splits option.splits)

lemma lifecycleState_active: "\<not> in_outage (lifecycleState st ty) \<or> lifecycleState st ty = st"
  by (cases st; cases ty) (simp_all add: lifecycleState_def in_outage_def CHECK_STATES_def)

lemma lifecycleState_target:
  "lifecycleState st ty \<noteq> st \<Longrightarrow> lifecycleState st ty \<in> {PAUSED, ARCHIVED, PENDING}"
  by (cases st; cases ty) (simp_all add: lifecycleState_def CHECK_STATES_def)

lemma transition_lifecycle_counters:
  assumes "counters_ok s"
  shows "counters_ok (t_state (transitionLifecycleEvent s ty at))"
proof (cases "lifecycleState (m_state s) ty = m_state s")
  case True
  with assms show ?thesis by (simp add: transitionLifecycleEvent_def)
next
  case False
  with lifecycleState_target [OF False] show ?thesis
    by (auto simp: transitionLifecycleEvent_def counters_ok_def)
qed

subsection \<open>Chronology\<close>

text \<open>
  A run of checks whose instants do not go back keeps the recorded instants in order: the
  first failure of an outage, then the first success of its recovery, then the last check.
\<close>

definition opt_le :: "instant option \<Rightarrow> instant option \<Rightarrow> bool" where
  "opt_le a b \<longleftrightarrow> (case a of None \<Rightarrow> True | Some x \<Rightarrow> (case b of None \<Rightarrow> False | Some y \<Rightarrow> x \<le> y))"

lemma opt_le_simps [simp]:
  "opt_le None b" "opt_le (Some x) (Some y) \<longleftrightarrow> x \<le> y" "\<not> opt_le (Some x) None"
  by (simp_all add: opt_le_def)

lemma opt_le_trans: "opt_le a b \<Longrightarrow> opt_le b c \<Longrightarrow> opt_le a c"
  by (auto simp: opt_le_def split: option.splits)

definition chrono_ok :: "snapshot \<Rightarrow> bool" where
  "chrono_ok s \<longleftrightarrow> opt_le (m_firstFailureAt s) (m_lastCheckedAt s) \<and>
     opt_le (m_firstSuccessAt s) (m_lastCheckedAt s) \<and>
     (m_firstSuccessAt s \<noteq> None \<longrightarrow> opt_le (m_firstFailureAt s) (m_firstSuccessAt s))"

definition not_before :: "snapshot \<Rightarrow> check_event \<Rightarrow> bool" where
  "not_before s e \<longleftrightarrow> opt_le (m_lastCheckedAt s) (Some (e_checkedAt e))"

lemma chrono_now:
  assumes "chrono_ok s" and "not_before s e"
  shows "opt_le (m_firstFailureAt s) (Some (e_checkedAt e))"
    and "opt_le (m_firstSuccessAt s) (Some (e_checkedAt e))"
  using assms by (auto simp: chrono_ok_def not_before_def intro: opt_le_trans)

lemma or_else_le: "opt_le v (Some x) \<Longrightarrow> or_else v x \<le> x"
  by (cases v) auto

lemma checkedFailure_chrono:
  assumes "chrono_ok s" and "not_before s e" and "m_lastCheckedAt n0 = Some (e_checkedAt e)"
  shows "chrono_ok (fst (checkedFailure s e n0))"
  using assms(3) chrono_now [OF assms(1,2)]
  by (auto simp: checkedFailure_def Let_def chrono_ok_def or_else_le)

lemma checkedSuccess_chrono:
  assumes "counters_ok s" and "chrono_ok s" and "not_before s e"
    and "m_lastCheckedAt n0 = Some (e_checkedAt e)"
    and "checkedSuccess s e n0 = Inr (n, i)" and "m_state s \<in> set CHECK_STATES"
  shows "chrono_ok n"
proof -
  have le: "m_state s = VERIFYING_UP \<Longrightarrow>
      opt_le (m_firstFailureAt s) (Some (or_else (m_firstSuccessAt s) (e_checkedAt e)))"
    using assms(1,2) by (auto simp: counters_ok_def chrono_ok_def)
  show ?thesis
    using assms(4-6) chrono_now [OF assms(2,3)] le
    by (auto simp: checkedSuccess_def Let_def chrono_ok_def or_else_le CHECK_STATES_def
        split: if_splits option.splits)
qed

lemma checkedState_chrono:
  assumes "counters_ok s" and "chrono_ok s" and "not_before s e" and "thresholds_ok e"
    and "checkedState s e = Inr (n, i)"
  shows "chrono_ok n"
proof (cases "m_state s \<in> set CHECK_STATES")
  case False
  with assms show ?thesis by (simp add: checkedState_inactive)
next
  case True
  have base: "m_lastCheckedAt (checkBase s e) = Some (e_checkedAt e)" by (simp add: checkBase_def)
  show ?thesis
  proof (cases "e_successful e")
    case ok: True
    with assms True have "checkedSuccess s e (checkBase s e) = Inr (n, i)"
      by (simp add: checkedState_active)
    with assms True base show ?thesis by (blast intro: checkedSuccess_chrono)
  next
    case False
    with assms True have "n = fst (checkedFailure s e (checkBase s e))"
      by (simp add: checkedState_active)
    with assms base show ?thesis by (simp add: checkedFailure_chrono)
  qed
qed

lemma resolve_after_open:
  assumes "counters_ok s" and "chrono_ok s" and "not_before s e"
    and "checkedState s e = Inr (n, Some (ResolveIncident iid opn rs fs))"
  shows "opn \<le> rs \<and> rs \<le> e_checkedAt e"
proof -
  have le: "m_state s = VERIFYING_UP \<Longrightarrow>
      opt_le (m_firstFailureAt s) (Some (or_else (m_firstSuccessAt s) (e_checkedAt e)))"
    using assms(1,2) by (auto simp: counters_ok_def chrono_ok_def)
  show ?thesis
    using assms(4) chrono_now [OF assms(2,3)] le
    by (auto simp: check_defs or_else_le CHECK_STATES_def split: if_splits option.splits)
qed

subsection \<open>The hysteresis automaton\<close>

text \<open>
  The contract the machine implements: an outage is declared after \<open>f\<close> consecutive failures
  and ended after \<open>r\<close> consecutive successes; before its first success a monitor is in setup,
  where no number of failures declares an outage. \<open>phase_of\<close> forgets every field but the
  streak in progress.
\<close>

datatype phase =
    Setup bool int        \<comment> \<open>activated before?, failures so far\<close>
  | Healthy
  | Doubtful int          \<comment> \<open>consecutive failures, below the threshold\<close>
  | Outage
  | Recovering int        \<comment> \<open>consecutive successes, below the threshold\<close>
  | Inactive

fun phase_step :: "int \<Rightarrow> int \<Rightarrow> bool \<Rightarrow> phase \<Rightarrow> phase" where
  "phase_step f r ok Inactive = Inactive"
| "phase_step f r True (Setup a k) = Healthy"
| "phase_step f r True Healthy = Healthy"
| "phase_step f r True (Doubtful k) = Healthy"
| "phase_step f r True Outage = (if r \<le> 1 then Healthy else Recovering 1)"
| "phase_step f r True (Recovering k) = (if r \<le> k + 1 then Healthy else Recovering (k + 1))"
| "phase_step f r False (Setup a k) = (if a \<and> f \<le> k + 1 then Outage else Setup a (k + 1))"
| "phase_step f r False Healthy = (if f \<le> 1 then Outage else Doubtful 1)"
| "phase_step f r False (Doubtful k) = (if f \<le> k + 1 then Outage else Doubtful (k + 1))"
| "phase_step f r False Outage = Outage"
| "phase_step f r False (Recovering k) = Outage"

definition phase_of :: "snapshot \<Rightarrow> phase" where
  "phase_of s = (case m_state s of
      PENDING \<Rightarrow> Setup (m_activatedAt s \<noteq> None) (m_consecutiveFailures s)
    | UP \<Rightarrow> Healthy
    | VERIFYING_DOWN \<Rightarrow> Doubtful (m_consecutiveFailures s)
    | DOWN \<Rightarrow> Outage
    | VERIFYING_UP \<Rightarrow> Recovering (m_consecutiveSuccesses s)
    | _ \<Rightarrow> Inactive)"

lemma checkedState_phase:
  assumes "thresholds_ok e" and "checkedState s e = Inr (n, i)"
  shows "phase_of n = phase_step (e_failureThreshold e) (e_recoveryThreshold e)
                        (e_successful e) (phase_of s)"
  using assms
  by (cases "m_state s"; cases "e_successful e")
    (auto simp: phase_of_def thresholds_ok_def check_defs CHECK_STATES_def
      split: option.splits if_splits)

lemma phase_failures_activated:
  "phase_step f r False (Doubtful k) = (if f \<le> k + 1 then Outage else Doubtful (k + 1))"
  by simp

fun phase_run :: "int \<Rightarrow> int \<Rightarrow> bool list \<Rightarrow> phase \<Rightarrow> phase" where
  "phase_run f r [] p = p"
| "phase_run f r (ok # oks) p = phase_run f r oks (phase_step f r ok p)"

lemma phase_run_append: "phase_run f r (xs @ ys) p = phase_run f r ys (phase_run f r xs p)"
  by (induction xs arbitrary: p) simp_all

lemma phase_run_replicate_Suc:
  "phase_run f r (replicate (Suc n) b) p = phase_step f r b (phase_run f r (replicate n b) p)"
  by (simp only: replicate_Suc replicate_append_same [symmetric] phase_run_append phase_run.simps)

lemma phase_run_failures:
  assumes "1 \<le> f"
  shows "phase_run f r (replicate n False) Healthy =
     (if n = 0 then Healthy else if int n < f then Doubtful (int n) else Outage)"
proof (induction n)
  case 0
  show ?case by simp
next
  case (Suc n)
  have "phase_run f r (replicate (Suc n) False) Healthy =
        phase_step f r False (phase_run f r (replicate n False) Healthy)"
    by (rule phase_run_replicate_Suc)
  with Suc assms show ?case by auto
qed

lemma phase_run_successes:
  assumes "1 \<le> r"
  shows "phase_run f r (replicate n True) Outage =
     (if n = 0 then Outage else if int n < r then Recovering (int n) else Healthy)"
proof (induction n)
  case 0
  show ?case by simp
next
  case (Suc n)
  have "phase_run f r (replicate (Suc n) True) Outage =
        phase_step f r True (phase_run f r (replicate n True) Outage)"
    by (rule phase_run_replicate_Suc)
  with Suc assms show ?case by auto
qed

end
