(* ===== verification/Iso_Time.thy ===== *)
theory Iso_Time
  imports Prelude
begin

text \<open>
  \<open>Date.prototype.toISOString\<close> and \<open>Date.UTC\<close> of the language, as the program uses them in
  identifiers, deduplication keys and payloads: the proleptic Gregorian calendar of an epoch
  millisecond and its fixed-width rendering. The lemmas give the injectivity those keys rest on.
\<close>

subsection \<open>Fixed-width decimal digits\<close>

definition digit_char :: "int \<Rightarrow> char" where
  "digit_char d = char_of (48 + nat (d mod 10))"

fun digits_fixed :: "nat \<Rightarrow> int \<Rightarrow> string" where
  "digits_fixed 0 n = []"
| "digits_fixed (Suc k) n = digits_fixed k (n div 10) @ [digit_char n]"

lemma length_digits_fixed [simp]: "length (digits_fixed k n) = k"
  by (induction k arbitrary: n) simp_all

lemma digit_char_inj: "digit_char a = digit_char b \<Longrightarrow> a mod 10 = b mod 10"
proof -
  assume "digit_char a = digit_char b"
  then have "(of_char (char_of (48 + nat (a mod 10)) :: char) :: nat) =
             of_char (char_of (48 + nat (b mod 10)) :: char)"
    by (simp add: digit_char_def)
  moreover have "0 \<le> a mod 10" "a mod 10 < 10" "0 \<le> b mod 10" "b mod 10 < 10" by simp_all
  ultimately show ?thesis by simp
qed

lemma digits_fixed_inj:
  "digits_fixed k a = digits_fixed k b \<Longrightarrow> a mod 10 ^ k = b mod 10 ^ k"
proof (induction k arbitrary: a b)
  case 0
  show ?case by simp
next
  case (Suc k)
  then have "digits_fixed k (a div 10) = digits_fixed k (b div 10)" "digit_char a = digit_char b"
    by simp_all
  then have "(a div 10) mod 10 ^ k = (b div 10) mod 10 ^ k" "a mod 10 = b mod 10"
    by (auto dest: Suc.IH digit_char_inj)
  moreover have "x mod 10 ^ Suc k = 10 * ((x div 10) mod 10 ^ k) + x mod 10" for x :: int
    by (simp add: mod_mult2_eq' [of x 10 "10 ^ k"] zmod_zmult2_eq)
  ultimately show ?case by simp
qed

lemma digits_fixed_inj_range:
  "digits_fixed k a = digits_fixed k b \<Longrightarrow> 0 \<le> a \<Longrightarrow> a < 10 ^ k \<Longrightarrow> 0 \<le> b \<Longrightarrow> b < 10 ^ k \<Longrightarrow> a = b"
  using digits_fixed_inj [of k a b] by simp

lemma two_digits:
  "digits_fixed 2 a = digits_fixed 2 b \<Longrightarrow> 0 \<le> a \<Longrightarrow> a < 60 \<Longrightarrow> 0 \<le> b \<Longrightarrow> b < 60 \<Longrightarrow> a = b"
  by (erule digits_fixed_inj_range) simp_all

subsection \<open>The civil calendar of a day number\<close>

text \<open>
  Years are counted from March, so that a leap day is the last of its year; 719468 days separate
  0000-03-01 from the epoch.
\<close>

definition day_cycle :: "int \<Rightarrow> int \<times> int" where
  "day_cycle days =
    (let z = days + 719468; era = z div 146097; doe = z mod 146097;
         n100 = min 3 (doe div 36524); r100 = doe - n100 * 36524;
         n4 = r100 div 1461; r4 = r100 mod 1461;
         n1 = min 3 (r4 div 365)
     in (400 * era + 100 * n100 + 4 * n4 + n1, r4 - n1 * 365))"

definition civil :: "int \<Rightarrow> int \<times> int \<times> int" where
  "civil days =
    (let (y, doy) = day_cycle days; mp = (5 * doy + 2) div 153;
         d = doy - (153 * mp + 2) div 5 + 1
     in if mp < 10 then (y, mp + 3, d) else (y + 1, mp - 9, d))"

definition day_number :: "int \<times> int \<times> int \<Rightarrow> int" where
  "day_number ymd =
    (let (y, m, d) = ymd; y' = (if m \<le> 2 then y - 1 else y); mp = (if 2 < m then m - 3 else m + 9);
         doy = (153 * mp + 2) div 5 + d - 1; yoe = y' mod 400; era = y' div 400
     in era * 146097 + yoe * 365 + yoe div 4 - yoe div 100 + doy - 719468)"

lemma cycle_bounds:
  fixes x k :: int
  assumes "0 < k" and "0 \<le> x" and "x \<le> 4 * k"
  shows "0 \<le> min 3 (x div k)" and "min 3 (x div k) \<le> 3"
    and "0 \<le> x - min 3 (x div k) * k" and "x - min 3 (x div k) * k \<le> k"
proof -
  have q: "0 \<le> x div k" using assms by (simp add: pos_imp_zdiv_nonneg_iff)
  show "0 \<le> min 3 (x div k)" "min 3 (x div k) \<le> 3" using q by simp_all
  have r: "x = (x div k) * k + x mod k" "0 \<le> x mod k" "x mod k < k" using assms(1) by simp_all
  have "0 \<le> x - min 3 (x div k) * k \<and> x - min 3 (x div k) * k \<le> k"
  proof (cases "x div k \<le> 3")
    case True
    with r show ?thesis by (simp add: minus_div_mult_eq_mod order_less_imp_le)
  next
    case False
    then have "3 * k \<le> (x div k) * k" using assms(1) by (intro mult_right_mono) simp_all
    then have "3 * k \<le> x" using r(1,2) by linarith
    with False assms(3) show ?thesis by simp
  qed
  then show "0 \<le> x - min 3 (x div k) * k" "x - min 3 (x div k) * k \<le> k" by simp_all
qed

lemma march_month:
  fixes doy :: int
  assumes "0 \<le> doy" and "doy \<le> 365"
  shows "0 \<le> (5 * doy + 2) div 153" and "(5 * doy + 2) div 153 \<le> 11"
    and "0 \<le> doy - (153 * ((5 * doy + 2) div 153) + 2) div 5"
    and "doy - (153 * ((5 * doy + 2) div 153) + 2) div 5 \<le> 30"
proof -
  obtain mp r where mp: "mp = (5 * doy + 2) div 153" "5 * doy + 2 = 153 * mp + r" "0 \<le> r" "r < 153"
    by (metis mult_div_mod_eq pos_mod_bound pos_mod_sign zero_less_numeral)
  obtain q p where q: "q = (153 * mp + 2) div 5" "153 * mp + 2 = 5 * q + p" "0 \<le> p" "p < 5"
    by (metis mult_div_mod_eq pos_mod_bound pos_mod_sign zero_less_numeral)
  have "0 \<le> mp" "mp \<le> 11" "0 \<le> doy - q" "doy - q \<le> 30" using assms mp(2-4) q(2-4) by linarith+
  then show "0 \<le> (5 * doy + 2) div 153" "(5 * doy + 2) div 153 \<le> 11"
      "0 \<le> doy - (153 * ((5 * doy + 2) div 153) + 2) div 5"
      "doy - (153 * ((5 * doy + 2) div 153) + 2) div 5 \<le> 30"
    unfolding mp(1) [symmetric] q(1) [symmetric] .
qed

lemma day_cycle_bounds:
  assumes "day_cycle days = (y, doy)"
  shows "0 \<le> doy" and "doy \<le> 365"
    and "days = (y div 400) * 146097 + (y mod 400) * 365 + (y mod 400) div 4 - (y mod 400) div 100
                + doy - 719468"
proof -
  define z where "z = days + 719468"
  define era where "era = z div 146097"
  define doe where "doe = z mod 146097"
  define n100 where "n100 = min 3 (doe div 36524)"
  define r100 where "r100 = doe - n100 * 36524"
  define n4 where "n4 = r100 div 1461"
  define r4 where "r4 = r100 mod 1461"
  define n1 where "n1 = min 3 (r4 div 365)"
  have y: "y = 400 * era + (100 * n100 + 4 * n4 + n1)" and doy: "doy = r4 - n1 * 365"
    using assms [unfolded day_cycle_def Let_def, folded z_def, folded era_def doe_def,
        folded n100_def, folded r100_def, folded n4_def r4_def, folded n1_def]
    by simp_all
  have doe: "0 \<le> doe" "doe \<le> 4 * 36524" unfolding doe_def
    using pos_mod_bound [of 146097 z] by simp_all
  have pos: "(0::int) < 36524" "(0::int) < 365" by simp_all
  note n100 = cycle_bounds [OF pos(1) doe, folded n100_def, folded r100_def]
  have r100: "r100 = 1461 * n4 + r4" unfolding n4_def r4_def by simp
  have r4: "0 \<le> r4" "r4 \<le> 4 * 365" unfolding r4_def using pos_mod_bound [of 1461 r100] by simp_all
  have n4: "0 \<le> n4" "n4 \<le> 24" using r100 r4 n100(3,4) by linarith+
  note n1 = cycle_bounds [OF pos(2) r4, folded n1_def, folded doy]
  show "0 \<le> doy" "doy \<le> 365" using n1 by simp_all
  have k: "0 \<le> 100 * n100 + 4 * n4 + n1" "100 * n100 + 4 * n4 + n1 < 400"
    using n100 n4 n1 by linarith+
  then have yoe: "y mod 400 = 100 * n100 + 4 * n4 + n1" "y div 400 = era"
    by (simp_all add: y)
  have "(100 * n100 + 4 * n4 + n1) div 4 = 25 * n100 + n4" "(100 * n100 + 4 * n4 + n1) div 100 = n100"
    using n100 n4 n1 by linarith+
  moreover have "z = era * 146097 + doe" by (simp add: era_def doe_def)
  then have "days = era * 146097 + doe - 719468" using z_def by simp
  ultimately show "days = (y div 400) * 146097 + (y mod 400) * 365 + (y mod 400) div 4
      - (y mod 400) div 100 + doy - 719468"
    using yoe doy r100 r100_def by simp
qed

lemma civil_bounds:
  assumes "civil days = (y, m, d)"
  shows "1 \<le> m" "m \<le> 12" "1 \<le> d" "d \<le> 31"
proof -
  obtain yc doy where c: "day_cycle days = (yc, doy)" by fastforce
  note mm = march_month [OF day_cycle_bounds(1,2) [OF c]]
  define mp where "mp = (5 * doy + 2) div 153"
  have "d = doy - (153 * mp + 2) div 5 + 1" "m = (if mp < 10 then mp + 3 else mp - 9)"
    using assms unfolding civil_def c Let_def prod.case mp_def [symmetric] by (auto split: if_splits)
  then show "1 \<le> m" "m \<le> 12" "1 \<le> d" "d \<le> 31"
    using mm [folded mp_def] by (auto split: if_splits)
qed

text \<open>The calendar loses nothing: the day number comes back.\<close>

lemma day_number_march:
  assumes "0 \<le> mp" and "mp \<le> 11"
  shows "day_number (if mp < 10 then (y, mp + 3, doy - (153 * mp + 2) div 5 + 1)
                     else (y + 1, mp - 9, doy - (153 * mp + 2) div 5 + 1)) =
     (y div 400) * 146097 + (y mod 400) * 365 + (y mod 400) div 4 - (y mod 400) div 100
       + doy - 719468"
  using assms by (cases "mp < 10") (simp_all add: day_number_def Let_def)

lemma day_number_civil [simp]: "day_number (civil days) = days"
proof -
  obtain y doy where c: "day_cycle days = (y, doy)" by fastforce
  from trans [OF day_number_march [OF march_month(1,2) [OF day_cycle_bounds(1,2) [OF c]], of y doy] day_cycle_bounds(3) [OF c, symmetric]]
  show ?thesis unfolding civil_def c Let_def prod.case .
qed

lemma civil_inj: "civil a = civil b \<Longrightarrow> a = b"
  by (metis day_number_civil)

subsection \<open>Rendering\<close>

definition DAY_MS :: int where "DAY_MS = 86400000"

definition iso_year :: "int \<Rightarrow> string" where
  "iso_year y = (if 0 \<le> y \<and> y \<le> 9999 then digits_fixed 4 y
                 else (if y < 0 then ''-'' else ''+'') @ digits_fixed 6 \<bar>y\<bar>)"

definition toISOString :: "instant \<Rightarrow> string" where
  "toISOString t =
    (let (y, m, d) = civil (t div DAY_MS); ms = t mod DAY_MS
     in iso_year y @ ''-'' @ digits_fixed 2 m @ ''-'' @ digits_fixed 2 d @ ''T'' @
        digits_fixed 2 (ms div 3600000) @ '':'' @ digits_fixed 2 (ms div 60000 mod 60) @ '':'' @
        digits_fixed 2 (ms div 1000 mod 60) @ ''.'' @ digits_fixed 3 (ms mod 1000) @ ''Z'')"

text \<open>Instants with a four-digit year: 0000-01-01 to 9999-12-31.\<close>

definition four_digit_year :: "instant \<Rightarrow> bool" where
  "four_digit_year t \<longleftrightarrow> (case civil (t div DAY_MS) of (y, _, _) \<Rightarrow> 0 \<le> y \<and> y \<le> 9999)"

definition iso_date :: "instant \<Rightarrow> string" where
  "iso_date t = (let (y, m, d) = civil (t div DAY_MS)
     in digits_fixed 4 y @ ''-'' @ digits_fixed 2 m @ ''-'' @ digits_fixed 2 d)"

lemma length_iso_date [simp]: "length (iso_date t) = 10"
  by (simp add: iso_date_def split: prod.split)

lemma iso_date_inj:
  assumes "four_digit_year a" and "four_digit_year b" and "iso_date a = iso_date b"
  shows "a div DAY_MS = b div DAY_MS"
proof -
  obtain y m d where a: "civil (a div DAY_MS) = (y, m, d)" by (metis prod_cases3)
  obtain y' m' d' where b: "civil (b div DAY_MS) = (y', m', d')" by (metis prod_cases3)
  have yr: "0 \<le> y" "y \<le> 9999" "0 \<le> y'" "y' \<le> 9999"
    using assms(1,2) a b by (simp_all add: four_digit_year_def)
  have "digits_fixed 4 y = digits_fixed 4 y'" "digits_fixed 2 m = digits_fixed 2 m'"
      "digits_fixed 2 d = digits_fixed 2 d'"
    using assms(3) a b by (simp_all add: iso_date_def)
  then have "y = y'" "m = m'" "d = d'"
    using yr civil_bounds [OF a] civil_bounds [OF b]
    by (auto dest!: digits_fixed_inj_range)
  with a b show ?thesis by (metis civil_inj)
qed

lemma toISOString_four_digit:
  "four_digit_year t \<Longrightarrow> toISOString t =
     iso_date t @ ''T'' @ digits_fixed 2 (t mod DAY_MS div 3600000) @ '':'' @
        digits_fixed 2 (t mod DAY_MS div 60000 mod 60) @ '':'' @
        digits_fixed 2 (t mod DAY_MS div 1000 mod 60) @ ''.'' @
        digits_fixed 3 (t mod DAY_MS mod 1000) @ ''Z''"
  by (auto simp: toISOString_def iso_date_def four_digit_year_def iso_year_def Let_def)

lemma length_toISOString: "four_digit_year t \<Longrightarrow> length (toISOString t) = 24"
  by (simp add: toISOString_four_digit)

lemma div_mod_eqI: "a div k = b div k \<Longrightarrow> a mod k = b mod k \<Longrightarrow> a = b" for a b k :: int
  by (metis div_mult_mod_eq)

lemma div_3600000: "x div 3600000 = x div 60000 div 60" for x :: int
  using zdiv_zmult2_eq [of 60 x 60000] by simp

lemma div_60000: "x div 60000 = x div 1000 div 60" for x :: int
  using zdiv_zmult2_eq [of 60 x 1000] by simp

lemma ms_of_day_split:
  fixes a b :: int
  assumes "a div 3600000 = b div 3600000" "a div 60000 mod 60 = b div 60000 mod 60"
    "a div 1000 mod 60 = b div 1000 mod 60" "a mod 1000 = b mod 1000"
  shows "a = b"
proof -
  have "a div 60000 = b div 60000"
    using assms(1,2) unfolding div_3600000 by (rule div_mod_eqI)
  then have "a div 1000 = b div 1000"
    using assms(3) unfolding div_60000 by (rule div_mod_eqI)
  then show ?thesis using assms(4) by (rule div_mod_eqI)
qed

lemma toISOString_inj:
  assumes "four_digit_year a" and "four_digit_year b" and "toISOString a = toISOString b"
  shows "a = b"
proof -
  have "iso_date a = iso_date b"
    and t: "digits_fixed 2 (a mod DAY_MS div 3600000) = digits_fixed 2 (b mod DAY_MS div 3600000)"
      "digits_fixed 2 (a mod DAY_MS div 60000 mod 60) = digits_fixed 2 (b mod DAY_MS div 60000 mod 60)"
      "digits_fixed 2 (a mod DAY_MS div 1000 mod 60) = digits_fixed 2 (b mod DAY_MS div 1000 mod 60)"
      "digits_fixed 3 (a mod DAY_MS mod 1000) = digits_fixed 3 (b mod DAY_MS mod 1000)"
    using assms by (auto simp: toISOString_four_digit)
  then have day: "a div DAY_MS = b div DAY_MS" using assms iso_date_inj by blast
  have r: "0 \<le> x mod DAY_MS" "x mod DAY_MS < 86400000" for x by (simp_all add: DAY_MS_def)
  have h24: "0 \<le> x mod DAY_MS div 3600000" "x mod DAY_MS div 3600000 < 60" for x
    using r [of x] by linarith+
  have "a mod DAY_MS = b mod DAY_MS"
  proof (rule ms_of_day_split)
    show "a mod DAY_MS div 3600000 = b mod DAY_MS div 3600000"
      by (rule two_digits [OF t(1)]) (rule h24)+
    show "a mod DAY_MS div 60000 mod 60 = b mod DAY_MS div 60000 mod 60"
      by (rule two_digits [OF t(2)]) simp_all
    show "a mod DAY_MS div 1000 mod 60 = b mod DAY_MS div 1000 mod 60"
      by (rule two_digits [OF t(3)]) simp_all
    show "a mod DAY_MS mod 1000 = b mod DAY_MS mod 1000"
      by (rule digits_fixed_inj_range [OF t(4)]) simp_all
  qed
  with day show ?thesis by (rule div_mod_eqI)
qed

text \<open>The first thirteen characters name the UTC hour.\<close>

lemma take_13_hour:
  assumes "four_digit_year a" and "four_digit_year b"
  shows "take 13 (toISOString a) = take 13 (toISOString b) \<longleftrightarrow> a div 3600000 = b div 3600000"
proof -
  have mod_day: "x mod DAY_MS div 3600000 = x div 3600000 mod 24" for x
  proof -
    have "x mod DAY_MS = 3600000 * (x div 3600000 mod 24) + x mod 3600000"
      using zmod_zmult2_eq [of 24 x 3600000] by (simp add: DAY_MS_def)
    then show ?thesis by simp
  qed
  have div_day: "x div DAY_MS = x div 3600000 div 24" for x
    using zdiv_zmult2_eq [of 24 x 3600000] by (simp add: DAY_MS_def)
  have t13: "take 13 (toISOString x) = iso_date x @ ''T'' @ digits_fixed 2 (x mod DAY_MS div 3600000)"
    if "four_digit_year x" for x
    using that by (simp add: toISOString_four_digit)
  show ?thesis
  proof
    assume "take 13 (toISOString a) = take 13 (toISOString b)"
    then have eq: "iso_date a = iso_date b"
        "digits_fixed 2 (a mod DAY_MS div 3600000) = digits_fixed 2 (b mod DAY_MS div 3600000)"
      using assms by (simp_all add: t13)
    then have "a div 3600000 div 24 = b div 3600000 div 24"
      using assms iso_date_inj unfolding div_day [symmetric] by blast
    moreover have "a div 3600000 mod 24 = b div 3600000 mod 24"
    proof (rule two_digits)
      show "digits_fixed 2 (a div 3600000 mod 24) = digits_fixed 2 (b div 3600000 mod 24)"
        using eq(2) unfolding mod_day .
    qed (simp_all add: pos_mod_bound [THEN order_less_trans])
    ultimately show "a div 3600000 = b div 3600000" by (rule div_mod_eqI)
  next
    assume h: "a div 3600000 = b div 3600000"
    then have "iso_date a = iso_date b" unfolding iso_date_def div_day by (simp only:)
    with h show "take 13 (toISOString a) = take 13 (toISOString b)"
      using assms by (simp only: t13 mod_day)
  qed
qed

end
