(* ===== verification/Ids.thy ===== *)
theory Ids
  imports Iso_Time "HOL-Library.Word"
begin

unbundle bit_operations_syntax

text \<open>
  Durable identifiers: \<open>lib/ids/deterministic-uuid.ts\<close>, which turns a SHA-256 digest into a
  version 5 UUID, and \<open>lib/ids/uuid.ts\<close>, the shape the API accepts. SHA-256 comes from
  \<open>node:crypto\<close> and is the parameter \<open>sha256\<close>; the lemmas use of it only that a digest has 32
  bytes, or that two inputs do not collide.
\<close>

type_synonym byte = "8 word"

definition hex_digit :: "nat \<Rightarrow> char" where
  "hex_digit n = ''0123456789abcdef'' ! n"

definition hex_byte :: "byte \<Rightarrow> string" where
  "hex_byte b = [hex_digit (unat b div 16), hex_digit (unat b mod 16)]"

definition to_hex :: "byte list \<Rightarrow> string" where
  "to_hex bs = concat (map hex_byte bs)"

definition slice :: "nat \<Rightarrow> nat \<Rightarrow> 'a list \<Rightarrow> 'a list" where
  "slice from to xs = take (to - from) (drop from xs)"

definition deterministicUuid :: "(string \<Rightarrow> byte list) \<Rightarrow> string \<Rightarrow> string" where
  "deterministicUuid sha256 value =
    (let bytes = take 16 (sha256 value);
         bytes = bytes[6 := (bytes ! 6 AND 0x0f) OR 0x50];
         bytes = bytes[8 := (bytes ! 8 AND 0x3f) OR 0x80];
         hex = to_hex bytes
     in slice 0 8 hex @ ''-'' @ slice 8 12 hex @ ''-'' @ slice 12 16 hex @ ''-'' @
        slice 16 20 hex @ ''-'' @ drop 20 hex)"

lemma deterministicUuid_nonempty [simp]: "deterministicUuid sha v \<noteq> []"
  by (simp add: deterministicUuid_def Let_def)

subsection \<open>The accepted shape\<close>

definition is_hex_char :: "char \<Rightarrow> bool" where
  "is_hex_char c \<longleftrightarrow> c \<in> set ''0123456789abcdefABCDEF''"

definition UUID_PATTERN :: "(char \<Rightarrow> bool) list" where
  "UUID_PATTERN =
    (let h = is_hex_char; dash = (\<lambda>c. c = CHR ''-''); version = (\<lambda>c. c \<in> set ''12345'');
         variant = (\<lambda>c. c \<in> set ''89abAB'')
     in [h, h, h, h, h, h, h, h, dash, h, h, h, h, dash, version, h, h, h, dash, variant, h, h, h,
         dash, h, h, h, h, h, h, h, h, h, h, h, h])"

definition isUuid :: "string \<Rightarrow> bool" where
  "isUuid value \<longleftrightarrow> list_all2 (\<lambda>p c. p c) UUID_PATTERN value"

lemma isUuid_length: "isUuid v \<Longrightarrow> length v = 36"
  unfolding isUuid_def UUID_PATTERN_def Let_def by (drule list_all2_lengthD) simp

lemma is_hex_digit: "n < 16 \<Longrightarrow> is_hex_char (hex_digit n)"
proof -
  assume "n < 16"
  then have "hex_digit n \<in> set ''0123456789abcdef''"
    unfolding hex_digit_def by (intro nth_mem) simp
  then show ?thesis unfolding is_hex_char_def by auto
qed

lemma unat_byte_less: "unat (b :: byte) < 256"
proof -
  have "(unsigned b :: nat) < 2 ^ LENGTH(8)" by (rule unsigned_less)
  then show ?thesis by simp
qed

lemma is_hex_byte:
  "is_hex_char (hex_digit (unat (b :: byte) div 16))" "is_hex_char (hex_digit (unat b mod 16))"
  using unat_byte_less [of b] by (auto intro!: is_hex_digit)

lemma version_nibble: "unat ((b AND 0x0f) OR 0x50 :: byte) div 16 = 5"
proof -
  have "drop_bit 4 ((b AND 0x0f) OR 0x50 :: byte) = 5"
    by (rule bit_word_eqI) (auto simp: bit_simps bit_numeral_rec numeral_eq_Suc less_Suc_eq)
  then have "unat (drop_bit 4 ((b AND 0x0f) OR 0x50 :: byte)) = 5" by simp
  then have "drop_bit 4 (unat ((b AND 0x0f) OR 0x50 :: byte)) = 5" by (simp only: unat_drop_bit_eq)
  then show ?thesis by (simp add: drop_bit_eq_div)
qed

lemma variant_nibble: "unat ((b AND 0x3f) OR 0x80 :: byte) div 16 \<in> {8, 9, 10, 11}"
proof -
  have "drop_bit 6 ((b AND 0x3f) OR 0x80 :: byte) = 2"
    by (rule bit_word_eqI) (auto simp: bit_simps bit_numeral_rec numeral_eq_Suc less_Suc_eq)
  then have "unat (drop_bit 6 ((b AND 0x3f) OR 0x80 :: byte)) = 2" by simp
  then have "drop_bit 6 (unat ((b AND 0x3f) OR 0x80 :: byte)) = 2" by (simp only: unat_drop_bit_eq)
  then have "unat ((b AND 0x3f) OR 0x80 :: byte) div 64 = 2" by (simp add: drop_bit_eq_div)
  then have "8 \<le> unat ((b AND 0x3f) OR 0x80 :: byte) div 16 \<and>
             unat ((b AND 0x3f) OR 0x80 :: byte) div 16 \<le> 11" by linarith
  then show ?thesis by auto
qed

lemma hex_version: "hex_digit (unat ((b AND 0x0f) OR 0x50 :: byte) div 16) \<in> set ''12345''"
  by (simp only: version_nibble) (simp add: hex_digit_def)

lemma hex_variant: "hex_digit (unat ((b AND 0x3f) OR 0x80 :: byte) div 16) \<in> set ''89abAB''"
proof -
  have "n \<in> {8, 9, 10, 11} \<Longrightarrow> hex_digit n \<in> set ''89abAB''" for n
    by (auto simp: hex_digit_def)
  then show ?thesis using variant_nibble by blast
qed

lemma length_16_cases:
  assumes "length xs = 16"
  obtains a b c d e f g h i j k l m n p q where "xs = [a, b, c, d, e, f, g, h, i, j, k, l, m, n, p, q]"
  using assms by (auto simp: numeral_eq_Suc length_Suc_conv)

lemma deterministicUuid_isUuid:
  assumes "length (sha v) = 32"
  shows "isUuid (deterministicUuid sha v)"
proof -
  have "length (take 16 (sha v)) = 16" using assms by simp
  then obtain a b c d e f g h i j k l m n p q where
    x: "take 16 (sha v) = [a, b, c, d, e, f, g, h, i, j, k, l, m, n, p, q]"
    by (rule length_16_cases)
  define y where "y = (g AND 0x0f) OR (0x50 :: byte)"
  define z where "z = (i AND 0x3f) OR (0x80 :: byte)"
  have yz: "hex_digit (unat y div 16) \<in> set ''12345''" "hex_digit (unat z div 16) \<in> set ''89abAB''"
    unfolding y_def z_def by (rule hex_version) (rule hex_variant)
  have ix: "[a, b, c, d, e, f, g, h, i, j, k, l, m, n, p, q] ! 6 = g"
      "[a, b, c, d, e, f, y, h, i, j, k, l, m, n, p, q] ! 8 = i"
    by simp_all
  have up: "[a, b, c, d, e, f, g, h, i, j, k, l, m, n, p, q][6 := y] =
            [a, b, c, d, e, f, y, h, i, j, k, l, m, n, p, q]"
      "[a, b, c, d, e, f, y, h, i, j, k, l, m, n, p, q][8 := z] =
            [a, b, c, d, e, f, y, h, z, j, k, l, m, n, p, q]"
    by (simp_all add: numeral_eq_Suc)
  have eq: "deterministicUuid sha v =
     (let hex = to_hex [a, b, c, d, e, f, y, h, z, j, k, l, m, n, p, q]
      in slice 0 8 hex @ ''-'' @ slice 8 12 hex @ ''-'' @ slice 12 16 hex @ ''-'' @
         slice 16 20 hex @ ''-'' @ drop 20 hex)"
    unfolding deterministicUuid_def Let_def x
    by (simp only: ix up y_def [symmetric] z_def [symmetric])
  show ?thesis
    using yz
    by (simp add: eq isUuid_def UUID_PATTERN_def to_hex_def hex_byte_def slice_def Let_def
        is_hex_byte del: set_simps list.set)
qed

text \<open>Hexadecimal digests of equal length differ when the bytes do.\<close>

lemma hex_digit_inj: "a < 16 \<Longrightarrow> b < 16 \<Longrightarrow> hex_digit a = hex_digit b \<Longrightarrow> a = b"
proof -
  assume "a < 16" "b < 16" "hex_digit a = hex_digit b"
  moreover have "distinct ''0123456789abcdef''" by simp
  ultimately show ?thesis
    unfolding hex_digit_def by (subst (asm) nth_eq_iff_index_eq) simp_all
qed

lemma hex_byte_inj: "hex_byte a = hex_byte b \<Longrightarrow> a = b"
proof -
  assume "hex_byte a = hex_byte b"
  then have d: "hex_digit (unat a div 16) = hex_digit (unat b div 16)"
      "hex_digit (unat a mod 16) = hex_digit (unat b mod 16)" by (simp_all add: hex_byte_def)
  have "unat a div 16 < 16" "unat b div 16 < 16" using unat_byte_less [of a] unat_byte_less [of b] by simp_all
  then have "unat a div 16 = unat b div 16" using d(1) by (rule hex_digit_inj)
  moreover have "unat a mod 16 = unat b mod 16" using d(2) by (intro hex_digit_inj) simp_all
  ultimately have "unat a = unat b" by (metis div_mult_mod_eq)
  then show ?thesis by (simp add: word_unat_eq_iff)
qed

lemma to_hex_inj [simp]: "to_hex a = to_hex b \<longleftrightarrow> a = b"
proof (induction a arbitrary: b)
  case Nil
  then show ?case by (cases b) (simp_all add: to_hex_def hex_byte_def)
next
  case (Cons x xs)
  show ?case
  proof (cases b)
    case Nil
    then show ?thesis by (simp add: to_hex_def hex_byte_def)
  next
    case b: (Cons y ys)
    have "length (hex_byte x) = length (hex_byte y)" by (simp add: hex_byte_def)
    then have "to_hex (x # xs) = to_hex (y # ys) \<longleftrightarrow> hex_byte x = hex_byte y \<and> to_hex xs = to_hex ys"
      by (simp add: to_hex_def)
    with Cons [of ys] b show ?thesis by (auto dest: hex_byte_inj)
  qed
qed

end
