(* ===== verification/Monitor_Life.thy ===== *)
theory Monitor_Life
  imports Monitor_State Ids
begin

text \<open>
  The administrative life of a monitor, \<open>lib/scheduler/lifecycle.ts\<close>: pausing, archiving,
  enabling and restoring, with the incident such a change resolves. The second half puts the
  checks and the lifecycle changes of one monitor together as one machine over its
  persisted snapshot and gives its invariant and its progress.
\<close>

subsection \<open>Lifecycle mutations\<close>

datatype lifecycle_target = Target_Active | Target_Paused | Target_Archived

datatype resolution_reason =
  Monitor_paused | Monitor_archived | Monitor_enabled | Monitor_restored

record resolution =
  rs_incidentId :: string
  rs_resolvedAt :: instant
  rs_reason :: resolution_reason

record lifecycle_mutation =
  lm_changed :: bool
  lm_state :: snapshot
  lm_resolution :: "resolution option"

definition applyLifecycleEvent :: "snapshot \<Rightarrow> lifecycle_type \<Rightarrow> instant \<Rightarrow> snapshot" where
  "applyLifecycleEvent current ty at = t_state (transitionLifecycleEvent current ty at)"

definition needsCleanup :: "snapshot \<Rightarrow> bool" where
  "needsCleanup current \<longleftrightarrow>
     m_activeIncidentId current \<noteq> None \<or> m_consecutiveFailures current \<noteq> 0 \<or>
     m_consecutiveSuccesses current \<noteq> 0 \<or> m_firstFailureAt current \<noteq> None \<or>
     m_firstSuccessAt current \<noteq> None"

definition resolutionReason :: "monitor_state \<Rightarrow> lifecycle_target \<Rightarrow> resolution_reason" where
  "resolutionReason current target =
     (if target = Target_Paused then Monitor_paused
      else if target = Target_Archived then Monitor_archived
      else if current = ARCHIVED then Monitor_restored else Monitor_enabled)"

text \<open>The events \<open>transitionLifecycle\<close> applies to reach its target.\<close>

definition lifecycleAdvance :: "snapshot \<Rightarrow> lifecycle_target \<Rightarrow> instant \<Rightarrow> snapshot" where
  "lifecycleAdvance current target occurredAt =
    (let state = current;
         state = (if target = Target_Archived then applyLifecycleEvent state Archive occurredAt
                  else state);
         state = (if target = Target_Paused then
                    (let state = (if m_state state = ARCHIVED
                                  then applyLifecycleEvent state Restore occurredAt else state)
                     in applyLifecycleEvent state Disable occurredAt)
                  else state)
     in if target = Target_Active then
          (if m_state state = ARCHIVED then applyLifecycleEvent state Restore occurredAt
           else if m_state state = PAUSED then applyLifecycleEvent state Enable occurredAt
           else state)
        else state)"

definition transitionLifecycle ::
  "snapshot \<Rightarrow> lifecycle_target \<Rightarrow> instant \<Rightarrow> lifecycle_mutation" where
  "transitionLifecycle current target occurredAt =
    (let state = lifecycleAdvance current target occurredAt;
         changed0 = (m_version state \<noteq> m_version current);
         cleanup = (\<not> changed0 \<and> target \<noteq> Target_Active \<and> needsCleanup current);
         changed = (changed0 \<or> cleanup);
         state = (if cleanup
                  then state\<lparr>m_version := m_version current + 1, m_updatedAt := occurredAt\<rparr>
                  else state);
         resolution = (if changed \<and> truthy (m_activeIncidentId current) then
                         Some \<lparr>rs_incidentId = or_else (m_activeIncidentId current) [],
                               rs_resolvedAt = occurredAt,
                               rs_reason = resolutionReason (m_state current) target\<rparr>
                       else None);
         state = (if changed then
                    state\<lparr>m_activeIncidentId := None, m_consecutiveFailures := 0,
                          m_consecutiveSuccesses := 0, m_firstFailureAt := None,
                          m_firstSuccessAt := None\<rparr>
                  else state)
     in \<lparr>lm_changed = changed, lm_state = state, lm_resolution = resolution\<rparr>)"

lemmas lifecycle_defs =
  transitionLifecycle_def lifecycleAdvance_def applyLifecycleEvent_def transitionLifecycleEvent_def lifecycleState_def
  needsCleanup_def CHECK_STATES_def Let_def

text \<open>The administrative state a lifecycle change aims at.\<close>

definition reached :: "lifecycle_target \<Rightarrow> monitor_state \<Rightarrow> bool" where
  "reached target st \<longleftrightarrow> (case target of
      Target_Active \<Rightarrow> st \<in> set CHECK_STATES
    | Target_Paused \<Rightarrow> st = PAUSED
    | Target_Archived \<Rightarrow> st = ARCHIVED)"

lemma transitionLifecycle_reached:
  "reached target (m_state (lm_state (transitionLifecycle s target at)))"
  by (cases target; cases "m_state s") (auto simp: reached_def lifecycle_defs)

text \<open>A change leaves no counter and no incident behind, whatever the snapshot held before.\<close>

lemma transitionLifecycle_cleared:
  assumes "lm_changed (transitionLifecycle s target at)"
  shows "m_activeIncidentId (lm_state (transitionLifecycle s target at)) = None"
    and "\<not> needsCleanup (lm_state (transitionLifecycle s target at))"
  using assms by (auto simp: transitionLifecycle_def Let_def needsCleanup_def)

lemma transitionLifecycle_later:
  assumes "lm_changed (transitionLifecycle s target at)"
  shows "m_version s < m_version (lm_state (transitionLifecycle s target at))"
  using assms
  by (cases target; cases "m_state s") (auto simp: lifecycle_defs)

lemmas transitionLifecycle_clean = transitionLifecycle_cleared transitionLifecycle_later

lemma transitionLifecycle_unchanged:
  "\<not> lm_changed (transitionLifecycle s target at) \<Longrightarrow>
   lm_state (transitionLifecycle s target at) = s \<and>
   lm_resolution (transitionLifecycle s target at) = None"
  by (cases target; cases "m_state s") (auto simp: lifecycle_defs)

lemma transitionLifecycle_changed_state:
  assumes "lm_changed (transitionLifecycle s target at)"
  shows "m_state (lm_state (transitionLifecycle s target at)) \<in> {PAUSED, ARCHIVED, PENDING}"
  using assms
  by (cases target; cases "m_state s") (auto simp: lifecycle_defs)

lemma transitionLifecycle_resolution:
  "lm_resolution (transitionLifecycle s target at) =
     (if lm_changed (transitionLifecycle s target at) \<and> truthy (m_activeIncidentId s) then
        Some \<lparr>rs_incidentId = or_else (m_activeIncidentId s) [], rs_resolvedAt = at,
              rs_reason = resolutionReason (m_state s) target\<rparr>
      else None)"
  by (simp add: transitionLifecycle_def Let_def)

lemma transitionLifecycle_frame:
  "m_monitorId (lm_state (transitionLifecycle s target at)) = m_monitorId s"
  "m_activatedAt (lm_state (transitionLifecycle s target at)) = m_activatedAt s"
  "m_lastCheckedAt (lm_state (transitionLifecycle s target at)) = m_lastCheckedAt s"
  by (cases target; cases "m_state s"; auto simp: lifecycle_defs)+

lemma clean_snapshot_ok:
  assumes "m_state s \<in> {PAUSED, ARCHIVED, PENDING}" and "\<not> needsCleanup s" and "0 \<le> m_version s"
  shows "snapshot_ok s"
  using assms by (auto simp: snapshot_ok_def counters_ok_def incident_ok_def in_outage_def needsCleanup_def)

lemma transitionLifecycle_ok:
  assumes "snapshot_ok s"
  shows "snapshot_ok (lm_state (transitionLifecycle s target at))"
proof (cases "lm_changed (transitionLifecycle s target at)")
  case True
  with assms transitionLifecycle_clean [OF True] transitionLifecycle_changed_state [OF True]
  show ?thesis by (intro clean_snapshot_ok) (auto simp: snapshot_ok_def)
next
  case False
  with assms show ?thesis by (simp add: transitionLifecycle_unchanged)
qed

text \<open>Asking again for the target already reached changes nothing.\<close>

lemma transitionLifecycle_settled:
  assumes "reached target (m_state s)" and "target = Target_Active \<or> \<not> needsCleanup s"
  shows "\<not> lm_changed (transitionLifecycle s target at)"
  using assms
  by (cases target; cases "m_state s") (auto simp: reached_def lifecycle_defs)

lemma transitionLifecycle_idem:
  fixes s target at at'
  defines "s' \<equiv> lm_state (transitionLifecycle s target at)"
  shows "\<not> lm_changed (transitionLifecycle s' target at')"
proof (cases "lm_changed (transitionLifecycle s target at)")
  case True
  from transitionLifecycle_clean(2) [OF True] transitionLifecycle_reached
  show ?thesis unfolding s'_def by (intro transitionLifecycle_settled) simp_all
next
  case False
  with transitionLifecycle_unchanged [OF False] show ?thesis
    unfolding s'_def by (cases target; cases "m_state s") (auto simp: lifecycle_defs)
qed

subsection \<open>One monitor under checks and lifecycle changes\<close>

text \<open>
  The persisted snapshot of one monitor moves by the scheduled checks, whose opening incident
  is attached under the identifier \<open>lib/storage/atomic-minute.ts\<close> derives from the monitor and
  its first failure, and by lifecycle changes. \<open>incidentIdFor\<close> is that derivation.
\<close>

definition attachIncident ::
  "(string \<Rightarrow> instant \<Rightarrow> string) \<Rightarrow> state_transition \<Rightarrow> snapshot" where
  "attachIncident incidentIdFor t =
    (case t_incident t of
       Some (OpenIncident _ firstFailureAt) \<Rightarrow>
         (t_state t)\<lparr>m_activeIncidentId := Some (incidentIdFor (m_monitorId (t_state t)) firstFailureAt)\<rparr>
     | _ \<Rightarrow> t_state t)"

datatype monitor_op = Op_Check check_event | Op_Lifecycle lifecycle_target instant

definition monitor_step ::
  "(string \<Rightarrow> instant \<Rightarrow> string) \<Rightarrow> snapshot \<Rightarrow> monitor_op \<Rightarrow> js_error + snapshot" where
  "monitor_step incidentIdFor s op = (case op of
      Op_Check e \<Rightarrow> res_bind (transitionMonitor s (CheckEvent e)) (\<lambda>t. Inr (attachIncident incidentIdFor t))
    | Op_Lifecycle target at \<Rightarrow> Inr (lm_state (transitionLifecycle s target at)))"

definition admissible_op :: "snapshot \<Rightarrow> monitor_op \<Rightarrow> bool" where
  "admissible_op s op \<longleftrightarrow> (case op of Op_Check e \<Rightarrow> thresholds_ok e \<and> not_before s e | _ \<Rightarrow> True)"

definition monitor_inv :: "snapshot \<Rightarrow> bool" where
  "monitor_inv s \<longleftrightarrow> snapshot_ok s \<and> chrono_ok s"

text \<open>The row \<open>synchronizeRegistry\<close> inserts for a monitor it sees for the first time.\<close>

definition initial_snapshot :: "string \<Rightarrow> bool \<Rightarrow> instant \<Rightarrow> snapshot" where
  "initial_snapshot monitorId enabled now =
     \<lparr>m_monitorId = monitorId, m_state = (if enabled then PENDING else PAUSED),
      m_consecutiveFailures = 0, m_consecutiveSuccesses = 0, m_activatedAt = None,
      m_firstFailureAt = None, m_firstSuccessAt = None, m_lastCheckedAt = None,
      m_lastSuccessAt = None, m_lastFailureAt = None, m_lastStatusCode = None,
      m_lastLatencyMs = None, m_lastErrorCode = None, m_activeIncidentId = None,
      m_version = 0, m_updatedAt = now\<rparr>"

lemma initial_snapshot_inv: "monitor_inv (initial_snapshot i en now)"
  by (simp add: monitor_inv_def initial_snapshot_def snapshot_ok_def counters_ok_def
      incident_ok_def in_outage_def chrono_ok_def)

lemma counters_ok_incident [simp]: "counters_ok (s\<lparr>m_activeIncidentId := x\<rparr>) = counters_ok s"
  by (cases "m_state s") (simp_all add: counters_ok_def)

lemma chrono_ok_incident [simp]: "chrono_ok (s\<lparr>m_activeIncidentId := x\<rparr>) = chrono_ok s"
  by (simp add: chrono_ok_def)

lemma phase_of_incident [simp]: "phase_of (s\<lparr>m_activeIncidentId := x\<rparr>) = phase_of s"
  by (cases "m_state s") (simp_all add: phase_of_def)

lemma attachIncident_counters:
  "counters_ok (t_state t) \<Longrightarrow> counters_ok (attachIncident f t)"
  by (simp add: attachIncident_def split: option.split incident_intent.split)

lemma attachIncident_chrono:
  "chrono_ok (t_state t) \<Longrightarrow> chrono_ok (attachIncident f t)"
  by (simp add: attachIncident_def split: option.split incident_intent.split)

lemma attachIncident_version [simp]: "m_version (attachIncident f t) = m_version (t_state t)"
  by (simp add: attachIncident_def split: option.split incident_intent.split)

lemma attachIncident_state [simp]: "m_state (attachIncident f t) = m_state (t_state t)"
  by (simp add: attachIncident_def split: option.split incident_intent.split)

lemma attachIncident_phase [simp]: "phase_of (attachIncident f t) = phase_of (t_state t)"
  by (simp add: attachIncident_def split: option.split incident_intent.split)

lemma attachIncident_incident:
  assumes "incident_fits s (t_state t) (t_incident t)" and "\<And>i at. f i at \<noteq> []"
  shows "incident_ok (attachIncident f t)"
  using assms
  by (auto simp: attachIncident_def incident_fits_def incident_ok_def in_outage_def
      split: option.splits incident_intent.splits)

lemma monitor_step_check_inv:
  assumes "monitor_inv s" and "thresholds_ok e" and "not_before s e"
    and "monitor_step f s (Op_Check e) = Inr s'" and "\<And>i at. f i at \<noteq> []"
  shows "monitor_inv s'"
proof -
  obtain n i where c: "checkedState s e = Inr (n, i)"
    using assms(1,2) checkedState_returns unfolding monitor_inv_def by blast
  define t where "t = \<lparr>t_previousState = m_state s, t_state = n,
                t_changed = (m_state n \<noteq> m_state s), t_incident = i\<rparr>"
  have s': "s' = attachIncident f t"
    using assms(4) c by (simp add: monitor_step_def transitionMonitor_def t_def)
  have "counters_ok n" "chrono_ok n" "incident_fits s n i" "0 \<le> m_version n"
    using assms(1-3) c checkedState_counters checkedState_chrono checkedState_incident
      checkedState_version [OF c]
    by (auto simp: monitor_inv_def snapshot_ok_def)
  then show ?thesis
    using assms(5) unfolding s' monitor_inv_def snapshot_ok_def
    by (simp add: t_def attachIncident_counters attachIncident_chrono attachIncident_incident)
qed

lemma lifecycle_chrono:
  "chrono_ok s \<Longrightarrow> chrono_ok (lm_state (transitionLifecycle s target at))"
  by (cases "lm_changed (transitionLifecycle s target at)")
    (auto simp: transitionLifecycle_unchanged chrono_ok_def needsCleanup_def
      dest: transitionLifecycle_clean(2))

lemma monitor_step_inv:
  assumes "\<And>i at. f i at \<noteq> []" and "monitor_inv s" and "admissible_op s op"
    and "monitor_step f s op = Inr s'"
  shows "monitor_inv s'"
proof (cases op)
  case (Op_Check e)
  with assms show ?thesis
    by (auto simp: admissible_op_def intro: monitor_step_check_inv)
next
  case (Op_Lifecycle target at)
  with assms show ?thesis
    by (auto simp: monitor_step_def monitor_inv_def transitionLifecycle_ok lifecycle_chrono)
qed

lemma monitor_step_progress:
  assumes "monitor_inv s" and "admissible_op s op"
  shows "\<exists>s'. monitor_step f s op = Inr s'"
proof (cases op)
  case (Op_Check e)
  with assms checkedState_returns [of s e] show ?thesis
    by (auto simp: admissible_op_def monitor_inv_def monitor_step_def transitionMonitor_def)
next
  case (Op_Lifecycle target at)
  then show ?thesis by (simp add: monitor_step_def)
qed

text \<open>The identifier of an incident, as the minute writer derives it.\<close>

definition incidentIdFor :: "(string \<Rightarrow> byte list) \<Rightarrow> string \<Rightarrow> instant \<Rightarrow> string" where
  "incidentIdFor sha256 monitorId firstFailureAt =
     deterministicUuid sha256 (''incident/'' @ monitorId @ ''/'' @ toISOString firstFailureAt)"

lemma incidentIdFor_nonempty [simp]: "incidentIdFor sha i at \<noteq> []"
  by (simp add: incidentIdFor_def)

interpretation monitor_machine:
  progress_machine "monitor_step (incidentIdFor sha)" monitor_inv admissible_op for sha
proof unfold_locales
  fix s op s'
  assume "monitor_inv s" "admissible_op s op" "monitor_step (incidentIdFor sha) s op = Inr s'"
  then show "monitor_inv s'" by (rule monitor_step_inv [OF incidentIdFor_nonempty])
next
  fix s op
  assume "monitor_inv s" "admissible_op s op"
  then show "\<exists>s'. monitor_step (incidentIdFor sha) s op = Inr s'" by (rule monitor_step_progress)
qed

lemma monitor_step_phase:
  assumes "thresholds_ok e" and "monitor_step f s (Op_Check e) = Inr s'"
  shows "phase_of s' = phase_step (e_failureThreshold e) (e_recoveryThreshold e) (e_successful e)
                         (phase_of s)"
proof -
  obtain n i where c: "checkedState s e = Inr (n, i)"
    using assms(2) by (auto simp: monitor_step_def transitionMonitor_def res_bind_Inr_iff)
  then have "phase_of s' = phase_of n"
    using assms(2) by (auto simp: monitor_step_def transitionMonitor_def)
  with checkedState_phase [OF assms(1) c] show ?thesis by simp
qed

lemma monitor_run_phase:
  assumes "\<forall>e \<in> set es. e_failureThreshold e = f \<and> e_recoveryThreshold e = r"
    and "1 \<le> f" and "1 \<le> r"
    and "run_steps (monitor_step g) s (map Op_Check es) = Inr s'"
  shows "phase_of s' = phase_run f r (map e_successful es) (phase_of s)"
  using assms
proof (induction es arbitrary: s)
  case Nil
  then show ?case by simp
next
  case (Cons e es)
  then obtain s1 where s1: "monitor_step g s (Op_Check e) = Inr s1"
    "run_steps (monitor_step g) s1 (map Op_Check es) = Inr s'"
    by (auto simp: res_bind_Inr_iff)
  have "thresholds_ok e" using Cons.prems by (simp add: thresholds_ok_def)
  from monitor_step_phase [OF this s1(1)] Cons.IH [OF _ _ _ s1(2)] Cons.prems
  show ?case by simp
qed

lemma map_all_const: "(\<forall>x \<in> set xs. f x = c) \<Longrightarrow> map f xs = replicate (length xs) c"
  by (induction xs) auto

text \<open>While a monitor has never succeeded, no run of failures leaves its setup phase.\<close>

definition in_setup :: "snapshot \<Rightarrow> bool" where
  "in_setup s \<longleftrightarrow> m_state s = PENDING \<and> m_activatedAt s = None \<and> m_activeIncidentId s = None"

lemma setup_failure_step:
  assumes "in_setup s" and "thresholds_ok e" and "\<not> e_successful e"
  shows "\<exists>s'. monitor_step f s (Op_Check e) = Inr s' \<and> in_setup s' \<and>
              m_consecutiveFailures s' = m_consecutiveFailures s + 1"
  using assms
  by (auto simp: in_setup_def monitor_step_def transitionMonitor_def checkedState_active
      CHECK_STATES_def checkedFailure_def checkBase_def attachIncident_def Let_def)

lemma setup_failure_run:
  assumes "in_setup s" and "\<forall>e \<in> set es. thresholds_ok e \<and> \<not> e_successful e"
  shows "\<exists>s'. run_steps (monitor_step f) s (map Op_Check es) = Inr s' \<and> in_setup s' \<and>
              m_consecutiveFailures s' = m_consecutiveFailures s + int (length es)"
  using assms
proof (induction es arbitrary: s)
  case Nil
  then show ?case by simp
next
  case (Cons e es)
  then obtain s1 where s1: "monitor_step f s (Op_Check e) = Inr s1" "in_setup s1"
    "m_consecutiveFailures s1 = m_consecutiveFailures s + 1"
    using setup_failure_step [of s e f] by auto
  with Cons.IH [of s1] Cons.prems show ?case by auto
qed






text \<open>
  A run of failed checks on a monitor that was \<open>UP\<close>: where it is after \<open>k\<close> of them, the first at \<open>ff\<close>.
\<close>

definition failing_streak ::
  "(string \<Rightarrow> instant \<Rightarrow> string) \<Rightarrow> string \<Rightarrow> int \<Rightarrow> instant \<Rightarrow> nat \<Rightarrow> snapshot \<Rightarrow> bool" where
  "failing_streak g mid f ff k s \<longleftrightarrow>
     m_monitorId s = mid \<and>
     (if k = 0 then m_state s = UP \<and> m_activeIncidentId s = None
      else if int k < f then
        m_state s = VERIFYING_DOWN \<and> m_activeIncidentId s = None \<and>
        m_firstFailureAt s = Some ff \<and> m_consecutiveFailures s = int k
      else m_state s = DOWN \<and> m_activeIncidentId s = Some (g mid ff) \<and> m_firstFailureAt s = Some ff)"

lemma failing_streak_step:
  assumes "failing_streak g mid f ff k s" and "1 \<le> f" and "1 \<le> e_recoveryThreshold e"
    and "e_failureThreshold e = f" and "\<not> e_successful e" and "k = 0 \<longrightarrow> e_checkedAt e = ff"
  shows "\<exists>t. transitionMonitor s (CheckEvent e) = Inr t \<and>
             t_incident t = (if int (Suc k) = f then Some (OpenIncident ff ff) else None) \<and>
             monitor_step g s (Op_Check e) = Inr (attachIncident g t) \<and>
             failing_streak g mid f ff (Suc k) (attachIncident g t)"
proof -
  have th: "thresholds_ok e" using assms by (simp add: thresholds_ok_def)
  have st: "m_state s \<in> set CHECK_STATES"
    using assms(1) by (auto simp: failing_streak_def CHECK_STATES_def split: if_splits)
  show ?thesis
    using assms
    by (auto simp: transitionMonitor_def monitor_step_def checkedState_active [OF th st]
        checkedFailure_def checkBase_def Let_def failing_streak_def attachIncident_def or_else_def
        split: if_splits)
qed

lemma failing_streak_run:
  assumes "failing_streak g mid f ff k s" and "1 \<le> f" and "1 \<le> r"
    and "\<forall>e \<in> set es. e_failureThreshold e = f \<and> e_recoveryThreshold e = r \<and> \<not> e_successful e"
    and "k = 0 \<longrightarrow> es \<noteq> [] \<longrightarrow> e_checkedAt (hd es) = ff"
  shows "\<exists>s'. run_steps (monitor_step g) s (map Op_Check es) = Inr s' \<and>
              failing_streak g mid f ff (k + length es) s'"
  using assms
proof (induction es arbitrary: s k)
  case Nil
  then show ?case by simp
next
  case (Cons e es)
  then obtain t where t: "monitor_step g s (Op_Check e) = Inr (attachIncident g t)"
    "failing_streak g mid f ff (Suc k) (attachIncident g t)"
    using failing_streak_step [of g mid f ff k s e] by auto
  with Cons.IH [OF t(2)] Cons.prems show ?case by auto
qed

text \<open>What check \<open>k\<close> of the streak asks for, seen from its start.\<close>

lemma failing_streak_check:
  assumes "failing_streak g mid f (e_checkedAt (hd es)) 0 s" and "1 \<le> f" and "1 \<le> r"
    and "\<forall>e \<in> set es. e_failureThreshold e = f \<and> e_recoveryThreshold e = r \<and> \<not> e_successful e"
    and k: "k < length es"
  shows "\<exists>sk t. run_steps (monitor_step g) s (map Op_Check (take k es)) = Inr sk \<and>
          transitionMonitor sk (CheckEvent (es ! k)) = Inr t \<and>
          t_incident t = (if int (Suc k) = f
                          then Some (OpenIncident (e_checkedAt (hd es)) (e_checkedAt (hd es))) else None)"
proof -
  let ?ff = "e_checkedAt (hd es)"
  have pre: "\<forall>e \<in> set (take k es). e_failureThreshold e = f \<and> e_recoveryThreshold e = r \<and>
      \<not> e_successful e"
    using assms(4) by (auto dest: in_set_takeD)
  have "take k es \<noteq> [] \<longrightarrow> e_checkedAt (hd (take k es)) = ?ff" by (cases es) (auto simp: take_Cons')
  then obtain sk where sk: "run_steps (monitor_step g) s (map Op_Check (take k es)) = Inr sk"
    "failing_streak g mid f ?ff k sk"
    using failing_streak_run [OF assms(1-3) pre] k by auto
  have "es ! k \<in> set es" using k by simp
  moreover have "k = 0 \<longrightarrow> e_checkedAt (es ! k) = ?ff" using k by (auto simp: hd_conv_nth)
  ultimately show ?thesis
    using failing_streak_step [OF sk(2) assms(2)] assms(3,4) sk(1) by fastforce
qed

subsection \<open>Properties\<close>

text \<open>C4. From the row inserted at registration, every run of checks (with thresholds of at
  least one and instants that do not go back) and of lifecycle changes returns: no check raises
  for a missing incident or a missing first failure, and the snapshot it leaves is well-formed.\<close>

theorem monitor_run_safe:
  assumes "admissible_run (monitor_step (incidentIdFor sha)) admissible_op
             (initial_snapshot monitorId enabled now) ops"
  shows "\<exists>s. run_steps (monitor_step (incidentIdFor sha))
                (initial_snapshot monitorId enabled now) ops = Inr s \<and> monitor_inv s"
  using initial_snapshot_inv assms by (rule monitor_machine.run_returns)

definition sample_check :: "instant \<Rightarrow> bool \<Rightarrow> check_event" where
  "sample_check at ok = \<lparr>e_checkedAt = at, e_successful = ok,
     e_statusCode = (if ok then Some 200 else Some 503), e_latencyMs = 40,
     e_errorCode = (if ok then None else Some INVALID_STATUS),
     e_failureThreshold = 2, e_recoveryThreshold = 2\<rparr>"

definition sample_run :: "monitor_op list" where
  "sample_run = [Op_Check (sample_check 0 True), Op_Check (sample_check 60000 False),
     Op_Check (sample_check 120000 False), Op_Check (sample_check 180000 True),
     Op_Check (sample_check 240000 True), Op_Lifecycle Target_Paused 300000]"

lemmas monitor_eval =
  monitor_step_def transitionMonitor_def check_defs CHECK_STATES_def attachIncident_def
  initial_snapshot_def sample_check_def sample_run_def admissible_op_def thresholds_ok_def
  not_before_def

theorem monitor_run_safe_witness:
  "\<exists>s. run_steps (monitor_step (incidentIdFor (\<lambda>_. []))) (initial_snapshot ''api'' True 0) sample_run
        = Inr s \<and> monitor_inv s"
  by (rule monitor_run_safe) (simp add: monitor_eval lifecycle_defs)

text \<open>C28. A scheduled check implements the hysteresis automaton: the phase of the new snapshot
  is the automaton's step, under this check's thresholds and outcome, of the phase of the old.\<close>

theorem check_refines_hysteresis:
  assumes "thresholds_ok e" and "monitor_step (incidentIdFor sha) s (Op_Check e) = Inr s'"
  shows "phase_of s' = phase_step (e_failureThreshold e) (e_recoveryThreshold e) (e_successful e)
                         (phase_of s)"
  using assms by (rule monitor_step_phase)

theorem check_refines_hysteresis_witness:
  "\<exists>s'. monitor_step (incidentIdFor (\<lambda>_. [])) (initial_snapshot ''api'' True 0)
          (Op_Check (sample_check 7 True)) = Inr s' \<and>
        phase_of s' = phase_step 2 2 True (phase_of (initial_snapshot ''api'' True 0))"
proof -
  have t: "thresholds_ok (sample_check 7 True)" by (simp add: monitor_eval)
  obtain s' where s': "monitor_step (incidentIdFor (\<lambda>_. [])) (initial_snapshot ''api'' True 0)
      (Op_Check (sample_check 7 True)) = Inr s'"
    by (simp add: monitor_eval)
  with check_refines_hysteresis [OF t s'] show ?thesis by (simp add: sample_check_def)
qed

text \<open>C29. On a healthy monitor without an incident, with failure threshold \<open>f\<close>, a run of \<open>n\<close> consecutive
  failed checks returns and leaves it \<open>UP\<close> for \<open>n = 0\<close>, \<open>VERIFYING_DOWN\<close> for \<open>0 < n < f\<close> and \<open>DOWN\<close> from
  \<open>n = f\<close> on. The \<open>f\<close>th check, and no other of the run, asks to open an incident, at the instant of
  the first failure; from then on the incident of the monitor and of that instant is attached, and
  none before.\<close>

theorem outage_after_threshold:
  assumes "m_state s = UP" and "m_activeIncidentId s = None" and "1 \<le> f" and "1 \<le> r"
    and "\<forall>e \<in> set es. e_failureThreshold e = f \<and> e_recoveryThreshold e = r \<and> \<not> e_successful e"
  shows "\<exists>s'. run_steps (monitor_step (incidentIdFor sha)) s (map Op_Check es) = Inr s' \<and>
     m_state s' = (if es = [] then UP else if int (length es) < f then VERIFYING_DOWN else DOWN) \<and>
     m_activeIncidentId s' =
       (if int (length es) < f then None
        else Some (incidentIdFor sha (m_monitorId s) (e_checkedAt (hd es)))) \<and>
     (\<forall>k < length es. \<exists>sk t.
        run_steps (monitor_step (incidentIdFor sha)) s (map Op_Check (take k es)) = Inr sk \<and>
        transitionMonitor sk (CheckEvent (es ! k)) = Inr t \<and>
        t_incident t = (if int (Suc k) = f
                        then Some (OpenIncident (e_checkedAt (hd es)) (e_checkedAt (hd es)))
                        else None))"
proof -
  let ?g = "incidentIdFor sha" and ?ff = "e_checkedAt (hd es)"
  have start: "failing_streak ?g (m_monitorId s) f ?ff 0 s"
    using assms(1,2) by (simp add: failing_streak_def)
  obtain s' where s': "run_steps (monitor_step ?g) s (map Op_Check es) = Inr s'"
    "failing_streak ?g (m_monitorId s) f ?ff (length es) s'"
    using failing_streak_run [OF start assms(3-5)] by auto
  then have "m_state s' = (if es = [] then UP else if int (length es) < f then VERIFYING_DOWN else DOWN)"
    "m_activeIncidentId s' = (if int (length es) < f then None else Some (?g (m_monitorId s) ?ff))"
    using assms(3) by (auto simp: failing_streak_def split: if_splits)
  with s'(1) failing_streak_check [OF start assms(3-5)] show ?thesis by blast
qed

definition healthy_sample :: snapshot where
  "healthy_sample = (initial_snapshot ''api'' True 0)\<lparr>m_state := UP, m_activatedAt := Some 0\<rparr>"

theorem outage_after_threshold_witness:
  "\<exists>s'. run_steps (monitor_step (incidentIdFor (\<lambda>_. []))) healthy_sample
          (map Op_Check [sample_check 60000 False, sample_check 120000 False]) = Inr s' \<and>
        m_state s' = DOWN \<and> m_activeIncidentId s' = Some (incidentIdFor (\<lambda>_. []) ''api'' 60000)"
proof -
  let ?es = "[sample_check 60000 False, sample_check 120000 False]"
  have up: "m_state healthy_sample = UP" "m_activeIncidentId healthy_sample = None"
    "m_monitorId healthy_sample = ''api''"
    by (simp_all add: healthy_sample_def initial_snapshot_def)
  have "\<forall>e \<in> set ?es. e_failureThreshold e = 2 \<and> e_recoveryThreshold e = 2 \<and> \<not> e_successful e"
    by (simp add: sample_check_def)
  from outage_after_threshold [OF up(1,2) _ _ this, of "\<lambda>_. []"] show ?thesis
    by (auto simp: up(3) sample_check_def simp del: run_steps.simps list.map)
qed

text \<open>A monitor that has never succeeded stays in setup through any number of failed checks:
  it keeps \<open>PENDING\<close>, counts the failures and never gets an incident.\<close>

theorem setup_never_opens:
  assumes "\<forall>e \<in> set es. thresholds_ok e \<and> \<not> e_successful e"
  shows "\<exists>s. run_steps (monitor_step (incidentIdFor sha)) (initial_snapshot monitorId True now)
               (map Op_Check es) = Inr s \<and>
             m_state s = PENDING \<and> m_activeIncidentId s = None \<and> m_activatedAt s = None \<and>
             m_consecutiveFailures s = int (length es)"
  using setup_failure_run [of "initial_snapshot monitorId True now" es] assms
  by (auto simp: in_setup_def initial_snapshot_def)

theorem setup_never_opens_witness:
  "\<exists>s. run_steps (monitor_step (incidentIdFor (\<lambda>_. []))) (initial_snapshot ''api'' True 0)
         (map Op_Check (replicate 4 (sample_check 60000 False))) = Inr s \<and> m_state s = PENDING \<and>
       m_activeIncidentId s = None \<and> m_activatedAt s = None \<and> m_consecutiveFailures s = 4"
  using setup_never_opens [of "replicate 4 (sample_check 60000 False)" "\<lambda>_. []" "''api''" 0]
  by (simp add: thresholds_ok_def sample_check_def)



text \<open>C31. A lifecycle change reaches its target from every snapshot. If it changed anything, it
  leaves a well-formed snapshot without counters or incident under a later version, and it asks
  to resolve exactly the incident that was attached. Asking again for the target changes
  nothing.\<close>

theorem lifecycle_settles:
  "let mut = transitionLifecycle s target at in
    reached target (m_state (lm_state mut)) \<and>
    (if lm_changed mut then
       m_version s < m_version (lm_state mut) \<and> m_activeIncidentId (lm_state mut) = None \<and>
       \<not> needsCleanup (lm_state mut) \<and>
       (case lm_resolution mut of
          None \<Rightarrow> \<not> truthy (m_activeIncidentId s)
        | Some r \<Rightarrow> m_activeIncidentId s = Some (rs_incidentId r) \<and> rs_resolvedAt r = at \<and>
                    rs_reason r = resolutionReason (m_state s) target)
     else lm_state mut = s \<and> lm_resolution mut = None) \<and>
    \<not> lm_changed (transitionLifecycle (lm_state mut) target at')"
proof (cases "lm_changed (transitionLifecycle s target at)")
  case True
  show ?thesis
    using True transitionLifecycle_reached [of target s at] transitionLifecycle_clean [OF True]
      transitionLifecycle_idem [of s target at at']
    by (auto simp: transitionLifecycle_resolution [of s target at] Let_def elim: truthyE)
next
  case False
  show ?thesis
    using False transitionLifecycle_reached [of target s at] transitionLifecycle_unchanged [OF False]
      transitionLifecycle_idem [of s target at at']
    by (simp add: Let_def)
qed

end
