(* ===== verification/Codec.thy ===== *)
theory Codec
  imports Ids
begin

text \<open>
  The packed telemetry of one scheduled minute, \<open>lib/storage/codec.ts\<close>: three bitmaps and a
  vector of big-endian 32-bit latencies, one entry per monitor. A \<open>Buffer\<close> is a list of bytes;
  a latency is the integer number of milliseconds the checker measured. The lemmas relate bits
  and bytes, the properties give the exact domain of the encoder, the round trip and what a
  decoded batch satisfies.
\<close>

definition PACKED_TELEMETRY_VERSION :: int where
  "PACKED_TELEMETRY_VERSION = 1"

record packed_telemetry =
  pk_encodingVersion :: int
  pk_monitorCount :: nat
  pk_expectedBitmap :: "byte list"
  pk_completedBitmap :: "byte list"
  pk_failureBitmap :: "byte list"
  pk_latencyValues :: "byte list"

record telemetry_value =
  tv_expected :: bool
  tv_completed :: bool
  tv_failed :: bool
  tv_latencyMs :: "int option"

subsection \<open>Bitmaps\<close>

definition ceil_div :: "nat \<Rightarrow> nat \<Rightarrow> nat" where
  "ceil_div n k = (n + k - 1) div k"

fun setBits :: "byte list \<Rightarrow> nat \<Rightarrow> bool list \<Rightarrow> byte list" where
  "setBits packed index [] = packed"
| "setBits packed index (value # values) =
     setBits (if value
              then packed[drop_bit 3 index :=
                            packed ! (drop_bit 3 index) OR push_bit (index AND 7) 1]
              else packed)
             (index + 1) values"

definition encodeBitmap :: "bool list \<Rightarrow> byte list" where
  "encodeBitmap values = setBits (replicate (ceil_div (length values) 8) 0) 0 values"

text \<open>Reading past the end of a buffer gives \<open>undefined\<close>, and \<open>undefined & m\<close> is 0.\<close>

definition readBit :: "byte list \<Rightarrow> nat \<Rightarrow> bool" where
  "readBit buffer index =
     (drop_bit 3 index < length buffer \<and>
      (buffer ! (drop_bit 3 index)) AND (push_bit (index AND 7) 1) \<noteq> 0)"

lemma and_7: "n AND 7 = n mod (8::nat)"
proof -
  have "n AND 7 = n AND mask 3" by (simp add: mask_eq_exp_minus_1)
  then show ?thesis by (simp add: take_bit_eq_mask [symmetric] take_bit_eq_mod)
qed

lemma drop_3: "drop_bit 3 n = n div (8::nat)"
  by (simp add: drop_bit_eq_div)

lemma readBit_bit: "readBit buffer i \<longleftrightarrow> i div 8 < length buffer \<and> bit (buffer ! (i div 8)) (i mod 8)"
  by (simp add: readBit_def and_7 drop_3 bit_iff_and_push_bit_not_eq_0)

lemma readBit_set:
  assumes "i div 8 < length p"
  shows "readBit (p[i div 8 := p ! (i div 8) OR push_bit (i mod 8) 1]) j \<longleftrightarrow> readBit p j \<or> j = i"
proof (cases "j div 8 = i div 8")
  case False
  then have "j \<noteq> i" by auto
  with False show ?thesis by (simp add: readBit_bit)
next
  case True
  have lt: "j mod 8 < LENGTH(8)" by simp
  have "j = i \<longleftrightarrow> j mod 8 = i mod 8" using True by (metis div_mult_mod_eq)
  with True assms lt show ?thesis
    by (auto simp: readBit_bit bit_simps)
qed

lemma length_setBits [simp]: "length (setBits p i vs) = length p"
  by (induction vs arbitrary: p i) simp_all

lemma readBit_setBits:
  assumes "i + length vs \<le> 8 * length p"
  shows "readBit (setBits p i vs) j \<longleftrightarrow>
           readBit p j \<or> (i \<le> j \<and> j < i + length vs \<and> vs ! (j - i))"
  using assms
proof (induction vs arbitrary: p i)
  case Nil
  then show ?case by auto
next
  case (Cons v vs)
  let ?p = "if v then p[drop_bit 3 i := p ! (drop_bit 3 i) OR push_bit (i AND 7) 1] else p"
  have len: "length ?p = length p" by simp
  have in_range: "i div 8 < length p" using Cons.prems by auto
  have IH: "readBit (setBits ?p (i + 1) vs) j \<longleftrightarrow>
      readBit ?p j \<or> (i + 1 \<le> j \<and> j < i + 1 + length vs \<and> vs ! (j - (i + 1)))"
    by (rule Cons.IH) (use Cons.prems len in simp)
  have one: "readBit ?p j \<longleftrightarrow> readBit p j \<or> (v \<and> j = i)"
    using readBit_set [OF in_range, of j] by (simp add: drop_3 and_7)
  show ?case
  proof (cases "i + 1 \<le> j")
    case True
    then have "j - i = Suc (j - (i + 1))" by simp
    with IH one True show ?thesis by simp
  next
    case False
    with IH one show ?thesis by (cases "j = i") auto
  qed
qed

lemma not_readBit_zero [simp]: "\<not> readBit (replicate k 0) j"
  by (simp add: readBit_bit)

lemma readBit_encodeBitmap: "readBit (encodeBitmap vs) j \<longleftrightarrow> j < length vs \<and> vs ! j"
proof -
  have "0 + length vs \<le> 8 * length (replicate (ceil_div (length vs) 8) (0::byte))"
    by (simp add: ceil_div_def)
  from readBit_setBits [OF this, of j] show ?thesis by (simp add: encodeBitmap_def)
qed

lemma length_encodeBitmap [simp]: "length (encodeBitmap vs) = ceil_div (length vs) 8"
  by (simp add: encodeBitmap_def)

subsection \<open>Big-endian 32-bit integers\<close>

definition writeUInt32BE :: "int \<Rightarrow> byte list" where
  "writeUInt32BE v = [word_of_int (v div 2 ^ 24), word_of_int (v div 2 ^ 16),
                      word_of_int (v div 2 ^ 8), word_of_int v]"

definition readUInt32BE :: "byte list \<Rightarrow> nat \<Rightarrow> int" where
  "readUInt32BE buffer offset =
     uint (buffer ! offset) * 2 ^ 24 + uint (buffer ! (offset + 1)) * 2 ^ 16 +
     uint (buffer ! (offset + 2)) * 2 ^ 8 + uint (buffer ! (offset + 3))"

lemma length_writeUInt32BE [simp]: "length (writeUInt32BE v) = 4"
  by (simp add: writeUInt32BE_def)

lemma bytes_of_int:
  assumes "0 \<le> v" and "v < 4294967296"
  shows "(v div 16777216) mod 256 * 16777216 + (v div 65536) mod 256 * 65536 +
         (v div 256) mod 256 * 256 + v mod 256 = (v :: int)"
proof -
  have "0 \<le> v div 16777216" "v div 16777216 < 256" using assms by linarith+
  then have top: "(v div 16777216) mod 256 = v div 16777216" by (rule mod_pos_pos_trivial)
  have "v div 16777216 = v div 65536 div 256" "v div 65536 = v div 256 div 256"
    using zdiv_zmult2_eq [of 256 v 65536] zdiv_zmult2_eq [of 256 v 256] by simp_all
  then have "v div 65536 = (v div 16777216) * 256 + (v div 65536) mod 256"
      "v div 256 = (v div 65536) * 256 + (v div 256) mod 256" "v = (v div 256) * 256 + v mod 256"
    by (metis div_mult_mod_eq)+
  with top show ?thesis by linarith
qed

lemma uint_byte: "uint (word_of_int x :: byte) = x mod 256"
  by (simp add: uint_word_of_int)

lemma readUInt32BE_write_mod:
  "readUInt32BE (writeUInt32BE v) 0 =
     (v div 16777216) mod 256 * 16777216 + (v div 65536) mod 256 * 65536 +
     (v div 256) mod 256 * 256 + v mod 256"
  by (simp add: readUInt32BE_def writeUInt32BE_def uint_byte)

lemma readUInt32BE_write:
  assumes "0 \<le> v" and "v < 2 ^ 32"
  shows "readUInt32BE (writeUInt32BE v) 0 = v"
proof -
  have "v < 4294967296" using assms(2) by simp
  then show ?thesis unfolding readUInt32BE_write_mod by (rule bytes_of_int [OF assms(1)])
qed

lemma readUInt32BE_concat:
  assumes "i < length vs" and "0 \<le> vs ! i" and "vs ! i < 2 ^ 32"
  shows "readUInt32BE (concat (map writeUInt32BE vs)) (i * 4) = vs ! i"
  using assms
proof (induction vs arbitrary: i)
  case Nil
  then show ?case by simp
next
  case (Cons v vs)
  have shift: "(writeUInt32BE v @ xs) ! (4 + k) = xs ! k" for xs k
    by (simp add: nth_append)
  show ?case
  proof (cases i)
    case 0
    have "readUInt32BE (writeUInt32BE v @ xs) 0 = readUInt32BE (writeUInt32BE v) 0" for xs
      by (simp add: readUInt32BE_def nth_append)
    with 0 Cons.prems readUInt32BE_write show ?thesis by simp
  next
    case (Suc k)
    have "readUInt32BE (writeUInt32BE v @ xs) (Suc k * 4) = readUInt32BE xs (k * 4)" for xs
      using shift [of xs "k * 4"] shift [of xs "k * 4 + 1"] shift [of xs "k * 4 + 2"]
        shift [of xs "k * 4 + 3"]
      by (simp add: readUInt32BE_def add.assoc)
    with Suc Cons show ?thesis by simp
  qed
qed

lemma length_concat_write [simp]: "length (concat (map writeUInt32BE vs)) = length vs * 4"
  by (induction vs) simp_all

lemma readUInt32BE_range: "0 \<le> readUInt32BE b k \<and> readUInt32BE b k < 2 ^ 32"
proof -
  have "0 \<le> uint (x :: byte) \<and> uint x \<le> 255" for x
    using unsigned_less [of x, where 'a = int] by simp
  from this [of "b ! k"] this [of "b ! (k + 1)"] this [of "b ! (k + 2)"] this [of "b ! (k + 3)"]
  show ?thesis by (simp add: readUInt32BE_def)
qed

subsection \<open>Encoding and decoding a minute\<close>

definition NO_LATENCY :: int where "NO_LATENCY = 0xffffffff"

definition isSafeInteger :: "int \<Rightarrow> bool" where
  "isSafeInteger v \<longleftrightarrow> \<bar>v\<bar> \<le> 2 ^ 53 - 1"

definition encodeValue :: "telemetry_value \<Rightarrow> js_error + byte list" where
  "encodeValue value =
    (if tv_completed value \<and> \<not> tv_expected value then
       Inl (Error ''An unexpected check cannot complete'')
     else if tv_failed value \<and> \<not> tv_completed value then
       Inl (Error ''An incomplete check cannot fail'')
     else if tv_completed value \<and> tv_latencyMs value = None then
       Inl (Error ''A completed check requires latency'')
     else case tv_latencyMs value of
         None \<Rightarrow> Inr (writeUInt32BE NO_LATENCY)
       | Some latency \<Rightarrow>
           (if \<not> isSafeInteger latency \<or> latency < 0 \<or> latency \<ge> NO_LATENCY then
              Inl (RangeError ''Latency must be a nonnegative 32-bit integer'')
            else Inr (writeUInt32BE latency)))"

fun encodeValues :: "telemetry_value list \<Rightarrow> js_error + byte list" where
  "encodeValues [] = Inr []"
| "encodeValues (v # vs) =
     res_bind (encodeValue v) (\<lambda>bytes. res_bind (encodeValues vs) (\<lambda>rest. Inr (bytes @ rest)))"

definition encodeTelemetry :: "telemetry_value list \<Rightarrow> js_error + packed_telemetry" where
  "encodeTelemetry values =
    res_bind (encodeValues values) (\<lambda>latencies.
      Inr \<lparr>pk_encodingVersion = PACKED_TELEMETRY_VERSION, pk_monitorCount = length values,
           pk_expectedBitmap = encodeBitmap (map tv_expected values),
           pk_completedBitmap = encodeBitmap (map tv_completed values),
           pk_failureBitmap = encodeBitmap (map tv_failed values),
           pk_latencyValues = latencies\<rparr>)"

definition decodeAt :: "packed_telemetry \<Rightarrow> nat \<Rightarrow> js_error + telemetry_value" where
  "decodeAt packed index =
    (let encodedLatency = readUInt32BE (pk_latencyValues packed) (index * 4);
         completed = readBit (pk_completedBitmap packed) index;
         failed = readBit (pk_failureBitmap packed) index;
         expected = readBit (pk_expectedBitmap packed) index
     in if failed \<and> \<not> completed then Inl (Error ''Invalid failure bitmap'')
        else if completed \<and> \<not> expected then Inl (Error ''Invalid completed bitmap'')
        else if completed = (encodedLatency = NO_LATENCY) then
          Inl (Error ''Invalid packed latency completion marker'')
        else Inr \<lparr>tv_expected = expected, tv_completed = completed, tv_failed = failed,
                  tv_latencyMs = (if encodedLatency = NO_LATENCY then None else Some encodedLatency)\<rparr>)"

fun decodeFrom :: "packed_telemetry \<Rightarrow> nat list \<Rightarrow> js_error + telemetry_value list" where
  "decodeFrom packed [] = Inr []"
| "decodeFrom packed (index # is) =
     res_bind (decodeAt packed index) (\<lambda>v. res_bind (decodeFrom packed is) (\<lambda>vs. Inr (v # vs)))"

definition decodeTelemetry :: "packed_telemetry \<Rightarrow> js_error + telemetry_value list" where
  "decodeTelemetry packed =
    (let bitmapBytes = ceil_div (pk_monitorCount packed) 8
     in if pk_encodingVersion packed \<noteq> PACKED_TELEMETRY_VERSION then
          Inl (Error (''Unsupported packed telemetry version: '' @ int_string (pk_encodingVersion packed)))
        else if \<not> list_all (\<lambda>bitmap. length bitmap = bitmapBytes)
               [pk_expectedBitmap packed, pk_completedBitmap packed, pk_failureBitmap packed] then
          Inl (Error ''Invalid packed bitmap length'')
        else if length (pk_latencyValues packed) \<noteq> pk_monitorCount packed * 4 then
          Inl (Error ''Invalid packed latency length'')
        else decodeFrom packed [0..<pk_monitorCount packed])"

subsection \<open>What encoder and decoder accept\<close>

definition encodable :: "telemetry_value \<Rightarrow> bool" where
  "encodable v \<longleftrightarrow> (tv_completed v \<longrightarrow> tv_expected v) \<and> (tv_failed v \<longrightarrow> tv_completed v) \<and>
     (tv_completed v \<longrightarrow> tv_latencyMs v \<noteq> None) \<and>
     (case tv_latencyMs v of None \<Rightarrow> True | Some l \<Rightarrow> 0 \<le> l \<and> l < NO_LATENCY)"

definition stored_latency :: "telemetry_value \<Rightarrow> int" where
  "stored_latency v = (case tv_latencyMs v of None \<Rightarrow> NO_LATENCY | Some l \<Rightarrow> l)"

lemma encodeValue_iff:
  "encodeValue v = Inr b \<longleftrightarrow> encodable v \<and> b = writeUInt32BE (stored_latency v)"
  by (auto simp: encodeValue_def encodable_def stored_latency_def isSafeInteger_def NO_LATENCY_def
      split: option.splits if_splits)

lemma encodeValues_iff:
  "encodeValues vs = Inr b \<longleftrightarrow>
     list_all encodable vs \<and> b = concat (map writeUInt32BE (map stored_latency vs))"
  by (induction vs arbitrary: b) (auto simp: res_bind_Inr_iff encodeValue_iff)

lemma encodeTelemetry_iff:
  "encodeTelemetry vs = Inr p \<longleftrightarrow> list_all encodable vs \<and>
     p = \<lparr>pk_encodingVersion = PACKED_TELEMETRY_VERSION, pk_monitorCount = length vs,
          pk_expectedBitmap = encodeBitmap (map tv_expected vs),
          pk_completedBitmap = encodeBitmap (map tv_completed vs),
          pk_failureBitmap = encodeBitmap (map tv_failed vs),
          pk_latencyValues = concat (map writeUInt32BE (map stored_latency vs))\<rparr>"
  by (auto simp: encodeTelemetry_def res_bind_Inr_iff encodeValues_iff)

lemma stored_latency_range: "encodable v \<Longrightarrow> 0 \<le> stored_latency v \<and> stored_latency v < 2 ^ 32"
  by (auto simp: encodable_def stored_latency_def NO_LATENCY_def split: option.splits)

definition packed_of :: "telemetry_value list \<Rightarrow> packed_telemetry" where
  "packed_of vs = \<lparr>pk_encodingVersion = PACKED_TELEMETRY_VERSION, pk_monitorCount = length vs,
          pk_expectedBitmap = encodeBitmap (map tv_expected vs),
          pk_completedBitmap = encodeBitmap (map tv_completed vs),
          pk_failureBitmap = encodeBitmap (map tv_failed vs),
          pk_latencyValues = concat (map writeUInt32BE (map stored_latency vs))\<rparr>"

lemma encoded_latency_at:
  assumes "list_all encodable vs" and "i < length vs"
  shows "readUInt32BE (pk_latencyValues (packed_of vs)) (i * 4) = stored_latency (vs ! i)"
proof -
  have "encodable (vs ! i)" using assms by (simp add: list_all_length)
  then have r: "0 \<le> stored_latency (vs ! i)" "stored_latency (vs ! i) < 2 ^ 32"
    using stored_latency_range by blast+
  have at: "map stored_latency vs ! i = stored_latency (vs ! i)" using assms(2) by simp
  have l: "pk_latencyValues (packed_of vs) = concat (map writeUInt32BE (map stored_latency vs))"
    unfolding packed_of_def by (rule packed_telemetry.select_convs)
  show ?thesis
    unfolding l using readUInt32BE_concat [of i "map stored_latency vs"] assms(2) r
    unfolding at length_map by blast
qed

lemma decodeAt_encoded:
  assumes "list_all encodable vs" and "i < length vs"
    and "tv_completed (vs ! i) \<longleftrightarrow> tv_latencyMs (vs ! i) \<noteq> None"
  shows "decodeAt (packed_of vs) i = Inr (vs ! i)"
proof -
  have v: "encodable (vs ! i)" using assms by (simp add: list_all_length)
  have bits: "readBit (pk_completedBitmap (packed_of vs)) i = tv_completed (vs ! i)"
      "readBit (pk_failureBitmap (packed_of vs)) i = tv_failed (vs ! i)"
      "readBit (pk_expectedBitmap (packed_of vs)) i = tv_expected (vs ! i)"
    using assms(2) by (simp_all add: packed_of_def readBit_encodeBitmap)
  have mark: "(stored_latency (vs ! i) = NO_LATENCY) = (tv_latencyMs (vs ! i) = None)"
    using v by (auto simp: encodable_def stored_latency_def split: option.splits)
  have lat: "(if stored_latency (vs ! i) = NO_LATENCY then None else Some (stored_latency (vs ! i)))
      = tv_latencyMs (vs ! i)"
    unfolding mark by (simp add: stored_latency_def split: option.splits)
  show ?thesis
    unfolding decodeAt_def bits encoded_latency_at [OF assms(1,2)] Let_def mark lat [unfolded mark]
    using v assms(3) by (cases "tv_latencyMs (vs ! i)") (auto simp: encodable_def)
qed

lemma decodeFrom_map:
  "\<forall>i \<in> set is. decodeAt p i = Inr (f i) \<Longrightarrow> decodeFrom p is = Inr (map f is)"
  by (induction "is") simp_all

lemma decodeFrom_Inr:
  "decodeFrom p is = Inr vs \<Longrightarrow> length vs = length is \<and> (\<forall>k < length is. decodeAt p (is ! k) = Inr (vs ! k))"
proof (induction "is" arbitrary: vs)
  case Nil
  then show ?case by simp
next
  case (Cons i "is")
  then show ?case by (auto simp: res_bind_Inr_iff nth_Cons split: nat.splits)
qed

lemma decodeTelemetry_encoded:
  assumes "list_all encodable vs"
    and "\<forall>v \<in> set vs. tv_completed v \<longleftrightarrow> tv_latencyMs v \<noteq> None"
  shows "decodeTelemetry (packed_of vs) = Inr vs"
proof -
  have "decodeFrom (packed_of vs) [0..<length vs] = Inr (map ((!) vs) [0..<length vs])"
    using assms by (intro decodeFrom_map) (auto intro!: decodeAt_encoded)
  moreover have "length (pk_latencyValues (packed_of vs)) = length vs * 4"
    using length_concat_write [of "map stored_latency vs"] by (simp add: packed_of_def del: length_concat_write)
  ultimately show ?thesis
    by (simp add: decodeTelemetry_def map_nth) (simp add: packed_of_def)
qed

text \<open>Consistent telemetry: what a decoded entry satisfies.\<close>

definition consistent_value :: "telemetry_value \<Rightarrow> bool" where
  "consistent_value v \<longleftrightarrow> encodable v \<and> (tv_completed v \<longleftrightarrow> tv_latencyMs v \<noteq> None)"

lemma decodeAt_consistent: "decodeAt p i = Inr v \<Longrightarrow> consistent_value v"
  using readUInt32BE_range [of "pk_latencyValues p" "i * 4"]
  by (auto simp: decodeAt_def Let_def consistent_value_def encodable_def NO_LATENCY_def split: if_splits)

subsection \<open>Properties\<close>

text \<open>C26. Telemetry round trip: what the encoder packs for a minute whose entries carry a latency
  exactly when the check completed, the decoder unpacks unchanged.\<close>

theorem telemetry_roundtrip:
  assumes "encodeTelemetry vs = Inr p"
    and "\<forall>v \<in> set vs. tv_completed v \<longleftrightarrow> tv_latencyMs v \<noteq> None"
  shows "decodeTelemetry p = Inr vs"
  using assms decodeTelemetry_encoded [of vs] by (simp add: encodeTelemetry_iff packed_of_def)

definition sample_telemetry :: "telemetry_value list" where
  "sample_telemetry =
     [\<lparr>tv_expected = True, tv_completed = True, tv_failed = False, tv_latencyMs = Some 421\<rparr>,
      \<lparr>tv_expected = True, tv_completed = False, tv_failed = False, tv_latencyMs = None\<rparr>,
      \<lparr>tv_expected = True, tv_completed = True, tv_failed = True, tv_latencyMs = Some 70000\<rparr>]"

theorem telemetry_roundtrip_witness:
  "\<exists>p. encodeTelemetry sample_telemetry = Inr p \<and> decodeTelemetry p = Inr sample_telemetry"
proof -
  have "list_all encodable sample_telemetry"
    by (simp add: sample_telemetry_def encodable_def NO_LATENCY_def)
  then obtain p where p: "encodeTelemetry sample_telemetry = Inr p"
    by (simp add: encodeTelemetry_iff)
  have "\<forall>v \<in> set sample_telemetry. tv_completed v \<longleftrightarrow> tv_latencyMs v \<noteq> None"
    by (simp add: sample_telemetry_def)
  from telemetry_roundtrip [OF p this] p show ?thesis by blast
qed

text \<open>C27. The decoder is a validator: whatever packed batch it accepts, it returns one entry per
  monitor, each of them completed only if expected, failed only if completed, with a latency in
  range exactly when completed; and re-encoding the entries gives a batch that decodes alike.\<close>

theorem decode_validates:
  assumes "decodeTelemetry p = Inr vs"
  shows "length vs = pk_monitorCount p \<and> list_all consistent_value vs \<and>
         res_bind (encodeTelemetry vs) decodeTelemetry = Inr vs"
proof -
  have d: "decodeFrom p [0..<pk_monitorCount p] = Inr vs"
    using assms by (auto simp: decodeTelemetry_def Let_def split: if_splits)
  from decodeFrom_Inr [OF d] have len: "length vs = pk_monitorCount p"
    and at: "\<forall>k < length vs. decodeAt p k = Inr (vs ! k)" by auto
  then have c: "list_all consistent_value vs"
    by (auto simp: list_all_length intro: decodeAt_consistent)
  then have "list_all encodable vs" "\<forall>v \<in> set vs. tv_completed v \<longleftrightarrow> tv_latencyMs v \<noteq> None"
    by (auto simp: list_all_iff consistent_value_def)
  then have "res_bind (encodeTelemetry vs) decodeTelemetry = Inr vs"
    using encodeTelemetry_iff [of vs "packed_of vs"] decodeTelemetry_encoded
    by (simp add: packed_of_def)
  with len c show ?thesis by simp
qed

theorem decode_validates_witness:
  "\<exists>vs. decodeTelemetry \<lparr>pk_encodingVersion = 1, pk_monitorCount = 1, pk_expectedBitmap = [1],
          pk_completedBitmap = [1], pk_failureBitmap = [0], pk_latencyValues = [0, 0, 1, 2]\<rparr> = Inr vs \<and>
        length vs = 1 \<and> list_all consistent_value vs"
proof -
  let ?p = "\<lparr>pk_encodingVersion = 1, pk_monitorCount = 1, pk_expectedBitmap = [1],
          pk_completedBitmap = [1], pk_failureBitmap = [0], pk_latencyValues = [0, 0, 1, 2]\<rparr>"
  obtain vs where "decodeTelemetry ?p = Inr vs"
    by (simp add: decodeTelemetry_def PACKED_TELEMETRY_VERSION_def ceil_div_def decodeAt_def
        readBit_def readUInt32BE_def NO_LATENCY_def Let_def)
  with decode_validates [OF this] show ?thesis by auto
qed

end
