(* ===== verification/Storage_Policy.thy ===== *)
theory Storage_Policy
  imports Codec
begin

text \<open>
  How much monitoring detail the database keeps: the governor of \<open>lib/storage/governor.ts\<close>,
  its SQL twin in \<open>MEASURE_USAGE_SQL\<close> (\<open>lib/storage/sql.ts\<close>), the retention ladder of each
  mode, and the latency histogram of \<open>lib/storage/histogram.ts\<close>. The TypeScript \<open>bigint\<close>s are
  integers; \<open>/\<close> on the non-negative values the code admits is \<open>div\<close>. Latencies are the
  integer milliseconds the checker stores.
\<close>

subsection \<open>Governor modes\<close>

datatype governor_mode = Full | Compact_early | Shortened | Incident_only | Essential

definition governorModes :: "governor_mode list" where
  "governorModes = [Full, Compact_early, Shortened, Incident_only, Essential]"

text \<open>The modes are listed from the most to the least detailed; that order is the type's.\<close>

instantiation governor_mode :: linorder
begin

definition less_eq_governor_mode :: "governor_mode \<Rightarrow> governor_mode \<Rightarrow> bool" where
  "less_eq_governor_mode a b \<longleftrightarrow> index_of a governorModes \<le> index_of b governorModes"

definition less_governor_mode :: "governor_mode \<Rightarrow> governor_mode \<Rightarrow> bool" where
  "less_governor_mode a b \<longleftrightarrow> index_of a governorModes < index_of b governorModes"

instance
proof
  fix a b :: governor_mode
  assume "a \<le> b" "b \<le> a"
  then show "a = b"
    by (cases a; cases b) (simp_all add: less_eq_governor_mode_def governorModes_def)
qed (auto simp: less_eq_governor_mode_def less_governor_mode_def)

end

lemma governor_mode_le [simp]:
  "Full \<le> m" "m \<le> Essential"
  "Compact_early \<le> m \<longleftrightarrow> m \<noteq> Full"
  "Shortened \<le> m \<longleftrightarrow> m \<in> {Shortened, Incident_only, Essential}"
  "Incident_only \<le> m \<longleftrightarrow> m \<in> {Incident_only, Essential}"
  "Essential \<le> m \<longleftrightarrow> m = Essential"
  by (cases m; simp add: less_eq_governor_mode_def governorModes_def)+

definition STORAGE_BUDGET_BYTES :: int where "STORAGE_BUDGET_BYTES = 500000000"

record threshold_percents =
  th_compactEarly :: int
  th_shortened :: int
  th_incidentOnly :: int
  th_essential :: int

definition GOVERNOR_THRESHOLD_PERCENTS :: threshold_percents where
  "GOVERNOR_THRESHOLD_PERCENTS =
     \<lparr>th_compactEarly = 60, th_shortened = 75, th_incidentOnly = 85, th_essential = 95\<rparr>"

definition governorMode :: "int \<Rightarrow> int \<Rightarrow> js_error + governor_mode" where
  "governorMode projectedBytes budgetBytes =
    (if projectedBytes < 0 \<or> budgetBytes \<le> 0 then
       Inl (RangeError ''Storage values must be valid'')
     else
       (let basisPoints = projectedBytes * 10000 div budgetBytes;
            t = GOVERNOR_THRESHOLD_PERCENTS
        in Inr (if basisPoints < th_compactEarly t * 100 then Full
                else if basisPoints < th_shortened t * 100 then Compact_early
                else if basisPoints < th_incidentOnly t * 100 then Shortened
                else if projectedBytes * 100 \<le> budgetBytes * th_essential t then Incident_only
                else Essential)))"

text \<open>
  The \<open>classified\<close> step of \<open>MEASURE_USAGE_SQL\<close>, from the projected size on: its products are \<open>bigint\<close>s,
  64 bits with an error on overflow. The arms are evaluated in order; a planner that folds the
  constant products of the later arms beforehand may raise for a budget on which no arm reached
  here does.
\<close>

definition bigint_times :: "int \<Rightarrow> int \<Rightarrow> js_error + int" where
  "bigint_times x y =
    (if - (2 ^ 63) \<le> x * y \<and> x * y < 2 ^ 63 then Inr (x * y)
     else Inl (RangeError ''bigint out of range''))"

definition compare_percent ::
  "(int \<Rightarrow> int \<Rightarrow> bool) \<Rightarrow> int \<Rightarrow> int \<Rightarrow> int \<Rightarrow> js_error + bool" where
  "compare_percent cmp projected_bytes budget percent =
     res_bind (bigint_times projected_bytes 100) (\<lambda>used.
     res_bind (bigint_times budget percent) (\<lambda>allowed. Inr (cmp used allowed)))"

definition sql_governor_mode :: "int \<Rightarrow> int \<Rightarrow> js_error + governor_mode" where
  "sql_governor_mode projected_bytes budget =
    (let t = GOVERNOR_THRESHOLD_PERCENTS
     in res_bind (compare_percent (<) projected_bytes budget (th_compactEarly t)) (\<lambda>full.
        if full then Inr Full else
        res_bind (compare_percent (<) projected_bytes budget (th_shortened t)) (\<lambda>early.
        if early then Inr Compact_early else
        res_bind (compare_percent (<) projected_bytes budget (th_incidentOnly t)) (\<lambda>short.
        if short then Inr Shortened else
        res_bind (compare_percent (\<le>) projected_bytes budget (th_essential t)) (\<lambda>incident.
        Inr (if incident then Incident_only else Essential))))))"

text \<open>What both compute: the mode by the exact percentage of the budget.\<close>

definition governor_ladder :: "int \<Rightarrow> int \<Rightarrow> governor_mode" where
  "governor_ladder p b =
    (if 100 * p < 60 * b then Full
     else if 100 * p < 75 * b then Compact_early
     else if 100 * p < 85 * b then Shortened
     else if 100 * p \<le> 95 * b then Incident_only
     else Essential)"

record retention_policy =
  rp_minuteHours :: int
  rp_quarterHourDays :: int
  rp_hourlyDays :: int
  rp_preserveIncidentDetail :: bool
  rp_preserveDaily :: bool

fun retentionFor :: "governor_mode \<Rightarrow> retention_policy" where
  "retentionFor Full =
     \<lparr>rp_minuteHours = 48, rp_quarterHourDays = 7, rp_hourlyDays = 30,
      rp_preserveIncidentDetail = True, rp_preserveDaily = True\<rparr>"
| "retentionFor Compact_early =
     \<lparr>rp_minuteHours = 36, rp_quarterHourDays = 7, rp_hourlyDays = 30,
      rp_preserveIncidentDetail = True, rp_preserveDaily = True\<rparr>"
| "retentionFor Shortened =
     \<lparr>rp_minuteHours = 24, rp_quarterHourDays = 3, rp_hourlyDays = 30,
      rp_preserveIncidentDetail = True, rp_preserveDaily = True\<rparr>"
| "retentionFor Incident_only =
     \<lparr>rp_minuteHours = 12, rp_quarterHourDays = 1, rp_hourlyDays = 14,
      rp_preserveIncidentDetail = True, rp_preserveDaily = True\<rparr>"
| "retentionFor Essential =
     \<lparr>rp_minuteHours = 0, rp_quarterHourDays = 0, rp_hourlyDays = 0,
      rp_preserveIncidentDetail = False, rp_preserveDaily = True\<rparr>"

text \<open>A policy keeps no more than another one.\<close>

definition retains_at_most :: "retention_policy \<Rightarrow> retention_policy \<Rightarrow> bool" where
  "retains_at_most p q \<longleftrightarrow>
     rp_minuteHours p \<le> rp_minuteHours q \<and> rp_quarterHourDays p \<le> rp_quarterHourDays q \<and>
     rp_hourlyDays p \<le> rp_hourlyDays q \<and>
     (rp_preserveIncidentDetail p \<longrightarrow> rp_preserveIncidentDetail q) \<and>
     (rp_preserveDaily p \<longrightarrow> rp_preserveDaily q)"

lemma div_less_bound:
  fixes x b k :: int
  assumes "0 < b"
  shows "x div b < k \<longleftrightarrow> x < k * b"
proof
  assume "x div b < k"
  then have "(x div b + 1) * b \<le> k * b" using assms by (intro mult_right_mono) auto
  moreover have "x = x div b * b + x mod b" "x mod b < b" using assms by simp_all
  ultimately show "x < k * b" unfolding distrib_right by linarith
next
  assume less: "x < k * b"
  show "x div b < k"
  proof (rule ccontr)
    assume "\<not> x div b < k"
    then have "k * b \<le> x div b * b" using assms by (intro mult_right_mono) auto
    moreover have "x = x div b * b + x mod b" "0 \<le> x mod b" using assms by simp_all
    ultimately show False using less by linarith
  qed
qed

lemma basis_points_less:
  fixes p b k :: int
  assumes "0 < b"
  shows "p * 10000 div b < k * 100 \<longleftrightarrow> p * 100 < b * k"
  unfolding div_less_bound [OF assms] by (simp add: mult.commute mult.left_commute)

lemma governorMode_ladder: "0 \<le> p \<Longrightarrow> 0 < b \<Longrightarrow> governorMode p b = Inr (governor_ladder p b)"
  unfolding governorMode_def governor_ladder_def Let_def
  by (simp only: basis_points_less) (simp add: GOVERNOR_THRESHOLD_PERCENTS_def mult.commute)

lemma bigint_times_ok:
  assumes "0 \<le> x * y" and "x * y < 2 ^ 63"
  shows "bigint_times x y = Inr (x * y)"
proof -
  have "- (2 ^ 63) \<le> x * y" using assms(1) by (rule order_trans [rotated]) simp
  with assms(2) show ?thesis by (simp only: bigint_times_def simp_thms if_True)
qed

lemma compare_percent_answers:
  assumes "0 \<le> p" and "0 < b" and "0 \<le> k" and "p * 100 < 2 ^ 63" and "b * k < 2 ^ 63"
  shows "compare_percent cmp p b k = Inr (cmp (p * 100) (b * k))"
proof -
  have "0 \<le> b * k" "0 \<le> p * 100" using assms by simp_all
  with assms(4,5) show ?thesis by (simp only: compare_percent_def bigint_times_ok res_bind_simps)
qed

lemma sql_governor_raises:
  "2 ^ 63 \<le> p * 100 \<Longrightarrow> sql_governor_mode p b = Inl (RangeError ''bigint out of range'')"
  by (simp add: sql_governor_mode_def compare_percent_def bigint_times_def Let_def)

lemma sql_governor_answers:
  assumes "0 \<le> p" and "0 < b" and "p * 100 < 2 ^ 63" and "b * 95 < 2 ^ 63"
  shows "sql_governor_mode p b = Inr (governor_ladder p b)"
proof -
  have "compare_percent cmp p b k = Inr (cmp (p * 100) (b * k))" if "k \<in> {60, 75, 85, 95}" for cmp k
    using assms that by (intro compare_percent_answers) auto
  then show ?thesis
    by (simp add: sql_governor_mode_def governor_ladder_def GOVERNOR_THRESHOLD_PERCENTS_def Let_def
        mult.commute)
qed

lemma compare_percent_Inr:
  "compare_percent cmp p b k = Inr c \<Longrightarrow> c = cmp (p * 100) (b * k)"
  by (auto simp: compare_percent_def bigint_times_def split: if_splits)

lemma sql_governor_sound:
  assumes "sql_governor_mode p b = Inr m"
  shows "m = governor_ladder p b"
  using assms
  by (auto simp: sql_governor_mode_def governor_ladder_def GOVERNOR_THRESHOLD_PERCENTS_def Let_def
      res_bind_Inr_iff mult.commute dest!: compare_percent_Inr split: if_splits)

lemma governorMode_Inr:
  "governorMode p b = Inr m \<longleftrightarrow> 0 \<le> p \<and> 0 < b \<and> m = governor_ladder p b"
proof (cases "0 \<le> p \<and> 0 < b")
  case True
  then show ?thesis by (auto simp: governorMode_ladder)
next
  case False
  then show ?thesis by (auto simp: governorMode_def)
qed

lemma governor_ladder_mono: "p \<le> q \<Longrightarrow> governor_ladder p b \<le> governor_ladder q b"
  by (auto simp: governor_ladder_def)

lemma retentionFor_antimono: "m \<le> n \<Longrightarrow> retains_at_most (retentionFor n) (retentionFor m)"
  by (cases m; cases n) (simp_all add: retains_at_most_def)

subsection \<open>Latency histograms\<close>

definition LATENCY_BUCKET_UPPER_BOUNDS_MS :: "int list" where
  "LATENCY_BUCKET_UPPER_BOUNDS_MS = [100, 250, 500, 1000, 2500, 5000, 10000]"

definition HISTOGRAM_BUCKET_COUNT :: nat where
  "HISTOGRAM_BUCKET_COUNT = length LATENCY_BUCKET_UPPER_BOUNDS_MS + 1"

definition latencyBucket :: "int \<Rightarrow> js_error + nat" where
  "latencyBucket latencyMs =
    (if latencyMs < 0 then Inl (RangeError ''Latency must be nonnegative'')
     else
       (let index = findIndex (\<lambda>upper. latencyMs \<le> upper) LATENCY_BUCKET_UPPER_BOUNDS_MS
        in Inr (if index < 0 then HISTOGRAM_BUCKET_COUNT - 1 else nat index)))"

fun addLatencies :: "nat list \<Rightarrow> int list \<Rightarrow> js_error + nat list" where
  "addLatencies histogram [] = Inr histogram"
| "addLatencies histogram (v # vs) =
     res_bind (latencyBucket v) (\<lambda>b. addLatencies (histogram[b := histogram ! b + 1]) vs)"

definition histogramFor :: "int list \<Rightarrow> js_error + nat list" where
  "histogramFor values = addLatencies (replicate HISTOGRAM_BUCKET_COUNT 0) values"

text \<open>A stored histogram is any list of numbers; \<open>mergeHistograms\<close> checks each of them.\<close>

fun addCounts :: "int list \<Rightarrow> nat \<Rightarrow> int list \<Rightarrow> js_error + int list" where
  "addCounts merged index [] = Inr merged"
| "addCounts merged index (count # counts) =
     (if count < 0 then Inl (RangeError ''Histogram counts must be nonnegative integers'')
      else addCounts (merged[index := merged ! index + count]) (index + 1) counts)"

fun mergeInto :: "int list \<Rightarrow> int list list \<Rightarrow> js_error + int list" where
  "mergeInto merged [] = Inr merged"
| "mergeInto merged (histogram # histograms) =
     (if length histogram \<noteq> HISTOGRAM_BUCKET_COUNT then
        Inl (Error ''Histogram version mismatch'')
      else res_bind (addCounts merged 0 histogram) (\<lambda>m. mergeInto m histograms))"

definition mergeHistograms :: "int list list \<Rightarrow> js_error + int list" where
  "mergeHistograms histograms = mergeInto (replicate HISTOGRAM_BUCKET_COUNT 0) histograms"

text \<open>The specification: bucket \<open>k\<close> counts the latencies above its lower and up to its upper bound.\<close>

definition in_bucket :: "nat \<Rightarrow> int \<Rightarrow> bool" where
  "in_bucket k v \<longleftrightarrow>
     (k = 0 \<or> LATENCY_BUCKET_UPPER_BOUNDS_MS ! (k - 1) < v) \<and>
     (k = HISTOGRAM_BUCKET_COUNT - 1 \<or> v \<le> LATENCY_BUCKET_UPPER_BOUNDS_MS ! k)"

definition bucket_counts :: "int list \<Rightarrow> nat list" where
  "bucket_counts vs = map (\<lambda>k. length (filter (in_bucket k) vs)) [0..<HISTOGRAM_BUCKET_COUNT]"

lemma bucket_count_8 [simp]: "HISTOGRAM_BUCKET_COUNT = 8"
  by (simp add: HISTOGRAM_BUCKET_COUNT_def LATENCY_BUCKET_UPPER_BOUNDS_MS_def)

lemma upto_8: "[0..<8] = [0, 1, 2, 3, 4, 5, 6, 7::nat]"
  by (simp add: upt_rec)

lemma less_8: "k < 8 \<longleftrightarrow> k \<in> {0, 1, 2, 3, 4, 5, 6, 7::nat}"
  by auto

lemma latencyBucket_in_bucket:
  assumes "0 \<le> v" shows "\<exists>b. latencyBucket v = Inr b \<and> b < 8 \<and> (\<forall>k < 8. in_bucket k v \<longleftrightarrow> k = b)"
proof -
  have cases: "v \<le> 100 \<or> (100 < v \<and> v \<le> 250) \<or> (250 < v \<and> v \<le> 500) \<or> (500 < v \<and> v \<le> 1000) \<or>
      (1000 < v \<and> v \<le> 2500) \<or> (2500 < v \<and> v \<le> 5000) \<or> (5000 < v \<and> v \<le> 10000) \<or> 10000 < v"
    by linarith
  then show ?thesis
    using assms
    by (elim disjE)
      (simp_all add: latencyBucket_def LATENCY_BUCKET_UPPER_BOUNDS_MS_def Let_def less_8 in_bucket_def)
qed

lemma in_bucket_unique: "0 \<le> v \<Longrightarrow> latencyBucket v = Inr b \<Longrightarrow> k < 8 \<Longrightarrow> in_bucket k v \<longleftrightarrow> k = b"
  using latencyBucket_in_bucket [of v] by auto

lemma addLatencies_counts:
  assumes "length h = 8" and "\<forall>v \<in> set vs. 0 \<le> v"
  shows "\<exists>h'. addLatencies h vs = Inr h' \<and> length h' = 8 \<and>
           (\<forall>k < 8. h' ! k = h ! k + length (filter (in_bucket k) vs))"
  using assms
proof (induction vs arbitrary: h)
  case Nil
  then show ?case by simp
next
  case (Cons v vs)
  from Cons.prems obtain b where b: "latencyBucket v = Inr b" "b < 8"
      "\<forall>k < 8. in_bucket k v \<longleftrightarrow> k = b"
    using latencyBucket_in_bucket [of v] by auto
  obtain h' where h': "addLatencies (h[b := h ! b + 1]) vs = Inr h'" "length h' = 8"
      "\<forall>k < 8. h' ! k = h[b := h ! b + 1] ! k + length (filter (in_bucket k) vs)"
    using Cons.IH [of "h[b := h ! b + 1]"] Cons.prems by auto
  have "h' ! k = h ! k + length (filter (in_bucket k) (v # vs))" if "k < 8" for k
    using that b h'(3) Cons.prems(1) by (auto simp: nth_list_update)
  with b h' show ?case by simp
qed

lemma histogramFor_counts:
  assumes "\<forall>v \<in> set vs. 0 \<le> v" shows "histogramFor vs = Inr (bucket_counts vs)"
proof -
  obtain h where h: "addLatencies (replicate 8 0) vs = Inr h" "length h = 8"
      "\<forall>k < 8. h ! k = length (filter (in_bucket k) vs)"
    using addLatencies_counts [of "replicate 8 0" vs] assms by auto
  have "h = bucket_counts vs"
    by (rule nth_equalityI) (simp_all add: h bucket_counts_def)
  with h show ?thesis by (simp add: histogramFor_def)
qed

lemma addLatencies_error: "v \<in> set vs \<Longrightarrow> v < 0 \<Longrightarrow> addLatencies h vs = Inl (RangeError ''Latency must be nonnegative'')"
proof (induction vs arbitrary: h)
  case Nil
  then show ?case by simp
next
  case (Cons w vs)
  then show ?case
    by (cases "w < 0") (auto simp: latencyBucket_def Let_def)
qed

lemma addCounts_add:
  assumes "\<forall>c \<in> set cs. 0 \<le> c" and "i + length cs \<le> length m"
  shows "\<exists>m'. addCounts m i cs = Inr m' \<and> length m' = length m \<and>
           (\<forall>k < length m. m' ! k = m ! k + (if i \<le> k \<and> k < i + length cs then cs ! (k - i) else 0))"
  using assms
proof (induction cs arbitrary: m i)
  case Nil
  then show ?case by simp
next
  case (Cons c cs)
  let ?m = "m[i := m ! i + c]"
  obtain m' where m': "addCounts ?m (i + 1) cs = Inr m'" "length m' = length m"
      "\<forall>k < length m. m' ! k = ?m ! k + (if i + 1 \<le> k \<and> k < i + 1 + length cs then cs ! (k - (i + 1)) else 0)"
    using Cons.IH [of "i + 1" ?m] Cons.prems by auto
  have "m' ! k = m ! k + (if i \<le> k \<and> k < i + length (c # cs) then (c # cs) ! (k - i) else 0)"
    if "k < length m" for k
    using that m'(3) by (cases "k = i"; cases "i < k") (auto simp: nth_Cons' Suc_diff_Suc)
  with m' Cons.prems show ?case by auto
qed

lemma mergeInto_add:
  assumes "length m = 8" and "\<forall>h \<in> set hs. length h = 8 \<and> (\<forall>c \<in> set h. 0 \<le> c)"
  shows "mergeInto m hs = Inr (map (\<lambda>k. m ! k + (\<Sum>h\<leftarrow>hs. h ! k)) [0..<8])"
  using assms
proof (induction hs arbitrary: m)
  case Nil
  have "map ((!) m) [0..<8] = m" using map_nth [of m] Nil by simp
  then show ?case by simp
next
  case (Cons h hs)
  obtain m' where m': "addCounts m 0 h = Inr m'" "length m' = 8" "\<forall>k < 8. m' ! k = m ! k + h ! k"
    using addCounts_add [of h 0 m] Cons.prems by fastforce
  from Cons.IH [OF m'(2)] Cons.prems m' show ?case by simp
qed

lemma mergeHistograms_sum:
  assumes "\<forall>h \<in> set hs. length h = 8 \<and> (\<forall>c \<in> set h. 0 \<le> c)"
  shows "mergeHistograms hs = Inr (map (\<lambda>k. \<Sum>h\<leftarrow>hs. h ! k) [0..<8])"
  using mergeInto_add [of "replicate 8 0" hs] assms by (simp add: mergeHistograms_def upto_8)

lemma bucket_counts_nth: "k < 8 \<Longrightarrow> bucket_counts vs ! k = length (filter (in_bucket k) vs)"
  by (simp add: bucket_counts_def)

lemma length_bucket_counts [simp]: "length (bucket_counts vs) = 8"
  by (simp add: bucket_counts_def)

lemma merge_bucket_counts:
  "mergeHistograms (map (map int \<circ> bucket_counts) vss) = Inr (map int (bucket_counts (concat vss)))"
proof -
  have "(\<Sum>h\<leftarrow>map (map int \<circ> bucket_counts) vss. h ! k) = int (bucket_counts (concat vss) ! k)"
    if "k < 8" for k
    using that by (induction vss) (simp_all add: bucket_counts_nth)
  then have "map (\<lambda>k. \<Sum>h\<leftarrow>map (map int \<circ> bucket_counts) vss. h ! k) [0..<8] =
      map int (bucket_counts (concat vss))"
    by (intro nth_equalityI) simp_all
  then show ?thesis by (subst mergeHistograms_sum) auto
qed

lemma sum_bucket_counts: "\<forall>v \<in> set vs. 0 \<le> v \<Longrightarrow> sum_list (bucket_counts vs) = length vs"
proof (induction vs)
  case Nil
  show ?case by (simp add: bucket_counts_def)
next
  case (Cons v vs)
  obtain b where b: "b < 8" "\<forall>k < 8. in_bucket k v \<longleftrightarrow> k = b"
    using latencyBucket_in_bucket [of v] Cons.prems by auto
  have "bucket_counts (v # vs) = (bucket_counts vs)[b := bucket_counts vs ! b + 1]"
    using b by (intro nth_equalityI) (auto simp: bucket_counts_nth nth_list_update)
  moreover have "sum_list ((bucket_counts vs)[b := bucket_counts vs ! b + 1]) =
      sum_list (bucket_counts vs) + 1"
    using b(1) by (subst sum_list_update) (auto intro: member_le_sum_list)
  ultimately show ?case using Cons by simp
qed

subsection \<open>Properties\<close>

text \<open>C32. The governor exists twice: in TypeScript, on basis points rounded down and unbounded, and as a
  CASE in the SQL that records a usage snapshot, on exact products of 64 bits. On every projected
  size and positive budget the TypeScript one chooses the mode of the exact percentage, and it raises
  outside. Whenever the SQL one chooses a mode it is the same; it does when a hundred times the size
  and 95 times the budget stay below \<open>2^63\<close>, and it raises when the first does not.\<close>

theorem governor_agrees_with_sql:
  "if p < 0 \<or> b \<le> 0 then governorMode p b = Inl (RangeError ''Storage values must be valid'')
   else governorMode p b = Inr (governor_ladder p b) \<and>
        (\<forall>m. sql_governor_mode p b = Inr m \<longrightarrow> m = governor_ladder p b) \<and>
        (p * 100 < 2 ^ 63 \<and> b * 95 < 2 ^ 63 \<longrightarrow> sql_governor_mode p b = Inr (governor_ladder p b)) \<and>
        (2 ^ 63 \<le> p * 100 \<longrightarrow>
           sql_governor_mode p b = Inl (RangeError ''bigint out of range''))"
proof (cases "p < 0 \<or> b \<le> 0")
  case True
  then show ?thesis by (simp add: governorMode_def)
next
  case False
  then have "0 \<le> p" "0 < b" by simp_all
  then show ?thesis
    unfolding if_not_P [OF False]
    by (intro conjI impI allI)
      (rule governorMode_ladder sql_governor_sound sql_governor_answers sql_governor_raises;
        (elim conjE)?; assumption)+
qed

theorem governor_agrees_with_sql_witness:
  "governorMode 425000000 STORAGE_BUDGET_BYTES = Inr Incident_only \<and>
   sql_governor_mode 425000000 STORAGE_BUDGET_BYTES = Inr Incident_only"
  using governor_agrees_with_sql [of 425000000 STORAGE_BUDGET_BYTES]
  by (simp add: STORAGE_BUDGET_BYTES_def governor_ladder_def)

text \<open>Storage pressure only ever reduces detail: a larger projected size selects a mode at
  least as strict, whose retention keeps no more on any rung of the ladder.\<close>

theorem pressure_reduces_detail:
  assumes "governorMode p b = Inr m" and "governorMode q b = Inr n" and "p \<le> q"
  shows "m \<le> n \<and> retains_at_most (retentionFor n) (retentionFor m)"
  using assms governor_ladder_mono [of p q b] retentionFor_antimono
  by (auto simp: governorMode_Inr)

theorem pressure_reduces_detail_witness:
  "governorMode 300000000 STORAGE_BUDGET_BYTES = Inr Compact_early \<and>
   governorMode 475000001 STORAGE_BUDGET_BYTES = Inr Essential \<and>
   Compact_early \<le> Essential \<and> retains_at_most (retentionFor Essential) (retentionFor Compact_early)"
proof -
  have "governorMode 300000000 STORAGE_BUDGET_BYTES = Inr Compact_early"
      "governorMode 475000001 STORAGE_BUDGET_BYTES = Inr Essential"
    by (simp_all add: governorMode_def STORAGE_BUDGET_BYTES_def GOVERNOR_THRESHOLD_PERCENTS_def Let_def)
  with pressure_reduces_detail [OF this] show ?thesis by simp
qed

text \<open>Histograms may be merged: for non-negative latencies, merging the histograms of any
  pieces gives the histogram of the whole, whose counts add up to the number of latencies.\<close>

theorem histogram_merge:
  assumes "\<forall>vs \<in> set vss. \<forall>v \<in> set vs. 0 \<le> v" and "histogramFor (concat vss) = Inr whole"
    and "map histogramFor vss = map Inr parts"
  shows "mergeHistograms (map (map int) parts) = Inr (map int whole) \<and>
         sum_list whole = length (concat vss)"
proof -
  have all: "\<forall>v \<in> set (concat vss). 0 \<le> v" using assms(1) by auto
  then have whole: "whole = bucket_counts (concat vss)"
    using assms(2) histogramFor_counts by force
  have "map histogramFor vss = map (Inr \<circ> bucket_counts) vss"
    using assms(1) by (auto simp: histogramFor_counts)
  with assms(3) have "map Inr parts = map (Inr :: nat list \<Rightarrow> js_error + nat list) (map bucket_counts vss)"
    by simp
  then have "parts = map bucket_counts vss"
    by (metis inj_Inr inj_map_eq_map)
  with whole merge_bucket_counts [of vss] sum_bucket_counts [OF all] show ?thesis by (simp add: comp_def)
qed

theorem histogram_merge_witness:
  "mergeHistograms [[1, 0, 1, 0, 0, 0, 0, 0], [0, 1, 0, 0, 0, 0, 0, 1]] = Inr [1, 1, 1, 0, 0, 0, 0, 1]"
proof -
  have parts: "map histogramFor [[100, 500], [101, 10001]] =
      map Inr [[1, 0, 1, 0, 0, 0, 0, 0], [0, 1, 0, 0, 0, 0, 0, 1]]"
    by (simp add: histogramFor_def latencyBucket_def LATENCY_BUCKET_UPPER_BOUNDS_MS_def Let_def numeral_eq_Suc)
  have whole: "histogramFor (concat [[100, 500], [101, 10001]]) = Inr [1, 1, 1, 0, 0, 0, 0, 1]"
    by (simp add: histogramFor_def latencyBucket_def LATENCY_BUCKET_UPPER_BOUNDS_MS_def Let_def numeral_eq_Suc)
  show ?thesis using histogram_merge [OF _ whole parts] by simp
qed

end
