(* ===== verification/Tables.thy ===== *)
theory Tables
  imports Storage_Policy Monitor_Life
begin

text \<open>
  The monitoring tables of \<open>lib/db/schema.ts\<close>: one record per table, and the CHECK constraints
  the database enforces on a row as a predicate. A \<open>timestamptz\<close> is an instant in milliseconds
  (every instant the program writes is one); a table is the list of its rows.
\<close>

record check_batch =
  cb_scheduledMinute :: instant
  cb_configVersion :: int
  cb_monitorIds :: "string list"
  cb_packed :: packed_telemetry
  cb_schedulerStartedAt :: instant
  cb_schedulerCompletedAt :: "instant option"
  cb_createdAt :: instant

definition check_batch_checks :: "check_batch \<Rightarrow> bool" where
  "check_batch_checks b \<longleftrightarrow>
     pk_encodingVersion (cb_packed b) > 0 \<and> cb_configVersion b \<ge> 0 \<and>
     (case cb_schedulerCompletedAt b of None \<Rightarrow> True | Some t \<Rightarrow> t \<ge> cb_schedulerStartedAt b)"

record incident =
  in_id :: string
  in_monitorId :: string
  in_openedAt :: instant
  in_firstFailureAt :: instant
  in_lastFailureAt :: "instant option"
  in_firstSuccessAt :: "instant option"
  in_resolvedAt :: "instant option"
  in_openingErrorCode :: "check_error_code option"
  in_openingStatusCode :: "int option"
  in_resolutionReason :: "string option"
  in_createdAt :: instant
  in_updatedAt :: instant

definition incident_checks :: "incident \<Rightarrow> bool" where
  "incident_checks i \<longleftrightarrow>
     in_openedAt i \<ge> in_firstFailureAt i \<and>
     (case in_resolvedAt i of None \<Rightarrow> True
      | Some r \<Rightarrow> r \<ge> in_openedAt i \<and> in_firstSuccessAt i = Some r)"

text \<open>\<open>incidents_one_active_per_monitor\<close>: a unique index over the unresolved rows.\<close>

definition one_active_per_monitor :: "incident list \<Rightarrow> bool" where
  "one_active_per_monitor t \<longleftrightarrow>
     distinct (map in_monitorId (filter (\<lambda>i. in_resolvedAt i = None) t))"

datatype resolution_size = Res_15m | Res_hour | Res_day

record rollup =
  mr_monitorId :: string
  mr_resolution :: resolution_size
  mr_bucketStart :: instant
  mr_expectedChecks :: int
  mr_completedChecks :: int
  mr_successfulChecks :: int
  mr_failedChecks :: int
  mr_unknownChecks :: int
  mr_downtimeSeconds :: int
  mr_unknownSeconds :: int
  mr_latencyCount :: int
  mr_latencySumMs :: int
  mr_latencyMinMs :: "int option"
  mr_latencyMaxMs :: "int option"
  mr_latencyHistogram :: "int list"
  mr_histogramVersion :: int
  mr_hasIncident :: bool
  mr_compactedAt :: instant

definition rollup_key :: "rollup \<Rightarrow> string \<times> resolution_size \<times> instant" where
  "rollup_key r = (mr_monitorId r, mr_resolution r, mr_bucketStart r)"

definition opt_nonneg :: "int option \<Rightarrow> bool" where
  "opt_nonneg v = (case v of None \<Rightarrow> True | Some x \<Rightarrow> x \<ge> 0)"

definition opt_ordered :: "int option \<Rightarrow> int option \<Rightarrow> bool" where
  "opt_ordered a b = (case (a, b) of (Some x, Some y) \<Rightarrow> x \<le> y | _ \<Rightarrow> True)"

definition rollup_checks :: "rollup \<Rightarrow> bool" where
  "rollup_checks r \<longleftrightarrow>
     (mr_expectedChecks r \<ge> 0 \<and> mr_completedChecks r \<ge> 0 \<and> mr_successfulChecks r \<ge> 0 \<and>
      mr_failedChecks r \<ge> 0 \<and> mr_unknownChecks r \<ge> 0 \<and>
      mr_completedChecks r \<le> mr_expectedChecks r \<and>
      mr_successfulChecks r + mr_failedChecks r = mr_completedChecks r \<and>
      mr_unknownChecks r = mr_expectedChecks r - mr_completedChecks r) \<and>
     (mr_downtimeSeconds r \<ge> 0 \<and> mr_unknownSeconds r \<ge> 0) \<and>
     (mr_latencyCount r \<ge> 0 \<and> mr_latencySumMs r \<ge> 0 \<and> opt_nonneg (mr_latencyMinMs r) \<and>
      opt_nonneg (mr_latencyMaxMs r) \<and> opt_ordered (mr_latencyMinMs r) (mr_latencyMaxMs r)) \<and>
     (mr_histogramVersion r > 0 \<and> length (mr_latencyHistogram r) = 8)"

end
