(* ===== verification/Rollups.thy ===== *)
theory Rollups
  imports Tables "HOL-Library.Multiset"
begin

text \<open>
  The roll-up of minute telemetry: \<open>COMPACT_15_MINUTE_SQL\<close> and \<open>PROMOTE_ROLLUP_SQL\<close> of
  \<open>lib/storage/sql.ts\<close> as functions on tables, and \<open>lib/storage/rollup-refresh.ts\<close>, which runs
  them after a minute that completes a quarter hour. \<open>date_bin(interval '15 minutes', t,
  '2000-01-01')\<close> and \<open>date_trunc(.., t at time zone 'UTC')\<close> are roundings down to a multiple of
  the bucket's length, since the origin and the epoch are such multiples. A cast of an
  out-of-range \<open>bigint\<close> to \<open>integer\<close> raises. Counts stay far below 2^31 (a day has 1440 minutes),
  so their casts are not modelled.
\<close>

definition MINUTE_MS :: int where "MINUTE_MS = 60000"
definition QUARTER_MS :: int where "QUARTER_MS = 900000"
definition HOUR_MS :: int where "HOUR_MS = 3600000"

definition floor_to :: "int \<Rightarrow> instant \<Rightarrow> instant" where
  "floor_to width t = t div width * width"

subsection \<open>Reading one batch in SQL\<close>

record minute_slot =
  sl_minute :: instant
  sl_monitorId :: string
  sl_expected :: int
  sl_completed :: int
  sl_failed :: int
  sl_latencyMs :: "int option"

definition get_byte :: "byte list \<Rightarrow> nat \<Rightarrow> int" where
  "get_byte bytes k = uint (bytes ! k)"

text \<open>\<open>position\<close> is 1-based, as \<open>with ordinality\<close> numbers.\<close>

definition sql_bit :: "byte list \<Rightarrow> nat \<Rightarrow> int" where
  "sql_bit bitmap position =
     drop_bit ((position - 1) mod 8) (get_byte bitmap ((position - 1) div 8)) AND 1"

definition sql_latency :: "byte list \<Rightarrow> nat \<Rightarrow> int" where
  "sql_latency values position =
     push_bit 24 (get_byte values ((position - 1) * 4)) +
     push_bit 16 (get_byte values ((position - 1) * 4 + 1)) +
     push_bit 8 (get_byte values ((position - 1) * 4 + 2)) +
     get_byte values ((position - 1) * 4 + 3)"

definition to_integer :: "int \<Rightarrow> js_error + int" where
  "to_integer v =
     (if v < - 2147483648 \<or> 2147483647 < v then Inl (Error ''integer out of range'') else Inr v)"

definition slot_at :: "check_batch \<Rightarrow> nat \<Rightarrow> js_error + minute_slot" where
  "slot_at batch position =
    (let packed = cb_packed batch;
         slot = \<lparr>sl_minute = cb_scheduledMinute batch,
                 sl_monitorId = cb_monitorIds batch ! (position - 1),
                 sl_expected = sql_bit (pk_expectedBitmap packed) position,
                 sl_completed = sql_bit (pk_completedBitmap packed) position,
                 sl_failed = sql_bit (pk_failureBitmap packed) position,
                 sl_latencyMs = None\<rparr>
     in if sl_completed slot = 1 then
          res_bind (to_integer (sql_latency (pk_latencyValues packed) position)) (\<lambda>l.
            Inr (slot\<lparr>sl_latencyMs := Some l\<rparr>))
        else Inr slot)"

definition batch_slots :: "check_batch \<Rightarrow> js_error + minute_slot list" where
  "batch_slots batch = res_map (slot_at batch) [1..<length (cb_monitorIds batch) + 1]"

subsection \<open>15-minute compaction\<close>

text \<open>The incidents a slot is joined with: those that overlap its minute.\<close>

definition overlaps :: "minute_slot \<Rightarrow> incident \<Rightarrow> bool" where
  "overlaps slot i \<longleftrightarrow>
     in_monitorId i = sl_monitorId slot \<and> in_openedAt i < sl_minute slot + MINUTE_MS \<and>
     (case in_resolvedAt i of None \<Rightarrow> True | Some r \<Rightarrow> r > sl_minute slot)"

definition left_join :: "incident list \<Rightarrow> minute_slot \<Rightarrow> (minute_slot \<times> incident option) list" where
  "left_join incidents slot =
    (let matching = filter (overlaps slot) incidents
     in if matching = [] then [(slot, None)] else map (\<lambda>i. (slot, Some i)) matching)"

definition count_where :: "('a \<Rightarrow> bool) \<Rightarrow> 'a list \<Rightarrow> int" where
  "count_where p xs = int (length (filter p xs))"

fun sql_min :: "int list \<Rightarrow> int option" where
  "sql_min [] = None"
| "sql_min (x # xs) = Some (case sql_min xs of None \<Rightarrow> x | Some m \<Rightarrow> min x m)"

fun sql_max :: "int list \<Rightarrow> int option" where
  "sql_max [] = None"
| "sql_max (x # xs) = Some (case sql_max xs of None \<Rightarrow> x | Some m \<Rightarrow> max x m)"

fun not_null :: "'a option list \<Rightarrow> 'a list" where
  "not_null [] = []"
| "not_null (None # xs) = not_null xs"
| "not_null (Some x # xs) = x # not_null xs"

definition latency_histogram :: "int list \<Rightarrow> int list" where
  "latency_histogram ls =
     [count_where (\<lambda>l. l \<le> 100) ls,
      count_where (\<lambda>l. l > 100 \<and> l \<le> 250) ls,
      count_where (\<lambda>l. l > 250 \<and> l \<le> 500) ls,
      count_where (\<lambda>l. l > 500 \<and> l \<le> 1000) ls,
      count_where (\<lambda>l. l > 1000 \<and> l \<le> 2500) ls,
      count_where (\<lambda>l. l > 2500 \<and> l \<le> 5000) ls,
      count_where (\<lambda>l. l > 5000 \<and> l \<le> 10000) ls,
      count_where (\<lambda>l. l > 10000) ls]"

definition bucket_of :: "minute_slot \<times> incident option \<Rightarrow> string \<times> instant" where
  "bucket_of row = (sl_monitorId (fst row), floor_to QUARTER_MS (sl_minute (fst row)))"

definition compacted_bucket ::
  "instant \<Rightarrow> string \<times> instant \<Rightarrow> (minute_slot \<times> incident option) list \<Rightarrow> rollup" where
  "compacted_bucket now key rows =
    (let completed = filter (\<lambda>(s, i). sl_completed s = 1) rows;
         latencies = not_null (map (\<lambda>(s, i). sl_latencyMs s) completed)
     in \<lparr>mr_monitorId = fst key, mr_resolution = Res_15m, mr_bucketStart = snd key,
         mr_expectedChecks = int (length rows),
         mr_completedChecks = count_where (\<lambda>(s, i). sl_completed s = 1) rows,
         mr_successfulChecks = count_where (\<lambda>(s, i). sl_completed s = 1 \<and> sl_failed s = 0) rows,
         mr_failedChecks = count_where (\<lambda>(s, i). sl_failed s = 1) rows,
         mr_unknownChecks = count_where (\<lambda>(s, i). sl_completed s = 0) rows,
         mr_downtimeSeconds = count_where (\<lambda>(s, i). i \<noteq> None) rows * 60,
         mr_unknownSeconds = count_where (\<lambda>(s, i). sl_completed s = 0) rows * 60,
         mr_latencyCount = int (length latencies),
         mr_latencySumMs = sum_list latencies,
         mr_latencyMinMs = sql_min latencies,
         mr_latencyMaxMs = sql_max latencies,
         mr_latencyHistogram =
           latency_histogram (not_null (map (\<lambda>(s, i). sl_latencyMs s) rows)),
         mr_histogramVersion = 1,
         mr_hasIncident = list_ex (\<lambda>(s, i). i \<noteq> None) rows,
         mr_compactedAt = now\<rparr>)"

definition compact_15_minute ::
  "instant \<Rightarrow> instant \<Rightarrow> instant \<Rightarrow> check_batch list \<Rightarrow> incident list \<Rightarrow> rollup list \<Rightarrow>
   js_error + rollup list" where
  "compact_15_minute start end now batches incidents rollups =
    res_bind (res_map batch_slots
        (filter (\<lambda>b. start \<le> cb_scheduledMinute b \<and> cb_scheduledMinute b < floor_to QUARTER_MS end)
           batches)) (\<lambda>slots.
      let rows = concat (map (left_join incidents)
                   (filter (\<lambda>s. sl_expected s = 1) (concat slots)))
      in Inr (sql_upsert rollup_key
                (map (\<lambda>(key, group). compacted_bucket now key group) (sql_group bucket_of rows))
                rollups))"

subsection \<open>Promotion to hours and days\<close>

definition resolution_ms :: "resolution_size \<Rightarrow> int" where
  "resolution_ms target = (if target = Res_hour then HOUR_MS else DAY_MS)"

definition promoted_bucket ::
  "resolution_size \<Rightarrow> instant \<Rightarrow> string \<times> instant \<Rightarrow> rollup list \<Rightarrow> rollup" where
  "promoted_bucket target end key rows =
     \<lparr>mr_monitorId = fst key, mr_resolution = target, mr_bucketStart = snd key,
      mr_expectedChecks = sum_list (map mr_expectedChecks rows),
      mr_completedChecks = sum_list (map mr_completedChecks rows),
      mr_successfulChecks = sum_list (map mr_successfulChecks rows),
      mr_failedChecks = sum_list (map mr_failedChecks rows),
      mr_unknownChecks = sum_list (map mr_unknownChecks rows),
      mr_downtimeSeconds = sum_list (map mr_downtimeSeconds rows),
      mr_unknownSeconds = sum_list (map mr_unknownSeconds rows),
      mr_latencyCount = sum_list (map mr_latencyCount rows),
      mr_latencySumMs = sum_list (map mr_latencySumMs rows),
      mr_latencyMinMs = sql_min (not_null (map mr_latencyMinMs rows)),
      mr_latencyMaxMs = sql_max (not_null (map mr_latencyMaxMs rows)),
      mr_latencyHistogram =
        map (\<lambda>k. sum_list (map (\<lambda>r. mr_latencyHistogram r ! k) rows)) [0..<8],
      mr_histogramVersion = 1,
      mr_hasIncident = list_ex mr_hasIncident rows,
      mr_compactedAt = end\<rparr>"

definition promote_rollup ::
  "resolution_size \<Rightarrow> resolution_size \<Rightarrow> instant \<Rightarrow> instant \<Rightarrow> rollup list \<Rightarrow> rollup list" where
  "promote_rollup source target start end rollups =
    (let width = resolution_ms target;
         rows = filter (\<lambda>r. mr_resolution r = source \<and>
                  floor_to width start \<le> mr_bucketStart r \<and> mr_bucketStart r < floor_to width end) rollups
     in sql_upsert rollup_key
          (map (\<lambda>(key, group). promoted_bucket target end key group)
             (sql_group (\<lambda>r. (mr_monitorId r, floor_to width (mr_bucketStart r))) rows))
          rollups)"

subsection \<open>Refreshing the roll-ups after a minute\<close>

record monitoring_db =
  db_batches :: "check_batch list"
  db_incidents :: "incident list"
  db_rollups :: "rollup list"

definition ROLLUP_REFRESH_MIN_LOOKBACK_MS :: int where
  "ROLLUP_REFRESH_MIN_LOOKBACK_MS = 2 * 3600000"

definition ROLLUP_REFRESH_MAX_LOOKBACK_MS :: int where
  "ROLLUP_REFRESH_MAX_LOOKBACK_MS = 48 * 3600000"

definition rollup_covered_until :: "rollup list \<Rightarrow> instant option" where
  "rollup_covered_until rollups =
     map_option (\<lambda>t. t + QUARTER_MS)
       (sql_max (map mr_bucketStart (filter (\<lambda>r. mr_resolution r = Res_15m) rollups)))"

definition completesQuarterHourBucket :: "instant \<Rightarrow> bool" where
  "completesQuarterHourBucket scheduledMinute \<longleftrightarrow> (scheduledMinute div 60000 + 1) mod 15 = 0"

definition refreshStart :: "rollup list \<Rightarrow> instant \<Rightarrow> instant" where
  "refreshStart rollups end =
    (let coveredUntil = or_else (rollup_covered_until rollups) 0
     in max (end - ROLLUP_REFRESH_MAX_LOOKBACK_MS)
            (min coveredUntil (end - ROLLUP_REFRESH_MIN_LOOKBACK_MS)))"

definition refreshRecentRollups ::
  "instant \<Rightarrow> instant \<Rightarrow> monitoring_db \<Rightarrow> js_error + monitoring_db" where
  "refreshRecentRollups scheduledMinute now db =
    (let end = scheduledMinute + 60000;
         start = refreshStart (db_rollups db) end
     in res_bind (compact_15_minute start end now (db_batches db) (db_incidents db) (db_rollups db))
          (\<lambda>rollups.
            let rollups = promote_rollup Res_15m Res_hour start end rollups;
                rollups = promote_rollup Res_hour Res_day start end rollups
            in Inr (db\<lparr>db_rollups := rollups\<rparr>)))"

subsection \<open>The SQL decoder reads what the codec wrote\<close>

lemma sql_bit_readBit:
  "(k - 1) div 8 < length bm \<Longrightarrow> sql_bit bm k = of_bool (readBit bm (k - 1))"
proof -
  assume "(k - 1) div 8 < length bm"
  moreover have "(k - 1) mod 8 < 8" by simp
  ultimately show ?thesis
    by (simp add: sql_bit_def get_byte_def readBit_bit and_one_eq mod_2_eq_odd bit_iff_odd_drop_bit [symmetric]
        bit_uint_iff)
qed

lemma sql_latency_read: "sql_latency ls k = readUInt32BE ls ((k - 1) * 4)"
  by (simp add: sql_latency_def readUInt32BE_def get_byte_def push_bit_eq_mult)

text \<open>A well-formed batch: its packed telemetry decodes to one entry per monitor.\<close>

definition batch_values :: "check_batch \<Rightarrow> telemetry_value list" where
  "batch_values b = (case decodeTelemetry (cb_packed b) of Inl _ \<Rightarrow> [] | Inr vs \<Rightarrow> vs)"

definition batch_ok :: "check_batch \<Rightarrow> bool" where
  "batch_ok b \<longleftrightarrow> decodeTelemetry (cb_packed b) = Inr (batch_values b) \<and>
     length (cb_monitorIds b) = length (batch_values b)"

definition slot_of :: "check_batch \<Rightarrow> string \<times> telemetry_value \<Rightarrow> minute_slot" where
  "slot_of b entry =
     \<lparr>sl_minute = cb_scheduledMinute b, sl_monitorId = fst entry,
      sl_expected = of_bool (tv_expected (snd entry)), sl_completed = of_bool (tv_completed (snd entry)),
      sl_failed = of_bool (tv_failed (snd entry)), sl_latencyMs = tv_latencyMs (snd entry)\<rparr>"

definition batch_entries :: "check_batch \<Rightarrow> (string \<times> telemetry_value) list" where
  "batch_entries b = zip (cb_monitorIds b) (batch_values b)"

lemma decodeTelemetry_Inr:
  assumes "decodeTelemetry p = Inr vs"
  shows "length vs = pk_monitorCount p" and "k < length vs \<Longrightarrow> decodeAt p k = Inr (vs ! k)"
    and "length (pk_expectedBitmap p) = ceil_div (length vs) 8"
    and "length (pk_completedBitmap p) = ceil_div (length vs) 8"
    and "length (pk_failureBitmap p) = ceil_div (length vs) 8"
    and "list_all consistent_value vs"
proof -
  have d: "decodeFrom p [0..<pk_monitorCount p] = Inr vs"
      "length (pk_expectedBitmap p) = ceil_div (pk_monitorCount p) 8"
      "length (pk_completedBitmap p) = ceil_div (pk_monitorCount p) 8"
      "length (pk_failureBitmap p) = ceil_div (pk_monitorCount p) 8"
    using assms by (auto simp: decodeTelemetry_def Let_def split: if_splits)
  from decodeFrom_Inr [OF d(1)] show len: "length vs = pk_monitorCount p"
    and at: "k < length vs \<Longrightarrow> decodeAt p k = Inr (vs ! k)" for k by auto
  from len d show "length (pk_expectedBitmap p) = ceil_div (length vs) 8"
    "length (pk_completedBitmap p) = ceil_div (length vs) 8"
    "length (pk_failureBitmap p) = ceil_div (length vs) 8" by simp_all
  from at show "list_all consistent_value vs"
    by (auto simp: list_all_length intro: decodeAt_consistent)
qed

lemma decodeAt_fields:
  "decodeAt p k = Inr v \<Longrightarrow>
     v = \<lparr>tv_expected = readBit (pk_expectedBitmap p) k, tv_completed = readBit (pk_completedBitmap p) k,
          tv_failed = readBit (pk_failureBitmap p) k,
          tv_latencyMs = (if readBit (pk_completedBitmap p) k
            then Some (readUInt32BE (pk_latencyValues p) (k * 4)) else None)\<rparr>"
  by (auto simp: decodeAt_def Let_def split: if_splits)

lemma slot_at_value:
  assumes "batch_ok b" and "k < length (batch_values b)" and "slot_at b (k + 1) = Inr s"
  shows "s = slot_of b (cb_monitorIds b ! k, batch_values b ! k)"
proof -
  let ?p = "cb_packed b" and ?v = "batch_values b ! k"
  have dec: "decodeTelemetry ?p = Inr (batch_values b)" using assms(1) by (simp add: batch_ok_def)
  note d = decodeTelemetry_Inr [OF dec]
  have at: "decodeAt ?p k = Inr ?v" using d(2) assms(2) .
  have in_range: "k div 8 < ceil_div (length (batch_values b)) 8"
    using assms(2) by (simp add: ceil_div_def)
  have v: "tv_expected ?v = readBit (pk_expectedBitmap ?p) k"
      "tv_completed ?v = readBit (pk_completedBitmap ?p) k"
      "tv_failed ?v = readBit (pk_failureBitmap ?p) k"
      "tv_latencyMs ?v = (if readBit (pk_completedBitmap ?p) k
         then Some (readUInt32BE (pk_latencyValues ?p) (k * 4)) else None)"
    using decodeAt_fields [OF at] by (simp_all split: if_splits)
  have bits: "sql_bit (pk_expectedBitmap ?p) (Suc k) = of_bool (tv_expected ?v)"
      "sql_bit (pk_completedBitmap ?p) (Suc k) = of_bool (tv_completed ?v)"
      "sql_bit (pk_failureBitmap ?p) (Suc k) = of_bool (tv_failed ?v)"
    using in_range d(3,4,5) v sql_bit_readBit [of "Suc k"] by simp_all
  show ?thesis
    using assms(3) v(2,4)
    by (cases "tv_completed ?v")
      (auto simp: slot_at_def Let_def bits sql_latency_read slot_of_def res_bind_Inr_iff to_integer_def
        split: if_splits)
qed

lemma batch_slots_values:
  assumes "batch_ok b" and "batch_slots b = Inr ss"
  shows "ss = map (slot_of b) (batch_entries b)"
proof (rule nth_equalityI)
  have all2: "list_all2 (\<lambda>k s. slot_at b k = Inr s) [1..<length (cb_monitorIds b) + 1] ss"
    using assms(2) by (simp add: batch_slots_def res_map_Inr_iff)
  have lens: "length (cb_monitorIds b) = length (batch_values b)" using assms(1) by (simp add: batch_ok_def)
  show len: "length ss = length (map (slot_of b) (batch_entries b))"
    using list_all2_lengthD [OF all2] lens by (simp add: batch_entries_def del: upt_Suc)
  fix k assume k: "k < length ss"
  then have "slot_at b ([1..<length (cb_monitorIds b) + 1] ! k) = Inr (ss ! k)"
    using all2 list_all2_lengthD [OF all2] by (auto dest: list_all2_nthD)
  moreover have "[1..<length (cb_monitorIds b) + 1] ! k = k + 1"
    using k len by (subst nth_upt) (simp_all add: batch_entries_def lens)
  ultimately have "slot_at b (k + 1) = Inr (ss ! k)" by simp
  then have "ss ! k = slot_of b (cb_monitorIds b ! k, batch_values b ! k)"
    using k len lens assms(1) by (intro slot_at_value) (simp_all add: batch_entries_def)
  then show "ss ! k = map (slot_of b) (batch_entries b) ! k"
    using k len lens by (simp add: batch_entries_def)
qed

subsection \<open>Aggregates\<close>

lemma sql_min_eq: "sql_min xs = (if xs = [] then None else Some (Min (set xs)))"
proof (induction xs)
  case Nil
  show ?case by simp
next
  case (Cons x xs)
  then show ?case by (cases "xs = []") simp_all
qed

lemma sql_max_eq: "sql_max xs = (if xs = [] then None else Some (Max (set xs)))"
proof (induction xs)
  case Nil
  show ?case by simp
next
  case (Cons x xs)
  then show ?case by (cases "xs = []") simp_all
qed

lemma set_not_null: "set (not_null xs) = {x. Some x \<in> set xs}"
  by (induction xs rule: not_null.induct) auto

lemma not_null_append: "not_null (xs @ ys) = not_null xs @ not_null ys"
  by (induction xs rule: not_null.induct) auto

lemma not_null_Nil_iff: "not_null xs = [] \<longleftrightarrow> (\<forall>x \<in> set xs. x = None)"
  by (induction xs rule: not_null.induct) auto

lemma count_where_nonneg [simp]: "0 \<le> count_where p xs"
  by (simp add: count_where_def)

lemma count_where_simps [simp]:
  "count_where p [] = 0"
  "count_where p (x # xs) = (if p x then 1 else 0) + count_where p xs"
  by (simp_all add: count_where_def)

lemma count_where_le: "count_where p xs \<le> int (length xs)"
  by (simp add: count_where_def)

lemma count_where_map: "count_where p (map f xs) = count_where (\<lambda>x. p (f x)) xs"
  by (simp add: count_where_def filter_map comp_def)

lemma count_where_cong: "(\<And>x. x \<in> set xs \<Longrightarrow> p x = q x) \<Longrightarrow> count_where p xs = count_where q xs"
  by (induction xs) auto

lemma count_where_split:
  "(\<And>x. x \<in> set xs \<Longrightarrow> p x \<longleftrightarrow> q x \<or> r x) \<Longrightarrow> (\<And>x. x \<in> set xs \<Longrightarrow> \<not> (q x \<and> r x)) \<Longrightarrow>
   count_where p xs = count_where q xs + count_where r xs"
  by (induction xs) auto

lemma count_where_True: "count_where (\<lambda>x. True) xs = int (length xs)"
  by (simp add: count_where_def)

text \<open>The array of the SQL is the histogram of \<open>lib/storage/histogram.ts\<close>.\<close>

lemma latency_histogram_bucket_counts: "latency_histogram ls = map int (bucket_counts ls)"
  by (simp add: latency_histogram_def bucket_counts_def upto_8 count_where_def in_bucket_def [abs_def]
      LATENCY_BUCKET_UPPER_BOUNDS_MS_def conj_commute)

definition histogram_sum :: "int list list \<Rightarrow> int list" where
  "histogram_sum hs = map (\<lambda>k. sum_list (map (\<lambda>h. h ! k) hs)) [0..<8]"

subsection \<open>Well-formed roll-ups\<close>

text \<open>Beyond the CHECK constraints: every completed check carries a latency, the histogram adds up
  to them and their mean lies between the extremes.\<close>

definition extremes_ok :: "int option \<Rightarrow> int option \<Rightarrow> int \<Rightarrow> int \<Rightarrow> bool" where
  "extremes_ok lo hi n t \<longleftrightarrow> opt_nonneg lo \<and> opt_nonneg hi \<and> opt_ordered lo hi \<and>
     (case (lo, hi) of
        (None, None) \<Rightarrow> n = 0 \<and> t = 0
      | (Some a, Some b) \<Rightarrow> 0 < n \<and> a * n \<le> t \<and> t \<le> b * n
      | _ \<Rightarrow> False)"

definition rollup_ok :: "rollup \<Rightarrow> bool" where
  "rollup_ok r \<longleftrightarrow> rollup_checks r \<and>
     mr_latencyCount r = mr_completedChecks r \<and>
     list_all (\<lambda>c. 0 \<le> c) (mr_latencyHistogram r) \<and>
     sum_list (mr_latencyHistogram r) = mr_latencyCount r \<and>
     mr_unknownSeconds r = 60 * mr_unknownChecks r \<and>
     mr_downtimeSeconds r \<le> 60 * mr_expectedChecks r \<and>
     extremes_ok (mr_latencyMinMs r) (mr_latencyMaxMs r) (mr_latencyCount r) (mr_latencySumMs r)"

definition slot_ok :: "minute_slot \<Rightarrow> bool" where
  "slot_ok s \<longleftrightarrow> sl_completed s \<in> {0, 1} \<and> sl_failed s \<in> {0, 1} \<and>
     (sl_failed s = 1 \<longrightarrow> sl_completed s = 1) \<and> (sl_completed s = 1 \<longleftrightarrow> sl_latencyMs s \<noteq> None) \<and>
     opt_nonneg (sl_latencyMs s)"

lemma slot_of_ok: "consistent_value (snd e) \<Longrightarrow> slot_ok (slot_of b e)"
  by (auto simp: slot_ok_def slot_of_def consistent_value_def encodable_def opt_nonneg_def
      split: option.splits)

lemma batch_slots_ok:
  assumes "batch_ok b" and "batch_slots b = Inr ss"
  shows "\<forall>s \<in> set ss. slot_ok s"
proof -
  have "list_all consistent_value (batch_values b)"
    using assms(1) decodeTelemetry_Inr(6) [of "cb_packed b"] by (simp add: batch_ok_def)
  then have "consistent_value (snd e)" if "e \<in> set (batch_entries b)" for e
    using that by (cases e) (auto simp: batch_entries_def list_all_iff dest: set_zip_rightD)
  then show ?thesis
    unfolding batch_slots_values [OF assms] by (auto intro: slot_of_ok)
qed

lemma completed_latencies:
  assumes "\<forall>(s, i) \<in> set rows. slot_ok s"
  shows "not_null (map (\<lambda>(s, i). sl_latencyMs s) (filter (\<lambda>(s, i). sl_completed s = 1) rows)) =
         not_null (map (\<lambda>(s, i). sl_latencyMs s) rows)"
    and "int (length (not_null (map (\<lambda>(s, i). sl_latencyMs s) rows))) =
         count_where (\<lambda>(s, i). sl_completed s = 1) rows"
    and "\<forall>l \<in> set (not_null (map (\<lambda>(s, i). sl_latencyMs s) rows)). 0 \<le> l"
  using assms by (induction rows) (auto simp: slot_ok_def opt_nonneg_def split: option.splits)

lemma mean_bounds:
  fixes xs :: "int list"
  assumes "xs \<noteq> []"
  shows "Min (set xs) * int (length xs) \<le> sum_list xs \<and> sum_list xs \<le> Max (set xs) * int (length xs)"
proof -
  have lower: "(\<forall>x \<in> set ys. m \<le> x) \<Longrightarrow> m * int (length ys) \<le> sum_list ys" for m and ys :: "int list"
    by (induction ys) (auto simp: algebra_simps)
  have upper: "(\<forall>x \<in> set ys. x \<le> m) \<Longrightarrow> sum_list ys \<le> m * int (length ys)" for m and ys :: "int list"
    by (induction ys) (auto simp: algebra_simps)
  show ?thesis using lower [of xs "Min (set xs)"] upper [of xs "Max (set xs)"] by simp
qed

lemma sum_list_of_nat_int: "sum_list (map int xs) = int (sum_list xs)"
  by (induction xs) simp_all

lemma sum_bucket_counts_int: "\<forall>l \<in> set ls. 0 \<le> l \<Longrightarrow> sum_list (map int (bucket_counts ls)) = int (length ls)"
  using sum_bucket_counts [of ls] sum_list_of_nat_int [of "bucket_counts ls"] by simp

lemma extremes_nonneg:
  assumes "\<forall>l \<in> set ls. 0 \<le> l"
  shows "opt_nonneg (sql_min ls) \<and> opt_nonneg (sql_max ls) \<and> opt_ordered (sql_min ls) (sql_max ls)"
proof (cases "ls = []")
  case True
  then show ?thesis by (simp add: opt_nonneg_def opt_ordered_def)
next
  case False
  then have "Min (set ls) \<in> set ls" "Max (set ls) \<in> set ls" "Min (set ls) \<le> Max (set ls)" by simp_all
  with False assms show ?thesis by (simp add: sql_min_eq sql_max_eq opt_nonneg_def opt_ordered_def)
qed

lemma compacted_bucket_ok:
  assumes ok: "\<forall>(s, i) \<in> set rows. slot_ok s"
  shows "rollup_ok (compacted_bucket now key rows)"
proof -
  let ?ls = "not_null (map (\<lambda>(s, i). sl_latencyMs s) rows)"
  let ?c = "count_where (\<lambda>(s, i). sl_completed s = 1) rows"
  let ?ok = "count_where (\<lambda>(s, i). sl_completed s = 1 \<and> sl_failed s = 0) rows"
  let ?f = "count_where (\<lambda>(s, i). sl_failed s = 1) rows"
  let ?u = "count_where (\<lambda>(s, i). sl_completed s = 0) rows"
  note l = completed_latencies [OF ok]
  have cu: "int (length rows) = ?c + ?u"
    using ok by (subst count_where_True [symmetric], intro count_where_split) (auto simp: slot_ok_def)
  have sf: "?c = ?ok + ?f"
    using ok by (intro count_where_split) (auto simp: slot_ok_def)
  have hist: "sum_list (latency_histogram ?ls) = ?c"
    using l(2,3) sum_bucket_counts_int [of ?ls] by (simp add: latency_histogram_bucket_counts)
  have hist_nonneg: "list_all (\<lambda>c. 0 \<le> c) (latency_histogram ?ls)" "length (latency_histogram ?ls) = 8"
    by (simp_all add: latency_histogram_def)
  have down: "count_where (\<lambda>(s, i). i \<noteq> None) rows \<le> int (length rows)" by (rule count_where_le)
  have lat: "0 \<le> sum_list ?ls" using l(3) by (intro sum_list_nonneg) auto
  have extremes: "case (sql_min ?ls, sql_max ?ls) of
        (None, None) \<Rightarrow> int (length ?ls) = 0 \<and> sum_list ?ls = 0
      | (Some a, Some b) \<Rightarrow> 0 < int (length ?ls) \<and> a * int (length ?ls) \<le> sum_list ?ls \<and>
          sum_list ?ls \<le> b * int (length ?ls)
      | _ \<Rightarrow> False"
    using mean_bounds [of ?ls] by (simp add: sql_min_eq sql_max_eq)
  have min_nonneg: "opt_nonneg (sql_min ?ls)" "opt_nonneg (sql_max ?ls)" "opt_ordered (sql_min ?ls) (sql_max ?ls)"
    using extremes_nonneg [OF l(3)] by simp_all
  let ?r = "compacted_bucket now key rows"
  have fields: "mr_expectedChecks ?r = int (length rows)" "mr_completedChecks ?r = ?c"
      "mr_successfulChecks ?r = ?ok" "mr_failedChecks ?r = ?f" "mr_unknownChecks ?r = ?u"
      "mr_downtimeSeconds ?r = count_where (\<lambda>(s, i). i \<noteq> None) rows * 60"
      "mr_unknownSeconds ?r = ?u * 60" "mr_latencyCount ?r = ?c" "mr_latencySumMs ?r = sum_list ?ls"
      "mr_latencyMinMs ?r = sql_min ?ls" "mr_latencyMaxMs ?r = sql_max ?ls"
      "mr_latencyHistogram ?r = latency_histogram ?ls" "mr_histogramVersion ?r = 1"
    unfolding compacted_bucket_def Let_def l(1) by (simp_all add: l(2))
  have "rollup_checks ?r"
    unfolding rollup_checks_def fields
    using cu sf lat min_nonneg hist_nonneg(2) count_where_nonneg by (intro conjI) (linarith | simp)+
  moreover have "extremes_ok (sql_min ?ls) (sql_max ?ls) ?c (sum_list ?ls)"
    using extremes min_nonneg unfolding l(2) extremes_ok_def by blast
  ultimately show ?thesis
    unfolding rollup_ok_def fields using hist hist_nonneg(1) down by simp
qed

lemma extremes_ok_add:
  fixes a b x y m n t u :: int
  assumes "0 < n" "0 < m" "a * n \<le> t" "t \<le> b * n" "x * m \<le> u" "u \<le> y * m"
  shows "min x a * (m + n) \<le> u + t \<and> u + t \<le> max y b * (m + n)"
proof -
  have "min x a * m \<le> x * m" "min x a * n \<le> a * n" "y * m \<le> max y b * m" "b * n \<le> max y b * n"
    using assms(1,2) by (simp_all add: mult_right_mono)
  with assms show ?thesis unfolding distrib_left by linarith
qed

lemma rollup_ok_extremes:
  "rollup_ok r \<Longrightarrow> extremes_ok (mr_latencyMinMs r) (mr_latencyMaxMs r) (mr_latencyCount r) (mr_latencySumMs r)"
  unfolding rollup_ok_def by blast

lemma extremes_ok_Some:
  "extremes_ok (Some a) (Some b) n t \<longleftrightarrow> 0 \<le> a \<and> a \<le> b \<and> 0 < n \<and> a * n \<le> t \<and> t \<le> b * n"
  by (auto simp: extremes_ok_def opt_nonneg_def opt_ordered_def)

lemma extremes_ok_None:
  "extremes_ok None hi n t \<longleftrightarrow> hi = None \<and> n = 0 \<and> t = 0"
  "extremes_ok lo None n t \<longleftrightarrow> lo = None \<and> n = 0 \<and> t = 0"
  by (cases hi; auto simp: extremes_ok_def opt_nonneg_def opt_ordered_def)
     (cases lo; auto simp: extremes_ok_def opt_nonneg_def opt_ordered_def)

lemma extremes_ok_cons:
  assumes "extremes_ok lo hi m u" and "extremes_ok (sql_min xs) (sql_max ys) n t"
  shows "extremes_ok (sql_min (not_null [lo] @ xs)) (sql_max (not_null [hi] @ ys)) (m + n) (u + t)"
proof (cases lo)
  case None
  with assms show ?thesis by (simp add: extremes_ok_None)
next
  case lo: (Some x)
  with assms(1) obtain y where hi: "hi = Some y" by (cases hi) (simp_all add: extremes_ok_None)
  with assms(1) lo have row: "0 \<le> x" "x \<le> y" "0 < m" "x * m \<le> u" "u \<le> y * m"
    by (simp_all add: extremes_ok_Some)
  show ?thesis
  proof (cases "sql_min xs")
    case None
    with assms(2) have "sql_max ys = None" "n = 0" "t = 0" by (simp_all add: extremes_ok_None)
    with None lo hi row show ?thesis by (simp add: extremes_ok_Some)
  next
    case a: (Some a)
    with assms(2) obtain b where b: "sql_max ys = Some b"
      by (cases "sql_max ys") (simp_all add: extremes_ok_None)
    with assms(2) a have rest: "0 \<le> a" "a \<le> b" "0 < n" "a * n \<le> t" "t \<le> b * n"
      by (simp_all add: extremes_ok_Some)
    have "0 \<le> min x a" "min x a \<le> max y b" "0 < m + n" using row rest by (simp_all add: min_def max_def)
    with extremes_ok_add [OF rest(3) row(3) rest(4,5) row(4,5)]
    have "extremes_ok (Some (min x a)) (Some (max y b)) (m + n) (u + t)"
      unfolding extremes_ok_Some by blast
    with a b lo hi show ?thesis by simp
  qed
qed

lemma not_null_Cons: "not_null (x # xs) = not_null [x] @ not_null xs"
  using not_null_append [of "[x]" xs] by simp

lemma promoted_extremes:
  "list_all rollup_ok rows \<Longrightarrow>
   extremes_ok (sql_min (not_null (map mr_latencyMinMs rows))) (sql_max (not_null (map mr_latencyMaxMs rows)))
     (sum_list (map mr_latencyCount rows)) (sum_list (map mr_latencySumMs rows))"
proof (induction rows)
  case Nil
  show ?case by (simp add: extremes_ok_def opt_nonneg_def opt_ordered_def)
next
  case (Cons r rows)
  then have "extremes_ok (mr_latencyMinMs r) (mr_latencyMaxMs r) (mr_latencyCount r) (mr_latencySumMs r)"
    and "list_all rollup_ok rows" by (simp_all add: rollup_ok_extremes)
  then show ?case
    unfolding list.map sum_list.Cons
      not_null_Cons [of "mr_latencyMinMs r" "map mr_latencyMinMs rows"]
      not_null_Cons [of "mr_latencyMaxMs r" "map mr_latencyMaxMs rows"]
    by (intro extremes_ok_cons Cons.IH)
qed

definition histogram_shape :: "int list \<Rightarrow> bool" where
  "histogram_shape h \<longleftrightarrow> length h = 8 \<and> (\<forall>k < 8. 0 \<le> h ! k)"

lemma rollup_ok_histogram: "rollup_ok r \<Longrightarrow> histogram_shape (mr_latencyHistogram r)"
  by (auto simp: histogram_shape_def rollup_ok_def rollup_checks_def list_all_length)

lemma promoted_histogram:
  assumes "\<forall>h \<in> set hs. histogram_shape h"
  shows "(\<forall>k < 8. 0 \<le> (\<Sum>h\<leftarrow>hs. h ! k)) \<and>
         (\<Sum>k\<leftarrow>[0..<8]. \<Sum>h\<leftarrow>hs. h ! k) = (\<Sum>h\<leftarrow>hs. sum_list h)"
  using assms
proof (induction hs)
  case Nil
  show ?case by simp
next
  case (Cons h hs)
  have h: "map ((!) h) [0..<8] = h"
    using map_nth [of h] Cons.prems by (simp add: histogram_shape_def)
  have "(\<Sum>k\<leftarrow>[0..<8]. h ! k + (\<Sum>x\<leftarrow>hs. x ! k)) =
      sum_list (map ((!) h) [0..<8]) + (\<Sum>k\<leftarrow>[0..<8]. \<Sum>x\<leftarrow>hs. x ! k)"
    by (rule sum_list_addf)
  with h Cons show ?case by (simp add: histogram_shape_def)
qed

lemma sum_list_nonneg_by: "(\<And>r. r \<in> set rows \<Longrightarrow> (0::int) \<le> f r) \<Longrightarrow> 0 \<le> (\<Sum>r\<leftarrow>rows. f r)"
  by (induction rows) auto

lemma promoted_bucket_ok:
  assumes "list_all rollup_ok rows"
  shows "rollup_ok (promoted_bucket target end key rows)"
proof -
  let ?t = "\<lambda>f. \<Sum>r\<leftarrow>rows. f r"
  have rows: "(\<forall>r \<in> set rows. mr_successfulChecks r + mr_failedChecks r = mr_completedChecks r \<and>
      mr_unknownChecks r = mr_expectedChecks r - mr_completedChecks r \<and>
      mr_latencyCount r = mr_completedChecks r \<and> mr_unknownSeconds r = 60 * mr_unknownChecks r \<and>
      sum_list (mr_latencyHistogram r) = mr_latencyCount r \<and> mr_completedChecks r \<le> mr_expectedChecks r \<and>
      mr_downtimeSeconds r \<le> 60 * mr_expectedChecks r)"
    using assms unfolding list_all_iff rollup_ok_def rollup_checks_def by blast
  then have sums: "?t mr_successfulChecks + ?t mr_failedChecks = ?t mr_completedChecks \<and>
      ?t mr_unknownChecks = ?t mr_expectedChecks - ?t mr_completedChecks \<and>
      ?t mr_latencyCount = ?t mr_completedChecks \<and> ?t mr_unknownSeconds = 60 * ?t mr_unknownChecks \<and>
      ?t (\<lambda>r. sum_list (mr_latencyHistogram r)) = ?t mr_latencyCount \<and>
      ?t mr_completedChecks \<le> ?t mr_expectedChecks \<and> ?t mr_downtimeSeconds \<le> 60 * ?t mr_expectedChecks"
    by (induction rows) auto
  have nonneg: "0 \<le> ?t mr_expectedChecks" "0 \<le> ?t mr_completedChecks" "0 \<le> ?t mr_successfulChecks"
      "0 \<le> ?t mr_failedChecks" "0 \<le> ?t mr_unknownChecks" "0 \<le> ?t mr_downtimeSeconds"
      "0 \<le> ?t mr_unknownSeconds" "0 \<le> ?t mr_latencyCount" "0 \<le> ?t mr_latencySumMs"
    by (rule sum_list_nonneg_by, use assms in \<open>simp add: list_all_iff rollup_ok_def rollup_checks_def\<close>)+
  have "\<forall>h \<in> set (map mr_latencyHistogram rows). histogram_shape h"
    using assms rollup_ok_histogram by (auto simp: list_all_iff)
  from promoted_histogram [OF this]
  have hist: "list_all (\<lambda>c. 0 \<le> c) (map (\<lambda>k. ?t (\<lambda>r. mr_latencyHistogram r ! k)) [0..<8])"
      "sum_list (map (\<lambda>k. ?t (\<lambda>r. mr_latencyHistogram r ! k)) [0..<8]) = ?t (\<lambda>r. sum_list (mr_latencyHistogram r))"
    by (simp_all add: comp_def list_all_iff)
  note ex = promoted_extremes [OF assms]
  have "rollup_checks (promoted_bucket target end key rows)"
    unfolding rollup_checks_def promoted_bucket_def rollup.simps
    using sums nonneg ex [unfolded extremes_ok_def] by (intro conjI) (linarith | simp)+
  then show ?thesis
    unfolding rollup_ok_def using sums hist ex
    by (intro conjI) (simp_all only: promoted_bucket_def rollup.simps)
qed

subsection \<open>The roll-up tables as a machine\<close>

datatype rollup_op =
    Compact instant instant instant
  | Promote resolution_size resolution_size instant instant

definition rollup_step :: "monitoring_db \<Rightarrow> rollup_op \<Rightarrow> js_error + monitoring_db" where
  "rollup_step db op = (case op of
      Compact start end now \<Rightarrow>
        res_bind (compact_15_minute start end now (db_batches db) (db_incidents db) (db_rollups db))
          (\<lambda>rollups. Inr (db\<lparr>db_rollups := rollups\<rparr>))
    | Promote source target start end \<Rightarrow>
        Inr (db\<lparr>db_rollups := promote_rollup source target start end (db_rollups db)\<rparr>))"

definition rollups_inv :: "monitoring_db \<Rightarrow> bool" where
  "rollups_inv db \<longleftrightarrow> list_all batch_ok (db_batches db) \<and> list_all rollup_ok (db_rollups db) \<and>
     distinct (map rollup_key (db_rollups db))"

lemma compact_slots_ok:
  assumes "list_all batch_ok batches" and "res_map batch_slots (filter p batches) = Inr slots"
  shows "\<forall>s \<in> set (concat slots). slot_ok s"
proof
  fix s assume "s \<in> set (concat slots)"
  then obtain ss where ss: "ss \<in> set slots" "s \<in> set ss" by auto
  from res_map_origin [OF assms(2) ss(1)] obtain b where "b \<in> set batches" "batch_slots b = Inr ss" by auto
  with assms(1) ss(2) batch_slots_ok [of b ss] show "slot_ok s" by (simp add: list_all_iff)
qed

lemma left_join_slot: "(s, i) \<in> set (left_join incidents slot) \<Longrightarrow> s = slot"
  by (auto simp: left_join_def Let_def split: if_splits)

lemma compact_inv:
  assumes "list_all batch_ok batches" and "list_all rollup_ok rollups" and "distinct (map rollup_key rollups)"
    and "compact_15_minute start end now batches incidents rollups = Inr rollups'"
  shows "list_all rollup_ok rollups' \<and> distinct (map rollup_key rollups')"
proof -
  from assms(4) obtain slots rows where slots: "res_map batch_slots
        (filter (\<lambda>b. start \<le> cb_scheduledMinute b \<and> cb_scheduledMinute b < floor_to QUARTER_MS end) batches) = Inr slots"
    and rows: "rows = concat (map (left_join incidents) (filter (\<lambda>s. sl_expected s = 1) (concat slots)))"
    and r': "rollups' = sql_upsert rollup_key
        (map (\<lambda>(key, group). compacted_bucket now key group) (sql_group bucket_of rows)) rollups"
    unfolding compact_15_minute_def Let_def res_bind_Inr_iff by blast
  have "\<forall>(s, i) \<in> set rows. slot_ok s"
    using compact_slots_ok [OF assms(1) slots] left_join_slot unfolding rows by fastforce
  then have "list_all rollup_ok (map (\<lambda>(key, group). compacted_bucket now key group) (sql_group bucket_of rows))"
    by (auto simp: list_all_iff sql_group_iff intro!: compacted_bucket_ok)
  with assms(2) have "list_all rollup_ok rollups'"
    unfolding r' by (simp add: list_all_upsert)
  with assms(3) show ?thesis unfolding r' by (simp add: sql_upsert_distinct)
qed

lemma promote_inv:
  assumes "list_all rollup_ok rollups" and "distinct (map rollup_key rollups)"
  shows "list_all rollup_ok (promote_rollup source target start end rollups) \<and>
         distinct (map rollup_key (promote_rollup source target start end rollups))"
proof -
  have "list_all rollup_ok (map (\<lambda>(key, group). promoted_bucket target end key group) (sql_group f (filter p rollups)))"
    for f and p :: "rollup \<Rightarrow> bool"
    using assms(1) by (auto simp: list_all_iff sql_group_iff intro!: promoted_bucket_ok)
  with assms(1) have "list_all rollup_ok (promote_rollup source target start end rollups)"
    by (simp add: promote_rollup_def Let_def list_all_upsert)
  with assms(2) show ?thesis by (simp add: promote_rollup_def Let_def sql_upsert_distinct)
qed

interpretation rollup_machine: invariant_machine rollup_step rollups_inv "\<lambda>_ _. True"
proof
  fix db op db'
  assume "rollups_inv db" "rollup_step db op = Inr db'"
  then show "rollups_inv db'"
  proof (cases op)
    case (Compact from_t to_t now)
    with \<open>rollup_step db op = Inr db'\<close> obtain rollups where
      "compact_15_minute from_t to_t now (db_batches db) (db_incidents db) (db_rollups db) = Inr rollups"
      "db' = db\<lparr>db_rollups := rollups\<rparr>"
      by (auto simp: rollup_step_def res_bind_Inr_iff)
    with compact_inv [of "db_batches db" "db_rollups db" from_t to_t now "db_incidents db" rollups]
      \<open>rollups_inv db\<close> show ?thesis by (simp add: rollups_inv_def)
  next
    case (Promote source target from_t to_t)
    with \<open>rollup_step db op = Inr db'\<close> promote_inv \<open>rollups_inv db\<close> show ?thesis
      by (auto simp: rollup_step_def rollups_inv_def)
  qed
qed

lemma refresh_is_run:
  "refreshRecentRollups scheduledMinute now db =
    (let end = scheduledMinute + 60000; start = refreshStart (db_rollups db) end
     in run_steps rollup_step db
          [Compact start end now, Promote Res_15m Res_hour start end, Promote Res_hour Res_day start end])"
  by (cases "compact_15_minute (refreshStart (db_rollups db) (scheduledMinute + 60000))
        (scheduledMinute + 60000) now (db_batches db) (db_incidents db) (db_rollups db)")
    (simp_all add: refreshRecentRollups_def rollup_step_def Let_def)

lemma admissible_always [simp]: "admissible_run step (\<lambda>_ _. True) s es"
  by (induction es arbitrary: s) (auto split: sum.split)

subsection \<open>Properties\<close>

text \<open>C25. No run of compactions and promotions can make the database refuse a row: from tables
  whose batches decode and whose roll-ups are well-formed, every run ends with distinct keys and
  rows that meet each CHECK of \<open>metric_rollups\<close>, whose histogram adds up to the completed checks
  and whose mean latency lies between the recorded extremes.\<close>

theorem rollup_runs_meet_checks:
  assumes "rollups_inv db" and "run_steps rollup_step db ops = Inr db'"
  shows "list_all rollup_checks (db_rollups db') \<and> distinct (map rollup_key (db_rollups db')) \<and>
         list_all rollup_ok (db_rollups db')"
proof -
  have "rollups_inv db'"
    using rollup_machine.inv_run [OF assms(1) _ assms(2)] by simp
  then show ?thesis by (auto simp: rollups_inv_def rollup_ok_def list_all_iff)
qed

definition sample_batch :: "instant \<Rightarrow> check_batch" where
  "sample_batch minute =
     \<lparr>cb_scheduledMinute = minute, cb_configVersion = 1, cb_monitorIds = [''api''],
      cb_packed = \<lparr>pk_encodingVersion = 1, pk_monitorCount = 1, pk_expectedBitmap = [1],
        pk_completedBitmap = [1], pk_failureBitmap = [0], pk_latencyValues = [0, 0, 1, 2]\<rparr>,
      cb_schedulerStartedAt = minute, cb_schedulerCompletedAt = Some (minute + 2000),
      cb_createdAt = minute\<rparr>"

definition sample_db :: monitoring_db where
  "sample_db = \<lparr>db_batches = map sample_batch [0, 60000, 120000], db_incidents = [], db_rollups = []\<rparr>"

lemma sample_batch_ok: "batch_ok (sample_batch minute)"
  by (simp add: batch_ok_def batch_values_def sample_batch_def decodeTelemetry_def PACKED_TELEMETRY_VERSION_def
      ceil_div_def decodeAt_def readBit_def readUInt32BE_def NO_LATENCY_def Let_def)

lemma sample_batch_minute [simp]: "cb_scheduledMinute (sample_batch minute) = minute"
  by (simp add: sample_batch_def)

lemma sample_batch_slots:
  "batch_slots (sample_batch minute) =
     Inr [\<lparr>sl_minute = minute, sl_monitorId = ''api'', sl_expected = 1, sl_completed = 1,
           sl_failed = 0, sl_latencyMs = Some 258\<rparr>]"
  by (simp add: batch_slots_def sample_batch_def slot_at_def sql_bit_def sql_latency_def get_byte_def
      to_integer_def Let_def)

theorem rollup_runs_meet_checks_witness:
  "\<exists>db'. run_steps rollup_step sample_db
            [Compact 0 900000 1000000, Promote Res_15m Res_hour 0 3600000] = Inr db' \<and>
          list_all rollup_checks (db_rollups db') \<and> db_rollups db' \<noteq> []"
proof -
  obtain r where "compact_15_minute 0 900000 1000000 (db_batches sample_db) [] [] = Inr [r]"
    by (simp add: compact_15_minute_def sample_db_def sample_batch_slots floor_to_def
        QUARTER_MS_def left_join_def bucket_of_def sql_group_def js_unique_def Let_def)
  then obtain db' where db': "run_steps rollup_step sample_db
      [Compact 0 900000 1000000, Promote Res_15m Res_hour 0 3600000] = Inr db'"
    and rows: "db_rollups db' = promote_rollup Res_15m Res_hour 0 3600000 [r]"
    by (simp add: rollup_step_def sample_db_def)
  have "rollup_key r \<in> rollup_key ` set (db_rollups db')"
    unfolding rows promote_rollup_def Let_def sql_upsert_keys by simp
  then have "db_rollups db' \<noteq> []" by auto
  have "rollups_inv sample_db" by (simp add: rollups_inv_def sample_db_def sample_batch_ok)
  from rollup_runs_meet_checks [OF this db'] db' \<open>db_rollups db' \<noteq> []\<close> show ?thesis by blast
qed

end
