(* ===== verification/Rollup_Laws.thy ===== *)
theory Rollup_Laws
  imports Rollups
begin

text \<open>
  What the rows of \<open>metric_rollups\<close> mean: a compacted row counts the decoded telemetry of its
  quarter hour, a day promoted from promoted hours is the day aggregated directly, and the
  refresh after a minute recomputes whole quarter hours only.
\<close>

subsection \<open>What a compacted row counts\<close>

text \<open>The slots of a monitor in one quarter hour, and the telemetry entries they stand for.\<close>

definition bucket_slots :: "check_batch list \<Rightarrow> string \<Rightarrow> instant \<Rightarrow> minute_slot list" where
  "bucket_slots batches mon bs =
     concat (map (\<lambda>b. map (slot_of b) (filter (\<lambda>e. fst e = mon \<and> tv_expected (snd e)) (batch_entries b)))
       (filter (\<lambda>b. floor_to QUARTER_MS (cb_scheduledMinute b) = bs) batches))"

definition bucket_values :: "check_batch list \<Rightarrow> string \<Rightarrow> instant \<Rightarrow> telemetry_value list" where
  "bucket_values batches mon bs =
     concat (map (\<lambda>b. map snd (filter (\<lambda>e. fst e = mon \<and> tv_expected (snd e)) (batch_entries b)))
       (filter (\<lambda>b. floor_to QUARTER_MS (cb_scheduledMinute b) = bs) batches))"

definition slot_value :: "minute_slot \<Rightarrow> telemetry_value" where
  "slot_value s = \<lparr>tv_expected = (sl_expected s = 1), tv_completed = (sl_completed s = 1),
                   tv_failed = (sl_failed s = 1), tv_latencyMs = sl_latencyMs s\<rparr>"

lemma slot_value_of [simp]: "slot_value (slot_of b e) = snd e"
  by (cases "snd e") (simp add: slot_value_def slot_of_def)

lemma bucket_values_slots: "bucket_values batches mon bs = map slot_value (bucket_slots batches mon bs)"
  by (simp add: bucket_values_def bucket_slots_def map_concat comp_def)

lemma filter_left_join:
  "filter (\<lambda>r. bucket_of r = k) (concat (map (left_join incidents) ss)) =
   concat (map (left_join incidents)
     (filter (\<lambda>s. (sl_monitorId s, floor_to QUARTER_MS (sl_minute s)) = k) ss))"
proof (induction ss)
  case Nil
  show ?case by simp
next
  case (Cons s ss)
  let ?k = "(sl_monitorId s, floor_to QUARTER_MS (sl_minute s))"
  have same: "bucket_of r = ?k" if "r \<in> set (left_join incidents s)" for r
    using that left_join_slot [of "fst r" "snd r" incidents s] by (simp add: bucket_of_def)
  show ?case
  proof (cases "?k = k")
    case True
    then have "filter (\<lambda>r. bucket_of r = k) (left_join incidents s) = left_join incidents s"
      using same by (intro filter_True) auto
    with True Cons show ?thesis by simp
  next
    case False
    then have "filter (\<lambda>r. bucket_of r = k) (left_join incidents s) = []"
      using same by (intro filter_False) auto
    with False Cons show ?thesis by auto
  qed
qed

lemma floor_to_le: "0 < w \<Longrightarrow> floor_to w t \<le> t"
  by (simp add: floor_to_def) (metis div_mult_mod_eq le_add_same_cancel1 pos_mod_sign)

lemma less_floor_to: "0 < w \<Longrightarrow> t < floor_to w t + w"
proof -
  assume "0 < w"
  then have "t mod w < w" by simp
  then show ?thesis unfolding floor_to_def using div_mult_mod_eq [of t w] by linarith
qed

lemma floor_to_multiple: "w dvd floor_to w t"
  by (simp add: floor_to_def)

lemma multiple_less: "0 < (w::int) \<Longrightarrow> w dvd a \<Longrightarrow> w dvd b \<Longrightarrow> a < b \<Longrightarrow> a + w \<le> b"
  by (metis add.commute zdvd_imp_le diff_gt_0_iff_gt dvd_diff le_diff_eq)

lemma batch_slots_all:
  assumes "list_all batch_ok batches" and "res_map batch_slots batches = Inr slots"
  shows "slots = map (\<lambda>b. map (slot_of b) (batch_entries b)) batches"
  using assms
proof (induction batches arbitrary: slots)
  case Nil
  then show ?case by simp
next
  case (Cons b batches)
  then show ?case by (auto simp: res_bind_Inr_iff batch_slots_values)
qed

lemma concat_window:
  assumes "\<And>b. b \<in> set batches \<Longrightarrow> g b \<noteq> [] \<Longrightarrow> p b \<and> win b" and "\<And>b. p b \<Longrightarrow> win b"
  shows "concat (map g (filter win batches)) = concat (map g (filter p batches))"
  using assms(1)
proof (induction batches)
  case Nil
  show ?case by simp
next
  case (Cons b batches)
  show ?case
  proof (cases "g b = []")
    case True
    with Cons show ?thesis by simp
  next
    case False
    with Cons.prems [of b] have "p b" "win b" by auto
    with Cons show ?thesis by simp
  qed
qed

text \<open>The minutes a compaction reads: from its start to the last whole quarter hour before its end.\<close>

definition window_batches :: "instant \<Rightarrow> instant \<Rightarrow> check_batch list \<Rightarrow> check_batch list" where
  "window_batches start end_t batches =
     filter (\<lambda>b. start \<le> cb_scheduledMinute b \<and> cb_scheduledMinute b < floor_to QUARTER_MS end_t) batches"

lemma bucket_slots_filter:
  "filter (\<lambda>s. (sl_monitorId s, floor_to QUARTER_MS (sl_minute s)) = (mon, bs))
     (filter (\<lambda>s. sl_expected s = 1) (concat (map (\<lambda>b. map (slot_of b) (batch_entries b)) batches))) =
   bucket_slots batches mon bs"
proof (induction batches)
  case Nil
  show ?case by (simp add: bucket_slots_def)
next
  case (Cons b batches)
  then show ?case
    by (auto simp: bucket_slots_def filter_map comp_def slot_of_def filter_empty_conv conj_commute
        cong: filter_cong)
qed

lemma bucket_slots_window:
  assumes "start \<le> bs" and "QUARTER_MS dvd bs" and "bs < floor_to QUARTER_MS end_t"
  shows "bucket_slots (window_batches start end_t batches) mon bs = bucket_slots batches mon bs"
proof -
  have q: "0 < QUARTER_MS" by (simp add: QUARTER_MS_def)
  have inside: "start \<le> m \<and> m < floor_to QUARTER_MS end_t" if "floor_to QUARTER_MS m = bs" for m
    using that assms floor_to_le [OF q, of m] less_floor_to [OF q, of m]
      multiple_less [OF q assms(2) floor_to_multiple assms(3)] by linarith
  have "filter (\<lambda>b. floor_to QUARTER_MS (cb_scheduledMinute b) = bs) (window_batches start end_t batches) =
      filter (\<lambda>b. floor_to QUARTER_MS (cb_scheduledMinute b) = bs) batches"
    unfolding window_batches_def filter_filter using inside by (intro filter_cong) auto
  then show ?thesis by (simp add: bucket_slots_def)
qed

lemma compacted_bucket_keys [table_simps]:
  "mr_monitorId (compacted_bucket now k g) = fst k" "mr_bucketStart (compacted_bucket now k g) = snd k"
  "rollup_key (compacted_bucket now k g) = (fst k, Res_15m, snd k)"
  by (simp_all add: compacted_bucket_def rollup_key_def Let_def)

lemma promoted_bucket_keys [table_simps]:
  "mr_monitorId (promoted_bucket target e k g) = fst k" "mr_bucketStart (promoted_bucket target e k g) = snd k"
  "mr_resolution (promoted_bucket target e k g) = target"
  "rollup_key (promoted_bucket target e k g) = (fst k, target, snd k)"
  by (simp_all add: promoted_bucket_def rollup_key_def)

text \<open>What a compaction leaves for a bucket: its row over the minutes read, or the row before.\<close>

lemma compact_row_window:
  assumes "compact_15_minute start end_t now batches incidents rollups = Inr rollups'"
    and "list_all batch_ok batches"
  shows "row_at rollup_key (mon, Res_15m, bs) rollups' =
    (let slots = bucket_slots (window_batches start end_t batches) mon bs in
     if slots = [] then row_at rollup_key (mon, Res_15m, bs) rollups
     else Some (compacted_bucket now (mon, bs) (concat (map (left_join incidents) slots))))"
proof -
  let ?W = "window_batches start end_t batches"
  let ?f = "\<lambda>k g. compacted_bucket now k g"
  let ?mine = "concat (map (left_join incidents) (bucket_slots ?W mon bs))"
  from assms(1) obtain slots rows where slots: "res_map batch_slots ?W = Inr slots"
    and rows: "rows = concat (map (left_join incidents) (filter (\<lambda>s. sl_expected s = 1) (concat slots)))"
    and r': "rollups' = sql_upsert rollup_key (map (\<lambda>(k, g). ?f k g) (sql_group bucket_of rows)) rollups"
    unfolding compact_15_minute_def window_batches_def Let_def res_bind_Inr_iff by blast
  have "list_all batch_ok ?W" using assms(2) by (auto simp: list_all_iff window_batches_def)
  then have "slots = map (\<lambda>b. map (slot_of b) (batch_entries b)) ?W" using slots by (rule batch_slots_all)
  then have here: "filter (\<lambda>r. bucket_of r = (mon, bs)) rows = ?mine"
    by (simp only: rows filter_left_join bucket_slots_filter)
  have nonempty: "left_join incidents s \<noteq> []" for s by (simp add: left_join_def Let_def)
  have key: "row_at rollup_key (mon, Res_15m, bs) (map (\<lambda>(k, g). ?f k g) gs) =
      row_at (\<lambda>r. (mr_monitorId r, mr_bucketStart r)) (mon, bs) (map (\<lambda>(k, g). ?f k g) gs)" for gs
    by (induction gs) (auto simp: table_simps)
  have "map rollup_key (map (\<lambda>(k, g). ?f k g) gs) = map (\<lambda>k. (fst k, Res_15m, snd k)) (map fst gs)" for gs
    by (induction gs) (auto simp: table_simps)
  then have dist: "distinct (map rollup_key (map (\<lambda>(k, g). ?f k g) (sql_group bucket_of rows)))"
    by (auto simp: distinct_map inj_on_def prod_eq_iff simp del: map_map)
  have mine: "row_at (\<lambda>r. (mr_monitorId r, mr_bucketStart r)) (mon, bs)
      (map (\<lambda>(k, g). ?f k g) (sql_group bucket_of rows)) =
      (if (mon, bs) \<in> bucket_of ` set rows then Some (?f (mon, bs) ?mine) else None)"
    using row_at_sql_group [of "\<lambda>r. (mr_monitorId r, mr_bucketStart r)" ?f "(mon, bs)" bucket_of rows] here
    by (simp add: table_simps)
  have "(mon, bs) \<in> bucket_of ` set rows \<longleftrightarrow> ?mine \<noteq> []"
    unfolding here [symmetric] by (force simp: filter_empty_conv)
  also have "\<dots> \<longleftrightarrow> bucket_slots ?W mon bs \<noteq> []"
    using nonempty by (cases "bucket_slots ?W mon bs") auto
  finally show ?thesis unfolding r' Let_def using dist by (simp add: row_at_upsert key mine)
qed

text \<open>The row of a bucket that lies inside the window of a compaction.\<close>

lemma compact_row:
  assumes "compact_15_minute start end_t now batches incidents rollups = Inr rollups'"
    and "list_all batch_ok batches"
    and "start \<le> bs" and "QUARTER_MS dvd bs" and "bs < floor_to QUARTER_MS end_t"
    and "bucket_slots batches mon bs \<noteq> []"
  shows "row_at rollup_key (mon, Res_15m, bs) rollups' =
           Some (compacted_bucket now (mon, bs) (concat (map (left_join incidents) (bucket_slots batches mon bs))))"
  using compact_row_window [OF assms(1,2), of mon bs] assms(6)
  by (simp add: bucket_slots_window [OF assms(3-5)] Let_def)

text \<open>
  The telemetry entries a row counts: an expected minute counts once for each incident that overlaps
  it, and once when there is none.
\<close>

definition incidents_at :: "incident list \<Rightarrow> minute_slot \<Rightarrow> nat" where
  "incidents_at incidents s = length (filter (overlaps s) incidents)"

definition counted_values :: "incident list \<Rightarrow> check_batch list \<Rightarrow> string \<Rightarrow> instant \<Rightarrow> telemetry_value list" where
  "counted_values incidents batches mon bs =
     concat (map (\<lambda>b. concat (map (\<lambda>e. replicate (max 1 (incidents_at incidents (slot_of b e))) (snd e))
         (filter (\<lambda>e. fst e = mon \<and> tv_expected (snd e)) (batch_entries b))))
       (filter (\<lambda>b. floor_to QUARTER_MS (cb_scheduledMinute b) = bs) batches))"

lemma joined_values:
  "map slot_value (map fst (concat (map (left_join incidents) ss))) =
   concat (map (\<lambda>s. replicate (max 1 (incidents_at incidents s)) (slot_value s)) ss)"
proof (induction ss)
  case Nil
  show ?case by simp
next
  case (Cons s ss)
  have "map slot_value (map fst (left_join incidents s)) =
      replicate (max 1 (incidents_at incidents s)) (slot_value s)"
    by (cases "filter (overlaps s) incidents")
      (simp_all add: left_join_def incidents_at_def map_replicate_const [symmetric] comp_def)
  with Cons show ?case by simp
qed

lemma counted_values_slots:
  "counted_values incidents batches mon bs =
   map slot_value (map fst (concat (map (left_join incidents) (bucket_slots batches mon bs))))"
proof -
  have "concat (map f (concat (map g bs))) = concat (map (\<lambda>b. concat (map f (g b))) bs)"
    for f :: "minute_slot \<Rightarrow> telemetry_value list" and g and bs :: "check_batch list"
    by (induction bs) simp_all
  then show ?thesis
    unfolding joined_values by (simp add: counted_values_def bucket_slots_def comp_def)
qed

lemma counted_values_once:
  assumes "\<forall>s \<in> set (bucket_slots batches mon bs). incidents_at incidents s \<le> 1"
  shows "counted_values incidents batches mon bs = bucket_values batches mon bs"
proof -
  have "concat (map (\<lambda>s. replicate (max 1 (incidents_at incidents s)) (slot_value s)) ss) = map slot_value ss"
    if "\<forall>s \<in> set ss. incidents_at incidents s \<le> 1" for ss
    using that by (induction ss) (auto simp: max_def le_Suc_eq)
  with assms show ?thesis
    by (simp add: counted_values_slots joined_values bucket_values_slots del: map_map)
qed

lemma bucket_slots_ok:
  assumes "list_all batch_ok batches" shows "\<forall>s \<in> set (bucket_slots batches mon bs). slot_ok s"
proof
  fix s assume "s \<in> set (bucket_slots batches mon bs)"
  then obtain b e where b: "b \<in> set batches" and e: "e \<in> set (batch_entries b)" and s: "s = slot_of b e"
    by (auto simp: bucket_slots_def)
  have "decodeTelemetry (cb_packed b) = Inr (batch_values b)"
    using assms b by (auto simp: list_all_iff batch_ok_def)
  from decodeTelemetry_Inr(6) [OF this] e have "consistent_value (snd e)"
    by (cases e) (auto simp: batch_entries_def list_all_iff dest: set_zip_rightD)
  then show "slot_ok s" unfolding s by (rule slot_of_ok)
qed

lemma count_rows: "count_where (\<lambda>(s, i). p s) rows = count_where p (map fst rows)"
  by (induction rows) auto

lemma map_rows: "map (\<lambda>(s, i). f s) rows = map f (map fst rows)"
  by auto

lemma compacted_fields:
  fixes now :: instant and k :: "string \<times> instant"
  assumes "\<forall>(s, i) \<in> set rows. slot_ok s" and "values = map slot_value (map fst rows)"
  defines "r \<equiv> compacted_bucket now k rows"
  shows "mr_expectedChecks r = int (length values)"
    and "mr_completedChecks r = count_where tv_completed values"
    and "mr_failedChecks r = count_where tv_failed values"
    and "mr_latencySumMs r = sum_list (not_null (map tv_latencyMs values))"
    and "mr_latencyHistogram r = map int (bucket_counts (not_null (map tv_latencyMs values)))"
    and "\<forall>l \<in> set (not_null (map tv_latencyMs values)). 0 \<le> l"
proof -
  have lat: "map (\<lambda>(s, i). sl_latencyMs s) rows = map tv_latencyMs values"
    unfolding assms(2) map_rows by (simp add: slot_value_def)
  note l = completed_latencies [OF assms(1), unfolded lat]
  show "mr_expectedChecks r = int (length values)"
    by (simp add: r_def compacted_bucket_def Let_def assms(2))
  show "mr_completedChecks r = count_where tv_completed values"
    unfolding r_def compacted_bucket_def Let_def assms(2) count_where_map
    by (simp add: count_rows slot_value_def count_where_map)
  show "mr_failedChecks r = count_where tv_failed values"
    unfolding r_def compacted_bucket_def Let_def assms(2) count_where_map
    by (simp add: count_rows slot_value_def count_where_map)
  show "mr_latencySumMs r = sum_list (not_null (map tv_latencyMs values))"
    unfolding r_def compacted_bucket_def Let_def rollup.simps l(1) by (rule refl)
  show "mr_latencyHistogram r = map int (bucket_counts (not_null (map tv_latencyMs values)))"
    unfolding r_def compacted_bucket_def Let_def rollup.simps lat latency_histogram_bucket_counts ..
  show "\<forall>l \<in> set (not_null (map tv_latencyMs values)). 0 \<le> l"
    by (rule l(3))
qed

subsection \<open>Promotion in two steps\<close>

lemma promoted_bucket_mset: "mset a = mset b \<Longrightarrow> promoted_bucket target e k a = promoted_bucket target e k b"
proof -
  assume ab: "mset a = mset b"
  have sums: "sum_list (map f a) = sum_list (map f b)" for f :: "rollup \<Rightarrow> int"
    using ab by (metis mset_map sum_mset_sum_list)
  have sets: "set a = set b" using ab by (rule mset_eq_setD)
  then have nn: "set (not_null (map f a)) = set (not_null (map f b))" for f :: "rollup \<Rightarrow> int option"
    by (simp add: set_not_null)
  then have "sql_min (not_null (map f a)) = sql_min (not_null (map f b))"
    "sql_max (not_null (map f a)) = sql_max (not_null (map f b))" for f
    unfolding sql_min_eq sql_max_eq set_empty [symmetric] by simp_all
  with sums sets show ?thesis by (simp add: promoted_bucket_def list_ex_iff)
qed

lemma sql_min_append:
  "sql_min (xs @ ys) = (case (sql_min xs, sql_min ys) of
     (None, m) \<Rightarrow> m | (m, None) \<Rightarrow> m | (Some a, Some b) \<Rightarrow> Some (min a b))"
  by (induction xs) (auto split: option.splits)

lemma sql_max_append:
  "sql_max (xs @ ys) = (case (sql_max xs, sql_max ys) of
     (None, m) \<Rightarrow> m | (m, None) \<Rightarrow> m | (Some a, Some b) \<Rightarrow> Some (max a b))"
  by (induction xs) (auto split: option.splits)

lemma sql_min_nested: "sql_min (not_null (map (\<lambda>g. sql_min (f g)) gs)) = sql_min (concat (map f gs))"
proof (induction gs)
  case Nil
  show ?case by simp
next
  case (Cons g gs)
  then show ?case by (cases "sql_min (f g)") (auto simp: sql_min_append split: option.splits)
qed

lemma sql_max_nested: "sql_max (not_null (map (\<lambda>g. sql_max (f g)) gs)) = sql_max (concat (map f gs))"
proof (induction gs)
  case Nil
  show ?case by simp
next
  case (Cons g gs)
  then show ?case by (cases "sql_max (f g)") (auto simp: sql_max_append split: option.splits)
qed

lemma not_null_concat: "not_null (concat xss) = concat (map not_null xss)"
  by (induction xss) (simp_all add: not_null_append)

lemma sum_list_concat_map: "sum_list (map f (concat gs)) = (\<Sum>g\<leftarrow>gs. sum_list (map f g))"
  by (induction gs) simp_all

lemma promoted_concat:
  "promoted_bucket target e k (map (\<lambda>(k', g). promoted_bucket t' e' k' g) groups) =
   promoted_bucket target e k (concat (map snd groups))"
proof -
  have sums: "sum_list (map f (map (\<lambda>(k', g). promoted_bucket t' e' k' g) groups)) =
      sum_list (map f (concat (map snd groups)))"
    if "\<And>k' g. f (promoted_bucket t' e' k' g) = sum_list (map f g)" for f :: "rollup \<Rightarrow> int"
    unfolding sum_list_concat_map by (induction groups) (auto simp: that)
  have ex: "list_ex mr_hasIncident (map (\<lambda>(k', g). promoted_bucket t' e' k' g) groups) =
      list_ex mr_hasIncident (concat (map snd groups))"
    by (induction groups) (auto simp: promoted_bucket_def list_ex_iff)
  have lo: "sql_min (not_null (map mr_latencyMinMs (map (\<lambda>(k', g). promoted_bucket t' e' k' g) groups))) =
      sql_min (not_null (map mr_latencyMinMs (concat (map snd groups))))"
    using sql_min_nested [of "\<lambda>g. not_null (map mr_latencyMinMs g)" "map snd groups"]
    by (simp add: promoted_bucket_def map_concat not_null_concat comp_def case_prod_unfold)
  have hi: "sql_max (not_null (map mr_latencyMaxMs (map (\<lambda>(k', g). promoted_bucket t' e' k' g) groups))) =
      sql_max (not_null (map mr_latencyMaxMs (concat (map snd groups))))"
    using sql_max_nested [of "\<lambda>g. not_null (map mr_latencyMaxMs g)" "map snd groups"]
    by (simp add: promoted_bucket_def map_concat not_null_concat comp_def case_prod_unfold)
  have hist: "map (\<lambda>n. sum_list (map (\<lambda>r. mr_latencyHistogram r ! n)
        (map (\<lambda>(k', g). promoted_bucket t' e' k' g) groups))) [0..<8] =
      map (\<lambda>n. sum_list (map (\<lambda>r. mr_latencyHistogram r ! n) (concat (map snd groups)))) [0..<8]"
    unfolding sum_list_concat_map
    by (rule map_cong [OF refl], induction groups) (auto simp: promoted_bucket_def)
  have columns: "sum_list (map f (map (\<lambda>(k', g). promoted_bucket t' e' k' g) groups)) =
      sum_list (map f (concat (map snd groups)))"
    if "f \<in> {mr_expectedChecks, mr_completedChecks, mr_successfulChecks, mr_failedChecks, mr_unknownChecks,
             mr_downtimeSeconds, mr_unknownSeconds, mr_latencyCount, mr_latencySumMs}" for f
    using that by (intro sums) (auto simp: promoted_bucket_def)
  show ?thesis
    unfolding promoted_bucket_def [of target e k] by (simp only: columns insertI1 insertI2 lo hi ex hist)
qed

lemma mset_groups:
  "mset (concat (map snd (filter (\<lambda>(k, g). q k) (sql_group key rows)))) = mset (filter (\<lambda>r. q (key r)) rows)"
proof -
  let ?h = "\<lambda>r. if q (key r) then {#r#} else {#}"
  have sum: "mset (filter (\<lambda>r. q (key r)) xs) = (\<Sum>r\<leftarrow>xs. ?h r)" for xs
    by (induction xs) auto
  have "mset (concat (map snd (filter (\<lambda>(k, g). q k) gs))) =
      (\<Sum>(k, g)\<leftarrow>gs. if q k then mset g else {#})" for gs :: "('b \<times> 'a list) list"
    by (induction gs) auto
  also have "(\<Sum>(k, g)\<leftarrow>sql_group key rows. if q k then mset g else {#}) =
      (\<Sum>(k, g)\<leftarrow>sql_group key rows. \<Sum>r\<leftarrow>g. ?h r)"
  proof (intro arg_cong [of _ _ sum_list] map_cong refl)
    fix kg assume "kg \<in> set (sql_group key rows)"
    then obtain k where kg: "kg = (k, filter (\<lambda>r. key r = k) rows)" by (metis sql_group_iff surj_pair)
    have "(\<Sum>r\<leftarrow>filter (\<lambda>r. key r = k) rows. ?h r) =
        (if q k then mset (filter (\<lambda>r. key r = k) rows) else {#})"
      by (induction rows) auto
    then show "(case kg of (k, g) \<Rightarrow> if q k then mset g else {#}) = (case kg of (k, g) \<Rightarrow> \<Sum>r\<leftarrow>g. ?h r)"
      by (simp add: kg)
  qed
  also have "\<dots> = (\<Sum>r\<leftarrow>rows. ?h r)" by (rule sum_sql_group)
  finally show ?thesis unfolding sum .
qed

text \<open>The row a promotion writes for a bucket of its window.\<close>

definition promotable ::
  "resolution_size \<Rightarrow> resolution_size \<Rightarrow> instant \<Rightarrow> instant \<Rightarrow> rollup \<Rightarrow> bool" where
  "promotable source target start end_t r \<longleftrightarrow> mr_resolution r = source \<and>
     floor_to (resolution_ms target) start \<le> mr_bucketStart r \<and>
     mr_bucketStart r < floor_to (resolution_ms target) end_t"

definition promoted_key :: "resolution_size \<Rightarrow> rollup \<Rightarrow> string \<times> instant" where
  "promoted_key target r = (mr_monitorId r, floor_to (resolution_ms target) (mr_bucketStart r))"

definition promoted_rows ::
  "resolution_size \<Rightarrow> resolution_size \<Rightarrow> instant \<Rightarrow> instant \<Rightarrow> rollup list \<Rightarrow> rollup list" where
  "promoted_rows source target start end_t rollups =
     map (\<lambda>(k, g). promoted_bucket target end_t k g)
       (sql_group (promoted_key target) (filter (promotable source target start end_t) rollups))"

lemma promote_rollup_rows:
  "promote_rollup source target start end_t rollups =
     sql_upsert rollup_key (promoted_rows source target start end_t rollups) rollups"
  by (simp add: promote_rollup_def promoted_rows_def promotable_def [abs_def] promoted_key_def [abs_def] Let_def)

lemma keys_promoted_rows:
  "map rollup_key (promoted_rows source target start end_t rollups) =
     map (\<lambda>k. (fst k, target, snd k))
       (js_unique (map (promoted_key target) (filter (promotable source target start end_t) rollups)))"
proof -
  have "map rollup_key (map (\<lambda>(k, g). promoted_bucket target end_t k g) gs) =
      map (\<lambda>k. (fst k, target, snd k)) (map fst gs)" for gs
    by (induction gs) (auto simp: table_simps)
  then show ?thesis unfolding promoted_rows_def by (simp only: map_fst_sql_group)
qed

lemma distinct_promoted_rows: "distinct (map rollup_key (promoted_rows source target start end_t rollups))"
  unfolding keys_promoted_rows by (auto simp: distinct_map inj_on_def prod_eq_iff)

lemma promoted_row_at:
  "row_at rollup_key (mon, target, bs) (promoted_rows source target start end_t rollups) =
     (let group = filter (\<lambda>r. promoted_key target r = (mon, bs))
                    (filter (promotable source target start end_t) rollups)
      in if group = [] then None else Some (promoted_bucket target end_t (mon, bs) group))"
proof -
  let ?rows = "filter (promotable source target start end_t) rollups"
  have key: "row_at rollup_key (mon, target, bs) (map (\<lambda>(k, g). promoted_bucket target end_t k g) gs) =
      row_at (\<lambda>r. (mr_monitorId r, mr_bucketStart r)) (mon, bs) (map (\<lambda>(k, g). promoted_bucket target end_t k g) gs)" for gs
    by (induction gs) (auto simp: table_simps)
  have "(mon, bs) \<in> promoted_key target ` set ?rows \<longleftrightarrow>
      filter (\<lambda>r. promoted_key target r = (mon, bs)) ?rows \<noteq> []"
    unfolding filter_empty_conv by (auto simp: image_iff)
  then show ?thesis
    unfolding promoted_rows_def key Let_def
    by (subst row_at_sql_group) (simp_all add: table_simps del: filter_filter)
qed

lemma promote_row:
  assumes "filter (\<lambda>r. promoted_key target r = (mon, bs)) (filter (promotable source target start end_t) rollups) = rs"
    and "rs \<noteq> []"
  shows "row_at rollup_key (mon, target, bs) (promote_rollup source target start end_t rollups) =
           Some (promoted_bucket target end_t (mon, bs) rs)"
  using assms by (simp add: promote_rollup_rows row_at_upsert distinct_promoted_rows promoted_row_at Let_def del: filter_filter)

lemma promote_other:
  assumes "res \<noteq> target"
  shows "row_at rollup_key (mon, res, bs) (promote_rollup source target start end_t rollups) =
           row_at rollup_key (mon, res, bs) rollups"
proof -
  have "(mon, res, bs) \<notin> set (map rollup_key (promoted_rows source target start end_t rollups))"
    unfolding keys_promoted_rows using assms by auto
  then have "row_at rollup_key (mon, res, bs) (promoted_rows source target start end_t rollups) = None"
    by (simp add: row_at_None_iff)
  then show ?thesis by (simp add: promote_rollup_rows row_at_upsert distinct_promoted_rows)
qed

lemma floor_day_hour: "floor_to DAY_MS (floor_to HOUR_MS t) = floor_to DAY_MS t"
proof -
  have day: "DAY_MS = 24 * HOUR_MS" by (simp add: DAY_MS_def HOUR_MS_def)
  have "floor_to HOUR_MS t div DAY_MS = t div HOUR_MS div 24"
    unfolding day by (simp add: floor_to_def zdiv_zmult2_eq mult.commute [of 24] HOUR_MS_def)
  also have "\<dots> = t div DAY_MS"
    unfolding day by (simp add: zdiv_zmult2_eq mult.commute [of 24] HOUR_MS_def)
  finally show ?thesis by (simp add: floor_to_def)
qed

lemma floor_to_self: "w dvd a \<Longrightarrow> floor_to w a = a"
  by (simp add: floor_to_def)

lemma floor_to_bounds:
  assumes "0 < w" and "w dvd a" and "w dvd b"
  shows "a \<le> floor_to w t \<and> floor_to w t < b \<longleftrightarrow> a \<le> t \<and> t < b"
proof -
  have "floor_to w t \<le> t" "t < floor_to w t + w" using assms(1) by (rule floor_to_le, rule less_floor_to)
  moreover have "floor_to w t < b \<Longrightarrow> floor_to w t + w \<le> b"
    using multiple_less [OF assms(1) floor_to_multiple assms(3)] .
  moreover have "floor_to w t < a \<Longrightarrow> floor_to w t + w \<le> a"
    using multiple_less [OF assms(1) floor_to_multiple assms(2)] .
  ultimately show ?thesis by linarith
qed

text \<open>After hours are promoted, the hour rows of the window are exactly those just written.\<close>

lemma hours_after_promotion:
  assumes "distinct (map rollup_key rollups)" and "HOUR_MS dvd start" and "HOUR_MS dvd end_t"
    and fresh: "\<forall>h \<in> set rollups. mr_resolution h = Res_hour \<and> start \<le> mr_bucketStart h \<and> mr_bucketStart h < end_t \<longrightarrow>
           (\<exists>q \<in> set rollups. mr_resolution q = Res_15m \<and> promoted_key Res_hour q = (mr_monitorId h, mr_bucketStart h))"
  shows "mset (filter (\<lambda>r. mr_resolution r = Res_hour \<and> start \<le> mr_bucketStart r \<and> mr_bucketStart r < end_t)
            (promote_rollup Res_15m Res_hour start end_t rollups)) =
         mset (promoted_rows Res_15m Res_hour start end_t rollups)"
proof -
  let ?new = "promoted_rows Res_15m Res_hour start end_t rollups"
  let ?win = "\<lambda>r. mr_resolution r = Res_hour \<and> start \<le> mr_bucketStart r \<and> mr_bucketStart r < end_t"
  let ?T = "promote_rollup Res_15m Res_hour start end_t rollups"
  have pos: "0 < HOUR_MS" by (simp add: HOUR_MS_def)
  have ms: "resolution_ms Res_hour = HOUR_MS" by (simp add: resolution_ms_def)
  have dT: "distinct (map rollup_key ?T)"
    unfolding promote_rollup_rows using assms(1) by (rule sql_upsert_distinct)
  have at: "row_at rollup_key k ?T = (case row_at rollup_key k ?new of Some r \<Rightarrow> Some r | None \<Rightarrow> row_at rollup_key k rollups)" for k
    unfolding promote_rollup_rows by (rule row_at_upsert [OF distinct_promoted_rows])
  have prom: "promotable Res_15m Res_hour start end_t q \<longleftrightarrow>
      mr_resolution q = Res_15m \<and> start \<le> mr_bucketStart q \<and> mr_bucketStart q < end_t" for q
    using assms(2,3) by (simp add: promotable_def ms floor_to_self)
  have in_win: "?win r" if "r \<in> set ?new" for r
  proof -
    from that obtain k g where r: "r = promoted_bucket Res_hour end_t k g"
      and k: "k \<in> promoted_key Res_hour ` set (filter (promotable Res_15m Res_hour start end_t) rollups)"
      by (auto simp: promoted_rows_def sql_group_iff)
    from k obtain q where "promotable Res_15m Res_hour start end_t q" "k = promoted_key Res_hour q" by auto
    with floor_to_bounds [OF pos assms(2,3)] show ?thesis
      by (simp add: r table_simps prom promoted_key_def ms)
  qed
  have "set (filter ?win ?T) = set ?new"
  proof (intro equalityI subsetI)
    fix r assume "r \<in> set ?new"
    then have "row_at rollup_key (rollup_key r) ?T = Some r"
      using row_at_distinct [OF distinct_promoted_rows] by (simp add: at)
    with in_win [OF \<open>r \<in> set ?new\<close>] show "r \<in> set (filter ?win ?T)"
      by (auto dest: row_at_Some)
  next
    fix r assume "r \<in> set (filter ?win ?T)"
    then have rT: "row_at rollup_key (rollup_key r) ?T = Some r" and win: "?win r"
      using row_at_distinct [OF dT] by auto
    show "r \<in> set ?new"
    proof (cases "row_at rollup_key (rollup_key r) ?new")
      case (Some r')
      with rT at have "r' = r" by simp
      with Some show ?thesis by (auto dest: row_at_Some)
    next
      case None
      with rT at have "row_at rollup_key (rollup_key r) rollups = Some r" by simp
      then have "r \<in> set rollups" by (auto dest: row_at_Some)
      with fresh win obtain q where q: "q \<in> set rollups" "mr_resolution q = Res_15m"
          "promoted_key Res_hour q = (mr_monitorId r, mr_bucketStart r)" by blast
      then have fl: "floor_to HOUR_MS (mr_bucketStart q) = mr_bucketStart r" by (simp add: promoted_key_def ms)
      have "start \<le> mr_bucketStart q \<and> mr_bucketStart q < end_t"
        using floor_to_bounds [OF pos assms(2,3), of "mr_bucketStart q"] win unfolding fl by blast
      with q prom have "(mr_monitorId r, mr_bucketStart r) \<in>
          promoted_key Res_hour ` set (filter (promotable Res_15m Res_hour start end_t) rollups)"
        by (force simp: image_iff)
      then have "(\<lambda>k. (fst k, Res_hour, snd k)) (mr_monitorId r, mr_bucketStart r) \<in> set (map rollup_key ?new)"
        unfolding keys_promoted_rows set_map set_js_unique by (rule imageI)
      then have "rollup_key r \<in> set (map rollup_key ?new)" using win by (simp add: rollup_key_def)
      with None show ?thesis by (auto simp: row_at_None_iff)
    qed
  qed
  moreover have "distinct (filter ?win ?T)" "distinct ?new"
    using dT distinct_promoted_rows by (auto simp: distinct_map)
  ultimately show ?thesis using set_eq_iff_mset_eq_distinct by blast
qed

lemma mset_eq_nonempty: "mset a = mset b \<Longrightarrow> b \<noteq> [] \<Longrightarrow> a \<noteq> []"
  by auto

lemma day_of_hours:
  assumes "distinct (map rollup_key rollups)" and "DAY_MS dvd start" and "DAY_MS dvd end_t"
    and "\<forall>h \<in> set rollups. mr_resolution h = Res_hour \<and> start \<le> mr_bucketStart h \<and> mr_bucketStart h < end_t \<longrightarrow>
           (\<exists>q \<in> set rollups. mr_resolution q = Res_15m \<and> promoted_key Res_hour q = (mr_monitorId h, mr_bucketStart h))"
    and "start \<le> day" and "day < end_t"
    and "filter (\<lambda>q. mr_resolution q = Res_15m \<and> promoted_key Res_day q = (mon, day)) rollups = quarters"
    and "quarters \<noteq> []"
  shows "row_at rollup_key (mon, Res_day, day)
           (promote_rollup Res_hour Res_day start end_t (promote_rollup Res_15m Res_hour start end_t rollups)) =
         Some (promoted_bucket Res_day end_t (mon, day) quarters)"
proof -
  let ?T = "promote_rollup Res_15m Res_hour start end_t rollups"
  let ?new = "promoted_rows Res_15m Res_hour start end_t rollups"
  let ?W = "filter (promotable Res_15m Res_hour start end_t) rollups"
  let ?day = "\<lambda>k. fst k = mon \<and> floor_to DAY_MS (snd k) = day"
  let ?G = "filter (\<lambda>(k, g). ?day k) (sql_group (promoted_key Res_hour) ?W)"
  have pos: "0 < DAY_MS" by (simp add: DAY_MS_def)
  have ms: "resolution_ms Res_hour = HOUR_MS" "resolution_ms Res_day = DAY_MS"
    by (simp_all add: resolution_ms_def)
  have hd: "HOUR_MS dvd DAY_MS" by (simp add: DAY_MS_def HOUR_MS_def)
  have aligned: "HOUR_MS dvd start" "HOUR_MS dvd end_t" using assms(2,3) hd by (auto intro: dvd_trans)
  have key_day: "promoted_key Res_day r = (mon, day) \<longleftrightarrow> ?day (mr_monitorId r, mr_bucketStart r)" for r
    by (simp add: promoted_key_def ms)
  define hours where "hours = filter (\<lambda>r. promoted_key Res_day r = (mon, day))
      (filter (promotable Res_hour Res_day start end_t) ?T)"
  have win: "promotable Res_hour Res_day start end_t r \<longleftrightarrow>
      mr_resolution r = Res_hour \<and> start \<le> mr_bucketStart r \<and> mr_bucketStart r < end_t" for r
    using assms(2,3) by (simp add: promotable_def ms floor_to_self)
  let ?H = "map (\<lambda>(k, g). promoted_bucket Res_hour end_t k g) ?G"
  have mh0: "mset hours = mset (filter (\<lambda>r. promoted_key Res_day r = (mon, day)) ?new)"
    unfolding hours_def win [abs_def] mset_filter [of "\<lambda>r. promoted_key Res_day r = (mon, day)"]
      hours_after_promotion [OF assms(1) aligned assms(4)] ..
  have "filter (\<lambda>r. ?day (mr_monitorId r, mr_bucketStart r)) (map (\<lambda>(k, g). promoted_bucket Res_hour end_t k g) gs) =
      map (\<lambda>(k, g). promoted_bucket Res_hour end_t k g) (filter (\<lambda>(k, g). ?day k) gs)" for gs
    by (induction gs) (auto simp: table_simps)
  then have mh: "mset hours = mset ?H"
    unfolding mh0 promoted_rows_def key_day by simp
  have hours: "promoted_bucket Res_day end_t (mon, day) hours =
      promoted_bucket Res_day end_t (mon, day) (concat (map snd ?G))"
    unfolding promoted_bucket_mset [OF mh] by (rule promoted_concat)
  have "mset (concat (map snd ?G)) = mset (filter (\<lambda>r. ?day (promoted_key Res_hour r)) ?W)"
    by (rule mset_groups)
  also have "filter (\<lambda>r. ?day (promoted_key Res_hour r)) ?W = quarters"
  proof -
    have "start \<le> mr_bucketStart q \<and> mr_bucketStart q < end_t" if "floor_to DAY_MS (mr_bucketStart q) = day" for q
      using floor_to_bounds [OF pos assms(2,3), of "mr_bucketStart q"] assms(5,6) that by blast
    then show ?thesis
      unfolding assms(7) [symmetric] filter_filter key_day
      by (intro filter_cong) (auto simp: promotable_def promoted_key_def ms aligned floor_to_self floor_day_hour)
  qed
  finally have mq: "mset (concat (map snd ?G)) = mset quarters" .
  with assms(8) have "?G \<noteq> []" by auto
  then have "?H \<noteq> []" by simp
  then have "hours \<noteq> []" by (rule mset_eq_nonempty [OF mh])
  from promote_row [OF hours_def [symmetric] this] show ?thesis
    unfolding hours promoted_bucket_mset [OF mq] .
qed

subsection \<open>Properties\<close>

text \<open>C8. The SQL and the codec agree. For every monitor and quarter hour, a compaction that returns
  either found no minute of it, between its start and the last whole quarter hour, in which the
  monitor was expected, and left the row as it was; or its row counts the telemetry entries
  \<open>decodeTelemetry\<close> gives for those minutes, once for each incident that overlaps the minute and
  at least once, with the histogram \<open>histogramFor\<close> computes of their latencies. When the start is
  not inside the quarter hour and no two incidents overlap one minute, these are the entries of the
  whole quarter hour.\<close>

theorem compaction_matches_decoder:
  assumes "compact_15_minute start end_t now batches incidents rollups = Inr rollups'"
    and "list_all batch_ok batches"
    and "counted_values incidents (window_batches start end_t batches) mon bs = values"
  shows "(values = [] \<longrightarrow>
            row_at rollup_key (mon, Res_15m, bs) rollups' = row_at rollup_key (mon, Res_15m, bs) rollups) \<and>
         (values \<noteq> [] \<longrightarrow>
           (\<exists>r h. row_at rollup_key (mon, Res_15m, bs) rollups' = Some r \<and>
             mr_expectedChecks r = int (length values) \<and>
             mr_completedChecks r = count_where tv_completed values \<and>
             mr_failedChecks r = count_where tv_failed values \<and>
             mr_latencySumMs r = sum_list (not_null (map tv_latencyMs values)) \<and>
             histogramFor (not_null (map tv_latencyMs values)) = Inr h \<and>
             mr_latencyHistogram r = map int h)) \<and>
         (start \<le> bs \<and> QUARTER_MS dvd bs \<and> bs < floor_to QUARTER_MS end_t \<and>
           (\<forall>s \<in> set (bucket_slots batches mon bs). incidents_at incidents s \<le> 1) \<longrightarrow>
           values = bucket_values batches mon bs)"
proof (intro conjI impI)
  let ?slots = "bucket_slots (window_batches start end_t batches) mon bs"
  let ?rows = "concat (map (left_join incidents) ?slots)"
  have vals: "values = map slot_value (map fst ?rows)"
    using assms(3) by (simp add: counted_values_slots)
  have empty: "values = [] \<longleftrightarrow> ?slots = []"
    using vals by (cases ?slots) (auto simp: left_join_def Let_def)
  note row = compact_row_window [OF assms(1,2), of mon bs]
  show "row_at rollup_key (mon, Res_15m, bs) rollups' = row_at rollup_key (mon, Res_15m, bs) rollups"
    if "values = []"
    using row that empty by (simp add: Let_def)
  have "list_all batch_ok (window_batches start end_t batches)"
    using assms(2) by (auto simp: list_all_iff window_batches_def)
  from bucket_slots_ok [OF this] have ok: "\<forall>(s, i) \<in> set ?rows. slot_ok s"
    using left_join_slot by fastforce
  show "\<exists>r h. row_at rollup_key (mon, Res_15m, bs) rollups' = Some r \<and>
           mr_expectedChecks r = int (length values) \<and>
           mr_completedChecks r = count_where tv_completed values \<and>
           mr_failedChecks r = count_where tv_failed values \<and>
           mr_latencySumMs r = sum_list (not_null (map tv_latencyMs values)) \<and>
           histogramFor (not_null (map tv_latencyMs values)) = Inr h \<and>
           mr_latencyHistogram r = map int h"
    if "values \<noteq> []"
    using row that empty compacted_fields(1-5) [OF ok vals, of now "(mon, bs)"]
      compacted_fields(6) [OF ok vals] histogramFor_counts [of "not_null (map tv_latencyMs values)"]
    unfolding Let_def by auto
  show "values = bucket_values batches mon bs"
    if "start \<le> bs \<and> QUARTER_MS dvd bs \<and> bs < floor_to QUARTER_MS end_t \<and>
       (\<forall>s \<in> set (bucket_slots batches mon bs). incidents_at incidents s \<le> 1)"
    using that assms(3) bucket_slots_window [of start bs end_t batches mon]
      counted_values_once [of "window_batches start end_t batches" mon bs incidents]
    by (simp add: bucket_values_slots)
qed

theorem compaction_matches_decoder_witness:
  "\<exists>rollups' r. compact_15_minute 7000 900000 1000000 (db_batches sample_db) [] [] = Inr rollups' \<and>
     row_at rollup_key (''api'', Res_15m, 0) rollups' = Some r \<and> mr_expectedChecks r = 2"
proof -
  obtain rollups' where c: "compact_15_minute 7000 900000 1000000 (db_batches sample_db) [] [] = Inr rollups'"
    by (simp add: compact_15_minute_def sample_db_def sample_batch_slots floor_to_def QUARTER_MS_def Let_def)
  have ok: "list_all batch_ok (db_batches sample_db)" by (simp add: sample_db_def sample_batch_ok)
  have vals: "batch_values (sample_batch minute) =
      [\<lparr>tv_expected = True, tv_completed = True, tv_failed = False, tv_latencyMs = Some 258\<rparr>]" for minute
    by (simp add: batch_values_def sample_batch_def decodeTelemetry_def PACKED_TELEMETRY_VERSION_def
      ceil_div_def decodeAt_def readBit_def readUInt32BE_def NO_LATENCY_def Let_def)
  have ids: "cb_monitorIds (sample_batch minute) = [''api'']"
    "cb_scheduledMinute (sample_batch minute) = minute" for minute by (simp_all add: sample_batch_def)
  have two: "length (counted_values [] (window_batches 7000 900000 (db_batches sample_db)) ''api'' 0) = 2"
    by (simp add: counted_values_def window_batches_def incidents_at_def sample_db_def batch_entries_def
        vals ids floor_to_def QUARTER_MS_def)
  from compaction_matches_decoder [OF c ok refl, of "''api''" 0] two c show ?thesis by fastforce
qed

text \<open>C33. Promotion composes: over a window of whole days, promoting quarter hours to hours and the
  hours to days writes for each day the row that aggregating its quarter hours at once would give,
  provided every hour already in the table still has one of its quarters.\<close>

theorem day_of_hours_is_day_of_quarters:
  assumes "rollups_inv db" and "db_rollups db = rollups" and "DAY_MS dvd start" and "DAY_MS dvd end_t"
    and "\<forall>h \<in> set rollups. mr_resolution h = Res_hour \<and> start \<le> mr_bucketStart h \<and> mr_bucketStart h < end_t \<longrightarrow>
           (\<exists>q \<in> set rollups. mr_resolution q = Res_15m \<and> promoted_key Res_hour q = (mr_monitorId h, mr_bucketStart h))"
    and "start \<le> day" and "day < end_t"
    and "filter (\<lambda>q. mr_resolution q = Res_15m \<and> promoted_key Res_day q = (mon, day)) rollups = quarters"
    and "quarters \<noteq> []"
  shows "row_at rollup_key (mon, Res_day, day)
           (promote_rollup Res_hour Res_day start end_t (promote_rollup Res_15m Res_hour start end_t rollups)) =
         Some (promoted_bucket Res_day end_t (mon, day) quarters)"
  using assms by (intro day_of_hours) (auto simp: rollups_inv_def)

definition sample_quarter :: "instant \<Rightarrow> rollup" where
  "sample_quarter bs = compacted_bucket 0 (''api'', bs)
     [(\<lparr>sl_minute = bs, sl_monitorId = ''api'', sl_expected = 1, sl_completed = 1, sl_failed = 0,
        sl_latencyMs = Some 120\<rparr>, None)]"

lemma sample_quarter_keys [simp]:
  "rollup_key (sample_quarter bs) = (''api'', Res_15m, bs)" "mr_monitorId (sample_quarter bs) = ''api''"
  "mr_bucketStart (sample_quarter bs) = bs" "mr_resolution (sample_quarter bs) = Res_15m"
  by (simp_all add: sample_quarter_def table_simps) (simp add: compacted_bucket_def Let_def)

lemma sample_quarter_ok: "rollup_ok (sample_quarter bs)"
  unfolding sample_quarter_def
  by (rule compacted_bucket_ok) (simp add: slot_ok_def opt_nonneg_def)

theorem day_of_hours_is_day_of_quarters_witness:
  "row_at rollup_key (''api'', Res_day, 0)
     (promote_rollup Res_hour Res_day 0 86400000
       (promote_rollup Res_15m Res_hour 0 86400000 [sample_quarter 0, sample_quarter 900000, sample_quarter 7200000])) =
   Some (promoted_bucket Res_day 86400000 (''api'', 0)
     [sample_quarter 0, sample_quarter 900000, sample_quarter 7200000])"
proof -
  let ?q = "[sample_quarter 0, sample_quarter 900000, sample_quarter 7200000]"
  have "rollups_inv \<lparr>db_batches = [], db_incidents = [], db_rollups = ?q\<rparr>"
    by (simp add: rollups_inv_def sample_quarter_ok)
  from day_of_hours_is_day_of_quarters [OF this, of ?q 0 86400000 0 "''api''" ?q]
  show ?thesis
    by (simp add: DAY_MS_def promoted_key_def resolution_ms_def floor_to_def)
qed

lemma completes_end: "completesQuarterHourBucket m \<Longrightarrow> 60000 dvd m \<Longrightarrow> QUARTER_MS dvd m + 60000"
proof -
  assume c: "completesQuarterHourBucket m" and "60000 dvd m"
  then obtain k where k: "m = 60000 * k" by auto
  with c have "15 dvd k + 1" by (simp add: completesQuarterHourBucket_def mod_eq_0_iff_dvd)
  then obtain j where "k + 1 = 15 * j" by auto
  with k have "m + 60000 = QUARTER_MS * j" unfolding QUARTER_MS_def by linarith
  then show ?thesis by simp
qed

lemma sql_max_in: "sql_max xs = Some t \<Longrightarrow> t \<in> set xs"
proof -
  assume t: "sql_max xs = Some t"
  then have "xs \<noteq> []" by auto
  with t show ?thesis by (metis Max_in finite_set option.inject set_empty sql_max_eq)
qed

lemma refreshStart_aligned:
  assumes "\<forall>r \<in> set rollups. mr_resolution r = Res_15m \<longrightarrow> QUARTER_MS dvd mr_bucketStart r"
    and "QUARTER_MS dvd end_t"
  shows "QUARTER_MS dvd refreshStart rollups end_t"
proof -
  have "QUARTER_MS dvd or_else (rollup_covered_until rollups) 0"
  proof (cases "sql_max (map mr_bucketStart (filter (\<lambda>r. mr_resolution r = Res_15m) rollups))")
    case None
    then show ?thesis by (simp add: rollup_covered_until_def)
  next
    case (Some t)
    from sql_max_in [OF this] assms(1) have "QUARTER_MS dvd t" by auto
    with Some show ?thesis by (simp add: rollup_covered_until_def)
  qed
  moreover have "QUARTER_MS dvd ROLLUP_REFRESH_MAX_LOOKBACK_MS" "QUARTER_MS dvd ROLLUP_REFRESH_MIN_LOOKBACK_MS"
    by (simp_all add: QUARTER_MS_def ROLLUP_REFRESH_MAX_LOOKBACK_MS_def ROLLUP_REFRESH_MIN_LOOKBACK_MS_def)
  ultimately show ?thesis
    using assms(2) by (auto simp: refreshStart_def Let_def max_def min_def)
qed

text \<open>The refresh after a minute never recomputes part of a quarter hour: when the minute
  completes a quarter and the quarters in the table start on quarter hours, the recomputed window
  starts on one too, and the row of each of its quarters is the one compaction derives from all
  the minutes of that quarter, whatever the promotions that follow write.\<close>

theorem refresh_recomputes_whole_quarters:
  assumes "rollups_inv db" and "refreshRecentRollups m now db = Inr db'"
    and "completesQuarterHourBucket m" and "60000 dvd m"
    and "\<forall>r \<in> set (db_rollups db). mr_resolution r = Res_15m \<longrightarrow> QUARTER_MS dvd mr_bucketStart r"
    and "start = refreshStart (db_rollups db) (m + 60000)"
    and "start \<le> bs" and "QUARTER_MS dvd bs" and "bs \<le> m" and "bucket_slots (db_batches db) mon bs \<noteq> []"
  shows "QUARTER_MS dvd start \<and>
         row_at rollup_key (mon, Res_15m, bs) (db_rollups db') =
           Some (compacted_bucket now (mon, bs)
                  (concat (map (left_join (db_incidents db)) (bucket_slots (db_batches db) mon bs))))"
proof
  have end_t: "QUARTER_MS dvd m + 60000" using assms(3,4) by (rule completes_end)
  show "QUARTER_MS dvd start" unfolding assms(6) by (rule refreshStart_aligned [OF assms(5) end_t])
  from assms(2) obtain rollups where c: "compact_15_minute start (m + 60000) now (db_batches db)
      (db_incidents db) (db_rollups db) = Inr rollups"
    and db': "db_rollups db' = promote_rollup Res_hour Res_day start (m + 60000)
      (promote_rollup Res_15m Res_hour start (m + 60000) rollups)"
    by (auto simp: refreshRecentRollups_def Let_def res_bind_Inr_iff assms(6))
  have "bs < floor_to QUARTER_MS (m + 60000)"
    using assms(9) floor_to_self [OF end_t] by simp
  moreover have "list_all batch_ok (db_batches db)" using assms(1) by (simp add: rollups_inv_def)
  ultimately show "row_at rollup_key (mon, Res_15m, bs) (db_rollups db') =
      Some (compacted_bucket now (mon, bs)
             (concat (map (left_join (db_incidents db)) (bucket_slots (db_batches db) mon bs))))"
    using compact_row [OF c _ assms(7,8) _ assms(10)] unfolding db' by (simp add: promote_other)
qed

lemma sample_bucket_slots: "bucket_slots (db_batches sample_db) ''api'' 0 \<noteq> []"
proof -
  have "batch_values (sample_batch 0) =
      [\<lparr>tv_expected = True, tv_completed = True, tv_failed = False, tv_latencyMs = Some 258\<rparr>]"
    by (simp add: batch_values_def sample_batch_def decodeTelemetry_def PACKED_TELEMETRY_VERSION_def
      ceil_div_def decodeAt_def readBit_def readUInt32BE_def NO_LATENCY_def Let_def)
  moreover have "cb_monitorIds (sample_batch 0) = [''api'']" by (simp add: sample_batch_def)
  ultimately show ?thesis
    by (simp add: bucket_slots_def sample_db_def batch_entries_def floor_to_def QUARTER_MS_def)
qed

theorem refresh_recomputes_whole_quarters_witness:
  "\<exists>db'. refreshRecentRollups 840000 900001 sample_db = Inr db' \<and>
     row_at rollup_key (''api'', Res_15m, 0) (db_rollups db') =
       Some (compacted_bucket 900001 (''api'', 0)
         (concat (map (left_join []) (bucket_slots (db_batches sample_db) ''api'' 0))))"
proof -
  have start: "refreshStart (db_rollups sample_db) (840000 + 60000) = - 6300000"
    by (simp add: refreshStart_def sample_db_def rollup_covered_until_def ROLLUP_REFRESH_MAX_LOOKBACK_MS_def
        ROLLUP_REFRESH_MIN_LOOKBACK_MS_def Let_def)
  obtain db' where db': "refreshRecentRollups 840000 900001 sample_db = Inr db'"
    by (simp add: refreshRecentRollups_def start [simplified] compact_15_minute_def Let_def sample_batch_slots)
      (simp add: sample_db_def sample_batch_slots floor_to_def QUARTER_MS_def)
  have "rollups_inv sample_db" by (simp add: rollups_inv_def sample_db_def sample_batch_ok)
  from refresh_recomputes_whole_quarters [OF this db' _ _ _ start [symmetric], of 0 "''api''"] sample_bucket_slots db'
  show ?thesis
    by (simp add: completesQuarterHourBucket_def) (simp add: sample_db_def)
qed

subsection \<open>A window that starts inside a quarter hour\<close>

text \<open>
  Maintenance compacts from \<open>now - 48h\<close>, an instant that need not be on a quarter hour. The
  statement then recomputes the first quarter from its minutes after the start only and overwrites
  the complete row: here the second pass, which starts in the first of three minutes, leaves two
  of the three expected checks.
\<close>

theorem unaligned_compaction_loses_checks:
  "\<exists>complete partial r r'.
     compact_15_minute 0 900000 1000000 (db_batches sample_db) [] [] = Inr complete \<and>
     row_at rollup_key (''api'', Res_15m, 0) complete = Some r \<and> mr_expectedChecks r = 3 \<and>
     compact_15_minute 7000 900000 2000000 (db_batches sample_db) [] complete = Inr partial \<and>
     row_at rollup_key (''api'', Res_15m, 0) partial = Some r' \<and> mr_expectedChecks r' = 2"
proof -
  obtain complete where c: "compact_15_minute 0 900000 1000000 (db_batches sample_db) [] [] = Inr complete"
    and r: "\<exists>r. complete = [r] \<and> mr_expectedChecks r = 3 \<and> rollup_key r = (''api'', Res_15m, 0)"
    by (simp add: compact_15_minute_def sample_db_def sample_batch_slots floor_to_def QUARTER_MS_def
        left_join_def bucket_of_def sql_group_def js_unique_def rollup_key_def compacted_bucket_def Let_def)
  obtain partial where p: "compact_15_minute 7000 900000 2000000 (db_batches sample_db) [] complete = Inr partial"
    and r': "\<exists>r. partial = [r] \<and> mr_expectedChecks r = 2 \<and> rollup_key r = (''api'', Res_15m, 0)"
    using r by (auto simp: compact_15_minute_def sample_db_def sample_batch_slots floor_to_def QUARTER_MS_def
        left_join_def bucket_of_def sql_group_def js_unique_def rollup_key_def compacted_bucket_def Let_def)
  from c p r r' show ?thesis by (metis row_at_Cons)
qed

end
