(* ===== verification/Notifications.thy ===== *)
theory Notifications
  imports Ids
begin

text \<open>
  What a notification is: its payload and schema (\<open>lib/notifications/types.ts\<close>), the message
  rendered from it (\<open>message.tsx\<close>, without the React body), the idempotency keys that make an
  alert unique (\<open>idempotency.ts\<close>) and the domain-expiry policy of
  \<open>lib/domain-health/alerts.ts\<close>. SHA-256, zod's URL check and \<open>createId\<close> are parameters: the
  n-th identifier a call creates is \<open>createId n\<close>.
\<close>

subsection \<open>Events and payloads\<close>

datatype notification_event =
    Incident_opened | Incident_resolved | Notification_test
  | Dependency_incident | Dependency_recovery | System_alert | Domain_expiry

definition ORDINARY_NOTIFICATION_EVENT_TYPES :: "notification_event list" where
  "ORDINARY_NOTIFICATION_EVENT_TYPES =
     [Incident_opened, Incident_resolved, Notification_test, Dependency_incident,
      Dependency_recovery, Domain_expiry]"

record dependency_facts =
  df_dependencyName :: string
  df_provider :: string
  df_incidentTitle :: string
  df_state :: string
  df_canonicalUrl :: "string option"
  df_providerTimestamp :: string
  df_latestUpdate :: "(string \<times> string) option"

datatype notification_payload =
    P_incident_opened (pl_monitorName: string) (pl_incidentId: string) (pl_startedAt: string) (pl_cause: string)
  | P_incident_resolved (pl_monitorName: string) (pl_incidentId: string) (pl_recoveredAt: string) (pl_duration: string)
  | P_notification_test (pl_installationName: "string option")
  | P_dependency_incident (pl_facts: dependency_facts)
  | P_dependency_recovery (pl_facts: dependency_facts)
  | P_system_alert (pl_title: string) (pl_detail: string) (pl_reason: string) (pl_detectedAt: string)
  | P_domain_expiry (pl_apexDomain: string) (pl_expiresAt: string) (pl_thresholdDays: int) (pl_autoRenew: "bool option")

fun payload_type :: "notification_payload \<Rightarrow> notification_event" where
  "payload_type (P_incident_opened _ _ _ _) = Incident_opened"
| "payload_type (P_incident_resolved _ _ _ _) = Incident_resolved"
| "payload_type (P_notification_test _) = Notification_test"
| "payload_type (P_dependency_incident _) = Dependency_incident"
| "payload_type (P_dependency_recovery _) = Dependency_recovery"
| "payload_type (P_system_alert _ _ _ _) = System_alert"
| "payload_type (P_domain_expiry _ _ _ _) = Domain_expiry"

text \<open>\<open>z.string().trim().min(1)\<close>: parsing gives the trimmed string.\<close>

definition nonempty :: "string \<Rightarrow> string option" where
  "nonempty s = (let t = js_trim s in if t = [] then None else Some t)"

definition parse_opt :: "('a \<Rightarrow> 'b option) \<Rightarrow> 'a option \<Rightarrow> 'b option option" where
  "parse_opt p v = (case v of None \<Rightarrow> Some None | Some x \<Rightarrow> map_option Some (p x))"

definition providerUpdateQuoteSchema :: "string \<times> string \<Rightarrow> (string \<times> string) option" where
  "providerUpdateQuoteSchema q =
     Option.bind (nonempty (fst q)) (\<lambda>body. map_option (\<lambda>ts. (body, ts)) (nonempty (snd q)))"

definition dependencyFactsSchema ::
  "(string \<Rightarrow> bool) \<Rightarrow> dependency_facts \<Rightarrow> dependency_facts option" where
  "dependencyFactsSchema isUrl f =
    Option.bind (nonempty (df_dependencyName f)) (\<lambda>name.
    Option.bind (nonempty (df_provider f)) (\<lambda>provider.
    Option.bind (nonempty (df_incidentTitle f)) (\<lambda>incident.
    Option.bind (nonempty (df_state f)) (\<lambda>state.
    Option.bind (parse_opt (\<lambda>u. if isUrl u then Some u else None) (df_canonicalUrl f)) (\<lambda>url.
    Option.bind (nonempty (df_providerTimestamp f)) (\<lambda>ts.
    Option.bind (parse_opt providerUpdateQuoteSchema (df_latestUpdate f)) (\<lambda>quote.
      Some \<lparr>df_dependencyName = name, df_provider = provider, df_incidentTitle = incident,
            df_state = state, df_canonicalUrl = url, df_providerTimestamp = ts,
            df_latestUpdate = quote\<rparr>)))))))"

fun notificationPayloadSchema ::
  "(string \<Rightarrow> bool) \<Rightarrow> notification_payload \<Rightarrow> notification_payload option" where
  "notificationPayloadSchema isUrl (P_incident_opened m i s c) =
     Option.bind (nonempty m) (\<lambda>m. Option.bind (nonempty i) (\<lambda>i. Option.bind (nonempty s) (\<lambda>s.
     Option.bind (nonempty c) (\<lambda>c. Some (P_incident_opened m i s c)))))"
| "notificationPayloadSchema isUrl (P_incident_resolved m i r d) =
     Option.bind (nonempty m) (\<lambda>m. Option.bind (nonempty i) (\<lambda>i. Option.bind (nonempty r) (\<lambda>r.
     Option.bind (nonempty d) (\<lambda>d. Some (P_incident_resolved m i r d)))))"
| "notificationPayloadSchema isUrl (P_notification_test n) =
     map_option P_notification_test (parse_opt nonempty n)"
| "notificationPayloadSchema isUrl (P_dependency_incident f) =
     map_option P_dependency_incident (dependencyFactsSchema isUrl f)"
| "notificationPayloadSchema isUrl (P_dependency_recovery f) =
     map_option P_dependency_recovery (dependencyFactsSchema isUrl f)"
| "notificationPayloadSchema isUrl (P_system_alert t d r a) =
     Option.bind (nonempty t) (\<lambda>t. Option.bind (nonempty d) (\<lambda>d. Option.bind (nonempty r) (\<lambda>r.
     Option.bind (nonempty a) (\<lambda>a. Some (P_system_alert t d r a)))))"
| "notificationPayloadSchema isUrl (P_domain_expiry a e t r) =
     Option.bind (nonempty a) (\<lambda>a. Option.bind (nonempty e) (\<lambda>e.
     if t \<in> {30, 14} then Some (P_domain_expiry a e t r) else None))"

lemma notificationPayloadSchema_type:
  "notificationPayloadSchema isUrl p = Some q \<Longrightarrow> payload_type q = payload_type p"
  by (cases p) (auto simp: bind_eq_Some_conv split: if_splits)

subsection \<open>The message\<close>

record notification_message =
  nm_to :: string
  nm_subject :: string

text \<open>What the sending of one row may throw.\<close>

datatype send_error =
    NotificationProviderError string bool
  | InvalidNotificationPayloadError
  | OtherSendError

text \<open>
  \<open>None\<close> is a stored payload of none of the shapes. Rendering an incident builds a URL from the
  application's, which raises when that URL is malformed.
\<close>

definition createNotificationMessage ::
  "(string \<Rightarrow> bool) \<Rightarrow> (string \<Rightarrow> bool) \<Rightarrow> string \<Rightarrow> notification_event \<Rightarrow> string \<Rightarrow>
   notification_payload option \<Rightarrow> send_error + notification_message" where
  "createNotificationMessage isUrl parsesAsUrl appUrl eventType recipient stored =
    (case Option.bind stored (notificationPayloadSchema isUrl) of
       None \<Rightarrow> Inl InvalidNotificationPayloadError
     | Some payload \<Rightarrow>
         if payload_type payload \<noteq> eventType then Inl InvalidNotificationPayloadError
         else (case payload of
             P_incident_opened m i s c \<Rightarrow>
               if parsesAsUrl appUrl then Inr \<lparr>nm_to = recipient, nm_subject = m @ '' is down''\<rparr>
               else Inl OtherSendError
           | P_incident_resolved m i r d \<Rightarrow>
               if parsesAsUrl appUrl then Inr \<lparr>nm_to = recipient, nm_subject = m @ '' recovered''\<rparr>
               else Inl OtherSendError
           | P_notification_test n \<Rightarrow>
               Inr \<lparr>nm_to = recipient, nm_subject = ''Pulse notification test''\<rparr>
           | P_dependency_incident f \<Rightarrow>
               Inr \<lparr>nm_to = recipient,
                    nm_subject = df_dependencyName f @ '': provider reported incident''\<rparr>
           | P_dependency_recovery f \<Rightarrow>
               Inr \<lparr>nm_to = recipient,
                    nm_subject = df_dependencyName f @ '': provider incident resolved''\<rparr>
           | P_system_alert t d r a \<Rightarrow> Inr \<lparr>nm_to = recipient, nm_subject = t\<rparr>
           | P_domain_expiry a e t r \<Rightarrow>
               Inr \<lparr>nm_to = recipient,
                    nm_subject = a @ '' expires in '' @ int_string t @ '' days''\<rparr>))"

subsection \<open>Idempotency keys\<close>

definition normalizeRecipient :: "string \<Rightarrow> string" where
  "normalizeRecipient recipient = js_lower (js_trim recipient)"

definition recipientHash :: "(string \<Rightarrow> byte list) \<Rightarrow> string \<Rightarrow> string" where
  "recipientHash sha256 recipient = to_hex (sha256 (normalizeRecipient recipient))"

datatype incident_event = Opened | Resolved

fun incident_event_text :: "incident_event \<Rightarrow> string" where
  "incident_event_text Opened = ''opened''"
| "incident_event_text Resolved = ''resolved''"

definition incidentNotificationKey ::
  "(string \<Rightarrow> byte list) \<Rightarrow> string \<Rightarrow> incident_event \<Rightarrow> string \<Rightarrow> string" where
  "incidentNotificationKey sha256 incidentId event recipient =
     ''incident/'' @ incidentId @ ''/'' @ incident_event_text event @ ''/'' @ recipientHash sha256 recipient"

definition testNotificationKey :: "(string \<Rightarrow> byte list) \<Rightarrow> string \<Rightarrow> string \<Rightarrow> string" where
  "testNotificationKey sha256 testId recipient =
     ''test/'' @ testId @ ''/'' @ recipientHash sha256 recipient"

definition systemAlertKey :: "(string \<Rightarrow> byte list) \<Rightarrow> string \<Rightarrow> string \<Rightarrow> string \<Rightarrow> string" where
  "systemAlertKey sha256 kind bucket recipient =
     ''system/'' @ kind @ ''/'' @ bucket @ ''/'' @ recipientHash sha256 recipient"

definition hourBucket :: "instant \<Rightarrow> string" where
  "hourBucket now = take 13 (toISOString now)"

datatype dependency_event = Dep_incident | Dep_recovery

fun dependency_event_text :: "dependency_event \<Rightarrow> string" where
  "dependency_event_text Dep_incident = ''incident''"
| "dependency_event_text Dep_recovery = ''recovery''"

definition dependencyNotificationKey ::
  "(string \<Rightarrow> byte list) \<Rightarrow> string \<Rightarrow> string \<Rightarrow> string \<Rightarrow> string option \<Rightarrow> dependency_event \<Rightarrow>
   string \<Rightarrow> string option \<Rightarrow> string" where
  "dependencyNotificationKey sha256 sourceId incidentExternalId catalogId scopeId event recipient occurrence =
    (let base = ''dependency/'' @ sourceId @ ''/'' @ incidentExternalId @ ''/'' @ catalogId @ ''/'' @
           or_else scopeId [] @ ''/'' @ dependency_event_text event @ ''/'' @ recipientHash sha256 recipient
     in case occurrence of None \<Rightarrow> base | Some o1 \<Rightarrow> base @ ''/'' @ o1)"

text \<open>\<open>encodeURIComponent\<close> on code units below U+0100, as UTF-8 percent escapes.\<close>

definition uri_unreserved :: "char \<Rightarrow> bool" where
  "uri_unreserved c \<longleftrightarrow> (let n = (of_char c :: nat) in
     (65 \<le> n \<and> n \<le> 90) \<or> (97 \<le> n \<and> n \<le> 122) \<or> (48 \<le> n \<and> n \<le> 57)) \<or>
     c \<in> set ''-_.!~*'' \<or> (of_char c :: nat) \<in> {39, 40, 41}"

definition upper_hex :: "nat \<Rightarrow> string" where
  "upper_hex n = [''0123456789ABCDEF'' ! (n div 16), ''0123456789ABCDEF'' ! (n mod 16)]"

definition encode_char :: "char \<Rightarrow> string" where
  "encode_char c = (let n = (of_char c :: nat) in
     if uri_unreserved c then [c]
     else if n < 128 then CHR ''%'' # upper_hex n
     else CHR ''%'' # upper_hex (192 + n div 64) @ CHR ''%'' # upper_hex (128 + n mod 64))"

definition encodeURIComponent :: "string \<Rightarrow> string" where
  "encodeURIComponent s = concat (map encode_char s)"

subsection \<open>Domain-expiry alerts\<close>

definition normalizeApexDomain :: "string \<Rightarrow> string" where
  "normalizeApexDomain apex = js_lower (js_trim apex)"

definition normalizeRecipients :: "string list \<Rightarrow> string list" where
  "normalizeRecipients recipients =
     js_unique (filter (\<lambda>r. length r > 0) (map (\<lambda>r. js_lower (js_trim r)) recipients))"

definition domainExpiryAlertKey ::
  "(string \<Rightarrow> byte list) \<Rightarrow> string \<Rightarrow> instant \<Rightarrow> int \<Rightarrow> string \<Rightarrow> string" where
  "domainExpiryAlertKey sha256 apex expires threshold recipient =
     ''domain-expiry/'' @ encodeURIComponent (normalizeApexDomain apex) @ ''/'' @
     toISOString expires @ ''/'' @ int_string threshold @ ''/'' @
     to_hex (sha256 (js_lower (js_trim recipient)))"

definition reachedThreshold :: "instant \<Rightarrow> instant \<Rightarrow> int option" where
  "reachedThreshold expires now =
    (let remainingMs = expires - now
     in if remainingMs \<le> 14 * 86400000 then Some 14
        else if remainingMs \<le> 30 * 86400000 then Some 30
        else None)"

record domain_registration =
  dr_apexDomain :: string
  dr_expiresAt :: "instant option"
  dr_autoRenew :: "bool option"

text \<open>A row to insert; \<open>createId\<close> is called when the row is pushed.\<close>

record alert_row =
  ar_recipient :: string
  ar_idempotencyKey :: string
  ar_payload :: notification_payload
  ar_at :: instant

definition registrationAlertRows ::
  "(string \<Rightarrow> byte list) \<Rightarrow> string list \<Rightarrow> instant \<Rightarrow> domain_registration \<Rightarrow> alert_row list" where
  "registrationAlertRows sha256 recipients now registration =
    (let apex = normalizeApexDomain (dr_apexDomain registration)
     in case dr_expiresAt registration of
          None \<Rightarrow> []
        | Some expires \<Rightarrow>
            if length apex = 0 then []
            else (case reachedThreshold expires now of
                None \<Rightarrow> []
              | Some threshold \<Rightarrow>
                  map (\<lambda>recipient.
                    \<lparr>ar_recipient = recipient,
                     ar_idempotencyKey = domainExpiryAlertKey sha256 apex expires threshold recipient,
                     ar_payload = P_domain_expiry apex (toISOString expires) threshold
                                    (dr_autoRenew registration),
                     ar_at = now\<rparr>) recipients))"

definition buildDomainExpiryAlertRows ::
  "(string \<Rightarrow> byte list) \<Rightarrow> bool option \<Rightarrow> domain_registration list \<Rightarrow> string list \<Rightarrow> instant \<Rightarrow>
   alert_row list" where
  "buildDomainExpiryAlertRows sha256 enabled registrations defaultRecipients now =
    (if enabled \<noteq> Some True then []
     else (let recipients = normalizeRecipients defaultRecipients
           in if length recipients = 0 then []
              else concat (map (registrationAlertRows sha256 recipients now) registrations)))"

subsection \<open>Reading keys back\<close>

definition no_slash :: "string \<Rightarrow> bool" where
  "no_slash s \<longleftrightarrow> CHR ''/'' \<notin> set s"

lemma segment_inject:
  "no_slash a \<Longrightarrow> no_slash b \<Longrightarrow> a @ CHR ''/'' # r = b @ CHR ''/'' # q \<longleftrightarrow> a = b \<and> r = q"
proof (induction a arbitrary: b)
  case Nil
  then show ?case by (cases b) (auto simp: no_slash_def)
next
  case (Cons c a)
  then show ?case by (cases b) (auto simp: no_slash_def)
qed

lemma no_slash_simps [simp]:
  "no_slash []" "no_slash (c # s) \<longleftrightarrow> c \<noteq> CHR ''/'' \<and> no_slash s"
  "no_slash (s @ t) \<longleftrightarrow> no_slash s \<and> no_slash t"
  by (auto simp: no_slash_def)

lemma no_slash_digits [simp]: "no_slash (digits_fixed k n)"
proof (induction k arbitrary: n)
  case 0
  show ?case by simp
next
  case (Suc k)
  have "digit_char n \<noteq> CHR ''/''"
  proof
    assume "digit_char n = CHR ''/''"
    then have "(of_char (digit_char n) :: nat) = 47" by simp
    moreover have "nat (n mod 10) < 10" by simp
    ultimately show False by (simp add: digit_char_def)
  qed
  with Suc show ?case by simp
qed

lemma no_slash_iso [simp]: "no_slash (toISOString t)"
  by (simp add: toISOString_def iso_year_def Let_def split: prod.split)

lemma no_slash_take: "no_slash s \<Longrightarrow> no_slash (take n s)"
  by (meson in_set_takeD no_slash_def)

lemma no_slash_hourBucket [simp]: "no_slash (hourBucket t)"
  by (simp add: hourBucket_def no_slash_take)

lemma no_slash_int_string [simp]: "no_slash (int_string i)"
  using int_string_chars [of "CHR ''/''" i] by (auto simp: no_slash_def)

lemma no_slash_event [simp]: "no_slash (incident_event_text e)" "no_slash (dependency_event_text d)"
  by (cases e; simp) (cases d; simp)

lemma incident_event_text_inj [simp]: "incident_event_text a = incident_event_text b \<longleftrightarrow> a = b"
  by (cases a; cases b) simp_all

lemma hex_char_no_slash: "n < 16 \<Longrightarrow> hex_digit n \<noteq> CHR ''/''"
  using is_hex_digit [of n] by (auto simp: is_hex_char_def)

lemma no_slash_to_hex [simp]: "no_slash (to_hex bs)"
proof (induction bs)
  case Nil
  show ?case by (simp add: to_hex_def)
next
  case (Cons b bs)
  have "no_slash (hex_byte b)"
    using hex_char_no_slash [of "unat b div 16"] hex_char_no_slash [of "unat b mod 16"] unat_byte_less [of b]
    by (simp add: hex_byte_def)
  with Cons show ?case by (simp add: to_hex_def)
qed

lemma recipientHash_inject [simp]:
  "recipientHash sha r = recipientHash sha q \<longleftrightarrow> sha (normalizeRecipient r) = sha (normalizeRecipient q)"
  by (simp add: recipientHash_def)

lemma normalizeRecipient_idem [simp]: "normalizeRecipient (normalizeRecipient r) = normalizeRecipient r"
  by (simp add: normalizeRecipient_def js_trim_lower)

lemma recipientHash_normal [simp]: "recipientHash sha (normalizeRecipient r) = recipientHash sha r"
  by (simp add: recipientHash_def)

text \<open>The percent encoding is injective and never contains a slash.\<close>

definition hex_value :: "char \<Rightarrow> nat" where
  "hex_value c = nat (index_of c ''0123456789ABCDEF'')"

lemma index_of_nth: "distinct xs \<Longrightarrow> i < length xs \<Longrightarrow> index_of (xs ! i) xs = int i"
proof (induction xs arbitrary: i)
  case Nil
  then show ?case by simp
next
  case (Cons x xs)
  then show ?case by (cases i) (auto simp: Let_def)
qed

lemma hex_value_digit: "k < 16 \<Longrightarrow> hex_value (''0123456789ABCDEF'' ! k) = k"
  unfolding hex_value_def by (subst index_of_nth) simp_all

lemma upper_hex_digits: "n < 256 \<Longrightarrow> \<exists>a b. upper_hex n = [a, b] \<and> hex_value a = n div 16 \<and> hex_value b = n mod 16 \<and>
    a \<noteq> CHR ''/'' \<and> b \<noteq> CHR ''/''"
proof -
  assume "n < 256"
  then have lt: "n div 16 < 16" "n mod 16 < 16" by auto
  have "''0123456789ABCDEF'' ! k \<in> set ''0123456789ABCDEF''" if "k < 16" for k
    using that by (intro nth_mem) simp
  then have "''0123456789ABCDEF'' ! k \<noteq> CHR ''/''" if "k < 16" for k
    using that by fastforce
  with lt hex_value_digit show ?thesis by (simp add: upper_hex_def)
qed

definition decode_first :: "string \<Rightarrow> nat" where
  "decode_first s =
    (if hd s \<noteq> CHR ''%'' then of_char (hd s)
     else (let n = hex_value (s ! 1) * 16 + hex_value (s ! 2)
           in if n < 128 then n
              else (n - 192) * 64 + (hex_value (s ! 4) * 16 + hex_value (s ! 5) - 128)))"

lemma decode_first_encode: "decode_first (encode_char c @ s) = of_char c"
proof -
  let ?n = "of_char c :: nat"
  have small: "?n < 256" by (rule nat_of_char_less_256)
  show ?thesis
  proof (cases "uri_unreserved c")
    case True
    then have "c \<noteq> CHR ''%''" by (auto simp: uri_unreserved_def Let_def)
    with True show ?thesis by (simp add: encode_char_def decode_first_def Let_def)
  next
    case False
    note resv = this
    show ?thesis
    proof (cases "?n < 128")
      case True
      obtain a b where "upper_hex ?n = [a, b]" "hex_value a = ?n div 16" "hex_value b = ?n mod 16"
        using upper_hex_digits [OF small] by blast
      with resv True show ?thesis by (simp add: encode_char_def decode_first_def Let_def)
    next
      case big: False
      have s1: "192 + ?n div 64 < 256" "128 + ?n mod 64 < 256" using small by linarith+
      obtain a b where ab: "upper_hex (192 + ?n div 64) = [a, b]" "hex_value a = (192 + ?n div 64) div 16"
          "hex_value b = (192 + ?n div 64) mod 16"
        using upper_hex_digits [OF s1(1)] by blast
      obtain d e where de: "upper_hex (128 + ?n mod 64) = [d, e]" "hex_value d = (128 + ?n mod 64) div 16"
          "hex_value e = (128 + ?n mod 64) mod 16"
        using upper_hex_digits [OF s1(2)] by blast
      have join: "x div 16 * 16 + x mod 16 = (x::nat)" for x by simp
      from resv big ab de show ?thesis
        by (simp add: encode_char_def decode_first_def Let_def join)
    qed
  qed
qed

lemma encode_char_inj: "encode_char c @ s = encode_char d @ t \<Longrightarrow> c = d \<and> s = t"
proof -
  assume eq: "encode_char c @ s = encode_char d @ t"
  then have "(of_char c :: nat) = of_char d" using decode_first_encode by metis
  then have "c = d" by simp
  with eq show ?thesis by simp
qed

lemma encode_char_nonempty: "encode_char c \<noteq> []"
  by (simp add: encode_char_def Let_def)

lemma encodeURIComponent_inj [simp]: "encodeURIComponent a = encodeURIComponent b \<longleftrightarrow> a = b"
proof (induction a arbitrary: b)
  case Nil
  then show ?case by (cases b) (auto simp: encodeURIComponent_def encode_char_nonempty)
next
  case (Cons c a)
  show ?case
  proof (cases b)
    case Nil
    then show ?thesis by (simp add: encodeURIComponent_def encode_char_nonempty)
  next
    case b: (Cons d b')
    with Cons [of b'] show ?thesis
      using encode_char_inj [of c "encodeURIComponent a" d "encodeURIComponent b'"]
      by (auto simp: encodeURIComponent_def)
  qed
qed

lemma no_slash_encode_char: "no_slash (encode_char c)"
proof -
  have small: "(of_char c :: nat) < 256" by (rule nat_of_char_less_256)
  have uh: "no_slash (upper_hex n)" if "n < 256" for n
    using upper_hex_digits [OF that] by auto
  have "192 + (of_char c :: nat) div 64 < 256" "128 + (of_char c :: nat) mod 64 < 256" using small by linarith+
  moreover have "c \<noteq> CHR ''/''" if "uri_unreserved c"
    using that by (auto simp: uri_unreserved_def Let_def)
  ultimately show ?thesis using small uh by (auto simp: encode_char_def Let_def)
qed

lemma no_slash_encodeURIComponent [simp]: "no_slash (encodeURIComponent s)"
  by (induction s) (simp_all add: encodeURIComponent_def no_slash_encode_char)

subsection \<open>Properties\<close>

text \<open>C34. An alert key is the identity of its alert: when the digests of the two recipients do not
  collide, two incident keys agree exactly on incident, event and normalized recipient, two
  system-alert keys exactly on kind, UTC hour and normalized recipient, and two domain-expiry keys
  exactly on domain, expiry instant, threshold and normalized recipient.\<close>

theorem alert_keys_identify:
  assumes "sha (normalizeRecipient r) = sha (normalizeRecipient q) \<Longrightarrow> normalizeRecipient r = normalizeRecipient q"
    and "no_slash i" and "no_slash j" and "four_digit_year t" and "four_digit_year u"
  shows "(incidentNotificationKey sha i e r = incidentNotificationKey sha j f q \<longleftrightarrow>
            i = j \<and> e = f \<and> normalizeRecipient r = normalizeRecipient q) \<and>
         (systemAlertKey sha i (hourBucket t) r = systemAlertKey sha j (hourBucket u) q \<longleftrightarrow>
            i = j \<and> t div 3600000 = u div 3600000 \<and> normalizeRecipient r = normalizeRecipient q) \<and>
         (domainExpiryAlertKey sha a t m r = domainExpiryAlertKey sha b u n q \<longleftrightarrow>
            normalizeApexDomain a = normalizeApexDomain b \<and> t = u \<and> m = n \<and>
            normalizeRecipient r = normalizeRecipient q)"
proof (intro conjI)
  have same: "sha (normalizeRecipient r) = sha (normalizeRecipient q) \<longleftrightarrow> normalizeRecipient r = normalizeRecipient q"
    using assms(1) by auto
  show "incidentNotificationKey sha i e r = incidentNotificationKey sha j f q \<longleftrightarrow>
      i = j \<and> e = f \<and> normalizeRecipient r = normalizeRecipient q"
    using assms(2,3) by (simp add: incidentNotificationKey_def segment_inject same)
  show "systemAlertKey sha i (hourBucket t) r = systemAlertKey sha j (hourBucket u) q \<longleftrightarrow>
      i = j \<and> t div 3600000 = u div 3600000 \<and> normalizeRecipient r = normalizeRecipient q"
    using assms(2-5) take_13_hour [of t u]
    by (simp add: systemAlertKey_def segment_inject same) (simp add: hourBucket_def)
  show "domainExpiryAlertKey sha a t m r = domainExpiryAlertKey sha b u n q \<longleftrightarrow>
      normalizeApexDomain a = normalizeApexDomain b \<and> t = u \<and> m = n \<and>
      normalizeRecipient r = normalizeRecipient q"
    using assms(4,5) toISOString_inj [of t u] same
    by (auto simp: domainExpiryAlertKey_def segment_inject normalizeRecipient_def)
qed

text \<open>A stand-in digest for the witnesses: the code units themselves.\<close>

definition plain_digest :: "string \<Rightarrow> byte list" where
  "plain_digest s = map (\<lambda>c. word_of_nat (of_char c)) s"

theorem alert_keys_identify_witness:
  "incidentNotificationKey plain_digest ''m1'' Opened ''ops@example.com'' =
     incidentNotificationKey plain_digest ''m1'' Opened '' Ops@Example.com '' \<and>
   systemAlertKey plain_digest ''m1'' (hourBucket 0) ''ops@example.com'' \<noteq>
     systemAlertKey plain_digest ''m1'' (hourBucket 3600000) '' Ops@Example.com ''"
proof -
  have n: "normalizeRecipient ''ops@example.com'' = normalizeRecipient '' Ops@Example.com ''"
    by code_simp
  have y: "four_digit_year 0" "four_digit_year 3600000"
    by (simp_all add: four_digit_year_def civil_def day_cycle_def DAY_MS_def Let_def)
  from alert_keys_identify [of plain_digest "''ops@example.com''" "'' Ops@Example.com ''" "''m1''" "''m1''" 0 3600000
      Opened Opened] n y
  show ?thesis by simp
qed

end
