(* ===== verification/Outbox.thy ===== *)
theory Outbox
  imports Notifications "HOL-Library.Product_Lexorder"
begin

text \<open>
  The notification outbox: the table \<open>notification_outbox\<close> with its CHECK constraints
  (\<open>lib/db/schema.ts\<close>) and the statements of \<open>lib/notifications/sql.ts\<close> that claim, settle,
  release and reconcile its rows, with the writers that fill it (\<open>enqueue.ts\<close>,
  \<open>system-alert.ts\<close>, \<open>domain-expiry.ts\<close>). Every statement is atomic. Rows locked by a
  concurrent transaction are the predicate \<open>locked\<close> of \<open>for update skip locked\<close>; whether a
  statement raises (a time-out, a lost connection) is the environment's choice, and one that raises
  changes nothing. Identifiers are compared as PostgreSQL compares canonical UUIDs, by their
  characters.
\<close>

subsection \<open>The table\<close>

datatype outbox_status = Pending | Sending | Sent | Failed | Dead

record outbox_row =
  ob_id :: string
  ob_incidentId :: "string option"
  ob_monitorId :: "string option"
  ob_dependencyId :: "string option"
  ob_eventType :: notification_event
  ob_recipient :: string
  ob_idempotencyKey :: string
  ob_payload :: "notification_payload option"
  ob_status :: outbox_status
  ob_attemptCount :: int
  ob_nextAttemptAt :: instant
  ob_claimToken :: "string option"
  ob_claimedAt :: "instant option"
  ob_providerMessageId :: "string option"
  ob_lastError :: "string option"
  ob_sentAt :: "instant option"
  ob_createdAt :: instant
  ob_updatedAt :: instant

definition outbox_checks :: "outbox_row \<Rightarrow> bool" where
  "outbox_checks r \<longleftrightarrow>
     ob_attemptCount r \<ge> 0 \<and>
     ((ob_eventType r \<in> {System_alert, Domain_expiry} \<and> ob_monitorId r = None \<and> ob_dependencyId r = None) \<or>
      (ob_monitorId r = None) \<noteq> (ob_dependencyId r = None)) \<and>
     (ob_claimToken r = None) = (ob_claimedAt r = None) \<and>
     (ob_status r \<noteq> Sending \<or> (ob_claimToken r \<noteq> None \<and> ob_claimedAt r \<noteq> None)) \<and>
     (ob_status r \<noteq> Sent \<or> ob_sentAt r \<noteq> None)"

subsection \<open>Statements with a deadline\<close>

definition isStatementTimeout :: "thrown \<Rightarrow> bool" where
  "isStatementTimeout error = (case error of
      ThrownObject isError code message \<Rightarrow>
        (isError \<and> js_includes message ''statement timeout'') \<or> code = Some ''57014''
    | ThrownPrimitive _ \<Rightarrow> False)"

definition deadlineError :: thrown where
  "deadlineError = ThrownObject True (Some ''57014'') ''canceling statement due to statement timeout''"

text \<open>What the environment decides of one statement: the clock when it is issued, whether the
  executor supports a statement time-out, and the error it raises, if any.\<close>

record sql_env =
  se_nowMs :: int
  se_supportsTimeout :: bool
  se_fails :: "thrown option"

definition run_statement :: "sql_env \<Rightarrow> ('t \<Rightarrow> 't \<times> 'r) \<Rightarrow> 't \<Rightarrow> (thrown + 'r) \<times> 't" where
  "run_statement env statement t = (case se_fails env of
      Some e \<Rightarrow> (Inl e, t)
    | None \<Rightarrow> (let (t', r) = statement t in (Inr r, t')))"

definition withDeadline ::
  "int option \<Rightarrow> sql_env \<Rightarrow> ('t \<Rightarrow> 't \<times> 'r) \<Rightarrow> 't \<Rightarrow> (thrown + 'r) \<times> 't" where
  "withDeadline deadlineAtMs env statement t = (case deadlineAtMs of
      None \<Rightarrow> run_statement env statement t
    | Some deadline \<Rightarrow>
        if \<not> se_supportsTimeout env then run_statement env statement t
        else if deadline - se_nowMs env \<le> 0 then (Inl deadlineError, t)
        else run_statement env statement t)"

subsection \<open>Claiming\<close>

text \<open>An absent or an empty list of event types is no restriction.\<close>

definition in_scope :: "notification_event list option \<Rightarrow> notification_event \<Rightarrow> bool" where
  "in_scope eventTypes e = (case eventTypes of None \<Rightarrow> True | Some ts \<Rightarrow> ts = [] \<or> e \<in> set ts)"

definition due :: "instant \<Rightarrow> notification_event list option \<Rightarrow> outbox_row \<Rightarrow> bool" where
  "due now eventTypes r \<longleftrightarrow> ob_status r \<in> {Pending, Failed} \<and> ob_nextAttemptAt r \<le> now \<and>
     in_scope eventTypes (ob_eventType r)"

definition claim_order :: "outbox_row \<Rightarrow> instant \<times> instant \<times> string" where
  "claim_order r = (ob_nextAttemptAt r, ob_createdAt r, ob_id r)"

definition due_batch ::
  "(string \<Rightarrow> bool) \<Rightarrow> instant \<Rightarrow> nat \<Rightarrow> notification_event list option \<Rightarrow> outbox_row list \<Rightarrow> outbox_row list" where
  "due_batch locked now limit eventTypes t =
     take limit (sort_key claim_order (filter (\<lambda>r. due now eventTypes r \<and> \<not> locked (ob_id r)) t))"

definition claim_row :: "instant \<Rightarrow> string \<Rightarrow> outbox_row \<Rightarrow> outbox_row" where
  "claim_row now claimToken r =
     r\<lparr>ob_status := Sending, ob_attemptCount := ob_attemptCount r + 1, ob_claimToken := Some claimToken,
       ob_claimedAt := Some now, ob_updatedAt := now\<rparr>"

definition claim_notifications_sql ::
  "(string \<Rightarrow> bool) \<Rightarrow> instant \<Rightarrow> nat \<Rightarrow> string \<Rightarrow> notification_event list option \<Rightarrow>
   outbox_row list \<Rightarrow> outbox_row list \<times> outbox_row list" where
  "claim_notifications_sql locked now limit claimToken eventTypes t =
    (let ids = map ob_id (due_batch locked now limit eventTypes t);
         hit = (\<lambda>r. ob_id r \<in> set ids)
     in (sql_update hit (claim_row now claimToken) t, sql_returning hit (claim_row now claimToken) t))"

record claimed_notification =
  cn_id :: string
  cn_incidentId :: "string option"
  cn_monitorId :: "string option"
  cn_dependencyId :: "string option"
  cn_eventType :: notification_event
  cn_recipient :: string
  cn_idempotencyKey :: string
  cn_payload :: "notification_payload option"
  cn_attemptCount :: int
  cn_claimToken :: "string option"

definition mapClaimedRow :: "outbox_row \<Rightarrow> claimed_notification" where
  "mapClaimedRow r =
     \<lparr>cn_id = ob_id r, cn_incidentId = ob_incidentId r, cn_monitorId = ob_monitorId r,
      cn_dependencyId = ob_dependencyId r, cn_eventType = ob_eventType r,
      cn_recipient = ob_recipient r, cn_idempotencyKey = ob_idempotencyKey r,
      cn_payload = ob_payload r, cn_attemptCount = ob_attemptCount r,
      cn_claimToken = ob_claimToken r\<rparr>"

text \<open>\<open>RangeError\<close> is thrown as an \<open>Error\<close> object without a code.\<close>

definition range_error :: "string \<Rightarrow> thrown" where
  "range_error message = ThrownObject True None message"

definition claimNotifications ::
  "(string \<Rightarrow> bool) \<Rightarrow> sql_env \<Rightarrow> instant \<Rightarrow> int \<Rightarrow> string \<Rightarrow> notification_event list option \<Rightarrow>
   int option \<Rightarrow> outbox_row list \<Rightarrow> (thrown + claimed_notification list) \<times> outbox_row list" where
  "claimNotifications locked env now limit claimToken eventTypes deadlineAtMs t =
    (if limit < 1 \<or> limit > 100 then
       (Inl (range_error ''Outbox claim limit must be between 1 and 100''), t)
     else
       (let (r, t') = withDeadline deadlineAtMs env
              (claim_notifications_sql locked now (nat limit) claimToken eventTypes) t
        in (case r of Inl e \<Rightarrow> Inl e | Inr rows \<Rightarrow> Inr (map mapClaimedRow rows), t')))"

subsection \<open>Settling a claim\<close>

definition held :: "string \<Rightarrow> string option \<Rightarrow> outbox_row \<Rightarrow> bool" where
  "held i claimToken r \<longleftrightarrow> ob_id r = i \<and> ob_status r = Sending \<and> claimToken \<noteq> None \<and> ob_claimToken r = claimToken"

definition sent_row :: "string \<Rightarrow> instant \<Rightarrow> outbox_row \<Rightarrow> outbox_row" where
  "sent_row providerMessageId now r =
     r\<lparr>ob_status := Sent, ob_providerMessageId := Some providerMessageId, ob_sentAt := Some now,
       ob_claimToken := None, ob_claimedAt := None, ob_lastError := None, ob_updatedAt := now\<rparr>"

definition failed_row :: "bool \<Rightarrow> instant \<Rightarrow> string \<Rightarrow> instant \<Rightarrow> outbox_row \<Rightarrow> outbox_row" where
  "failed_row dead nextAttemptAt errorCode now r =
     r\<lparr>ob_status := (if dead then Dead else Failed), ob_nextAttemptAt := nextAttemptAt,
       ob_claimToken := None, ob_claimedAt := None, ob_lastError := Some errorCode,
       ob_updatedAt := now\<rparr>"

definition update_returning ::
  "(outbox_row \<Rightarrow> bool) \<Rightarrow> (outbox_row \<Rightarrow> outbox_row) \<Rightarrow> outbox_row list \<Rightarrow> outbox_row list \<times> string list" where
  "update_returning p f t = (sql_update p f t, map ob_id (sql_returning p f t))"

definition one_row :: "(thrown + string list) \<times> outbox_row list \<Rightarrow> (thrown + bool) \<times> outbox_row list" where
  "one_row r = (case r of (Inl e, t) \<Rightarrow> (Inl e, t) | (Inr rows, t) \<Rightarrow> (Inr (length rows = 1), t))"

definition markNotificationSent ::
  "sql_env \<Rightarrow> string \<Rightarrow> string option \<Rightarrow> string \<Rightarrow> instant \<Rightarrow> int option \<Rightarrow> outbox_row list \<Rightarrow>
   (thrown + bool) \<times> outbox_row list" where
  "markNotificationSent env i claimToken providerMessageId now deadlineAtMs t =
     one_row (withDeadline deadlineAtMs env
       (update_returning (held i claimToken) (sent_row providerMessageId now)) t)"

definition markNotificationFailed ::
  "sql_env \<Rightarrow> string \<Rightarrow> string option \<Rightarrow> bool \<Rightarrow> instant \<Rightarrow> string \<Rightarrow> instant \<Rightarrow> int option \<Rightarrow>
   outbox_row list \<Rightarrow> (thrown + bool) \<times> outbox_row list" where
  "markNotificationFailed env i claimToken dead nextAttemptAt errorCode now deadlineAtMs t =
     one_row (withDeadline deadlineAtMs env
       (update_returning (held i claimToken) (failed_row dead nextAttemptAt errorCode now)) t)"

subsection \<open>Releasing and reconciling claims\<close>

definition released_row :: "instant \<Rightarrow> outbox_row \<Rightarrow> outbox_row" where
  "released_row now r =
     r\<lparr>ob_status := (if ob_lastError r = None then Pending else Failed),
       ob_attemptCount := max (ob_attemptCount r - 1) 0,
       ob_claimToken := None, ob_claimedAt := None, ob_updatedAt := now\<rparr>"

definition releaseNotificationClaims ::
  "sql_env \<Rightarrow> (string \<times> string option) list \<Rightarrow> instant \<Rightarrow> int option \<Rightarrow> outbox_row list \<Rightarrow>
   (thrown + int) \<times> outbox_row list" where
  "releaseNotificationClaims env claimed now deadlineAtMs t = (case claimed of
      [] \<Rightarrow> (Inr 0, t)
    | (first_id, token) # rest \<Rightarrow>
        if list_ex (\<lambda>c. snd c \<noteq> token) claimed then
          (Inl (ThrownObject True None ''Notification claims must share one token''), t)
        else
          (let (r, t') = withDeadline deadlineAtMs env
                 (update_returning (\<lambda>r. held (ob_id r) token r \<and> ob_id r \<in> set (map fst claimed))
                    (released_row now)) t
           in (case r of Inl e \<Rightarrow> Inl e | Inr rows \<Rightarrow> Inr (int (length rows)), t')))"

definition PROVIDER_IDEMPOTENCY_WINDOW_MS :: int where
  "PROVIDER_IDEMPOTENCY_WINDOW_MS = 24 * 60 * 60000"

definition PROVIDER_IDEMPOTENCY_RETRY_MARGIN_MS :: int where
  "PROVIDER_IDEMPOTENCY_RETRY_MARGIN_MS = 5 * 60000"

definition claimed_before :: "instant \<Rightarrow> outbox_row \<Rightarrow> bool" where
  "claimed_before cutoff r = (case ob_claimedAt r of None \<Rightarrow> False | Some at \<Rightarrow> at < cutoff)"

definition reconciled_row :: "instant \<Rightarrow> instant \<Rightarrow> outbox_row \<Rightarrow> outbox_row" where
  "reconciled_row now safeRetryCutoff r =
    (let ambiguous = (case ob_claimedAt r of None \<Rightarrow> False | Some at \<Rightarrow> at \<le> safeRetryCutoff)
     in r\<lparr>ob_status := (if ambiguous then Dead else Failed), ob_nextAttemptAt := now,
          ob_claimToken := None, ob_claimedAt := None,
          ob_lastError := Some (if ambiguous then ''AMBIGUOUS_PROVIDER_RESULT'' else ''STALE_CLAIM''),
          ob_updatedAt := now\<rparr>)"

definition stale_claim :: "instant \<Rightarrow> int \<Rightarrow> notification_event list option \<Rightarrow> outbox_row \<Rightarrow> bool" where
  "stale_claim now staleAfterMs eventTypes r \<longleftrightarrow>
     ob_status r = Sending \<and> claimed_before (now - staleAfterMs) r \<and> in_scope eventTypes (ob_eventType r)"

definition reconcileStaleClaims ::
  "sql_env \<Rightarrow> instant \<Rightarrow> int \<Rightarrow> notification_event list option \<Rightarrow> outbox_row list \<Rightarrow>
   (thrown + int) \<times> outbox_row list" where
  "reconcileStaleClaims env now staleAfterMs eventTypes t =
    (let safeRetryCutoff = now - (PROVIDER_IDEMPOTENCY_WINDOW_MS - PROVIDER_IDEMPOTENCY_RETRY_MARGIN_MS);
         (r, t') = run_statement env
           (update_returning (stale_claim now staleAfterMs eventTypes) (reconciled_row now safeRetryCutoff)) t
     in (case r of Inl e \<Rightarrow> Inl e | Inr rows \<Rightarrow> Inr (int (length rows)), t'))"

subsection \<open>Enqueueing\<close>

definition new_outbox_row ::
  "string \<Rightarrow> string option \<Rightarrow> string option \<Rightarrow> string option \<Rightarrow> notification_payload \<Rightarrow> string \<Rightarrow> string \<Rightarrow>
   instant \<Rightarrow> outbox_row" where
  "new_outbox_row i incident monitor dependency payload recipient key now =
     \<lparr>ob_id = i, ob_incidentId = incident, ob_monitorId = monitor, ob_dependencyId = dependency,
      ob_eventType = payload_type payload, ob_recipient = recipient, ob_idempotencyKey = key,
      ob_payload = Some payload, ob_status = Pending, ob_attemptCount = 0, ob_nextAttemptAt = now,
      ob_claimToken = None, ob_claimedAt = None, ob_providerMessageId = None, ob_lastError = None,
      ob_sentAt = None, ob_createdAt = now, ob_updatedAt = now\<rparr>"

text \<open>\<open>insert ... on conflict (idempotency_key) do nothing\<close>; a clash of primary keys raises.\<close>

definition insert_outbox ::
  "outbox_row list \<Rightarrow> outbox_row list \<Rightarrow> js_error + (outbox_row list \<times> outbox_row list)" where
  "insert_outbox rows t =
    (let (t', new) = sql_insert_new ob_idempotencyKey rows t
     in if distinct (map ob_id t') then Inr (t', new)
        else Inl (Error ''duplicate key value violates unique constraint''))"

fun number_from :: "nat \<Rightarrow> 'a list \<Rightarrow> (nat \<times> 'a) list" where
  "number_from n [] = []"
| "number_from n (x # xs) = (n, x) # number_from (n + 1) xs"

record system_alert_input =
  sa_kind :: string
  sa_title :: string
  sa_detail :: string
  sa_reason :: string
  sa_detectedAt :: instant
  sa_recipients :: "string list"

definition enqueueSystemAlert ::
  "(string \<Rightarrow> byte list) \<Rightarrow> (nat \<Rightarrow> string) \<Rightarrow> instant \<Rightarrow> system_alert_input \<Rightarrow> outbox_row list \<Rightarrow>
   js_error + (outbox_row list \<times> outbox_row list)" where
  "enqueueSystemAlert sha256 createId now input t =
    (let recipients = filter (\<lambda>r. length r > 0) (js_unique (map normalizeRecipient (sa_recipients input)))
     in if length recipients = 0 then Inr (t, [])
        else
          (let bucket = hourBucket (sa_detectedAt input);
               payload = P_system_alert (sa_title input) (sa_detail input) (sa_reason input)
                           (toISOString (sa_detectedAt input));
               rows = map (\<lambda>(n, recipient). new_outbox_row (createId n) None None None payload recipient
                              (systemAlertKey sha256 (sa_kind input) bucket recipient) now)
                        (number_from 0 recipients)
           in insert_outbox rows t))"

record dependency_notification_input =
  dn_event :: dependency_event
  dn_sourceId :: string
  dn_incidentExternalId :: string
  dn_presetId :: string
  dn_scopeId :: "string option"
  dn_dependencyId :: string
  dn_facts :: dependency_facts
  dn_recipients :: "string list"

definition enqueueDependencyNotifications ::
  "(string \<Rightarrow> byte list) \<Rightarrow> (nat \<Rightarrow> string) \<Rightarrow> instant \<Rightarrow> dependency_notification_input \<Rightarrow>
   outbox_row list \<Rightarrow> js_error + (outbox_row list \<times> nat)" where
  "enqueueDependencyNotifications sha256 createId now input t =
    (let recipients = js_unique (map normalizeRecipient (dn_recipients input))
     in if length recipients = 0 then Inr (t, 0)
        else
          (let payload = (if dn_event input = Dep_incident then P_dependency_incident (dn_facts input)
                          else P_dependency_recovery (dn_facts input));
               rows = map (\<lambda>(n, recipient). new_outbox_row (createId n) None None
                              (Some (dn_dependencyId input)) payload recipient
                              (dependencyNotificationKey sha256 (dn_sourceId input)
                                 (dn_incidentExternalId input) (dn_presetId input) (dn_scopeId input)
                                 (dn_event input) recipient None) now)
                        (number_from 0 recipients)
           in res_bind (insert_outbox rows t) (\<lambda>(t', new). Inr (t', length new))))"

definition enqueueDomainExpiryOutboxRows ::
  "(nat \<Rightarrow> string) \<Rightarrow> alert_row list \<Rightarrow> outbox_row list \<Rightarrow> js_error + (outbox_row list \<times> nat)" where
  "enqueueDomainExpiryOutboxRows createId rows t =
    (if length rows = 0 then Inr (t, 0)
     else res_bind (insert_outbox
            (map (\<lambda>(n, row). new_outbox_row (createId n) None None None (ar_payload row) (ar_recipient row)
                     (ar_idempotencyKey row) (ar_at row)) (number_from 0 rows)) t)
          (\<lambda>(t', new). Inr (t', length new)))"

definition enqueueDomainExpiryAlerts ::
  "(string \<Rightarrow> byte list) \<Rightarrow> (nat \<Rightarrow> string) \<Rightarrow> bool option \<Rightarrow> domain_registration list \<Rightarrow> string list \<Rightarrow>
   instant \<Rightarrow> outbox_row list \<Rightarrow> js_error + (outbox_row list \<times> nat)" where
  "enqueueDomainExpiryAlerts sha256 createId enabled registrations defaultRecipients now t =
    (let rows = buildDomainExpiryAlertRows sha256 enabled registrations defaultRecipients now
     in if length rows = 0 then Inr (t, 0) else enqueueDomainExpiryOutboxRows createId rows t)"

subsection \<open>The outbox as a machine\<close>

datatype outbox_op =
    Ob_insert "outbox_row list"
  | Ob_claim "string \<Rightarrow> bool" sql_env instant int string "notification_event list option" "int option"
  | Ob_sent sql_env string "string option" string instant "int option"
  | Ob_failed sql_env string "string option" bool instant string instant "int option"
  | Ob_release sql_env "(string \<times> string option) list" instant "int option"
  | Ob_reconcile sql_env instant int "notification_event list option"

fun outbox_step :: "outbox_row list \<Rightarrow> outbox_op \<Rightarrow> js_error + outbox_row list" where
  "outbox_step t (Ob_insert rows) = res_bind (insert_outbox rows t) (\<lambda>(t', new). Inr t')"
| "outbox_step t (Ob_claim locked env now limit token scope deadline) =
     Inr (snd (claimNotifications locked env now limit token scope deadline t))"
| "outbox_step t (Ob_sent env i token message now deadline) =
     Inr (snd (markNotificationSent env i token message now deadline t))"
| "outbox_step t (Ob_failed env i token dead next error now deadline) =
     Inr (snd (markNotificationFailed env i token dead next error now deadline t))"
| "outbox_step t (Ob_release env claimed now deadline) =
     Inr (snd (releaseNotificationClaims env claimed now deadline t))"
| "outbox_step t (Ob_reconcile env now stale scope) =
     Inr (snd (reconcileStaleClaims env now stale scope t))"

text \<open>What every row satisfies beyond its CHECKs: only a row being sent has a claim, a sent one has
  the provider's identifier, an error is recorded exactly after a failure.\<close>

definition outbox_row_ok :: "outbox_row \<Rightarrow> bool" where
  "outbox_row_ok r \<longleftrightarrow> outbox_checks r \<and>
     (ob_claimToken r \<noteq> None \<longleftrightarrow> ob_status r = Sending) \<and>
     (ob_status r = Sending \<longrightarrow> ob_attemptCount r \<ge> 1) \<and>
     (ob_status r = Sent \<longrightarrow> ob_providerMessageId r \<noteq> None) \<and>
     (ob_status r = Pending \<longrightarrow> ob_lastError r = None) \<and>
     (ob_status r \<in> {Failed, Dead} \<longrightarrow> ob_lastError r \<noteq> None)"

definition outbox_inv :: "outbox_row list \<Rightarrow> bool" where
  "outbox_inv t \<longleftrightarrow> list_all outbox_row_ok t \<and> distinct (map ob_id t) \<and> distinct (map ob_idempotencyKey t)"

definition pending_row :: "outbox_row \<Rightarrow> bool" where
  "pending_row r \<longleftrightarrow> outbox_row_ok r \<and> ob_status r = Pending"

definition outbox_admissible :: "outbox_row list \<Rightarrow> outbox_op \<Rightarrow> bool" where
  "outbox_admissible t op = (case op of Ob_insert rows \<Rightarrow> list_all pending_row rows | _ \<Rightarrow> True)"

text \<open>Every statement but the insert is one \<open>update\<close> or leaves the table alone.\<close>

definition is_update ::
  "(outbox_row \<Rightarrow> bool) \<Rightarrow> (outbox_row \<Rightarrow> outbox_row) \<Rightarrow> outbox_row list \<Rightarrow> outbox_row list \<Rightarrow> bool" where
  "is_update p f t t' \<longleftrightarrow> t' = t \<or> t' = sql_update p f t"

lemma withDeadline_update:
  "is_update p f t (snd (withDeadline d env (update_returning p f) t))"
  by (auto simp: is_update_def withDeadline_def run_statement_def update_returning_def
      split: option.splits)

lemma snd_one_row [simp]: "snd (one_row r) = snd r"
  by (cases r; cases "fst r") (auto simp: one_row_def)

lemma snd_count [simp]:
  "snd (case x of (r, t') \<Rightarrow> (case r of Inl e \<Rightarrow> Inl e | Inr rows \<Rightarrow> Inr (g rows), t')) = snd x"
  by (cases x) simp

lemma claim_update:
  "is_update (\<lambda>r. ob_id r \<in> set (map ob_id (due_batch locked now (nat limit) scope t)))
     (claim_row now token) t (snd (claimNotifications locked env now limit token scope d t))"
proof -
  have "snd (withDeadline d env (claim_notifications_sql locked now (nat limit) token scope) t) \<in>
      {t, fst (claim_notifications_sql locked now (nat limit) token scope t)}"
    by (auto simp: withDeadline_def run_statement_def split: option.splits prod.splits)
  then show ?thesis
    by (auto simp: claimNotifications_def is_update_def claim_notifications_sql_def Let_def
        split: prod.splits sum.splits)
qed

lemma release_update:
  "is_update (\<lambda>r. held (ob_id r) (snd (hd claimed)) r \<and> ob_id r \<in> set (map fst claimed)) (released_row now) t
     (snd (releaseNotificationClaims env claimed now d t))"
proof (cases claimed)
  case Nil
  then show ?thesis by (simp add: releaseNotificationClaims_def is_update_def)
next
  case (Cons c rest)
  then show ?thesis
    using withDeadline_update [of "\<lambda>r. held (ob_id r) (snd c) r \<and> ob_id r \<in> set (map fst claimed)"
        "released_row now" t d env]
    by (cases c) (simp add: releaseNotificationClaims_def is_update_def)
qed

lemma reconcile_update:
  "is_update (stale_claim now stale scope)
     (reconciled_row now (now - (PROVIDER_IDEMPOTENCY_WINDOW_MS - PROVIDER_IDEMPOTENCY_RETRY_MARGIN_MS))) t
     (snd (reconcileStaleClaims env now stale scope t))"
  by (simp add: reconcileStaleClaims_def Let_def is_update_def run_statement_def update_returning_def
      split: option.split)

lemma due_batch_subset: "set (due_batch locked now n scope t) \<subseteq> {r \<in> set t. due now scope r \<and> \<not> locked (ob_id r)}"
  using set_take_subset [of n "sort_key claim_order (filter (\<lambda>r. due now scope r \<and> \<not> locked (ob_id r)) t)"]
  by (auto simp: due_batch_def)

lemma same_id_row: "distinct (map ob_id t) \<Longrightarrow> r \<in> set t \<Longrightarrow> r' \<in> set t \<Longrightarrow> ob_id r = ob_id r' \<Longrightarrow> r = r'"
  by (auto simp: distinct_map inj_on_def)

lemma claimed_row_due:
  assumes "distinct (map ob_id t)" and "r \<in> set t"
    and "ob_id r \<in> set (map ob_id (due_batch locked now n scope t))"
  shows "due now scope r"
proof -
  from assms(3) obtain r' where "r' \<in> set (due_batch locked now n scope t)" "ob_id r' = ob_id r" by auto
  moreover from this(1) have "r' \<in> set t" "due now scope r'" using due_batch_subset by blast+
  ultimately show ?thesis using same_id_row [OF assms(1,2), of r'] by simp
qed

lemma row_ok_claim: "outbox_row_ok r \<Longrightarrow> due now scope r \<Longrightarrow> outbox_row_ok (claim_row now' token r)"
  by (auto simp: outbox_row_ok_def outbox_checks_def claim_row_def due_def)

lemma row_ok_sent: "outbox_row_ok r \<Longrightarrow> held i token r \<Longrightarrow> outbox_row_ok (sent_row m now r)"
  by (auto simp: outbox_row_ok_def outbox_checks_def sent_row_def held_def)

lemma row_ok_failed: "outbox_row_ok r \<Longrightarrow> held i token r \<Longrightarrow> outbox_row_ok (failed_row dead next e now r)"
  by (auto simp: outbox_row_ok_def outbox_checks_def failed_row_def held_def)

lemma row_ok_released: "outbox_row_ok r \<Longrightarrow> held i token r \<Longrightarrow> outbox_row_ok (released_row now r)"
  by (auto simp: outbox_row_ok_def outbox_checks_def released_row_def held_def)

lemma row_ok_reconciled: "outbox_row_ok r \<Longrightarrow> stale_claim now stale scope r \<Longrightarrow> outbox_row_ok (reconciled_row now c r)"
  by (auto simp: outbox_row_ok_def outbox_checks_def reconciled_row_def stale_claim_def Let_def)

lemma update_keys:
  "ob_id (claim_row now token r) = ob_id r" "ob_id (sent_row m now r) = ob_id r"
  "ob_id (failed_row dead next e now r) = ob_id r" "ob_id (released_row now r) = ob_id r"
  "ob_id (reconciled_row now c r) = ob_id r"
  "ob_idempotencyKey (claim_row now token r) = ob_idempotencyKey r"
  "ob_idempotencyKey (sent_row m now r) = ob_idempotencyKey r"
  "ob_idempotencyKey (failed_row dead next e now r) = ob_idempotencyKey r"
  "ob_idempotencyKey (released_row now r) = ob_idempotencyKey r"
  "ob_idempotencyKey (reconciled_row now c r) = ob_idempotencyKey r"
  by (simp_all add: claim_row_def sent_row_def failed_row_def released_row_def reconciled_row_def Let_def)

lemma inv_update:
  assumes "outbox_inv t" and "is_update p f t t'"
    and "\<And>r. r \<in> set t \<Longrightarrow> p r \<Longrightarrow> outbox_row_ok (f r)"
    and "\<And>r. ob_id (f r) = ob_id r" and "\<And>r. ob_idempotencyKey (f r) = ob_idempotencyKey r"
  shows "outbox_inv t'"
proof (cases "t' = t")
  case True
  with assms(1) show ?thesis by simp
next
  case False
  with assms(2) have t': "t' = sql_update p f t" by (simp add: is_update_def)
  have "map ob_id t' = map ob_id t" "map ob_idempotencyKey t' = map ob_idempotencyKey t"
    unfolding t' using assms(4,5) by (simp_all add: table_simps)
  moreover have "list_all outbox_row_ok t'"
    using assms(1,3) by (auto simp: t' outbox_inv_def list_all_iff set_sql_update)
  ultimately show ?thesis using assms(1) by (simp add: outbox_inv_def)
qed

lemma insert_inv:
  assumes "outbox_inv t" and "list_all pending_row rows" and "insert_outbox rows t = Inr (t', new)"
  shows "outbox_inv t' \<and> t' = t @ new \<and> set new \<subseteq> set rows"
proof -
  from assms(3) have ins: "sql_insert_new ob_idempotencyKey rows t = (t', new)" and "distinct (map ob_id t')"
    by (auto simp: insert_outbox_def Let_def split: prod.splits if_splits)
  moreover have "set new \<subseteq> set rows" using ins by (rule sql_insert_new_subset)
  moreover have "t' = t @ new" using ins by (rule sql_insert_new_append)
  moreover have "distinct (map ob_idempotencyKey t')"
    using sql_insert_new_distinct [OF ins] assms(1) by (simp add: outbox_inv_def)
  ultimately show ?thesis using assms(1,2)
    by (auto simp: outbox_inv_def list_all_iff pending_row_def)
qed

lemma outbox_step_inv:
  assumes "outbox_inv t" and "outbox_admissible t op" and "outbox_step t op = Inr t'"
  shows "outbox_inv t'"
proof -
  have ok: "outbox_row_ok r" if "r \<in> set t" for r using assms(1) that by (simp add: outbox_inv_def list_all_iff)
  have d: "distinct (map ob_id t)" using assms(1) by (simp add: outbox_inv_def)
  show ?thesis
  proof (cases op)
    case (Ob_insert rows)
    with assms show ?thesis
      by (auto simp: outbox_admissible_def res_bind_Inr_iff dest: insert_inv)
  next
    case (Ob_claim locked env now limit token scope deadline)
    with assms(3) have "is_update (\<lambda>r. ob_id r \<in> set (map ob_id (due_batch locked now (nat limit) scope t)))
        (claim_row now token) t t'"
      using claim_update by auto
    then show ?thesis
      by (rule inv_update [OF assms(1)])
        (rule row_ok_claim [OF ok claimed_row_due [OF d]], assumption+, simp_all add: update_keys)
  next
    case (Ob_sent env i token message now deadline)
    with assms(3) have "is_update (held i token) (sent_row message now) t t'"
      using withDeadline_update by (auto simp: markNotificationSent_def)
    then show ?thesis
      by (rule inv_update [OF assms(1)]) (use ok row_ok_sent in \<open>auto simp: update_keys\<close>)
  next
    case (Ob_failed env i token dead nxt error now deadline)
    with assms(3) have "is_update (held i token) (failed_row dead nxt error now) t t'"
      using withDeadline_update by (auto simp: markNotificationFailed_def)
    then show ?thesis
      by (rule inv_update [OF assms(1)]) (use ok row_ok_failed in \<open>auto simp: update_keys\<close>)
  next
    case (Ob_release env claimed now deadline)
    with assms(3) have "is_update (\<lambda>r. held (ob_id r) (snd (hd claimed)) r \<and> ob_id r \<in> set (map fst claimed))
        (released_row now) t t'"
      using release_update by auto
    then show ?thesis
      by (rule inv_update [OF assms(1)]) (use ok row_ok_released in \<open>auto simp: update_keys\<close>)
  next
    case (Ob_reconcile env now stale scope)
    with assms(3) have "is_update (stale_claim now stale scope)
        (reconciled_row now (now - (PROVIDER_IDEMPOTENCY_WINDOW_MS - PROVIDER_IDEMPOTENCY_RETRY_MARGIN_MS))) t t'"
      using reconcile_update by auto
    then show ?thesis
      by (rule inv_update [OF assms(1)]) (use ok row_ok_reconciled in \<open>auto simp: update_keys\<close>)
  qed
qed

interpretation outbox_machine: invariant_machine outbox_step outbox_inv outbox_admissible
  by unfold_locales (rule outbox_step_inv)

subsection \<open>Who may change a row\<close>

lemma outbox_step_update:
  assumes "outbox_inv t" and "outbox_admissible t op" and "outbox_step t op = Inr t'" and "r \<in> set t"
  shows "r \<in> set t' \<or>
     (case op of
        Ob_insert rows \<Rightarrow> False
      | Ob_claim locked env now limit token scope deadline \<Rightarrow> due now scope r
      | Ob_sent env i token message now deadline \<Rightarrow> held i token r
      | Ob_failed env i token dead nxt error now deadline \<Rightarrow> held i token r
      | Ob_release env claimed now deadline \<Rightarrow>
          held (ob_id r) (snd (hd claimed)) r \<and> ob_id r \<in> set (map fst claimed)
      | Ob_reconcile env now stale scope \<Rightarrow> stale_claim now stale scope r)"
proof -
  have d: "distinct (map ob_id t)" using assms(1) by (simp add: outbox_inv_def)
  have stays: "r \<in> set t' \<or> p r" if "is_update p f t t'" for p f
    using that assms(4) by (auto simp: is_update_def set_sql_update)
  show ?thesis
  proof (cases op)
    case (Ob_insert rows)
    with assms show ?thesis
      by (auto simp: outbox_admissible_def res_bind_Inr_iff dest: insert_inv)
  next
    case (Ob_claim locked env now limit token scope deadline)
    with assms(3) claim_update have "r \<in> set t' \<or> ob_id r \<in> set (map ob_id (due_batch locked now (nat limit) scope t))"
      by (intro stays [of _ "claim_row now token"]) auto
    with claimed_row_due [OF d assms(4), of locked now "nat limit" scope] have "r \<in> set t' \<or> due now scope r"
      by blast
    with Ob_claim show ?thesis by simp
  next
    case (Ob_sent env i token message now deadline)
    with assms(3) have "is_update (held i token) (sent_row message now) t t'"
      using withDeadline_update by (auto simp: markNotificationSent_def)
    with Ob_sent stays show ?thesis by auto
  next
    case (Ob_failed env i token dead nxt error now deadline)
    with assms(3) have "is_update (held i token) (failed_row dead nxt error now) t t'"
      using withDeadline_update by (auto simp: markNotificationFailed_def)
    with Ob_failed stays show ?thesis by auto
  next
    case (Ob_release env claimed now deadline)
    with assms(3) release_update have "r \<in> set t' \<or> (held (ob_id r) (snd (hd claimed)) r \<and> ob_id r \<in> set (map fst claimed))"
      by (intro stays [of _ "released_row now"]) auto
    with Ob_release show ?thesis by simp
  next
    case (Ob_reconcile env now stale scope)
    with assms(3) reconcile_update have "r \<in> set t' \<or> stale_claim now stale scope r"
      by (intro stays) auto
    with Ob_reconcile show ?thesis by simp
  qed
qed

lemma terminal_run:
  "outbox_inv t \<Longrightarrow> admissible_run outbox_step outbox_admissible t ops \<Longrightarrow> run_steps outbox_step t ops = Inr t' \<Longrightarrow>
   r \<in> set t \<Longrightarrow> ob_status r \<in> {Sent, Dead} \<Longrightarrow> r \<in> set t'"
proof (induction ops arbitrary: t)
  case Nil
  then show ?case by simp
next
  case (Cons op ops)
  then obtain u where u: "outbox_step t op = Inr u" "run_steps outbox_step u ops = Inr t'"
    by (auto simp: res_bind_Inr_iff)
  with Cons.prems have adm: "outbox_admissible t op" "admissible_run outbox_step outbox_admissible u ops" by simp_all
  have "r \<in> set u"
    using outbox_step_update [OF Cons.prems(1) adm(1) u(1) Cons.prems(4)] Cons.prems(5)
    by (cases op) (auto simp: due_def held_def stale_claim_def)
  moreover have "outbox_inv u" using outbox_step_inv [OF Cons.prems(1) adm(1) u(1)] .
  ultimately show ?case using Cons.IH u(2) adm(2) Cons.prems(5) by blast
qed

subsection \<open>Properties\<close>

text \<open>C9. Whatever the interleaving of writers, claimants, senders, releases and reconciliations on
  the outbox, and whichever of their statements fail, the table keeps its CHECKs and its unique
  keys, only rows being sent carry a claim, and a notification that reached a terminal status stays
  as it was.\<close>

theorem outbox_run_safe:
  assumes "outbox_inv t" and "admissible_run outbox_step outbox_admissible t ops"
    and "run_steps outbox_step t ops = Inr t'"
  shows "list_all outbox_checks t' \<and> distinct (map ob_id t') \<and> distinct (map ob_idempotencyKey t') \<and>
         (\<forall>r \<in> set t'. ob_claimToken r \<noteq> None \<longleftrightarrow> ob_status r = Sending) \<and>
         {r \<in> set t. ob_status r \<in> {Sent, Dead}} \<subseteq> set t'"
proof -
  have "outbox_inv t'" by (rule outbox_machine.inv_run [OF assms])
  moreover have "{r \<in> set t. ob_status r \<in> {Sent, Dead}} \<subseteq> set t'"
    using terminal_run [OF assms] by blast
  ultimately show ?thesis
    by (auto simp: outbox_inv_def list_all_iff outbox_row_ok_def)
qed

text \<open>The sample: two alerts are enqueued, claimed, the first is sent, the second fails.\<close>

definition sample_env :: sql_env where
  "sample_env = \<lparr>se_nowMs = 0, se_supportsTimeout = True, se_fails = None\<rparr>"

definition sample_alert_row :: "string \<Rightarrow> outbox_row" where
  "sample_alert_row i =
     new_outbox_row i None None None (P_system_alert ''t'' ''d'' ''r'' ''a'') ''ops@example.com'' (''key/'' @ i) 0"

definition sample_outbox_ops :: "outbox_op list" where
  "sample_outbox_ops =
     [Ob_insert [sample_alert_row ''a'', sample_alert_row ''b''],
      Ob_claim (\<lambda>_. False) sample_env 5 10 ''tok'' None None,
      Ob_sent sample_env ''a'' (Some ''tok'') ''msg'' 6 None,
      Ob_failed sample_env ''b'' (Some ''tok'') False 70 ''PROVIDER_UNAVAILABLE'' 6 None]"

lemma sample_alert_row_pending: "pending_row (sample_alert_row i)"
  by (simp add: pending_row_def outbox_row_ok_def outbox_checks_def sample_alert_row_def new_outbox_row_def)

lemma admissible_insert_only:
  "list_all (\<lambda>op. case op of Ob_insert rows \<Rightarrow> list_all pending_row rows | _ \<Rightarrow> True) ops \<Longrightarrow>
   admissible_run outbox_step outbox_admissible t ops"
  by (induction ops arbitrary: t) (auto simp: outbox_admissible_def split: sum.split)

theorem outbox_run_safe_witness:
  "\<exists>t'. run_steps outbox_step [] sample_outbox_ops = Inr t' \<and> list_all outbox_checks t'"
proof -
  have "admissible_run outbox_step outbox_admissible [] sample_outbox_ops"
    by (rule admissible_insert_only) (simp add: sample_outbox_ops_def sample_alert_row_pending)
  moreover obtain t' where "run_steps outbox_step [] sample_outbox_ops = Inr t'"
    by (simp add: sample_outbox_ops_def insert_outbox_def sample_alert_row_def new_outbox_row_def)
  moreover have "outbox_inv []" by (simp add: outbox_inv_def)
  ultimately show ?thesis using outbox_run_safe by blast
qed

text \<open>C10. A claim is exclusive: as long as a row is being sent under a claim token, the only
  operations that can change it are the settling or the release of that very claim and the
  reconciliation of a claim that has gone stale; in particular no other claimant gets it.\<close>

theorem claim_is_exclusive:
  assumes "outbox_inv t" and "outbox_admissible t op" and "outbox_step t op = Inr t'"
    and "r \<in> set t" and "ob_status r = Sending" and "r \<notin> set t'"
  shows "(\<exists>env message now deadline. op = Ob_sent env (ob_id r) (ob_claimToken r) message now deadline) \<or>
         (\<exists>env dead nxt error now deadline. op = Ob_failed env (ob_id r) (ob_claimToken r) dead nxt error now deadline) \<or>
         (\<exists>env claimed now deadline. op = Ob_release env claimed now deadline \<and>
            ob_id r \<in> set (map fst claimed) \<and> snd (hd claimed) = ob_claimToken r) \<or>
         (\<exists>env now stale scope. op = Ob_reconcile env now stale scope \<and> stale_claim now stale scope r)"
  using outbox_step_update [OF assms(1-4)] assms(5,6)
  by (cases op) (auto simp: due_def held_def)

theorem claim_is_exclusive_witness:
  "\<exists>r t'. outbox_step [claim_row 0 ''tok'' (sample_alert_row ''a'')]
             (Ob_reconcile sample_env 400000 300000 None) = Inr t' \<and>
          r = claim_row 0 ''tok'' (sample_alert_row ''a'') \<and> r \<notin> set t' \<and>
          stale_claim 400000 300000 None r"
proof -
  let ?r = "claim_row 0 ''tok'' (sample_alert_row ''a'')"
  let ?op = "Ob_reconcile sample_env 400000 300000 None"
  have inv: "outbox_inv [?r]"
    by (simp add: outbox_inv_def outbox_row_ok_def outbox_checks_def claim_row_def sample_alert_row_def new_outbox_row_def)
  obtain t' where t': "outbox_step [?r] ?op = Inr t'" by simp
  then have gone: "?r \<notin> set t'"
    by (auto simp: reconcileStaleClaims_def run_statement_def sample_env_def update_returning_def
        sql_update_def stale_claim_def claimed_before_def in_scope_def reconciled_row_def claim_row_def
        sample_alert_row_def new_outbox_row_def Let_def split: if_splits)
  have "ob_status ?r = Sending" by (simp add: claim_row_def)
  from claim_is_exclusive [OF inv _ t' _ this gone] t' gone show ?thesis
    by (auto simp: outbox_admissible_def)
qed

text \<open>A stale claim is retried only while the provider still recognises its idempotency key:
  when reconciliation makes a row claimable again, less than 23 hours and 55 minutes have passed
  since it was claimed; a claim older than that is dead and never sent again.\<close>

theorem reconciliation_within_provider_window:
  assumes "outbox_inv t" and "outbox_step t (Ob_reconcile env now stale scope) = Inr t'"
    and "r \<in> set t" and "ob_status r = Sending" and "ob_claimedAt r = Some at"
    and "r' \<in> set t'" and "ob_id r' = ob_id r" and "ob_status r' \<noteq> Sending"
  shows "at < now - stale \<and>
         ob_status r' = (if at \<le> now - (PROVIDER_IDEMPOTENCY_WINDOW_MS - PROVIDER_IDEMPOTENCY_RETRY_MARGIN_MS)
                         then Dead else Failed) \<and>
         (ob_status r' = Failed \<longrightarrow> now < at + 86100000 \<and> due now None r')"
proof -
  let ?cut = "now - (PROVIDER_IDEMPOTENCY_WINDOW_MS - PROVIDER_IDEMPOTENCY_RETRY_MARGIN_MS)"
  have upd: "is_update (stale_claim now stale scope) (reconciled_row now ?cut) t t'"
    using reconcile_update [of now stale scope t env] assms(2) by simp
  have d: "distinct (map ob_id t)" using assms(1) by (simp add: outbox_inv_def)
  have "r' = reconciled_row now ?cut r \<and> stale_claim now stale scope r"
  proof (cases "t' = t")
    case True
    with assms(3-8) same_id_row [OF d] show ?thesis by force
  next
    case False
    with upd have "t' = sql_update (stale_claim now stale scope) (reconciled_row now ?cut) t"
      by (simp add: is_update_def)
    with assms(6) obtain q where q: "q \<in> set t" "r' = (if stale_claim now stale scope q then reconciled_row now ?cut q else q)"
      by (auto simp: sql_update_def)
    then have "ob_id q = ob_id r" using assms(7) by (auto simp: update_keys split: if_splits)
    with q(1) assms(3) d have "q = r" by (intro same_id_row [OF d]) simp_all
    with q(2) assms(4,8) show ?thesis by (auto split: if_splits)
  qed
  then show ?thesis
    using assms(5)
    by (auto simp: reconciled_row_def stale_claim_def claimed_before_def due_def in_scope_def Let_def
        PROVIDER_IDEMPOTENCY_WINDOW_MS_def PROVIDER_IDEMPOTENCY_RETRY_MARGIN_MS_def)
qed

theorem reconciliation_within_provider_window_witness:
  "\<exists>t' r'. outbox_step [claim_row 0 ''tok'' (sample_alert_row ''a'')]
             (Ob_reconcile sample_env 400000 300000 None) = Inr t' \<and> r' \<in> set t' \<and>
           ob_status r' = Failed \<and> due 400000 None r'"
proof -
  let ?r = "claim_row 0 ''tok'' (sample_alert_row ''a'')"
  let ?op = "Ob_reconcile sample_env 400000 300000 None"
  have inv: "outbox_inv [?r]"
    by (simp add: outbox_inv_def outbox_row_ok_def outbox_checks_def claim_row_def sample_alert_row_def new_outbox_row_def)
  obtain t' where t': "outbox_step [?r] ?op = Inr t'" by simp
  let ?q = "reconciled_row 400000 (400000 - (PROVIDER_IDEMPOTENCY_WINDOW_MS - PROVIDER_IDEMPOTENCY_RETRY_MARGIN_MS)) ?r"
  have q: "?q \<in> set t'"
    using t' by (auto simp: reconcileStaleClaims_def run_statement_def sample_env_def update_returning_def
        sql_update_def stale_claim_def claimed_before_def in_scope_def claim_row_def sample_alert_row_def
        new_outbox_row_def Let_def)
  have "ob_id ?q = ob_id ?r" "ob_status ?q \<noteq> Sending" "ob_status ?r = Sending" "ob_claimedAt ?r = Some 0"
    by (simp_all add: update_keys) (simp_all add: reconciled_row_def claim_row_def Let_def)
  from reconciliation_within_provider_window [OF inv t' _ this(3,4) q this(1,2)] t' q show ?thesis
    by (auto simp: PROVIDER_IDEMPOTENCY_WINDOW_MS_def PROVIDER_IDEMPOTENCY_RETRY_MARGIN_MS_def split: if_splits)
qed

lemma map_number_from: "map (\<lambda>(n, x). f x) (number_from k xs) = map f xs"
  by (induction xs arbitrary: k) simp_all

lemma new_outbox_row_key [simp]:
  "ob_idempotencyKey (new_outbox_row i inc mon dep payload recipient key now) = key"
  by (simp add: new_outbox_row_def)

lemma alert_row_keys:
  "map ob_idempotencyKey (map (\<lambda>(n, x). new_outbox_row (c n) None None None payload x (key x) now) (number_from k xs)) =
   map key xs"
  by (induction xs arbitrary: k) simp_all

lemma insert_taken: "set (map key rs) \<subseteq> key ` set t \<Longrightarrow> sql_insert_new key rs t = (t, [])"
  by (rule sql_insert_new_taken) simp

lemma insert_keys: "sql_insert_new key rs t = (t', new) \<Longrightarrow> key ` set t' = key ` set t \<union> set (map key rs)"
  by (simp add: sql_insert_new_keys)

lemma enqueueSystemAlert_keys:
  assumes "enqueueSystemAlert sha createId now input t = Inr (t', new)"
  shows "ob_idempotencyKey ` set t' = ob_idempotencyKey ` set t \<union>
           systemAlertKey sha (sa_kind input) (hourBucket (sa_detectedAt input)) `
             (normalizeRecipient ` set (sa_recipients input) - {[]})"
proof -
  let ?rs = "filter (\<lambda>r. length r > 0) (js_unique (map normalizeRecipient (sa_recipients input)))"
  let ?key = "systemAlertKey sha (sa_kind input) (hourBucket (sa_detectedAt input))"
  have rs: "set ?rs = normalizeRecipient ` set (sa_recipients input) - {[]}" by auto
  show ?thesis
  proof (cases "?rs = []")
    case True
    then have "normalizeRecipient ` set (sa_recipients input) - {[]} = {}" using rs by (metis list.set(1))
    moreover have "t' = t" using True assms by (simp add: enqueueSystemAlert_def Let_def)
    ultimately show ?thesis by (simp only: image_empty Un_empty_right)
  next
    case False
    let ?payload = "P_system_alert (sa_title input) (sa_detail input) (sa_reason input) (toISOString (sa_detectedAt input))"
    let ?rows = "map (\<lambda>(n, x). new_outbox_row (createId n) None None None ?payload x (?key x) now) (number_from 0 ?rs)"
    from False assms have "insert_outbox ?rows t = Inr (t', new)"
      by (simp add: enqueueSystemAlert_def Let_def)
    then have "sql_insert_new ob_idempotencyKey ?rows t = (t', new)"
      by (auto simp: insert_outbox_def Let_def split: prod.splits if_splits)
    then have "ob_idempotencyKey ` set t' = ob_idempotencyKey ` set t \<union> set (map ob_idempotencyKey ?rows)"
      by (rule insert_keys)
    then show ?thesis unfolding alert_row_keys set_map rs .
  qed
qed

lemma enqueueSystemAlert_taken:
  assumes "systemAlertKey sha (sa_kind input) (hourBucket (sa_detectedAt input)) `
             (normalizeRecipient ` set (sa_recipients input) - {[]}) \<subseteq> ob_idempotencyKey ` set t"
    and "distinct (map ob_id t)"
  shows "enqueueSystemAlert sha createId now input t = Inr (t, [])"
proof -
  let ?rs = "filter (\<lambda>r. length r > 0) (js_unique (map normalizeRecipient (sa_recipients input)))"
  let ?key = "systemAlertKey sha (sa_kind input) (hourBucket (sa_detectedAt input))"
  let ?payload = "P_system_alert (sa_title input) (sa_detail input) (sa_reason input) (toISOString (sa_detectedAt input))"
  let ?rows = "map (\<lambda>(n, x). new_outbox_row (createId n) None None None ?payload x (?key x) now) (number_from 0 ?rs)"
  have rs: "set ?rs = normalizeRecipient ` set (sa_recipients input) - {[]}" by auto
  have "set (map ob_idempotencyKey ?rows) \<subseteq> ob_idempotencyKey ` set t"
    using assms(1) unfolding alert_row_keys set_map rs .
  then have "sql_insert_new ob_idempotencyKey ?rows t = (t, [])"
    by (rule insert_taken)
  with assms(2) show ?thesis by (simp add: enqueueSystemAlert_def insert_outbox_def Let_def)
qed

text \<open>A system alert goes out once per kind, UTC hour and recipient: after it has been enqueued,
  enqueueing it again from any later sweep of the same hour, under other identifiers, inserts
  nothing and leaves the outbox as it is, while every non-empty recipient has its row.\<close>

theorem system_alert_once_per_hour:
  assumes "outbox_inv t" and "enqueueSystemAlert sha createId now input t = Inr (t1, new)"
    and "four_digit_year (sa_detectedAt input)" and "four_digit_year later"
    and "later div 3600000 = sa_detectedAt input div 3600000"
  shows "enqueueSystemAlert sha createId' now' (input\<lparr>sa_detectedAt := later\<rparr>) t1 = Inr (t1, []) \<and>
         (\<forall>r \<in> set (sa_recipients input). normalizeRecipient r \<noteq> [] \<longrightarrow>
            systemAlertKey sha (sa_kind input) (hourBucket (sa_detectedAt input)) r \<in> ob_idempotencyKey ` set t1)"
proof
  have same: "hourBucket later = hourBucket (sa_detectedAt input)"
    using take_13_hour [OF assms(4,3)] assms(5) by (simp add: hourBucket_def)
  note keys = enqueueSystemAlert_keys [OF assms(2)]
  have "distinct (map ob_id t1)"
    using assms(1,2) by (auto simp: enqueueSystemAlert_def insert_outbox_def outbox_inv_def Let_def
        split: if_splits prod.splits)
  then show "enqueueSystemAlert sha createId' now' (input\<lparr>sa_detectedAt := later\<rparr>) t1 = Inr (t1, [])"
    by (intro enqueueSystemAlert_taken) (auto simp: keys same)
  show "\<forall>r \<in> set (sa_recipients input). normalizeRecipient r \<noteq> [] \<longrightarrow>
      systemAlertKey sha (sa_kind input) (hourBucket (sa_detectedAt input)) r \<in> ob_idempotencyKey ` set t1"
  proof (intro ballI impI)
    fix r assume "r \<in> set (sa_recipients input)" "normalizeRecipient r \<noteq> []"
    then have "systemAlertKey sha (sa_kind input) (hourBucket (sa_detectedAt input)) (normalizeRecipient r) \<in>
        ob_idempotencyKey ` set t1" unfolding keys by auto
    then show "systemAlertKey sha (sa_kind input) (hourBucket (sa_detectedAt input)) r \<in> ob_idempotencyKey ` set t1"
      by (simp add: systemAlertKey_def)
  qed
qed

definition sample_alert :: system_alert_input where
  "sample_alert = \<lparr>sa_kind = ''loop'', sa_title = ''t'', sa_detail = ''d'', sa_reason = ''r'',
     sa_detectedAt = 0, sa_recipients = [''ops@example.com'']\<rparr>"

theorem system_alert_once_per_hour_witness:
  "\<exists>t1 new. enqueueSystemAlert plain_digest (\<lambda>_. ''a'') 0 sample_alert [] = Inr (t1, new) \<and>
     enqueueSystemAlert plain_digest (\<lambda>_. ''b'') 1800000 (sample_alert\<lparr>sa_detectedAt := 1800000\<rparr>) t1 = Inr (t1, [])"
proof -
  have n: "normalizeRecipient ''ops@example.com'' = ''ops@example.com''" by code_simp
  obtain t1 new where e: "enqueueSystemAlert plain_digest (\<lambda>_. ''a'') 0 sample_alert [] = Inr (t1, new)"
    by (simp add: enqueueSystemAlert_def sample_alert_def n js_unique_def insert_outbox_def Let_def)
  have inv: "outbox_inv []" by (simp add: outbox_inv_def)
  have y: "four_digit_year 0" "four_digit_year 1800000"
    by (simp_all add: four_digit_year_def civil_def day_cycle_def DAY_MS_def Let_def)
  from system_alert_once_per_hour [OF inv e, of 1800000 "\<lambda>_. ''b''" 1800000] y e show ?thesis
    by (auto simp: sample_alert_def)
qed

end
