(* ===== verification/Bounded_Work.thy ===== *)
theory Bounded_Work
  imports Prelude
begin

text \<open>
  The worker pool of \<open>lib/async/bounded-work.ts\<close> as a step relation. A state holds the cursor,
  the \<open>stopStarting\<close> flag, what each runner is doing and the outcome array; the relation lets
  any runner move next, lets the stop condition hold or not whenever it is consulted, and lets a
  worker settle with any outcome it may have. Items are never \<open>undefined\<close>.
\<close>

datatype 'r settled = Fulfilled 'r | Rejected thrown | Skipped

datatype runner = Claiming | Working nat | Finished

record 'r pool =
  bw_cursor :: nat
  bw_stopStarting :: bool
  bw_runners :: "runner list"
  bw_results :: "'r settled list"

text \<open>\<open>stop\<close> is the value of \<open>signal?.aborted || shouldStop?.()\<close> when the runner asks.\<close>

definition claimNext :: "nat \<Rightarrow> bool \<Rightarrow> 'r pool \<Rightarrow> nat option \<times> 'r pool" where
  "claimNext n stop s =
    (if bw_stopStarting s then (None, s)
     else if stop then (None, s\<lparr>bw_stopStarting := True\<rparr>)
     else if bw_cursor s \<ge> n then (None, s)
     else (Some (bw_cursor s), s\<lparr>bw_cursor := bw_cursor s + 1\<rparr>))"

definition pool_start :: "nat \<Rightarrow> int \<Rightarrow> js_error + 'r pool" where
  "pool_start n concurrency =
    (if concurrency < 1 then Inl (RangeError ''Concurrency must be a positive integer'')
     else Inr \<lparr>bw_cursor = 0, bw_stopStarting = False,
               bw_runners = replicate (min (nat concurrency) n) Claiming,
               bw_results = replicate n Skipped\<rparr>)"

definition pool_done :: "'r pool \<Rightarrow> bool" where
  "pool_done s \<longleftrightarrow> list_all (\<lambda>r. r = Finished) (bw_runners s)"

inductive pool_step :: "nat \<Rightarrow> (nat \<Rightarrow> 'r settled \<Rightarrow> bool) \<Rightarrow> 'r pool \<Rightarrow> 'r pool \<Rightarrow> bool"
  for n worker where
  start_item:
    "i < length (bw_runners s) \<Longrightarrow> bw_runners s ! i = Claiming \<Longrightarrow>
     claimNext n stop s = (Some k, s') \<Longrightarrow>
     pool_step n worker s (s'\<lparr>bw_runners := (bw_runners s)[i := Working k]\<rparr>)"
| finish_runner:
    "i < length (bw_runners s) \<Longrightarrow> bw_runners s ! i = Claiming \<Longrightarrow>
     claimNext n stop s = (None, s') \<Longrightarrow>
     pool_step n worker s (s'\<lparr>bw_runners := (bw_runners s)[i := Finished]\<rparr>)"
| settle_item:
    "i < length (bw_runners s) \<Longrightarrow> bw_runners s ! i = Working k \<Longrightarrow>
     worker k outcome \<Longrightarrow> outcome \<noteq> Skipped \<Longrightarrow>
     pool_step n worker s
       (s\<lparr>bw_results := (bw_results s)[k := outcome], bw_runners := (bw_runners s)[i := Claiming]\<rparr>)"

inductive_cases pool_stepE: "pool_step n worker s s'"

text \<open>The invariant: exactly the items below the cursor were started, each by one runner.\<close>

definition pool_inv :: "nat \<Rightarrow> nat \<Rightarrow> (nat \<Rightarrow> 'r settled \<Rightarrow> bool) \<Rightarrow> 'r pool \<Rightarrow> bool" where
  "pool_inv n c worker s \<longleftrightarrow>
     length (bw_results s) = n \<and> length (bw_runners s) = c \<and> bw_cursor s \<le> n \<and>
     (\<forall>i < c. \<forall>k. bw_runners s ! i = Working k \<longrightarrow> k < bw_cursor s \<and> bw_results s ! k = Skipped) \<and>
     (\<forall>i < c. \<forall>j < c. \<forall>k. bw_runners s ! i = Working k \<longrightarrow> bw_runners s ! j = Working k \<longrightarrow> i = j) \<and>
     (\<forall>k < n. bw_cursor s \<le> k \<longrightarrow> bw_results s ! k = Skipped) \<and>
     (\<forall>k < bw_cursor s. bw_results s ! k = Skipped \<longrightarrow> (\<exists>i < c. bw_runners s ! i = Working k)) \<and>
     (\<forall>k < n. bw_results s ! k \<noteq> Skipped \<longrightarrow> worker k (bw_results s ! k)) \<and>
     (\<forall>i < c. bw_runners s ! i = Finished \<longrightarrow> bw_stopStarting s \<or> bw_cursor s = n)"

lemma pool_start_inv:
  "pool_start n concurrency = Inr s \<Longrightarrow> pool_inv n (min (nat concurrency) n) worker s"
  by (auto simp: pool_start_def pool_inv_def split: if_splits)

lemma claimNext_Some:
  "claimNext n stop s = (Some k, s') \<longleftrightarrow>
     \<not> bw_stopStarting s \<and> \<not> stop \<and> k = bw_cursor s \<and> k < n \<and> s' = s\<lparr>bw_cursor := Suc k\<rparr>"
  by (auto simp: claimNext_def)

lemma claimNext_None:
  "claimNext n stop s = (None, s') \<longleftrightarrow>
     (if bw_stopStarting s then s' = s else if stop then s' = s\<lparr>bw_stopStarting := True\<rparr>
      else bw_cursor s \<ge> n \<and> s' = s)"
  by (auto simp: claimNext_def)

lemma start_inv:
  assumes "pool_inv n c worker s" and "i < c" and "bw_runners s ! i = Claiming"
    and "bw_cursor s < n"
  shows "pool_inv n c worker (s\<lparr>bw_cursor := Suc (bw_cursor s), bw_runners := (bw_runners s)[i := Working (bw_cursor s)]\<rparr>)"
proof -
  note inv = assms(1) [unfolded pool_inv_def]
  have fresh: "bw_runners s ! j \<noteq> Working (bw_cursor s)" if "j < c" for j using inv that by blast
  have carry: "\<exists>j < c. (bw_runners s)[i := Working (bw_cursor s)] ! j = Working k"
    if "k < bw_cursor s" "bw_results s ! k = Skipped" for k
  proof -
    from inv that obtain j where j: "j < c" "bw_runners s ! j = Working k" by blast
    with assms(3) have "j \<noteq> i" by auto
    with j inv show ?thesis by (intro exI [of _ j]) simp
  qed
  have here: "\<exists>j < c. (bw_runners s)[i := Working (bw_cursor s)] ! j = Working (bw_cursor s)"
    using assms(2) inv by (intro exI [of _ i]) simp
  show ?thesis
    unfolding pool_inv_def
    using inv assms(2-4) fresh carry here
    by (auto simp: nth_list_update less_Suc_eq split: if_splits)
qed

lemma finish_inv:
  assumes "pool_inv n c worker s" and "i < c" and "bw_runners s ! i = Claiming"
    and "stopped = bw_stopStarting s \<or> stopped = True" and "stopped \<or> bw_cursor s = n"
  shows "pool_inv n c worker (s\<lparr>bw_stopStarting := stopped, bw_runners := (bw_runners s)[i := Finished]\<rparr>)"
proof -
  note inv = assms(1) [unfolded pool_inv_def]
  have carry: "\<exists>j < c. (bw_runners s)[i := Finished] ! j = Working k"
    if "k < bw_cursor s" "bw_results s ! k = Skipped" for k
  proof -
    from inv that obtain j where j: "j < c" "bw_runners s ! j = Working k" by blast
    with assms(3) have "j \<noteq> i" by auto
    with j inv show ?thesis by (intro exI [of _ j]) simp
  qed
  show ?thesis
    unfolding pool_inv_def
    using inv assms(2-5) carry by (auto simp: nth_list_update split: if_splits)
qed

lemma settle_inv:
  assumes "pool_inv n c worker s" and "i < c" and "bw_runners s ! i = Working k"
    and "worker k outcome" and "outcome \<noteq> Skipped"
  shows "pool_inv n c worker (s\<lparr>bw_results := (bw_results s)[k := outcome], bw_runners := (bw_runners s)[i := Claiming]\<rparr>)"
proof -
  note inv = assms(1) [unfolded pool_inv_def]
  have k: "k < bw_cursor s" "k < n" using inv assms(2,3) by (blast, fastforce)
  have others: "j \<noteq> i \<Longrightarrow> j < c \<Longrightarrow> bw_runners s ! j = Working k' \<Longrightarrow> k' \<noteq> k" for j k'
    using inv assms(2,3) by blast
  have carry: "\<exists>j < c. (bw_runners s)[i := Claiming] ! j = Working k'"
    if "k' < bw_cursor s" "bw_results s ! k' = Skipped" "k' \<noteq> k" for k'
  proof -
    from inv that obtain j where j: "j < c" "bw_runners s ! j = Working k'" by blast
    with assms(3) that(3) have "j \<noteq> i" by auto
    with j inv show ?thesis by (intro exI [of _ j]) simp
  qed
  show ?thesis
    unfolding pool_inv_def
    using inv assms(2-5) k others carry by (auto simp: nth_list_update split: if_splits)
qed

lemma pool_step_inv:
  assumes "pool_step n worker s s'" and "pool_inv n c worker s"
  shows "pool_inv n c worker s'"
proof -
  have len: "length (bw_runners s) = c" and le: "bw_cursor s \<le> n" using assms(2) by (simp_all add: pool_inv_def)
  show ?thesis
    using assms(1)
  proof (rule pool_stepE)
    fix i stop k s1
    assume "i < length (bw_runners s)" "bw_runners s ! i = Claiming" "claimNext n stop s = (Some k, s1)"
      "s' = s1\<lparr>bw_runners := (bw_runners s)[i := Working k]\<rparr>"
    then show ?thesis using start_inv [OF assms(2), of i] len by (simp add: claimNext_Some)
  next
    fix i stop s1
    assume "i < length (bw_runners s)" "bw_runners s ! i = Claiming" "claimNext n stop s = (None, s1)"
      "s' = s1\<lparr>bw_runners := (bw_runners s)[i := Finished]\<rparr>"
    then show ?thesis
      using finish_inv [OF assms(2), of i "bw_stopStarting s"] finish_inv [OF assms(2), of i True] len le
      by (auto simp: claimNext_None split: if_splits)
  next
    fix i k outcome
    assume "i < length (bw_runners s)" "bw_runners s ! i = Working k" "worker k outcome" "outcome \<noteq> Skipped"
      "s' = s\<lparr>bw_results := (bw_results s)[k := outcome], bw_runners := (bw_runners s)[i := Claiming]\<rparr>"
    then show ?thesis using settle_inv [OF assms(2)] len by simp
  qed
qed

lemma pool_reachable_inv:
  "(pool_step n worker)\<^sup>*\<^sup>* s s' \<Longrightarrow> pool_inv n c worker s \<Longrightarrow> pool_inv n c worker s'"
  by (induction rule: rtranclp_induct) (auto intro: pool_step_inv)

subsection \<open>Termination\<close>

fun runner_weight :: "runner \<Rightarrow> nat" where
  "runner_weight Claiming = 1"
| "runner_weight (Working _) = 2"
| "runner_weight Finished = 0"

definition pool_measure :: "nat \<Rightarrow> 'r pool \<Rightarrow> nat" where
  "pool_measure n s = 2 * (n - bw_cursor s) + sum_list (map runner_weight (bw_runners s))"

lemma weight_update:
  assumes "i < length rs"
  shows "sum_list (map runner_weight (rs[i := r])) + runner_weight (rs ! i) =
         sum_list (map runner_weight rs) + runner_weight r"
  using assms
proof (induction rs arbitrary: i)
  case Nil
  then show ?case by simp
next
  case (Cons x rs)
  then show ?case by (cases i) auto
qed

lemma pool_step_measure: "pool_step n worker s s' \<Longrightarrow> pool_measure n s' < pool_measure n s"
proof (erule pool_stepE)
  fix i stop k s1
  assume "i < length (bw_runners s)" "bw_runners s ! i = Claiming" "claimNext n stop s = (Some k, s1)"
    "s' = s1\<lparr>bw_runners := (bw_runners s)[i := Working k]\<rparr>"
  then show ?thesis using weight_update [of i "bw_runners s" "Working k"]
    by (auto simp: pool_measure_def claimNext_Some)
next
  fix i stop s1
  assume "i < length (bw_runners s)" "bw_runners s ! i = Claiming" "claimNext n stop s = (None, s1)"
    "s' = s1\<lparr>bw_runners := (bw_runners s)[i := Finished]\<rparr>"
  then show ?thesis using weight_update [of i "bw_runners s" Finished]
    by (auto simp: pool_measure_def claimNext_None split: if_splits)
next
  fix i k outcome
  assume "i < length (bw_runners s)" "bw_runners s ! i = Working k"
    "s' = s\<lparr>bw_results := (bw_results s)[k := outcome], bw_runners := (bw_runners s)[i := Claiming]\<rparr>"
  then show ?thesis using weight_update [of i "bw_runners s" Claiming]
    by (auto simp: pool_measure_def)
qed

lemma pool_run_length:
  "(pool_step n worker ^^ m) s s' \<Longrightarrow> m + pool_measure n s' \<le> pool_measure n s"
proof (induction m arbitrary: s')
  case 0
  then show ?case by simp
next
  case (Suc m)
  then obtain s1 where "(pool_step n worker ^^ m) s s1" "pool_step n worker s1 s'" by auto
  with Suc.IH [of s1] pool_step_measure [of n worker s1 s'] show ?case by simp
qed

lemma pool_progress:
  assumes "\<not> pool_done s" and "\<And>k. \<exists>outcome. worker k outcome \<and> outcome \<noteq> Skipped"
  shows "\<exists>s'. pool_step n worker s s'"
proof -
  from assms(1) obtain i where i: "i < length (bw_runners s)" "bw_runners s ! i \<noteq> Finished"
    by (auto simp: pool_done_def list_all_length)
  show ?thesis
  proof (cases "bw_runners s ! i")
    case Claiming
    obtain r s1 where "claimNext n False s = (r, s1)" by fastforce
    with i(1) Claiming show ?thesis by (cases r) (blast intro: pool_step.intros)+
  next
    case (Working k)
    with i(1) assms(2) [of k] show ?thesis by (blast intro: pool_step.intros)
  next
    case Finished
    with i(2) show ?thesis by simp
  qed
qed

text \<open>What the outcome array looks like when the pool is done: a settled prefix.\<close>

definition settled_prefix :: "(nat \<Rightarrow> 'r settled \<Rightarrow> bool) \<Rightarrow> nat \<Rightarrow> 'r settled list \<Rightarrow> bool" where
  "settled_prefix worker started results \<longleftrightarrow> started \<le> length results \<and>
     (\<forall>k < started. results ! k \<noteq> Skipped \<and> worker k (results ! k)) \<and>
     (\<forall>k. started \<le> k \<and> k < length results \<longrightarrow> results ! k = Skipped)"

lemma pool_done_shape:
  assumes "pool_inv n c worker s" and "pool_done s" and "n = 0 \<or> 0 < c"
  shows "settled_prefix worker (bw_cursor s) (bw_results s) \<and> (bw_stopStarting s \<or> bw_cursor s = n)"
proof -
  note inv = assms(1) [unfolded pool_inv_def]
  have fin: "bw_runners s ! i = Finished" if "i < c" for i
    using assms(2) inv that by (auto simp: pool_done_def list_all_length)
  have settled: "bw_results s ! k \<noteq> Skipped" if "k < bw_cursor s" for k
  proof
    assume "bw_results s ! k = Skipped"
    with inv that obtain i where "i < c" "bw_runners s ! i = Working k" by blast
    with fin show False by simp
  qed
  have "worker k (bw_results s ! k)" if "k < bw_cursor s" for k
    using inv settled [OF that] that by simp
  with inv settled have "settled_prefix worker (bw_cursor s) (bw_results s)"
    by (simp add: settled_prefix_def)
  moreover have "bw_stopStarting s \<or> bw_cursor s = n"
  proof (cases "n = 0")
    case True
    with inv show ?thesis by simp
  next
    case False
    with assms(3) have "0 < c" by simp
    with fin inv show ?thesis by blast
  qed
  ultimately show ?thesis by simp
qed

subsection \<open>Properties\<close>

text \<open>C35. The pool always settles: every execution over n items with c runners takes at most
  2n + c moves of its runners, none of which is ever stuck while work is left; when it is over the
  outcomes are those of the workers for a prefix of the items, each started once, and \<open>skipped\<close> for
  the rest, and the prefix is everything unless starting was stopped. At no time do more than
  \<open>concurrency\<close> workers run.\<close>

theorem bounded_work_settles:
  assumes "pool_start n concurrency = Inr s" and "(pool_step n worker ^^ m) s s'"
    and "\<And>k. \<exists>outcome. worker k outcome \<and> outcome \<noteq> Skipped"
  shows "m \<le> 2 * n + min (nat concurrency) n \<and>
         (pool_done s' \<or> (\<exists>s''. pool_step n worker s' s'')) \<and>
         (pool_done s' \<longrightarrow> settled_prefix worker (bw_cursor s') (bw_results s') \<and> length (bw_results s') = n \<and>
            (bw_stopStarting s' \<or> bw_cursor s' = n)) \<and>
         length (filter (\<lambda>r. \<exists>k. r = Working k) (bw_runners s')) \<le> nat concurrency"
proof -
  let ?c = "min (nat concurrency) n"
  have pos: "0 < concurrency" using assms(1) by (auto simp: pool_start_def split: if_splits)
  have "pool_inv n ?c worker s'"
    using pool_reachable_inv [OF relpowp_imp_rtranclp [OF assms(2)] pool_start_inv [OF assms(1)]] .
  moreover have "pool_measure n s = 2 * n + ?c"
    using assms(1) by (auto simp: pool_start_def pool_measure_def sum_list_replicate split: if_splits)
  then have "m \<le> 2 * n + ?c" using pool_run_length [OF assms(2)] by simp
  moreover have "length (filter (\<lambda>r. \<exists>k. r = Working k) (bw_runners s')) \<le> nat concurrency"
    if "length (bw_runners s') = ?c"
    using length_filter_le [of "\<lambda>r. \<exists>k. r = Working k" "bw_runners s'"] that by linarith
  moreover have "pool_done s' \<or> (\<exists>s''. pool_step n worker s' s'')"
    using pool_progress [of s' worker n] assms(3) by blast
  moreover have "n = 0 \<or> 0 < ?c" using pos by auto
  ultimately show ?thesis
    using pool_done_shape [of n ?c worker s'] by (simp add: pool_inv_def)
qed

theorem bounded_work_settles_witness:
  "\<exists>s s'. pool_start 1 2 = Inr s \<and> (pool_step 1 (\<lambda>_ r. r = Fulfilled True) ^^ 3) s s' \<and> pool_done s' \<and>
     bw_results s' = [Fulfilled True] \<and> settled_prefix (\<lambda>_ r. r = Fulfilled True) 1 (bw_results s')"
proof -
  let ?w = "\<lambda>_ r. r = Fulfilled True"
  let ?s0 = "\<lparr>bw_cursor = 0, bw_stopStarting = False, bw_runners = [Claiming], bw_results = [Skipped]\<rparr>"
  let ?s1 = "\<lparr>bw_cursor = 1, bw_stopStarting = False, bw_runners = [Working 0], bw_results = [Skipped]\<rparr>"
  let ?s2 = "\<lparr>bw_cursor = 1, bw_stopStarting = False, bw_runners = [Claiming], bw_results = [Fulfilled True]\<rparr>"
  let ?s3 = "\<lparr>bw_cursor = 1, bw_stopStarting = False, bw_runners = [Finished], bw_results = [Fulfilled True]\<rparr>"
  have start: "pool_start 1 2 = Inr ?s0" by (simp add: pool_start_def)
  have "pool_step 1 ?w ?s0 ?s1"
    using start_item [of 0 ?s0 1 False 0 "?s0\<lparr>bw_cursor := 1\<rparr>" ?w] by (simp add: claimNext_def)
  moreover have "pool_step 1 ?w ?s1 ?s2"
    using settle_item [of 0 ?s1 0 ?w "Fulfilled True" 1] by simp
  moreover have "pool_step 1 ?w ?s2 ?s3"
    using finish_runner [of 0 ?s2 1 False ?s2 ?w] by (simp add: claimNext_def)
  ultimately have run: "(pool_step 1 ?w ^^ 3) ?s0 ?s3"
    by (auto simp: numeral_3_eq_3 intro!: relcomppI)
  have "pool_done ?s3" by (simp add: pool_done_def)
  with bounded_work_settles [OF start run] have "settled_prefix ?w 1 (bw_results ?s3)" by auto
  with start run \<open>pool_done ?s3\<close> show ?thesis
    by (intro exI [of _ ?s0] exI [of _ ?s3] conjI) simp_all
qed

end
