(* ===== verification/Delivery.thy ===== *)
theory Delivery
  imports Outbox Bounded_Work
begin

text \<open>
  One delivery pass over the outbox (\<open>lib/notifications/delivery.ts\<close>): claim a batch, send every
  row through the worker pool, record each outcome, release what was not started and report. The
  provider, the clock and the state of the database connection are the environment: a record of
  what each call returns. The log lines of a row, which only repeat its fields, are not modelled.
\<close>

subsection \<open>One claimed row\<close>

definition MAX_DELIVERY_ATTEMPTS :: int where
  "MAX_DELIVERY_ATTEMPTS = 5"

definition MAX_CLAIM_BATCH_SIZE :: int where
  "MAX_CLAIM_BATCH_SIZE = 100"

definition MAX_SEND_CONCURRENCY :: int where
  "MAX_SEND_CONCURRENCY = 10"

definition DEFAULT_NOTIFICATION_SEND_TIMEOUT_MS :: int where
  "DEFAULT_NOTIFICATION_SEND_TIMEOUT_MS = 8000"

definition DEFAULT_NOTIFICATION_DRAIN_TIMEOUT_MS :: int where
  "DEFAULT_NOTIFICATION_DRAIN_TIMEOUT_MS = 15000"

definition NOTIFICATION_CLAIM_RELEASE_RESERVE_MS :: int where
  "NOTIFICATION_CLAIM_RELEASE_RESERVE_MS = 1000"

definition RETRY_DELAYS_MS :: "int list" where
  "RETRY_DELAYS_MS = [60000, 5 * 60000, 30 * 60000, 2 * 60 * 60000]"

definition retryAt :: "instant \<Rightarrow> int \<Rightarrow> instant" where
  "retryAt now attemptCount =
    (let index = max 0 (min (attemptCount - 1) (int (length RETRY_DELAYS_MS) - 1))
     in now + RETRY_DELAYS_MS ! nat index)"

record delivery_summary =
  ds_claimed :: int
  ds_sent :: int
  ds_failed :: int
  ds_dead :: int
  ds_lostClaims :: int

datatype row_outcome = O_sent | O_failed | O_dead | O_lost_claim

fun safeFailure :: "send_error \<Rightarrow> string \<times> bool" where
  "safeFailure (NotificationProviderError code retryable) = (code, retryable)"
| "safeFailure InvalidNotificationPayloadError = (''INVALID_PAYLOAD'', False)"
| "safeFailure OtherSendError = (''PROVIDER_UNAVAILABLE'', True)"

record delivery_deps =
  dd_isUrl :: "string \<Rightarrow> bool"
  dd_parsesAsUrl :: "string \<Rightarrow> bool"
  dd_appUrl :: string

record send_deadline =
  sd_atMs :: int
  sd_bookkeepingAtMs :: int
  sd_perSendTimeoutMs :: int

text \<open>The environment of one row: the clock before sending, what the provider answers to a message
  and an idempotency key, whether the abort timer had fired when it threw, and the bookkeeping
  statement.\<close>

record row_env =
  re_nowMs :: int
  re_send :: "notification_message \<Rightarrow> string \<Rightarrow> send_error + string"
  re_aborted :: bool
  re_sql :: sql_env

definition attemptSend ::
  "delivery_deps \<Rightarrow> send_deadline \<Rightarrow> row_env \<Rightarrow> claimed_notification \<Rightarrow> send_error + string" where
  "attemptSend deps deadline env row =
     res_bind (createNotificationMessage (dd_isUrl deps) (dd_parsesAsUrl deps) (dd_appUrl deps)
                 (cn_eventType row) (cn_recipient row) (cn_payload row)) (\<lambda>message.
       (let remainingMs = min (sd_perSendTimeoutMs deadline) (sd_atMs deadline - re_nowMs env)
        in if remainingMs \<le> 0 then Inl (NotificationProviderError ''delivery_timeout'' True)
           else (case re_send env message (cn_idempotencyKey row) of
               Inl e \<Rightarrow> Inl (if re_aborted env then NotificationProviderError ''delivery_timeout'' True else e)
             | Inr providerMessageId \<Rightarrow> Inr providerMessageId)))"

definition bookkeep ::
  "row_outcome \<Rightarrow> (thrown + bool) \<times> outbox_row list \<Rightarrow> (thrown + row_outcome) \<times> outbox_row list" where
  "bookkeep outcome r = (case r of
      (Inl e, t) \<Rightarrow> (if isStatementTimeout e then Inr O_lost_claim else Inl e, t)
    | (Inr persisted, t) \<Rightarrow> (Inr (if persisted then outcome else O_lost_claim), t))"

definition deliverClaimedRow ::
  "delivery_deps \<Rightarrow> instant \<Rightarrow> send_deadline \<Rightarrow> row_env \<Rightarrow> claimed_notification \<Rightarrow> outbox_row list \<Rightarrow>
   (thrown + row_outcome) \<times> outbox_row list" where
  "deliverClaimedRow deps now deadline env row t =
    (case attemptSend deps deadline env row of
       Inl error \<Rightarrow>
         (let (code, retryable) = safeFailure error;
              dead = (\<not> retryable \<or> cn_attemptCount row \<ge> MAX_DELIVERY_ATTEMPTS)
          in bookkeep (if dead then O_dead else O_failed)
               (markNotificationFailed (re_sql env) (cn_id row) (cn_claimToken row) dead
                  (retryAt now (cn_attemptCount row)) code now (Some (sd_bookkeepingAtMs deadline)) t))
     | Inr providerMessageId \<Rightarrow>
         bookkeep O_sent
           (markNotificationSent (re_sql env) (cn_id row) (cn_claimToken row) providerMessageId now
              (Some (sd_bookkeepingAtMs deadline)) t))"

subsection \<open>The pass\<close>

text \<open>
  The pool settles rows in an order of its own while other transactions use the table: an event
  is a row that settles or an outbox statement from elsewhere (one that raises changes nothing).
  A row settles at most once; the rows never settled are the ones the pool skipped.
\<close>

datatype pool_event = Settle nat row_env | Elsewhere outbox_op

definition outcome_of :: "thrown + row_outcome \<Rightarrow> row_outcome settled" where
  "outcome_of r = (case r of Inl e \<Rightarrow> Rejected e | Inr v \<Rightarrow> Fulfilled v)"

fun run_pool ::
  "(row_env \<Rightarrow> claimed_notification \<Rightarrow> outbox_row list \<Rightarrow> (thrown + row_outcome) \<times> outbox_row list) \<Rightarrow>
   claimed_notification list \<Rightarrow> pool_event list \<Rightarrow> row_outcome settled list \<times> outbox_row list \<Rightarrow>
   row_outcome settled list \<times> outbox_row list" where
  "run_pool worker rows [] s = s"
| "run_pool worker rows (Settle k env # es) (rs, t) =
     (if k < length rows \<and> rs ! k = Skipped then
        (let (r, t') = worker env (rows ! k) t in run_pool worker rows es (rs[k := outcome_of r], t'))
      else run_pool worker rows es (rs, t))"
| "run_pool worker rows (Elsewhere op # es) (rs, t) =
     run_pool worker rows es (rs, (case outbox_step t op of Inl _ \<Rightarrow> t | Inr t' \<Rightarrow> t'))"

fun applyRowOutcome :: "delivery_summary \<Rightarrow> row_outcome \<Rightarrow> delivery_summary" where
  "applyRowOutcome s O_sent = s\<lparr>ds_sent := ds_sent s + 1\<rparr>"
| "applyRowOutcome s O_failed = s\<lparr>ds_failed := ds_failed s + 1\<rparr>"
| "applyRowOutcome s O_dead = s\<lparr>ds_dead := ds_dead s + 1\<rparr>"
| "applyRowOutcome s O_lost_claim = s\<lparr>ds_lostClaims := ds_lostClaims s + 1\<rparr>"

text \<open>The loop over the outcomes: the summary, the ids whose bookkeeping raised, the skipped rows.\<close>

fun collect ::
  "(row_outcome settled \<times> claimed_notification) list \<Rightarrow> delivery_summary \<Rightarrow>
   delivery_summary \<times> string list \<times> claimed_notification list" where
  "collect [] s = (s, [], [])"
| "collect ((Fulfilled v, row) # rest) s = collect rest (applyRowOutcome s v)"
| "collect ((Rejected e, row) # rest) s =
     (let (s', failedIds, skippedRows) = collect rest s in (s', cn_id row # failedIds, skippedRows))"
| "collect ((Skipped, row) # rest) s =
     (let (s', failedIds, skippedRows) = collect rest s in (s', failedIds, row # skippedRows))"

record delivery_options =
  do_limit :: "int option"
  do_concurrency :: "int option"
  do_perSendTimeoutMs :: "int option"
  do_deadlineAtMs :: "int option"
  do_eventTypes :: "notification_event list option"

record delivery_env =
  de_nowMs_default :: int
  de_nowMs_check :: int
  de_now :: instant
  de_claimToken :: string
  de_locked :: "string \<Rightarrow> bool"
  de_claim_sql :: sql_env
  de_nowMs_pool :: int
  de_events :: "pool_event list"
  de_release_sql :: sql_env

datatype delivery_error =
    Delivery_error thrown
  | NotificationDeliveryInfrastructureError "string list" delivery_summary

definition no_delivery :: delivery_summary where
  "no_delivery = \<lparr>ds_claimed = 0, ds_sent = 0, ds_failed = 0, ds_dead = 0, ds_lostClaims = 0\<rparr>"

definition releaseSkipped ::
  "sql_env \<Rightarrow> instant \<Rightarrow> int \<Rightarrow> claimed_notification list \<Rightarrow> delivery_summary \<Rightarrow> string list \<Rightarrow>
   outbox_row list \<Rightarrow> delivery_summary \<times> string list \<times> outbox_row list" where
  "releaseSkipped env now deadlineAtMs skippedRows summary failedIds t =
    (if skippedRows = [] then (summary, failedIds, t)
     else (case releaseNotificationClaims env
                  (map (\<lambda>row. (cn_id row, cn_claimToken row)) skippedRows) now (Some deadlineAtMs) t of
         (Inr released, t') \<Rightarrow>
           (summary\<lparr>ds_lostClaims := ds_lostClaims summary + (int (length skippedRows) - released)\<rparr>,
            failedIds, t')
       | (Inl error, t') \<Rightarrow>
           if isStatementTimeout error then
             (summary\<lparr>ds_lostClaims := ds_lostClaims summary + int (length skippedRows)\<rparr>, failedIds, t')
           else (summary, failedIds @ map cn_id skippedRows, t')))"

definition deliver_claimed ::
  "delivery_deps \<Rightarrow> delivery_env \<Rightarrow> int \<Rightarrow> int \<Rightarrow> claimed_notification list \<Rightarrow> outbox_row list \<Rightarrow>
   (delivery_error + delivery_summary) \<times> outbox_row list" where
  "deliver_claimed deps env perSendTimeoutMs deadlineAtMs rows t =
    (let sendDeadlineAtMs = max (de_nowMs_pool env) (deadlineAtMs - NOTIFICATION_CLAIM_RELEASE_RESERVE_MS);
         deadline = \<lparr>sd_atMs = sendDeadlineAtMs, sd_bookkeepingAtMs = deadlineAtMs,
                     sd_perSendTimeoutMs = perSendTimeoutMs\<rparr>;
         (outcomes, t1) = run_pool (deliverClaimedRow deps (de_now env) deadline) rows (de_events env)
                            (replicate (length rows) Skipped, t);
         (summary, failedIds, skippedRows) =
           collect (zip outcomes rows) (no_delivery\<lparr>ds_claimed := int (length rows)\<rparr>);
         (summary, failedIds, t2) =
           releaseSkipped (de_release_sql env) (de_now env) deadlineAtMs skippedRows summary failedIds t1
     in (if failedIds \<noteq> [] then Inl (NotificationDeliveryInfrastructureError failedIds summary)
         else Inr summary, t2))"

definition deliverPendingNotifications ::
  "delivery_deps \<Rightarrow> delivery_options \<Rightarrow> delivery_env \<Rightarrow> outbox_row list \<Rightarrow>
   (delivery_error + delivery_summary) \<times> outbox_row list" where
  "deliverPendingNotifications deps options env t =
    (let limit = or_else (do_limit options) 50;
         concurrency = or_else (do_concurrency options) 5;
         perSendTimeoutMs = or_else (do_perSendTimeoutMs options) DEFAULT_NOTIFICATION_SEND_TIMEOUT_MS;
         deadlineAtMs = or_else (do_deadlineAtMs options)
                          (de_nowMs_default env + DEFAULT_NOTIFICATION_DRAIN_TIMEOUT_MS)
     in if limit < 1 \<or> limit > MAX_CLAIM_BATCH_SIZE then
          (Inl (Delivery_error (range_error ''Delivery limit must be between 1 and 100'')), t)
        else if concurrency < 1 \<or> concurrency > MAX_SEND_CONCURRENCY then
          (Inl (Delivery_error (range_error ''Delivery concurrency must be between 1 and 10'')), t)
        else if perSendTimeoutMs \<le> 0 then
          (Inl (Delivery_error (range_error ''Delivery send timeout must be positive'')), t)
        else if deadlineAtMs \<le> de_nowMs_check env then (Inr no_delivery, t)
        else
          (case claimNotifications (de_locked env) (de_claim_sql env) (de_now env) limit
                  (de_claimToken env) (do_eventTypes options) (Some deadlineAtMs) t of
             (Inl error, t1) \<Rightarrow>
               (if isStatementTimeout error then Inr no_delivery else Inl (Delivery_error error), t1)
           | (Inr rows, t1) \<Rightarrow> deliver_claimed deps env perSendTimeoutMs deadlineAtMs rows t1))"

subsection \<open>Every claimed row is accounted for\<close>

definition reported :: "delivery_summary \<Rightarrow> int" where
  "reported s = ds_sent s + ds_failed s + ds_dead s + ds_lostClaims s"

definition summary_nonneg :: "delivery_summary \<Rightarrow> bool" where
  "summary_nonneg s \<longleftrightarrow> ds_sent s \<ge> 0 \<and> ds_failed s \<ge> 0 \<and> ds_dead s \<ge> 0 \<and> ds_lostClaims s \<ge> 0"

lemma applyRowOutcome_simps [simp]:
  "ds_claimed (applyRowOutcome s v) = ds_claimed s"
  "reported (applyRowOutcome s v) = reported s + 1"
  "summary_nonneg s \<Longrightarrow> summary_nonneg (applyRowOutcome s v)"
  by (cases v; simp add: reported_def summary_nonneg_def)+

lemma collect_accounts:
  "collect ps s = (s', failedIds, skippedRows) \<Longrightarrow>
     ds_claimed s' = ds_claimed s \<and> (summary_nonneg s \<longrightarrow> summary_nonneg s') \<and>
     reported s' + int (length failedIds) + int (length skippedRows) = reported s + int (length ps) \<and>
     skippedRows = map snd (filter (\<lambda>p. fst p = Skipped) ps)"
proof (induction ps s arbitrary: s' failedIds skippedRows rule: collect.induct)
  case (1 s)
  then show ?case by simp
next
  case (2 v row rest s)
  then show ?case by auto
next
  case (3 e row rest s)
  obtain s1 ids sk where c: "collect rest s = (s1, ids, sk)" by (cases "collect rest s")
  with "3.prems" have "s' = s1" "failedIds = cn_id row # ids" "skippedRows = sk" by simp_all
  with "3.IH" [OF c] show ?case by auto
next
  case (4 row rest s)
  obtain s1 ids sk where c: "collect rest s = (s1, ids, sk)" by (cases "collect rest s")
  with "4.prems" have "s' = s1" "failedIds = ids" "skippedRows = row # sk" by simp_all
  with "4.IH" [OF c] show ?case by auto
qed

text \<open>No statement of the outbox duplicates an id.\<close>

lemma is_update_ids:
  "is_update p f t t' \<Longrightarrow> (\<And>r. ob_id (f r) = ob_id r) \<Longrightarrow> map ob_id t' = map ob_id t"
  by (auto simp: is_update_def table_simps)

lemma mark_ids:
  "map ob_id (snd (markNotificationSent env i token m now d t)) = map ob_id t"
  "map ob_id (snd (markNotificationFailed env i token dead next e now d t)) = map ob_id t"
  unfolding markNotificationSent_def markNotificationFailed_def snd_one_row
  by (rule is_update_ids [OF withDeadline_update], simp add: update_keys)+

lemma outbox_step_ids:
  assumes "outbox_step t op = Inr t'" and "distinct (map ob_id t)"
  shows "distinct (map ob_id t')"
proof (cases op)
  case (Ob_insert rows)
  with assms(1) show ?thesis by (auto simp: insert_outbox_def res_bind_Inr_iff split: if_splits prod.splits)
next
  case (Ob_claim locked env now limit token scope deadline)
  with assms is_update_ids [OF claim_update, of now token] show ?thesis by (auto simp: update_keys)
next
  case (Ob_sent env i token message now deadline)
  with assms show ?thesis by (auto simp: mark_ids)
next
  case (Ob_failed env i token dead nxt error now deadline)
  with assms show ?thesis by (auto simp: mark_ids)
next
  case (Ob_release env claimed now deadline)
  with assms is_update_ids [OF release_update, of now] show ?thesis by (auto simp: update_keys)
next
  case (Ob_reconcile env now stale scope)
  with assms is_update_ids [OF reconcile_update] show ?thesis by (auto simp: update_keys)
qed

lemma snd_bookkeep [simp]: "snd (bookkeep v r) = snd r"
  by (cases r; cases "fst r") (auto simp: bookkeep_def)

lemma deliver_row_ids: "map ob_id (snd (deliverClaimedRow deps now deadline env row t)) = map ob_id t"
  by (simp add: deliverClaimedRow_def mark_ids Let_def split: sum.split prod.split)

lemma run_pool_ids:
  "(\<And>env row t. map ob_id (snd (worker env row t)) = map ob_id t) \<Longrightarrow>
   run_pool worker rows es s = s' \<Longrightarrow> distinct (map ob_id (snd s)) \<Longrightarrow>
     distinct (map ob_id (snd s')) \<and> length (fst s') = length (fst s)"
proof (induction worker rows es s arbitrary: s' rule: run_pool.induct)
  case (1 worker rows s)
  then show ?case by simp
next
  case (2 worker rows k env es rs t)
  obtain r t1 where w: "worker env (rows ! k) t = (r, t1)" by fastforce
  with "2.prems"(1) [of env "rows ! k" t] "2.prems"(3) have "distinct (map ob_id t1)" by simp
  with 2 w show ?case by (auto split: if_splits)
next
  case (3 worker rows op es rs t)
  then show ?case by (auto split: sum.splits dest: outbox_step_ids)
qed

lemma release_count:
  assumes "releaseNotificationClaims env claimed now d t = (Inr n, t')" and "distinct (map ob_id t)"
  shows "0 \<le> n \<and> n \<le> int (length claimed)"
proof (cases claimed)
  case Nil
  with assms(1) show ?thesis by (simp add: releaseNotificationClaims_def)
next
  case (Cons c rest)
  let ?p = "\<lambda>r. held (ob_id r) (snd c) r \<and> ob_id r \<in> set (map fst claimed)"
  have "n = int (length (filter ?p t))"
    using assms(1) Cons
    by (cases c)
      (auto simp: releaseNotificationClaims_def withDeadline_def run_statement_def update_returning_def
        sql_returning_def Let_def split: if_splits option.splits)
  moreover have "distinct (map ob_id (filter ?p t))" using assms(2) by (rule distinct_map_filter)
  then have "length (map ob_id (filter ?p t)) = card (set (map ob_id (filter ?p t)))"
    by (simp only: distinct_card)
  moreover have "card (set (map ob_id (filter ?p t))) \<le> card (set (map fst claimed))"
    by (rule card_mono) auto
  moreover have "card (set (map fst claimed)) \<le> length claimed"
    using card_length [of "map fst claimed"] by simp
  ultimately show ?thesis by simp
qed

lemma releaseSkipped_accounts:
  assumes "releaseSkipped env now d skipped s ids t = (s', ids', t')" and "distinct (map ob_id t)"
    and "summary_nonneg s"
  shows "summary_nonneg s' \<and> ds_claimed s' = ds_claimed s \<and>
     reported s' + int (length ids') \<le> reported s + int (length ids) + int (length skipped) \<and>
     (skipped = [] \<longrightarrow> s' = s \<and> ids' = ids)"
proof (cases "skipped = []")
  case True
  with assms show ?thesis by (simp add: releaseSkipped_def)
next
  case False
  obtain r u where c: "releaseNotificationClaims env (map (\<lambda>row. (cn_id row, cn_claimToken row)) skipped)
      now (Some d) t = (r, u)" by fastforce
  show ?thesis
  proof (cases r)
    case (Inl e)
    with False assms(1,3) c show ?thesis
      by (auto simp: releaseSkipped_def summary_nonneg_def reported_def split: if_splits)
  next
    case (Inr n)
    with release_count [OF c [unfolded Inr] assms(2)] False assms(1,3) c show ?thesis
      by (auto simp: releaseSkipped_def summary_nonneg_def reported_def)
  qed
qed

lemma run_pool_settled:
  "run_pool worker rows es s = s' \<Longrightarrow> length (fst s) = length rows \<Longrightarrow> k < length rows \<Longrightarrow>
     fst s ! k \<noteq> Skipped \<or> (\<exists>e. Settle k e \<in> set es) \<Longrightarrow> fst s' ! k \<noteq> Skipped"
proof (induction worker rows es s arbitrary: s' rule: run_pool.induct)
  case (1 worker rows s)
  then show ?case by simp
next
  case (2 worker rows j env es rs t)
  obtain r t1 where w: "worker env (rows ! j) t = (r, t1)" by fastforce
  have o: "outcome_of r \<noteq> Skipped" by (simp add: outcome_of_def split: sum.split)
  show ?case
  proof (cases "j < length rows \<and> rs ! j = Skipped")
    case True
    then have "run_pool worker rows es (rs[j := outcome_of r], t1) = s'" using "2.prems"(1) w by simp
    moreover have "rs[j := outcome_of r] ! k \<noteq> Skipped \<or> (\<exists>e. Settle k e \<in> set es)"
      using "2.prems" o True by (cases "j = k") auto
    ultimately show ?thesis using "2.IH"(1) [OF True w [symmetric] refl] "2.prems" by simp
  next
    case False
    then have "run_pool worker rows es (rs, t) = s'"
      using "2.prems"(1) unfolding run_pool.simps(2) if_not_P [OF False] by simp
    moreover have "rs ! k \<noteq> Skipped \<or> (\<exists>e. Settle k e \<in> set es)"
      using "2.prems" False by auto
    ultimately show ?thesis using "2.IH"(2) [OF False] "2.prems" by simp
  qed
next
  case (3 worker rows op es rs t)
  then show ?case by auto
qed

lemma deliver_claimed_accounts:
  assumes "distinct (map ob_id t)"
    and "fst (deliver_claimed deps env perSend deadlineAtMs rows t) = result"
    and "result = Inr s \<and> ids = [] \<or> result = Inl (NotificationDeliveryInfrastructureError ids s)"
  shows "summary_nonneg s \<and> ds_claimed s = int (length rows) \<and>
     reported s + int (length ids) \<le> int (length rows) \<and>
     ((\<forall>k < length rows. \<exists>e. Settle k e \<in> set (de_events env)) \<longrightarrow>
        reported s + int (length ids) = int (length rows))"
proof -
  define dl where "dl = \<lparr>sd_atMs = max (de_nowMs_pool env) (deadlineAtMs - NOTIFICATION_CLAIM_RELEASE_RESERVE_MS),
    sd_bookkeepingAtMs = deadlineAtMs, sd_perSendTimeoutMs = perSend\<rparr>"
  define s0 where "s0 = no_delivery\<lparr>ds_claimed := int (length rows)\<rparr>"
  obtain os t1 where p: "run_pool (deliverClaimedRow deps (de_now env) dl) rows (de_events env)
      (replicate (length rows) Skipped, t) = (os, t1)" by fastforce
  obtain s1 ids1 sk where c: "collect (zip os rows) s0 = (s1, ids1, sk)" by (cases "collect (zip os rows) s0")
  obtain s2 ids2 t2 where r: "releaseSkipped (de_release_sql env) (de_now env) deadlineAtMs sk s1 ids1 t1 = (s2, ids2, t2)"
    by (cases "releaseSkipped (de_release_sql env) (de_now env) deadlineAtMs sk s1 ids1 t1")
  have "result = (if ids2 \<noteq> [] then Inl (NotificationDeliveryInfrastructureError ids2 s2) else Inr s2)"
    using assms(2) p c r unfolding deliver_claimed_def Let_def dl_def [symmetric] s0_def [symmetric] by simp
  with assms(3) have s: "s = s2" "ids = ids2" by (auto split: if_splits)
  from run_pool_ids [OF deliver_row_ids p] assms(1)
  have t1: "distinct (map ob_id t1)" and os: "length os = length rows" by simp_all
  have s0: "summary_nonneg s0" "reported s0 = 0" "ds_claimed s0 = int (length rows)"
    by (simp_all add: s0_def no_delivery_def summary_nonneg_def reported_def)
  note C = collect_accounts [OF c]
  have s1: "summary_nonneg s1" "ds_claimed s1 = int (length rows)"
    "reported s1 + int (length ids1) + int (length sk) = int (length rows)"
    using C s0 os by auto
  note R = releaseSkipped_accounts [OF r t1 s1(1)]
  have "sk = []" if all: "\<forall>k < length rows. \<exists>e. Settle k e \<in> set (de_events env)"
  proof -
    have "fst p \<noteq> Skipped" if "p \<in> set (zip os rows)" for p
    proof -
      from that os obtain k where k: "k < length rows" "fst p = os ! k" by (auto simp: set_zip)
      with all run_pool_settled [OF p, of k] show ?thesis by simp
    qed
    with C show ?thesis by simp
  qed
  with R s1 show ?thesis unfolding s by auto
qed

lemma claimed_rows:
  assumes "claimNotifications locked env now limit tok scope d t = (Inr rows, t')"
  shows "\<exists>hit. rows = map mapClaimedRow (map (claim_row now tok) (filter hit t)) \<and>
     t' = map (\<lambda>r. if hit r then claim_row now tok r else r) t \<and>
     hit = (\<lambda>r. ob_id r \<in> set (map ob_id (due_batch locked now (nat limit) scope t))) \<and> 1 \<le> limit"
  using assms
  by (auto simp: claimNotifications_def withDeadline_def run_statement_def claim_notifications_sql_def
      sql_update_def sql_returning_def Let_def split: if_splits option.splits)

lemma claim_count:
  assumes "claimNotifications locked env now limit tok scope d t = (Inr rows, t')" and "distinct (map ob_id t)"
  shows "int (length rows) \<le> limit \<and> distinct (map ob_id t')"
proof -
  obtain hit where h: "rows = map mapClaimedRow (map (claim_row now tok) (filter hit t))"
    "t' = map (\<lambda>r. if hit r then claim_row now tok r else r) t"
    "hit = (\<lambda>r. ob_id r \<in> set (map ob_id (due_batch locked now (nat limit) scope t)))" "1 \<le> limit"
    using claimed_rows [OF assms(1)] by blast
  have "distinct (map ob_id (filter hit t))" using assms(2) by (rule distinct_map_filter)
  then have "length (map ob_id (filter hit t)) = card (set (map ob_id (filter hit t)))"
    by (simp only: distinct_card)
  also have "\<dots> \<le> card (set (map ob_id (due_batch locked now (nat limit) scope t)))"
    by (rule card_mono) (auto simp: h(3))
  also have "\<dots> \<le> length (due_batch locked now (nat limit) scope t)"
    using card_length [of "map ob_id (due_batch locked now (nat limit) scope t)"] by simp
  also have "\<dots> \<le> nat limit" by (simp add: due_batch_def)
  finally have "int (length rows) \<le> limit" using h(1,4) by simp
  moreover have "map ob_id t' = map ob_id t" by (simp add: h(2) update_keys)
  ultimately show ?thesis using assms(2) by simp
qed

text \<open>C12. A delivery pass accounts for every notification it claims, whatever the provider, the
  database and other transactions do: never more than the limit is claimed, the counts are not
  negative, and rows sent, failed, dead, lost or reported in the infrastructure error never exceed
  the rows claimed. When the pool started every row they are exactly the rows claimed.\<close>

theorem delivery_accounts_for_every_claim:
  assumes "distinct (map ob_id t)"
    and "fst (deliverPendingNotifications deps options env t) = result"
    and "result = Inr s \<and> ids = [] \<or> result = Inl (NotificationDeliveryInfrastructureError ids s)"
  shows "summary_nonneg s \<and> ds_claimed s \<le> or_else (do_limit options) 50 \<and>
     reported s + int (length ids) \<le> ds_claimed s \<and>
     ((\<forall>k < nat (ds_claimed s). \<exists>e. Settle k e \<in> set (de_events env)) \<longrightarrow>
        reported s + int (length ids) = ds_claimed s)"
proof -
  define limit where "limit = or_else (do_limit options) 50"
  define perSend where "perSend = or_else (do_perSendTimeoutMs options) DEFAULT_NOTIFICATION_SEND_TIMEOUT_MS"
  define deadlineAtMs where "deadlineAtMs =
    or_else (do_deadlineAtMs options) (de_nowMs_default env + DEFAULT_NOTIFICATION_DRAIN_TIMEOUT_MS)"
  obtain c t1 where c: "claimNotifications (de_locked env) (de_claim_sql env) (de_now env) limit
      (de_claimToken env) (do_eventTypes options) (Some deadlineAtMs) t = (c, t1)" by fastforce
  have "(result = Inr no_delivery \<and> 1 \<le> limit) \<or>
      (\<exists>rows. c = Inr rows \<and> fst (deliver_claimed deps env perSend deadlineAtMs rows t1) = result)"
    using assms(2,3) c
    unfolding deliverPendingNotifications_def Let_def limit_def [symmetric] perSend_def [symmetric]
      deadlineAtMs_def [symmetric]
    by (auto split: if_splits sum.splits)
  then show ?thesis
  proof
    assume "result = Inr no_delivery \<and> 1 \<le> limit"
    with assms(3) show ?thesis unfolding limit_def
      by (auto simp: no_delivery_def summary_nonneg_def reported_def)
  next
    assume "\<exists>rows. c = Inr rows \<and> fst (deliver_claimed deps env perSend deadlineAtMs rows t1) = result"
    then obtain rows where rows: "c = Inr rows" "fst (deliver_claimed deps env perSend deadlineAtMs rows t1) = result"
      by blast
    note n = claim_count [OF c [unfolded rows(1)] assms(1)]
    from deliver_claimed_accounts [OF _ rows(2) assms(3)] n show ?thesis
      unfolding limit_def by auto
  qed
qed

subsection \<open>In a healthy environment every claim is settled\<close>

definition healthy :: "int \<Rightarrow> sql_env \<Rightarrow> bool" where
  "healthy deadline env \<longleftrightarrow> se_fails env = None \<and> (se_supportsTimeout env \<longrightarrow> se_nowMs env < deadline)"

lemma withDeadline_healthy:
  "healthy d env \<Longrightarrow> withDeadline (Some d) env (update_returning p f) t =
     (Inr (map ob_id (sql_returning p f t)), sql_update p f t)"
  by (auto simp: healthy_def withDeadline_def run_statement_def update_returning_def)

text \<open>What a pass may make of a row it claimed: \<open>c\<close> is the row right after the claim.\<close>

definition row_result :: "instant \<Rightarrow> row_outcome settled \<Rightarrow> outbox_row \<Rightarrow> outbox_row \<Rightarrow> bool" where
  "row_result now v c r \<longleftrightarrow> (case v of
      Skipped \<Rightarrow> r = c
    | Rejected e \<Rightarrow> False
    | Fulfilled O_sent \<Rightarrow> \<exists>message. r = sent_row message now c
    | Fulfilled O_failed \<Rightarrow> ob_attemptCount c < MAX_DELIVERY_ATTEMPTS \<and>
        (\<exists>code. r = failed_row False (retryAt now (ob_attemptCount c)) code now c)
    | Fulfilled O_dead \<Rightarrow> \<exists>code. r = failed_row True (retryAt now (ob_attemptCount c)) code now c
    | Fulfilled O_lost_claim \<Rightarrow> False)"

lemma row_result_id: "row_result now v c r \<Longrightarrow> ob_id r = ob_id c"
  by (auto simp: row_result_def update_keys split: settled.splits row_outcome.splits)

definition pass_inv ::
  "instant \<Rightarrow> string \<Rightarrow> (outbox_row \<Rightarrow> bool) \<Rightarrow> outbox_row list \<Rightarrow> row_outcome settled list \<Rightarrow> outbox_row list \<Rightarrow> bool" where
  "pass_inv now tok hit t rs u \<longleftrightarrow> length rs = length (filter hit t) \<and>
     (\<exists>g. u = map (\<lambda>r. if hit r then g (ob_id r) else r) t \<and>
        (\<forall>k < length rs. row_result now (rs ! k) (claim_row now tok (filter hit t ! k)) (g (ob_id (filter hit t ! k)))))"

lemma base_index:
  "r \<in> set t \<Longrightarrow> hit r \<Longrightarrow> \<exists>j < length (filter hit t). r = filter hit t ! j"
  using in_set_conv_nth [of r "filter hit t"] by auto

lemma pass_step:
  assumes inv: "pass_inv now tok hit t rs u" and k: "k < length rs" "rs ! k = Skipped"
    and d: "distinct (map ob_id t)" and fresh: "\<forall>r \<in> set t. ob_claimToken r \<noteq> Some tok"
    and i: "i = ob_id (filter hit t ! k)"
    and f: "row_result now (Fulfilled v) (claim_row now tok (filter hit t ! k)) (f (claim_row now tok (filter hit t ! k)))"
  shows "pass_inv now tok hit t (rs[k := Fulfilled v]) (sql_update (held i (Some tok)) f u) \<and>
     length (filter (held i (Some tok)) u) = 1"
proof -
  define base where "base = filter hit t"
  have len: "length rs = length base" using inv by (simp add: pass_inv_def base_def)
  obtain g where u: "u = map (\<lambda>r. if hit r then g (ob_id r) else r) t"
    and g: "\<And>k. k < length rs \<Longrightarrow> row_result now (rs ! k) (claim_row now tok (base ! k)) (g (ob_id (base ! k)))"
    using inv unfolding pass_inv_def base_def by blast
  have gk: "g i = claim_row now tok (base ! k)"
    using g [OF k(1)] k(2) i by (simp add: row_result_def base_def)
  have in_t: "base ! j \<in> set t \<and> hit (base ! j)" if "j < length base" for j
    using that nth_mem [of j base] by (auto simp: base_def)
  have gid: "ob_id (g (ob_id r)) = ob_id r" if "r \<in> set t" "hit r" for r
    using base_index [of r t hit] that g row_result_id len by (fastforce simp: base_def update_keys)
  have held_iff: "held i (Some tok) (if hit r then g (ob_id r) else r) \<longleftrightarrow> r = base ! k" if r: "r \<in> set t" for r
  proof (cases "hit r")
    case True
    have "r = base ! k" if "ob_id r = i"
      using same_id_row [OF d r, of "base ! k"] in_t [of k] k(1) len that i by (simp add: base_def)
    moreover have "held i (Some tok) (g i)" using gk i by (simp add: held_def claim_row_def base_def)
    moreover have "ob_id (base ! k) = i" using i by (simp add: base_def)
    ultimately show ?thesis using True gid [OF r True] by (auto simp: held_def)
  next
    case False
    with in_t [of k] k(1) len have "r \<noteq> base ! k" by auto
    with False fresh r show ?thesis by (auto simp: held_def)
  qed
  have hitk: "hit (base ! k)" "base ! k \<in> set t" using in_t [of k] k(1) len by auto
  have "sql_update (held i (Some tok)) f u = map (\<lambda>r. if hit r then (g(i := f (g i))) (ob_id r) else r) t"
    unfolding sql_update_def u map_map comp_def
  proof (rule map_cong [OF refl])
    fix r assume r: "r \<in> set t"
    have "r = base ! k" if "ob_id r = i" "hit r" using same_id_row [OF d r hitk(2)] that i by (simp add: base_def)
    with held_iff [OF r] hitk i show
      "(if held i (Some tok) (if hit r then g (ob_id r) else r) then f (if hit r then g (ob_id r) else r)
        else if hit r then g (ob_id r) else r) = (if hit r then (g(i := f (g i))) (ob_id r) else r)"
      by (auto simp: base_def)
  qed
  moreover have "row_result now (rs[k := Fulfilled v] ! j) (claim_row now tok (base ! j)) ((g(i := f (g i))) (ob_id (base ! j)))"
    if j: "j < length rs" for j
  proof (cases "j = k")
    case True
    with k(1) f i gk show ?thesis by (simp add: base_def)
  next
    case False
    have "distinct (map ob_id base)" using d by (simp add: base_def distinct_map_filter)
    with False j k(1) len have "ob_id (base ! j) \<noteq> ob_id (base ! k)"
      by (metis length_map nth_eq_iff_index_eq nth_map)
    with False g [OF j] i show ?thesis by (simp add: base_def)
  qed
  ultimately have "pass_inv now tok hit t (rs[k := Fulfilled v]) (sql_update (held i (Some tok)) f u)"
    unfolding pass_inv_def base_def [symmetric] using len by (intro conjI exI [of _ "g(i := f (g i))"]) auto
  moreover have "length (filter (held i (Some tok)) u) = length (filter (\<lambda>r. r = base ! k) t)"
    unfolding u filter_map length_map comp_def using held_iff by (intro arg_cong [of _ _ length] filter_cong) auto
  moreover have "distinct t" using d by (simp add: distinct_map)
  then have "length (filter (\<lambda>r. r = base ! k) t) = 1"
    using hitk(2) by (simp add: distinct_length_filter)
  ultimately show ?thesis by simp
qed

lemma deliver_row_healthy:
  assumes "healthy (sd_bookkeepingAtMs dl) (re_sql env)" and "cn_claimToken row = Some tok"
    and "cn_attemptCount row = ob_attemptCount c" and "length (filter (held (cn_id row) (Some tok)) t) = 1"
  shows "\<exists>v f. deliverClaimedRow deps now dl env row t = (Inr v, sql_update (held (cn_id row) (Some tok)) f t) \<and>
     row_result now (Fulfilled v) c (f c)"
proof (cases "attemptSend deps dl env row")
  case (Inr message)
  then have "deliverClaimedRow deps now dl env row t =
      (Inr O_sent, sql_update (held (cn_id row) (Some tok)) (sent_row message now) t)"
    using assms by (simp add: deliverClaimedRow_def markNotificationSent_def withDeadline_healthy one_row_def
        bookkeep_def sql_returning_def)
  then show ?thesis by (intro exI [of _ O_sent] exI [of _ "sent_row message now"]) (auto simp: row_result_def)
next
  case (Inl e)
  obtain code retryable where e: "safeFailure e = (code, retryable)" by fastforce
  define dead where "dead = (\<not> retryable \<or> ob_attemptCount c \<ge> MAX_DELIVERY_ATTEMPTS)"
  have "deliverClaimedRow deps now dl env row t =
      (Inr (if dead then O_dead else O_failed), sql_update (held (cn_id row) (Some tok))
         (failed_row dead (retryAt now (ob_attemptCount c)) code now) t)"
    using assms Inl e dead_def
    by (simp add: deliverClaimedRow_def markNotificationFailed_def withDeadline_healthy one_row_def
        bookkeep_def sql_returning_def Let_def)
  then show ?thesis
    by (intro exI [of _ "if dead then O_dead else O_failed"]
        exI [of _ "failed_row dead (retryAt now (ob_attemptCount c)) code now"])
      (auto simp: row_result_def dead_def)
qed

definition healthy_event :: "int \<Rightarrow> pool_event \<Rightarrow> bool" where
  "healthy_event deadline e = (case e of Settle k env \<Rightarrow> healthy deadline (re_sql env) | Elsewhere op \<Rightarrow> False)"

lemma run_pool_inv:
  assumes "distinct (map ob_id t)" and "\<forall>r \<in> set t. ob_claimToken r \<noteq> Some tok"
    and "rows = map mapClaimedRow (map (claim_row now tok) (filter hit t))"
  shows "list_all (healthy_event (sd_bookkeepingAtMs dl)) es \<Longrightarrow> pass_inv now tok hit t rs u \<Longrightarrow>
     run_pool (deliverClaimedRow deps now dl) rows es (rs, u) = (rs', u') \<Longrightarrow> pass_inv now tok hit t rs' u'"
proof (induction es arbitrary: rs u)
  case Nil
  then show ?case by simp
next
  case (Cons e es)
  from Cons.prems(1) obtain k env where e: "e = Settle k env" and h: "healthy (sd_bookkeepingAtMs dl) (re_sql env)"
    by (cases e) (auto simp: healthy_event_def)
  have len: "length rs = length rows" using Cons.prems(2) assms(3) by (simp add: pass_inv_def)
  show ?case
  proof (cases "k < length rows \<and> rs ! k = Skipped")
    case False
    then have "run_pool (deliverClaimedRow deps now dl) rows es (rs, u) = (rs', u')"
      using Cons.prems(3) unfolding e run_pool.simps(2) if_not_P [OF False] by simp
    with Cons show ?thesis by simp
  next
    case True
    define c where "c = claim_row now tok (filter hit t ! k)"
    have row: "rows ! k = mapClaimedRow c" using True assms(3) by (simp add: c_def)
    have i: "cn_id (rows ! k) = ob_id (filter hit t ! k)" by (simp add: row c_def mapClaimedRow_def update_keys)
    have tok: "cn_claimToken (rows ! k) = Some tok" by (simp add: row c_def mapClaimedRow_def claim_row_def)
    have n: "cn_attemptCount (rows ! k) = ob_attemptCount c" by (simp add: row mapClaimedRow_def)
    have k: "k < length rs" "rs ! k = Skipped" using True len by auto
    have one: "length (filter (held (cn_id (rows ! k)) (Some tok)) u) = 1"
      using pass_step [OF Cons.prems(2) k assms(1,2) i, of O_sent "sent_row [] now"]
      by (auto simp: row_result_def)
    from deliver_row_healthy [OF h tok n one, of deps now] obtain v f where
      w: "deliverClaimedRow deps now dl env (rows ! k) u = (Inr v, sql_update (held (cn_id (rows ! k)) (Some tok)) f u)"
      and f: "row_result now (Fulfilled v) c (f c)" by blast
    have "pass_inv now tok hit t (rs[k := Fulfilled v]) (sql_update (held (cn_id (rows ! k)) (Some tok)) f u)"
      using pass_step [where v = v and f = f, OF Cons.prems(2) k assms(1,2) i f [unfolded c_def]] by blast
    moreover have "run_pool (deliverClaimedRow deps now dl) rows es
        (rs[k := Fulfilled v], sql_update (held (cn_id (rows ! k)) (Some tok)) f u) = (rs', u')"
      using Cons.prems(3) unfolding e run_pool.simps(2) if_P [OF True] w by (simp add: outcome_of_def)
    ultimately show ?thesis using Cons.IH Cons.prems(1) by simp
  qed
qed

lemma collect_counts:
  "collect ps s = (s', failedIds, skippedRows) \<Longrightarrow>
     ds_sent s' = ds_sent s + int (length (filter (\<lambda>p. fst p = Fulfilled O_sent) ps)) \<and>
     ds_failed s' = ds_failed s + int (length (filter (\<lambda>p. fst p = Fulfilled O_failed) ps)) \<and>
     ds_dead s' = ds_dead s + int (length (filter (\<lambda>p. fst p = Fulfilled O_dead) ps)) \<and>
     ds_lostClaims s' = ds_lostClaims s + int (length (filter (\<lambda>p. fst p = Fulfilled O_lost_claim) ps)) \<and>
     ((\<forall>p \<in> set ps. \<forall>e. fst p \<noteq> Rejected e) \<longrightarrow> failedIds = [])"
proof (induction ps s arbitrary: s' failedIds skippedRows rule: collect.induct)
  case (1 s)
  then show ?case by simp
next
  case (2 v row rest s)
  have "collect rest (applyRowOutcome s v) = (s', failedIds, skippedRows)" using "2.prems" by simp
  with "2.IH" [OF this] show ?case by (cases v) auto
next
  case (3 e row rest s)
  obtain s1 ids sk where c: "collect rest s = (s1, ids, sk)" by (cases "collect rest s")
  with "3.prems" have "s' = s1" "failedIds = cn_id row # ids" "skippedRows = sk" by simp_all
  with "3.IH" [OF c] show ?case by auto
next
  case (4 row rest s)
  obtain s1 ids sk where c: "collect rest s = (s1, ids, sk)" by (cases "collect rest s")
  with "4.prems" have "s' = s1" "failedIds = ids" "skippedRows = row # sk" by simp_all
  with "4.IH" [OF c] show ?case by auto
qed

text \<open>Counting the rows a pass changed in a given way.\<close>

definition count_changes :: "(outbox_row \<Rightarrow> outbox_row \<Rightarrow> bool) \<Rightarrow> outbox_row list \<Rightarrow> outbox_row list \<Rightarrow> int" where
  "count_changes p t t' = int (length (filter (\<lambda>(r, r'). p r r') (zip t t')))"

lemma zip_map_self: "zip t (map F t) = map (\<lambda>r. (r, F r)) t"
  by (induction t) simp_all

lemma count_changes_map:
  assumes "\<And>r. r \<in> set t \<Longrightarrow> \<not> hit r \<Longrightarrow> \<not> p r (F r)"
    and "length rs = length (filter hit t)" and "length rows = length rs"
    and "\<And>k. k < length rs \<Longrightarrow> p (filter hit t ! k) (F (filter hit t ! k)) \<longleftrightarrow> rs ! k = v"
  shows "count_changes p t (map F t) = int (length (filter (\<lambda>q. fst q = v) (zip rs rows)))"
proof -
  have "filter (\<lambda>r. p r (F r)) t = filter (\<lambda>r. p r (F r)) (filter hit t)"
    using assms(1) by (auto intro!: filter_cong)
  then have "count_changes p t (map F t) = int (length (filter (\<lambda>r. p r (F r)) (filter hit t)))"
    by (simp add: count_changes_def zip_map_self filter_map comp_def)
  also have "\<dots> = int (card {k. k < length rs \<and> rs ! k = v})"
    using assms(2,4) by (simp only: length_filter_conv_card) (metis (lifting))
  also have "\<dots> = int (length (filter (\<lambda>q. fst q = v) (zip rs rows)))"
    using assms(3) by (simp add: length_filter_conv_card) (metis (lifting) nth_zip fst_conv)
  finally show ?thesis .
qed

text \<open>The rows of the table after the release: what became of a claimed row.\<close>

definition row_final :: "instant \<Rightarrow> row_outcome settled \<Rightarrow> outbox_row \<Rightarrow> outbox_row \<Rightarrow> bool" where
  "row_final now v c r \<longleftrightarrow> (if v = Skipped then r = released_row now c else row_result now v c r)"

definition release_held :: "instant \<Rightarrow> string \<Rightarrow> outbox_row \<Rightarrow> outbox_row" where
  "release_held now tok r = (if held (ob_id r) (Some tok) r then released_row now r else r)"

lemma row_final_release:
  "row_result now v (claim_row now tok c) r \<Longrightarrow> row_final now v (claim_row now tok c) (release_held now tok r)"
  by (auto simp: row_result_def row_final_def release_held_def held_def claim_row_def sent_row_def
      failed_row_def split: settled.splits row_outcome.splits)

lemma held_skipped:
  assumes "row_result now v (claim_row now tok c) r"
  shows "held (ob_id r) (Some tok) r \<longleftrightarrow> v = Skipped"
  using assms
  by (auto simp: row_result_def held_def claim_row_def sent_row_def failed_row_def
      split: settled.splits row_outcome.splits)

lemma release_all_skipped:
  assumes inv: "pass_inv now tok hit t rs u" and d: "distinct (map ob_id t)"
    and fresh: "\<forall>r \<in> set t. ob_claimToken r \<noteq> Some tok"
    and rows: "rows = map mapClaimedRow (map (claim_row now tok) (filter hit t))"
    and sk: "sk = map snd (filter (\<lambda>p. fst p = Skipped) (zip rs rows))"
    and h: "healthy dl env"
  shows "releaseSkipped env now dl sk s ids u = (s, ids, map (release_held now tok) u)"
proof -
  define base where "base = filter hit t"
  have len: "length rs = length base" using inv by (simp add: pass_inv_def base_def)
  obtain g where u: "u = map (\<lambda>r. if hit r then g (ob_id r) else r) t"
    and g: "\<And>k. k < length rs \<Longrightarrow> row_result now (rs ! k) (claim_row now tok (base ! k)) (g (ob_id (base ! k)))"
    using inv unfolding pass_inv_def base_def by blast
  define holds where "holds = (\<lambda>r. held (ob_id r) (Some tok) r)"
  define X where "X = (\<lambda>r. if hit r then g (ob_id r) else r)"
  have uX: "u = map X t" by (simp add: u X_def)
  have in_t: "base ! j \<in> set t \<and> hit (base ! j)" if "j < length base" for j
    using that nth_mem [of j base] by (auto simp: base_def)
  have X_base: "X (base ! k) = g (ob_id (base ! k))" if "k < length rs" for k
    using in_t [of k] that len by (simp add: X_def)
  have count: "count_changes (\<lambda>r. holds) t (map X t) = int (length (filter (\<lambda>p. fst p = Skipped) (zip rs rows)))"
  proof (rule count_changes_map [of t hit])
    fix r assume "r \<in> set t" "\<not> hit r"
    with fresh show "\<not> holds (X r)" by (auto simp: X_def holds_def held_def)
  next
    show "length rs = length (filter hit t)" "length rows = length rs"
      using len rows by (simp_all add: base_def)
  next
    fix k assume k: "k < length rs"
    show "holds (X (filter hit t ! k)) = (rs ! k = Skipped)"
      using held_skipped [OF g [OF k]] X_base [OF k] by (simp add: holds_def base_def)
  qed
  have n: "length (filter holds u) = length sk"
    using count by (simp add: count_changes_def zip_map_self filter_map comp_def uX sk)
  have ids: "ob_id r \<in> set (map cn_id sk)" if "r \<in> set u" "holds r" for r
  proof -
    from that(1) obtain r0 where r0: "r0 \<in> set t" "r = X r0" unfolding uX by auto
    with that(2) fresh have "hit r0" by (auto simp: X_def holds_def held_def split: if_splits)
    with r0 obtain k where k: "k < length rs" "r0 = base ! k" using base_index [of r0 t hit] len by (auto simp: base_def)
    with held_skipped [OF g [OF k(1)]] that(2) r0 X_base [OF k(1)] have "rs ! k = Skipped" by (simp add: holds_def)
    moreover have "length rows = length rs" using rows len by (simp add: base_def)
    ultimately have "rows ! k \<in> set sk" using k(1) unfolding sk by (force simp: set_zip)
    moreover have "cn_id (rows ! k) = ob_id r0" using k rows len by (simp add: base_def mapClaimedRow_def update_keys)
    moreover have "ob_id r = ob_id r0" using row_result_id [OF g [OF k(1)]] r0(2) X_base [OF k(1)] k(2)
      by (simp add: update_keys)
    ultimately show ?thesis by force
  qed
  have upd: "sql_update (\<lambda>r. held (ob_id r) (Some tok) r \<and> ob_id r \<in> set (map cn_id sk)) (released_row now) u =
      map (release_held now tok) u"
    unfolding sql_update_def using ids by (intro map_cong) (auto simp: release_held_def holds_def)
  have ret: "length (filter (\<lambda>r. held (ob_id r) (Some tok) r \<and> ob_id r \<in> set (map cn_id sk)) u) = length sk"
  proof -
    have "filter (\<lambda>r. held (ob_id r) (Some tok) r \<and> ob_id r \<in> set (map cn_id sk)) u = filter holds u"
      using ids by (intro filter_cong) (auto simp: holds_def)
    with n show ?thesis by simp
  qed
  show ?thesis
  proof (cases sk)
    case Nil
    with n have "\<not> holds r" if "r \<in> set u" for r using that by (simp add: filter_empty_conv)
    then have "map (release_held now tok) u = u" by (intro map_idI) (simp add: release_held_def holds_def)
    with Nil show ?thesis by (simp add: releaseSkipped_def)
  next
    case (Cons row rest)
    have tokens: "cn_claimToken r = Some tok" if "r \<in> set sk" for r
    proof -
      have "r \<in> set rows" using that sk by (auto dest: set_zip_rightD)
      with rows show ?thesis by (auto simp: mapClaimedRow_def claim_row_def)
    qed
    have "releaseNotificationClaims env (map (\<lambda>row. (cn_id row, cn_claimToken row)) sk) now (Some dl) u =
        (Inr (int (length sk)), map (release_held now tok) u)"
      using tokens upd ret withDeadline_healthy [OF h, of "\<lambda>r. held (ob_id r) (Some tok) r \<and> ob_id r \<in> set (map cn_id sk)" "released_row now" u]
      by (simp add: releaseNotificationClaims_def Cons comp_def sql_returning_def list_ex_iff)
    with Cons show ?thesis by (simp add: releaseSkipped_def)
  qed
qed

lemma healthy_pass:
  assumes inv: "outbox_inv t" and fresh: "\<forall>r \<in> set t. ob_claimToken r \<noteq> Some tok"
    and env: "now = de_now env" "tok = de_claimToken env"
    and claim: "claimNotifications (de_locked env) (de_claim_sql env) now limit tok
      (do_eventTypes options) (Some deadline) t = (Inr rows, t1)"
    and h: "list_all (healthy_event deadline) (de_events env)" "healthy deadline (de_release_sql env)"
  shows "\<exists>hit os F s. deliver_claimed deps env perSend deadline rows t1 = (Inr s, map F t) \<and>
     length os = length (filter hit t) \<and> length rows = length os \<and>
     (\<forall>r \<in> set t. hit r \<longrightarrow> due now (do_eventTypes options) r) \<and> (\<forall>r \<in> set t. \<not> hit r \<longrightarrow> F r = r) \<and>
     (\<forall>k < length os. row_final now (os ! k) (claim_row now tok (filter hit t ! k)) (F (filter hit t ! k))) \<and>
     (\<exists>ids sk. collect (zip os rows) (no_delivery\<lparr>ds_claimed := int (length rows)\<rparr>) = (s, ids, sk))"
proof -
  have d: "distinct (map ob_id t)" using inv by (simp add: outbox_inv_def)
  obtain hit where rows: "rows = map mapClaimedRow (map (claim_row now tok) (filter hit t))"
    and t1: "t1 = map (\<lambda>r. if hit r then claim_row now tok r else r) t"
    and hit: "hit = (\<lambda>r. ob_id r \<in> set (map ob_id (due_batch (de_locked env) now (nat limit) (do_eventTypes options) t)))"
    using claimed_rows [OF claim] by blast
  define base where "base = filter hit t"
  have due: "due now (do_eventTypes options) r" if "r \<in> set t" "hit r" for r
    using claimed_row_due [OF d that(1)] that(2) hit by blast
  define dl where "dl = \<lparr>sd_atMs = max (de_nowMs_pool env) (deadline - NOTIFICATION_CLAIM_RELEASE_RESERVE_MS),
    sd_bookkeepingAtMs = deadline, sd_perSendTimeoutMs = perSend\<rparr>"
  define s0 where "s0 = no_delivery\<lparr>ds_claimed := int (length rows)\<rparr>"
  obtain os u where p: "run_pool (deliverClaimedRow deps now dl) rows (de_events env)
      (replicate (length rows) Skipped, t1) = (os, u)" by fastforce
  obtain s1 ids sk where c: "collect (zip os rows) s0 = (s1, ids, sk)" by (cases "collect (zip os rows) s0")
  have "pass_inv now tok hit t (replicate (length rows) Skipped) t1"
  proof -
    define g where "g = (\<lambda>i. claim_row now tok (the (row_at ob_id i t)))"
    have "g (ob_id r) = claim_row now tok r" if "r \<in> set t" for r
      using row_at_distinct [OF d that] by (simp add: g_def)
    moreover from this have "row_result now Skipped (claim_row now tok (base ! k)) (g (ob_id (base ! k)))"
      if "k < length base" for k
      using nth_mem [OF that] by (simp add: row_result_def base_def)
    ultimately show ?thesis
      unfolding pass_inv_def base_def [symmetric] using rows t1
      by (intro conjI exI [of _ g]) (auto simp: base_def)
  qed
  with run_pool_inv [OF d fresh rows, of dl] h(1) p have pinv: "pass_inv now tok hit t os u" by (simp add: dl_def)
  have len: "length os = length base" using pinv by (simp add: pass_inv_def base_def)
  obtain g where u: "u = map (\<lambda>r. if hit r then g (ob_id r) else r) t"
    and g: "\<And>k. k < length os \<Longrightarrow> row_result now (os ! k) (claim_row now tok (base ! k)) (g (ob_id (base ! k)))"
    using pinv unfolding pass_inv_def base_def by blast
  define F where "F = (\<lambda>r. release_held now tok (if hit r then g (ob_id r) else r))"
  have sk: "sk = map snd (filter (\<lambda>p. fst p = Skipped) (zip os rows))" using collect_accounts [OF c] by blast
  have no_rej: "\<forall>p \<in> set (zip os rows). \<forall>e. fst p \<noteq> Rejected e"
    using g by (auto simp: set_zip row_result_def split: settled.splits) fastforce
  have ids: "ids = []" using collect_counts [OF c] no_rej by blast
  have rel: "releaseSkipped (de_release_sql env) now deadline sk s1 [] u = (s1, [], map F t)"
    using release_all_skipped [OF pinv d fresh rows sk h(2)] by (simp add: u F_def comp_def)
  have res: "deliver_claimed deps env perSend deadline rows t1 = (Inr s1, map F t)"
    using p c rel ids unfolding deliver_claimed_def Let_def dl_def [symmetric] s0_def [symmetric] env(1) [symmetric]
    by simp
  have in_t: "base ! k \<in> set t \<and> hit (base ! k)" if "k < length os" for k
    using that len nth_mem [of k base] by (auto simp: base_def)
  have F_hit: "row_final now (os ! k) (claim_row now tok (base ! k)) (F (base ! k))" if "k < length os" for k
    using row_final_release [OF g [OF that]] in_t [OF that] by (simp add: F_def)
  have F_other: "F r = r" if "r \<in> set t" "\<not> hit r" for r
    using that fresh by (auto simp: F_def release_held_def held_def)
  show ?thesis
    using res len F_hit F_other due c rows unfolding s0_def base_def
    by (intro exI [of _ hit] exI [of _ os] exI [of _ F] exI [of _ s1]) auto
qed

text \<open>What the row of a claimed notification says of its outcome.\<close>

lemma final_status:
  assumes "row_final now v (claim_row now tok r) r'" and "due now scope r" and "outbox_row_ok r"
  shows "ob_status r \<noteq> Sent \<and> ob_status r' = Sent \<longleftrightarrow> v = Fulfilled O_sent"
    and "ob_status r \<noteq> Dead \<and> ob_status r' = Dead \<longleftrightarrow> v = Fulfilled O_dead"
    and "ob_status r' = Failed \<and> ob_attemptCount r' = ob_attemptCount r + 1 \<longleftrightarrow> v = Fulfilled O_failed"
    and "v \<noteq> Fulfilled O_lost_claim" and "ob_claimToken r' = None"
proof -
  have r: "ob_status r \<in> {Pending, Failed}" "ob_attemptCount r \<ge> 0"
    using assms(2,3) by (simp_all add: due_def outbox_row_ok_def outbox_checks_def)
  have "(v = Fulfilled O_sent \<and> ob_status r' = Sent \<or> v = Fulfilled O_dead \<and> ob_status r' = Dead \<or>
      v = Fulfilled O_failed \<and> ob_status r' = Failed \<and> ob_attemptCount r' = ob_attemptCount r + 1 \<or>
      v = Skipped \<and> ob_status r' \<in> {Pending, Failed} \<and> ob_attemptCount r' = ob_attemptCount r) \<and>
      ob_claimToken r' = None"
  proof (cases v)
    case (Fulfilled w)
    with assms(1) show ?thesis
      by (cases w) (auto simp: row_final_def row_result_def claim_row_def sent_row_def failed_row_def)
  qed (use assms(1) r in \<open>auto simp: row_final_def row_result_def claim_row_def released_row_def\<close>)
  with r show "ob_status r \<noteq> Sent \<and> ob_status r' = Sent \<longleftrightarrow> v = Fulfilled O_sent"
    and "ob_status r \<noteq> Dead \<and> ob_status r' = Dead \<longleftrightarrow> v = Fulfilled O_dead"
    and "ob_status r' = Failed \<and> ob_attemptCount r' = ob_attemptCount r + 1 \<longleftrightarrow> v = Fulfilled O_failed"
    and "v \<noteq> Fulfilled O_lost_claim" and "ob_claimToken r' = None"
    by auto
qed

text \<open>C11. In a pass in which every statement succeeds and nobody else writes, every claimed
  notification is settled: no claim is lost or left behind, a row that was not due is untouched,
  a claimed row ends sent, failed with a later attempt, dead, or released as it was, and the summary
  counts exactly the rows that changed that way.\<close>

theorem delivery_settles_every_claim:
  assumes inv: "outbox_inv t" and fresh: "\<forall>r \<in> set t. ob_claimToken r \<noteq> Some (de_claimToken env)"
    and claim: "claimNotifications (de_locked env) (de_claim_sql env) (de_now env) limit (de_claimToken env)
      (do_eventTypes options) (Some deadline) t = (Inr rows, t1)"
    and h: "list_all (healthy_event deadline) (de_events env)" "healthy deadline (de_release_sql env)"
  shows "\<exists>s t'. deliver_claimed deps env perSend deadline rows t1 = (Inr s, t') \<and>
     ds_claimed s = int (length rows) \<and> ds_lostClaims s = 0 \<and>
     (\<forall>r \<in> set t'. ob_claimToken r \<noteq> Some (de_claimToken env)) \<and>
     list_all2 (\<lambda>r r'. r' = r \<or> due (de_now env) (do_eventTypes options) r \<and>
        (\<exists>v. row_final (de_now env) v (claim_row (de_now env) (de_claimToken env) r) r')) t t' \<and>
     ds_sent s = count_changes (\<lambda>r r'. ob_status r \<noteq> Sent \<and> ob_status r' = Sent) t t' \<and>
     ds_dead s = count_changes (\<lambda>r r'. ob_status r \<noteq> Dead \<and> ob_status r' = Dead) t t' \<and>
     ds_failed s = count_changes (\<lambda>r r'. ob_status r' = Failed \<and> ob_attemptCount r' = ob_attemptCount r + 1) t t'"
proof -
  let ?now = "de_now env" and ?tok = "de_claimToken env"
  obtain hit os F s where res: "deliver_claimed deps env perSend deadline rows t1 = (Inr s, map F t)"
    and len: "length os = length (filter hit t)" "length rows = length os"
    and due: "\<And>r. r \<in> set t \<Longrightarrow> hit r \<Longrightarrow> due ?now (do_eventTypes options) r"
    and other: "\<And>r. r \<in> set t \<Longrightarrow> \<not> hit r \<Longrightarrow> F r = r"
    and fin: "\<And>k. k < length os \<Longrightarrow> row_final ?now (os ! k) (claim_row ?now ?tok (filter hit t ! k)) (F (filter hit t ! k))"
    and c: "\<exists>ids sk. collect (zip os rows) (no_delivery\<lparr>ds_claimed := int (length rows)\<rparr>) = (s, ids, sk)"
    using healthy_pass [where deps = deps and perSend = perSend, OF inv fresh refl refl claim h] by blast
  obtain ids sk where c: "collect (zip os rows) (no_delivery\<lparr>ds_claimed := int (length rows)\<rparr>) = (s, ids, sk)"
    using c by blast
  have at: "filter hit t ! k \<in> set t" "hit (filter hit t ! k)" if "k < length os" for k
    using that len nth_mem [of k "filter hit t"] by auto
  have ok: "outbox_row_ok r" if "r \<in> set t" for r using inv that by (simp add: outbox_inv_def list_all_iff)
  note st = final_status [OF fin due [OF at] ok [OF at(1)]]
  have hits: "\<exists>k < length os. r = filter hit t ! k" if "r \<in> set t" "hit r" for r
    using base_index [where hit = hit, OF that] len by simp
  have "\<forall>q \<in> set (zip os rows). fst q \<noteq> Fulfilled O_lost_claim"
    using st(4) by (auto simp: set_zip)
  then have lost: "filter (\<lambda>q. fst q = Fulfilled O_lost_claim) (zip os rows) = []" by (simp add: filter_empty_conv)
  have counts: "count_changes p t (map F t) = int (length (filter (\<lambda>q. fst q = v) (zip os rows)))"
    if "\<And>r. \<not> p r r" "\<And>k. k < length os \<Longrightarrow> p (filter hit t ! k) (F (filter hit t ! k)) \<longleftrightarrow> os ! k = v" for p v
    by (rule count_changes_map [where hit = hit]) (use that other len in auto)
  have tokens: "ob_claimToken (F r) \<noteq> Some ?tok" if "r \<in> set t" for r
    using that hits [OF that] st(5) other [OF that] fresh by (cases "hit r") auto
  have rows: "F r = r \<or> due ?now (do_eventTypes options) r \<and> (\<exists>v. row_final ?now v (claim_row ?now ?tok r) (F r))"
    if "r \<in> set t" for r
    using that hits [OF that] fin other [OF that] due [OF that] by (cases "hit r") auto
  have changes:
    "count_changes (\<lambda>r r'. ob_status r \<noteq> Sent \<and> ob_status r' = Sent) t (map F t) =
       int (length (filter (\<lambda>q. fst q = Fulfilled O_sent) (zip os rows)))"
    "count_changes (\<lambda>r r'. ob_status r \<noteq> Dead \<and> ob_status r' = Dead) t (map F t) =
       int (length (filter (\<lambda>q. fst q = Fulfilled O_dead) (zip os rows)))"
    "count_changes (\<lambda>r r'. ob_status r' = Failed \<and> ob_attemptCount r' = ob_attemptCount r + 1) t (map F t) =
       int (length (filter (\<lambda>q. fst q = Fulfilled O_failed) (zip os rows)))"
    by (rule counts; use st in simp)+
  note cc = collect_counts [OF c]
  show ?thesis
    using res cc lost collect_accounts [OF c] tokens rows
    by (intro exI [of _ s] exI [of _ "map F t"], unfold changes)
      (simp add: no_delivery_def list_all2_map2 list_all2_same)
qed

subsection \<open>The back-off\<close>

lemma retryAt_cases:
  "retryAt now n = now + (if n \<le> 1 then 60000 else if n = 2 then 300000 else if n = 3 then 1800000 else 7200000)"
proof -
  have "n \<le> 1 \<or> n = 2 \<or> n = 3 \<or> n \<ge> 4" by arith
  then show ?thesis by (auto simp: retryAt_def RETRY_DELAYS_MS_def min_def max_def)
qed

lemma retryAt_mono: "m \<le> n \<Longrightarrow> retryAt now m \<le> retryAt now n"
  by (simp add: retryAt_cases)

lemma bookkept_failure:
  assumes "bookkeep w (markNotificationFailed env i token dead nxt code now d t) = (Inr v, t')" and "v \<noteq> O_lost_claim"
  shows "v = w \<and> t' = sql_update (held i token) (failed_row dead nxt code now) t \<and>
    length (filter (held i token) t) = 1"
  using assms
  by (cases d)
    (auto simp: bookkeep_def markNotificationFailed_def one_row_def withDeadline_def run_statement_def
      update_returning_def sql_returning_def split: option.splits if_splits)

lemma failed_outcome:
  assumes "deliverClaimedRow deps now deadline env row t = (Inr v, t')" and "v \<in> {O_failed, O_dead}"
  shows "\<exists>e code retryable dead. attemptSend deps deadline env row = Inl e \<and> safeFailure e = (code, retryable) \<and>
     dead = (\<not> retryable \<or> cn_attemptCount row \<ge> MAX_DELIVERY_ATTEMPTS) \<and> v = (if dead then O_dead else O_failed) \<and>
     t' = sql_update (held (cn_id row) (cn_claimToken row)) (failed_row dead (retryAt now (cn_attemptCount row)) code now) t \<and>
     length (filter (held (cn_id row) (cn_claimToken row)) t) = 1"
proof (cases "attemptSend deps deadline env row")
  case (Inr message)
  with assms show ?thesis
    by (auto simp: deliverClaimedRow_def bookkeep_def split: sum.splits if_splits prod.splits)
next
  case (Inl e)
  obtain code retryable where e: "safeFailure e = (code, retryable)" by fastforce
  define dead where "dead = (\<not> retryable \<or> cn_attemptCount row \<ge> MAX_DELIVERY_ATTEMPTS)"
  have "bookkeep (if dead then O_dead else O_failed) (markNotificationFailed (re_sql env) (cn_id row) (cn_claimToken row)
      dead (retryAt now (cn_attemptCount row)) code now (Some (sd_bookkeepingAtMs deadline)) t) = (Inr v, t')"
    using assms(1) Inl e by (simp add: deliverClaimedRow_def Let_def dead_def)
  from bookkept_failure [OF this] assms(2) Inl e dead_def show ?thesis by blast
qed

text \<open>The failures no retry can mend: the payload is invalid, or the provider says so.\<close>

fun permanent_failure :: "send_error \<Rightarrow> bool" where
  "permanent_failure (NotificationProviderError code retryable) = (\<not> retryable)"
| "permanent_failure InvalidNotificationPayloadError = True"
| "permanent_failure OtherSendError = False"

lemma safeFailure_permanent: "snd (safeFailure e) \<longleftrightarrow> \<not> permanent_failure e"
  by (cases e) simp_all

text \<open>C36. A failed attempt backs off or gives up: when \<open>deliverClaimedRow\<close> reports a failed or a
  dead row, its attempt failed, and the kind of failure and the number of attempts alone decide
  which. An invalid payload, a failure the provider calls permanent and the fifth attempt make the
  row dead, and it is never due again; any other failure makes it due again after one minute, five
  minutes, half an hour or two hours, for the first, second, third and fourth attempt.\<close>

theorem failed_delivery_backs_off:
  assumes "outbox_inv t" and "r \<in> set t" and "deliverClaimedRow deps now deadline env (mapClaimedRow r) t = (Inr v, t')"
    and "v \<in> {O_failed, O_dead}"
  shows "\<exists>e. attemptSend deps deadline env (mapClaimedRow r) = Inl e \<and>
    (\<exists>r' \<in> set t'. ob_id r' = ob_id r \<and>
      (if permanent_failure e \<or> 5 \<le> ob_attemptCount r
       then v = O_dead \<and> ob_status r' = Dead \<and> (\<forall>later scope. \<not> due later scope r')
       else v = O_failed \<and> ob_status r' = Failed \<and>
         ob_nextAttemptAt r' = now + 60000 *
           (if ob_attemptCount r \<le> 1 then 1 else if ob_attemptCount r = 2 then 5
            else if ob_attemptCount r = 3 then 30 else 120)))"
proof -
  let ?row = "mapClaimedRow r"
  have row: "cn_id ?row = ob_id r" "cn_claimToken ?row = ob_claimToken r" "cn_attemptCount ?row = ob_attemptCount r"
    by (simp_all add: mapClaimedRow_def)
  from failed_outcome [OF assms(3,4)] obtain e code retryable dead where
    e: "attemptSend deps deadline env ?row = Inl e" "safeFailure e = (code, retryable)"
    and dead: "dead \<longleftrightarrow> \<not> retryable \<or> ob_attemptCount r \<ge> 5" and v: "v = (if dead then O_dead else O_failed)"
    and t': "t' = sql_update (held (ob_id r) (ob_claimToken r)) (failed_row dead (retryAt now (ob_attemptCount r)) code now) t"
    and one: "length (filter (held (ob_id r) (ob_claimToken r)) t) = 1"
    unfolding row MAX_DELIVERY_ATTEMPTS_def by blast
  let ?r = "failed_row dead (retryAt now (ob_attemptCount r)) code now r"
  from one obtain x where x: "x \<in> set t" "held (ob_id r) (ob_claimToken r) x"
    by (metis filter_empty_conv length_0_conv zero_neq_one)
  have "distinct (map ob_id t)" using assms(1) by (simp add: outbox_inv_def)
  from same_id_row [OF this x(1) assms(2)] x(2) have "x = r" by (simp add: held_def)
  with x t' have in_t': "?r \<in> set t'" by (auto simp: set_sql_update)
  have dead': "dead \<longleftrightarrow> permanent_failure e \<or> 5 \<le> ob_attemptCount r"
    using dead safeFailure_permanent [of e] e(2) by auto
  show ?thesis
    using e(1) in_t' v
    by (intro exI [of _ e] conjI bexI [of _ ?r])
      (auto simp: update_keys dead' [symmetric], auto simp: failed_row_def due_def retryAt_cases)
qed

theorem failed_delivery_backs_off_witness:
  "\<exists>v t'. deliverClaimedRow \<lparr>dd_isUrl = (\<lambda>_. True), dd_parsesAsUrl = (\<lambda>_. True), dd_appUrl = ''https://a''\<rparr> 100
     \<lparr>sd_atMs = 0, sd_bookkeepingAtMs = 50, sd_perSendTimeoutMs = 10\<rparr>
     \<lparr>re_nowMs = 0, re_send = (\<lambda>message key. Inl OtherSendError), re_aborted = False, re_sql = sample_env\<rparr>
     (mapClaimedRow (claim_row 5 ''tok'' (sample_alert_row ''a''))) [claim_row 5 ''tok'' (sample_alert_row ''a'')] = (Inr v, t') \<and>
   (\<exists>r' \<in> set t'. ob_id r' = ''a'' \<and> ob_status r' = Failed \<and> ob_nextAttemptAt r' = 60100)"
  (is "\<exists>v t'. ?run = _ \<and> _")
proof -
  let ?r = "claim_row 5 ''tok'' (sample_alert_row ''a'')"
  have inv: "outbox_inv [?r]"
    by (simp add: outbox_inv_def outbox_row_ok_def outbox_checks_def claim_row_def sample_alert_row_def new_outbox_row_def)
  have a: "cn_payload (mapClaimedRow ?r) = Some (P_system_alert ''t'' ''d'' ''r'' ''a'')" "ob_attemptCount ?r = 1"
    "ob_id ?r = ''a''"
    by (simp_all add: mapClaimedRow_def claim_row_def sample_alert_row_def new_outbox_row_def)
  have "\<exists>m. createNotificationMessage (\<lambda>_. True) (\<lambda>_. True) ''https://a'' System_alert ''ops@example.com''
      (Some (P_system_alert ''t'' ''d'' ''r'' ''a'')) = Inr m"
    by (simp add: createNotificationMessage_def nonempty_def js_trim_def js_space_def)
  then have attempt: "attemptSend \<lparr>dd_isUrl = (\<lambda>_. True), dd_parsesAsUrl = (\<lambda>_. True), dd_appUrl = ''https://a''\<rparr>
      \<lparr>sd_atMs = 0, sd_bookkeepingAtMs = 50, sd_perSendTimeoutMs = 10\<rparr>
      \<lparr>re_nowMs = 0, re_send = (\<lambda>message key. Inl OtherSendError), re_aborted = False, re_sql = sample_env\<rparr>
      (mapClaimedRow ?r) = Inl (NotificationProviderError ''delivery_timeout'' True)"
    by (auto simp: attemptSend_def mapClaimedRow_def claim_row_def sample_alert_row_def new_outbox_row_def)
  from attempt obtain t' where run: "?run = (Inr O_failed, t')"
    by (simp add: deliverClaimedRow_def markNotificationFailed_def withDeadline_def sample_env_def run_statement_def
        update_returning_def sql_returning_def held_def one_row_def bookkeep_def MAX_DELIVERY_ATTEMPTS_def)
      (simp add: mapClaimedRow_def claim_row_def sample_alert_row_def new_outbox_row_def)
  from failed_delivery_backs_off [OF inv _ run] attempt a show ?thesis
    using run by (simp add: a)
qed

subsection \<open>Samples\<close>

definition sample_deps :: delivery_deps where
  "sample_deps = \<lparr>dd_isUrl = (\<lambda>_. True), dd_parsesAsUrl = (\<lambda>_. True), dd_appUrl = ''https://a''\<rparr>"

definition sample_row_env :: row_env where
  "sample_row_env = \<lparr>re_nowMs = 0, re_send = (\<lambda>message key. Inl OtherSendError), re_aborted = False,
     re_sql = sample_env\<rparr>"

definition sample_delivery_env :: delivery_env where
  "sample_delivery_env = \<lparr>de_nowMs_default = 0, de_nowMs_check = 0, de_now = 5, de_claimToken = ''tok'',
     de_locked = (\<lambda>_. False), de_claim_sql = sample_env, de_nowMs_pool = 0,
     de_events = [Settle 0 sample_row_env], de_release_sql = sample_env\<rparr>"

definition sample_options :: delivery_options where
  "sample_options = \<lparr>do_limit = None, do_concurrency = None, do_perSendTimeoutMs = None,
     do_deadlineAtMs = None, do_eventTypes = None\<rparr>"

lemma sample_claim:
  "claimNotifications (de_locked sample_delivery_env) (de_claim_sql sample_delivery_env) (de_now sample_delivery_env)
     50 (de_claimToken sample_delivery_env) (do_eventTypes sample_options) (Some 15000) [sample_alert_row ''a''] =
   (Inr [mapClaimedRow (claim_row 5 ''tok'' (sample_alert_row ''a''))], [claim_row 5 ''tok'' (sample_alert_row ''a'')])"
  by (simp add: claimNotifications_def withDeadline_def run_statement_def sample_env_def claim_notifications_sql_def
      due_batch_def due_def in_scope_def sample_alert_row_def new_outbox_row_def sql_update_def sql_returning_def
      sample_delivery_env_def sample_options_def)

lemma sample_healthy:
  "list_all (healthy_event 15000) (de_events sample_delivery_env)"
  "healthy 15000 (de_release_sql sample_delivery_env)"
  "outbox_inv [sample_alert_row ''a'']"
  "\<forall>r \<in> set [sample_alert_row ''a'']. ob_claimToken r \<noteq> Some (de_claimToken sample_delivery_env)"
  by (simp_all add: sample_delivery_env_def healthy_event_def sample_row_env_def healthy_def sample_env_def
      outbox_inv_def outbox_row_ok_def outbox_checks_def sample_alert_row_def new_outbox_row_def)

theorem delivery_settles_every_claim_witness:
  "\<exists>s t'. deliver_claimed sample_deps sample_delivery_env 8000 15000
       [mapClaimedRow (claim_row 5 ''tok'' (sample_alert_row ''a''))] [claim_row 5 ''tok'' (sample_alert_row ''a'')] =
     (Inr s, t') \<and> ds_claimed s = 1 \<and> ds_lostClaims s = 0"
  using delivery_settles_every_claim [OF sample_healthy(3,4) sample_claim sample_healthy(1,2), of sample_deps 8000]
  by auto

lemma sample_pass:
  "\<exists>s t'. deliverPendingNotifications sample_deps sample_options sample_delivery_env [sample_alert_row ''a''] = (Inr s, t') \<and>
     ds_claimed s = 1"
proof -
  obtain hit os F s where s: "deliver_claimed sample_deps sample_delivery_env 8000 15000
      [mapClaimedRow (claim_row 5 ''tok'' (sample_alert_row ''a''))] [claim_row 5 ''tok'' (sample_alert_row ''a'')] =
      (Inr s, map F [sample_alert_row ''a''])"
    using healthy_pass [OF sample_healthy(3,4) refl refl sample_claim sample_healthy(1,2), of sample_deps 8000] by blast
  have "ds_claimed s = 1"
    using deliver_claimed_accounts [of "[claim_row 5 ''tok'' (sample_alert_row ''a'')]", OF _ _ disjI1, OF _ _ conjI]
      arg_cong [OF s, of fst] by fastforce
  moreover have "deliverPendingNotifications sample_deps sample_options sample_delivery_env [sample_alert_row ''a''] =
      (Inr s, map F [sample_alert_row ''a''])"
    using s sample_claim
    by (simp add: deliverPendingNotifications_def sample_options_def sample_delivery_env_def Let_def
        MAX_CLAIM_BATCH_SIZE_def MAX_SEND_CONCURRENCY_def DEFAULT_NOTIFICATION_SEND_TIMEOUT_MS_def
        DEFAULT_NOTIFICATION_DRAIN_TIMEOUT_MS_def)
  ultimately show ?thesis by blast
qed

theorem delivery_accounts_for_every_claim_witness:
  "\<exists>s. fst (deliverPendingNotifications sample_deps sample_options sample_delivery_env [sample_alert_row ''a'']) = Inr s \<and>
       ds_claimed s = 1 \<and> reported s = 1"
proof -
  obtain s t' where s: "deliverPendingNotifications sample_deps sample_options sample_delivery_env [sample_alert_row ''a''] = (Inr s, t')"
    "ds_claimed s = 1" using sample_pass by blast
  have "distinct (map ob_id [sample_alert_row ''a''])" by simp
  from delivery_accounts_for_every_claim [OF this arg_cong [OF s(1), of fst], of s "[]"] s
  show ?thesis by (auto simp: sample_delivery_env_def)
qed

end
