(* ===== verification/Atomic_Minute.thy ===== *)
theory Atomic_Minute
  imports Outbox Tables
begin

text \<open>
  The commit of one scheduled minute, \<open>lib/storage/atomic-minute.ts\<close>: \<open>persistAtomicMinute\<close> turns
  the results of a minute into telemetry, state changes, incidents, notifications and exceptions,
  and \<open>PERSIST_ATOMIC_MINUTE_SQL\<close> writes them all or not at all, once per minute and only on the
  snapshots it was computed from. A database is a record of tables; the statement commits when the
  resulting tables satisfy the constraints of \<open>lib/db/schema.ts\<close> and changes nothing otherwise.
  Foreign keys are not modelled. The instants the program passes as ISO strings and PostgreSQL
  casts back to \<open>timestamptz\<close> are instants here.
\<close>

subsection \<open>Texts\<close>

fun error_code_text :: "check_error_code \<Rightarrow> string" where
  "error_code_text TIMEOUT = ''TIMEOUT''"
| "error_code_text DNS_ERROR = ''DNS_ERROR''"
| "error_code_text CONNECTION_REFUSED = ''CONNECTION_REFUSED''"
| "error_code_text CONNECTION_RESET = ''CONNECTION_RESET''"
| "error_code_text TLS_ERROR = ''TLS_ERROR''"
| "error_code_text TOO_MANY_REDIRECTS = ''TOO_MANY_REDIRECTS''"
| "error_code_text INVALID_REDIRECT = ''INVALID_REDIRECT''"
| "error_code_text INVALID_STATUS = ''INVALID_STATUS''"
| "error_code_text CONTENT_MISMATCH = ''CONTENT_MISMATCH''"
| "error_code_text BLOCKED_TARGET = ''BLOCKED_TARGET''"
| "error_code_text INVALID_URL = ''INVALID_URL''"
| "error_code_text RESPONSE_ERROR = ''RESPONSE_ERROR''"
| "error_code_text UNKNOWN = ''UNKNOWN''"

text \<open>\<open>formatDuration\<close> of \<open>lib/reporting/format.ts\<close>; its argument is floored first, so it is an
  integer here.\<close>

definition formatDuration :: "int \<Rightarrow> string" where
  "formatDuration totalSeconds =
    (let seconds = max 0 totalSeconds
     in if seconds < 60 then int_string seconds @ ''s''
        else (let minutes = seconds div 60
              in if minutes < 60 then int_string minutes @ ''m '' @ int_string (seconds mod 60) @ ''s''
                 else (let hours = minutes div 60
                       in if hours < 24 then int_string hours @ ''h '' @ int_string (minutes mod 60) @ ''m''
                          else int_string (hours div 24) @ ''d '' @ int_string (hours mod 24) @ ''h'')))"

subsection \<open>Tables\<close>

record failure_detail =
  fd_statusCode :: "int option"
  fd_latencyMs :: int
  fd_errorCode :: "check_error_code option"
  fd_errorMessage :: "string option"
  fd_checkedAt :: string
  fd_effectiveUrl :: "string option"
  fd_redirectCount :: int
  fd_resolvedAddress :: "string option"

record exception_payload =
  xp_id :: string
  xp_payload :: failure_detail
  xp_createdAt :: instant
  xp_expiresAt :: instant

definition exception_payload_checks :: "exception_payload \<Rightarrow> bool" where
  "exception_payload_checks p \<longleftrightarrow> xp_expiresAt p > xp_createdAt p"

datatype exception_event =
  Ex_failure | Ex_recovery | Ex_pause | Ex_resume | Ex_scheduler_gap | Ex_configuration

record monitor_exception =
  mx_id :: string
  mx_monitorId :: string
  mx_eventType :: exception_event
  mx_errorCode :: "string option"
  mx_identityHash :: "byte list"
  mx_firstSeenAt :: instant
  mx_lastSeenAt :: instant
  mx_occurrenceCount :: int
  mx_worstLatencyMs :: "int option"
  mx_incidentId :: "string option"
  mx_payloadId :: "string option"

definition exception_key :: "monitor_exception \<Rightarrow> string \<times> exception_event \<times> byte list \<times> string" where
  "exception_key x = (mx_monitorId x, mx_eventType x, mx_identityHash x,
     or_else (mx_incidentId x) ''00000000-0000-0000-0000-000000000000'')"

definition exception_checks :: "monitor_exception \<Rightarrow> bool" where
  "exception_checks x \<longleftrightarrow> mx_occurrenceCount x > 0 \<and> mx_lastSeenAt x \<ge> mx_firstSeenAt x \<and>
     opt_nonneg (mx_worstLatencyMs x)"

definition monitor_state_checks :: "snapshot \<Rightarrow> bool" where
  "monitor_state_checks s \<longleftrightarrow> m_consecutiveFailures s \<ge> 0 \<and> m_consecutiveSuccesses s \<ge> 0 \<and>
     opt_nonneg (m_lastLatencyMs s) \<and> m_version s \<ge> 0"

record minute_commit =
  mc_scheduledMinute :: instant
  mc_stateMutationCount :: int
  mc_committedAt :: instant

record minute_db =
  md_batches :: "check_batch list"
  md_states :: "snapshot list"
  md_incidents :: "incident list"
  md_outbox :: "outbox_row list"
  md_payloads :: "exception_payload list"
  md_exceptions :: "monitor_exception list"
  md_commits :: "minute_commit list"

definition minute_constraints :: "minute_db \<Rightarrow> bool" where
  "minute_constraints db \<longleftrightarrow>
     list_all check_batch_checks (md_batches db) \<and> list_all monitor_state_checks (md_states db) \<and>
     list_all incident_checks (md_incidents db) \<and> one_active_per_monitor (md_incidents db) \<and>
     list_all outbox_checks (md_outbox db) \<and> distinct (map ob_id (md_outbox db)) \<and>
     list_all exception_payload_checks (md_payloads db) \<and>
     list_all exception_checks (md_exceptions db) \<and> distinct (map mx_id (md_exceptions db)) \<and>
     list_all (\<lambda>c. mc_stateMutationCount c \<ge> 0) (md_commits db) \<and>
     distinct (map mc_scheduledMinute (md_commits db))"

subsection \<open>The rows of a minute\<close>

record completed_check =
  ck_monitorId :: string
  ck_monitorName :: string
  ck_checkedAt :: instant
  ck_successful :: bool
  ck_statusCode :: "int option"
  ck_latencyMs :: int
  ck_effectiveUrl :: "string option"
  ck_redirectCount :: int
  ck_resolvedAddress :: "string option"
  ck_errorCode :: "check_error_code option"
  ck_errorMessage :: "string option"
  ck_failureThreshold :: int
  ck_recoveryThreshold :: int
  ck_recipients :: "string list"

record minute_input =
  am_scheduledMinute :: instant
  am_configVersion :: int
  am_monitorIds :: "string list"
  am_expectedMonitorIds :: "string list"
  am_results :: "completed_check list"
  am_states :: "string \<Rightarrow> snapshot option"
  am_schedulerStartedAt :: instant
  am_schedulerCompletedAt :: instant

record state_row =
  sr_state :: snapshot
  sr_monitorId :: string
  sr_expectedVersion :: int

record opened_row =
  or_id :: string
  or_monitorId :: string
  or_openedAt :: instant
  or_firstFailureAt :: instant
  or_lastFailureAt :: instant
  or_errorCode :: "check_error_code option"
  or_statusCode :: "int option"
  or_createdAt :: instant

record progressed_row =
  pr_id :: string
  pr_lastFailureAt :: "instant option"
  pr_firstSuccessAt :: "instant option"
  pr_clearFirstSuccess :: bool
  pr_updatedAt :: instant

record resolved_row =
  rr_id :: string
  rr_firstSuccessAt :: instant
  rr_updatedAt :: instant

record minute_rows =
  mn_states :: "state_row list"
  mn_opened :: "opened_row list"
  mn_progressed :: "progressed_row list"
  mn_resolved :: "resolved_row list"
  mn_outbox :: "(bool \<times> outbox_row) list"  \<comment> \<open>\<open>requiresOpen\<close> and the row to insert\<close>
  mn_payloads :: "exception_payload list"
  mn_exceptions :: "monitor_exception list"
  mn_stateChanged :: bool

definition no_rows :: minute_rows where
  "no_rows = \<lparr>mn_states = [], mn_opened = [], mn_progressed = [], mn_resolved = [], mn_outbox = [],
     mn_payloads = [], mn_exceptions = [], mn_stateChanged = False\<rparr>"

definition event_of_check :: "completed_check \<Rightarrow> check_event" where
  "event_of_check check =
     \<lparr>e_checkedAt = ck_checkedAt check, e_successful = ck_successful check,
      e_statusCode = ck_statusCode check, e_latencyMs = ck_latencyMs check,
      e_errorCode = ck_errorCode check, e_failureThreshold = ck_failureThreshold check,
      e_recoveryThreshold = ck_recoveryThreshold check\<rparr>"

definition exception_row ::
  "(string \<Rightarrow> byte list) \<Rightarrow> string \<Rightarrow> string \<Rightarrow> string \<Rightarrow> exception_event \<Rightarrow> string option \<Rightarrow> instant \<Rightarrow>
   int option \<Rightarrow> string option \<Rightarrow> string option \<Rightarrow> monitor_exception" where
  "exception_row sha256 idText identity monitorId eventType errorCode seenAt latencyMs incidentId payloadId =
     \<lparr>mx_id = deterministicUuid sha256 idText, mx_monitorId = monitorId, mx_eventType = eventType,
      mx_errorCode = errorCode, mx_identityHash = sha256 identity, mx_firstSeenAt = seenAt,
      mx_lastSeenAt = seenAt, mx_occurrenceCount = 1, mx_worstLatencyMs = latencyMs,
      mx_incidentId = incidentId, mx_payloadId = payloadId\<rparr>"

text \<open>A check expected in the minute that did not run.\<close>

definition gap_exception :: "(string \<Rightarrow> byte list) \<Rightarrow> instant \<Rightarrow> string \<Rightarrow> monitor_exception" where
  "gap_exception sha256 seenAt monitorId =
    (let identity = ''scheduler_gap/'' @ monitorId @ ''/'' @ toISOString seenAt
     in exception_row sha256 identity identity monitorId Ex_scheduler_gap
          (Some ''SCHEDULED_CHECK_MISSING'') seenAt None None None)"

text \<open>The incident a transition opens, resolves or goes on with: its id, the state that is
  persisted and the rows.\<close>

definition incident_rows ::
  "(string \<Rightarrow> byte list) \<Rightarrow> string \<Rightarrow> completed_check \<Rightarrow> state_transition \<Rightarrow> minute_rows \<Rightarrow>
   string option \<times> snapshot \<times> minute_rows" where
  "incident_rows sha256 monitorId check t rows =
    (let incidentId = m_activeIncidentId (t_state t) in
     case t_incident t of
       Some (OpenIncident openedAt firstFailureAt) \<Rightarrow>
         (let incidentId = incidentIdFor sha256 monitorId firstFailureAt
          in (Some incidentId, (t_state t)\<lparr>m_activeIncidentId := Some incidentId\<rparr>,
              rows\<lparr>mn_opened := mn_opened rows @
                [\<lparr>or_id = incidentId, or_monitorId = monitorId, or_openedAt = openedAt,
                  or_firstFailureAt = firstFailureAt, or_lastFailureAt = ck_checkedAt check,
                  or_errorCode = ck_errorCode check, or_statusCode = ck_statusCode check,
                  or_createdAt = ck_checkedAt check\<rparr>]\<rparr>))
     | Some (ResolveIncident iid openedAt resolvedAt firstSuccessAt) \<Rightarrow>
         (Some iid, t_state t,
          rows\<lparr>mn_resolved := mn_resolved rows @
            [\<lparr>rr_id = iid, rr_firstSuccessAt = firstSuccessAt, rr_updatedAt = ck_checkedAt check\<rparr>]\<rparr>)
     | None \<Rightarrow>
         if truthy incidentId \<and> \<not> ck_successful check \<and> t_previousState t \<in> {DOWN, VERIFYING_UP} then
           (incidentId, t_state t,
            rows\<lparr>mn_progressed := mn_progressed rows @
              [\<lparr>pr_id = or_else incidentId [], pr_lastFailureAt = Some (ck_checkedAt check),
                pr_firstSuccessAt = None, pr_clearFirstSuccess = True,
                pr_updatedAt = ck_checkedAt check\<rparr>]\<rparr>)
         else if truthy incidentId \<and> ck_successful check \<and> t_previousState t = DOWN \<and>
                 m_state (t_state t) = VERIFYING_UP then
           (incidentId, t_state t,
            rows\<lparr>mn_progressed := mn_progressed rows @
              [\<lparr>pr_id = or_else incidentId [], pr_lastFailureAt = None,
                pr_firstSuccessAt = m_firstSuccessAt (t_state t), pr_clearFirstSuccess = False,
                pr_updatedAt = ck_checkedAt check\<rparr>]\<rparr>)
         else (incidentId, t_state t, rows))"

definition incident_payload :: "completed_check \<Rightarrow> string \<Rightarrow> incident_intent \<Rightarrow> notification_payload" where
  "incident_payload check incidentId incident = (case incident of
      OpenIncident openedAt firstFailureAt \<Rightarrow>
        P_incident_opened (ck_monitorName check) incidentId (toISOString openedAt)
          (case ck_errorMessage check of Some message \<Rightarrow> message
           | None \<Rightarrow> (case ck_statusCode check of
               Some code \<Rightarrow> if code \<noteq> 0 then ''HTTP '' @ int_string code
                            else (case ck_errorCode check of Some e \<Rightarrow> error_code_text e | None \<Rightarrow> ''Check failed'')
             | None \<Rightarrow> (case ck_errorCode check of Some e \<Rightarrow> error_code_text e | None \<Rightarrow> ''Check failed'')))
    | ResolveIncident iid openedAt resolvedAt firstSuccessAt \<Rightarrow>
        P_incident_resolved (ck_monitorName check) incidentId (toISOString firstSuccessAt)
          (formatDuration ((firstSuccessAt - openedAt) div 1000)))"

definition incident_notifications ::
  "(string \<Rightarrow> byte list) \<Rightarrow> string \<Rightarrow> completed_check \<Rightarrow> string \<Rightarrow> incident_intent \<Rightarrow> (bool \<times> outbox_row) list" where
  "incident_notifications sha256 monitorId check incidentId incident =
    (let event = (case incident of OpenIncident _ _ \<Rightarrow> Opened | _ \<Rightarrow> Resolved);
         recipients = sort (js_unique (map (\<lambda>r. js_lower (js_trim r)) (ck_recipients check)))
     in map (\<lambda>recipient.
          (let key = incidentNotificationKey sha256 incidentId event recipient
           in (event = Opened,
               new_outbox_row (deterministicUuid sha256 (''outbox/'' @ key)) (Some incidentId) (Some monitorId)
                 None (incident_payload check incidentId incident) recipient key (ck_checkedAt check))))
          recipients)"

definition recovery_exception ::
  "(string \<Rightarrow> byte list) \<Rightarrow> instant \<Rightarrow> string \<Rightarrow> completed_check \<Rightarrow> string \<Rightarrow> monitor_exception" where
  "recovery_exception sha256 seenAt monitorId check incidentId =
    (let identity = ''recovery/'' @ monitorId @ ''/'' @ incidentId
     in exception_row sha256 identity identity monitorId Ex_recovery None seenAt
          (Some (ck_latencyMs check)) (Some incidentId) None)"

definition record_transition ::
  "(string \<Rightarrow> byte list) \<Rightarrow> instant \<Rightarrow> string \<Rightarrow> completed_check \<Rightarrow> snapshot \<Rightarrow> state_transition \<Rightarrow>
   minute_rows \<Rightarrow> snapshot \<times> minute_rows" where
  "record_transition sha256 seenAt monitorId check current t rows =
    (let (incidentId, state, rows) = incident_rows sha256 monitorId check t rows;
         rows = rows\<lparr>mn_states := mn_states rows @
           [\<lparr>sr_state = state, sr_monitorId = monitorId, sr_expectedVersion = m_version current\<rparr>]\<rparr>;
         rows = (case t_incident t of
             Some incident \<Rightarrow>
               if truthy incidentId then
                 rows\<lparr>mn_outbox := mn_outbox rows @
                   incident_notifications sha256 monitorId check (or_else incidentId []) incident\<rparr>
               else rows
           | None \<Rightarrow> rows);
         rows = (case t_incident t of
             Some (ResolveIncident _ _ _ _) \<Rightarrow>
               if truthy incidentId then
                 rows\<lparr>mn_exceptions := mn_exceptions rows @
                   [recovery_exception sha256 seenAt monitorId check (or_else incidentId [])]\<rparr>
               else rows
           | _ \<Rightarrow> rows)
     in (state, rows))"

definition record_failure ::
  "(string \<Rightarrow> byte list) \<Rightarrow> instant \<Rightarrow> string \<Rightarrow> completed_check \<Rightarrow> snapshot \<Rightarrow> minute_rows \<Rightarrow> minute_rows" where
  "record_failure sha256 seenAt monitorId check state rows =
    (let incidentId = m_activeIncidentId state;
         code = (case ck_errorCode check of Some e \<Rightarrow> error_code_text e | None \<Rightarrow> ''CHECK_FAILED'');
         identity = ''failure/'' @ monitorId @ ''/'' @ code;
         payloadId = deterministicUuid sha256 (''exception-payload/'' @ monitorId @ ''/'' @ toISOString seenAt)
     in rows\<lparr>mn_payloads := mn_payloads rows @
               [\<lparr>xp_id = payloadId,
                 xp_payload = \<lparr>fd_statusCode = ck_statusCode check, fd_latencyMs = ck_latencyMs check,
                   fd_errorCode = ck_errorCode check, fd_errorMessage = ck_errorMessage check,
                   fd_checkedAt = toISOString (ck_checkedAt check), fd_effectiveUrl = ck_effectiveUrl check,
                   fd_redirectCount = ck_redirectCount check, fd_resolvedAddress = ck_resolvedAddress check\<rparr>,
                 xp_createdAt = ck_checkedAt check,
                 xp_expiresAt = ck_checkedAt check + 30 * 86400000\<rparr>],
             mn_exceptions := mn_exceptions rows @
               [exception_row sha256 (identity @ ''/'' @ or_else incidentId ''none'') identity monitorId
                  Ex_failure (Some code) seenAt (Some (ck_latencyMs check)) incidentId (Some payloadId)]\<rparr>)"

text \<open>The body of the loop over the monitors.\<close>

definition minute_monitor ::
  "(string \<Rightarrow> byte list) \<Rightarrow> minute_input \<Rightarrow> (string \<Rightarrow> completed_check option) \<Rightarrow> minute_rows \<Rightarrow> string \<Rightarrow>
   js_error + minute_rows" where
  "minute_monitor sha256 input results rows monitorId =
    (case results monitorId of
       None \<Rightarrow>
         Inr (if monitorId \<in> set (am_expectedMonitorIds input) then
                rows\<lparr>mn_exceptions := mn_exceptions rows @
                  [gap_exception sha256 (am_scheduledMinute input) monitorId]\<rparr>
              else rows)
     | Some check \<Rightarrow>
         (case am_states input monitorId of
            None \<Rightarrow> Inl (Error (''Monitor state not found: '' @ monitorId))
          | Some current \<Rightarrow>
              res_bind (transitionMonitor current (CheckEvent (event_of_check check))) (\<lambda>t.
                let rows = rows\<lparr>mn_stateChanged := mn_stateChanged rows \<or> t_changed t\<rparr>;
                    (state, rows) = (if t_state t \<noteq> current
                       then record_transition sha256 (am_scheduledMinute input) monitorId check current t rows
                       else (t_state t, rows))
                in Inr (if ck_successful check then rows
                        else record_failure sha256 (am_scheduledMinute input) monitorId check state rows))))"

text \<open>\<open>results\<close>, with its two guards.\<close>

fun minute_results ::
  "string list \<Rightarrow> completed_check list \<Rightarrow> (string \<Rightarrow> completed_check option) \<Rightarrow>
   js_error + (string \<Rightarrow> completed_check option)" where
  "minute_results expected [] results = Inr results"
| "minute_results expected (r # rs) results =
     (if results (ck_monitorId r) \<noteq> None then
        Inl (Error (''Duplicate minute result: '' @ ck_monitorId r))
      else if ck_monitorId r \<notin> set expected then
        Inl (Error (''Unexpected minute result: '' @ ck_monitorId r))
      else minute_results expected rs (results(ck_monitorId r \<mapsto> r)))"

definition telemetry_of ::
  "string list \<Rightarrow> (string \<Rightarrow> completed_check option) \<Rightarrow> string \<Rightarrow> telemetry_value" where
  "telemetry_of expected results monitorId =
     \<lparr>tv_expected = monitorId \<in> set expected, tv_completed = results monitorId \<noteq> None,
      tv_failed = (case results monitorId of Some r \<Rightarrow> \<not> ck_successful r | None \<Rightarrow> False),
      tv_latencyMs = map_option ck_latencyMs (results monitorId)\<rparr>"

subsection \<open>The statement\<close>

definition opened_incident :: "opened_row \<Rightarrow> incident" where
  "opened_incident r =
     \<lparr>in_id = or_id r, in_monitorId = or_monitorId r, in_openedAt = or_openedAt r,
      in_firstFailureAt = or_firstFailureAt r, in_lastFailureAt = Some (or_lastFailureAt r),
      in_firstSuccessAt = None, in_resolvedAt = None, in_openingErrorCode = or_errorCode r,
      in_openingStatusCode = or_statusCode r, in_resolutionReason = None,
      in_createdAt = or_createdAt r, in_updatedAt = or_createdAt r\<rparr>"

text \<open>\<open>coalesce(x, y)\<close>.\<close>

definition sql_coalesce :: "'a option \<Rightarrow> 'a option \<Rightarrow> 'a option" where
  "sql_coalesce x y = (case x of None \<Rightarrow> y | Some v \<Rightarrow> Some v)"

definition progressed_incident :: "progressed_row \<Rightarrow> incident \<Rightarrow> incident" where
  "progressed_incident r i =
     i\<lparr>in_lastFailureAt := sql_coalesce (pr_lastFailureAt r) (in_lastFailureAt i),
       in_firstSuccessAt := (if pr_clearFirstSuccess r then None
                             else sql_coalesce (pr_firstSuccessAt r) (in_firstSuccessAt i)),
       in_updatedAt := pr_updatedAt r\<rparr>"

definition recovered_incident :: "resolved_row \<Rightarrow> incident \<Rightarrow> incident" where
  "recovered_incident r i =
     i\<lparr>in_firstSuccessAt := Some (rr_firstSuccessAt r), in_resolvedAt := Some (rr_firstSuccessAt r),
       in_resolutionReason := Some ''recovered'', in_updatedAt := rr_updatedAt r\<rparr>"

text \<open>\<open>progressed\<close> and \<open>resolved\<close> update the rows as they were before the statement; a row is
  updated once.\<close>

definition updated_incident :: "minute_rows \<Rightarrow> incident \<Rightarrow> incident" where
  "updated_incident rows i =
    (if in_resolvedAt i \<noteq> None then i
     else (case find (\<lambda>r. pr_id r = in_id i) (mn_progressed rows) of
         Some r \<Rightarrow> progressed_incident r i
       | None \<Rightarrow> (case find (\<lambda>r. rr_id r = in_id i) (mn_resolved rows) of
           Some r \<Rightarrow> recovered_incident r i
         | None \<Rightarrow> i)))"

text \<open>\<open>on conflict ... do update\<close>: the row that was there meets the one excluded.\<close>

definition merged_exception :: "monitor_exception \<Rightarrow> monitor_exception \<Rightarrow> monitor_exception" where
  "merged_exception old excluded =
     old\<lparr>mx_firstSeenAt := min (mx_firstSeenAt old) (mx_firstSeenAt excluded),
         mx_lastSeenAt := max (mx_lastSeenAt old) (mx_lastSeenAt excluded),
         mx_occurrenceCount := mx_occurrenceCount old + 1,
         mx_worstLatencyMs :=
           (case (mx_worstLatencyMs old, mx_worstLatencyMs excluded) of
              (None, x) \<Rightarrow> x | (Some x, None) \<Rightarrow> Some x | (Some x, Some y) \<Rightarrow> Some (max x y)),
         mx_payloadId := sql_coalesce (mx_payloadId excluded) (mx_payloadId old)\<rparr>"

definition merge_exceptions :: "monitor_exception list \<Rightarrow> monitor_exception list \<Rightarrow> js_error + monitor_exception list" where
  "merge_exceptions new t =
    (if \<not> distinct (map exception_key new) then
       Inl (Error ''ON CONFLICT DO UPDATE command cannot affect row a second time'')
     else Inr (map (\<lambda>x. case row_at exception_key (exception_key x) new of
                    Some e \<Rightarrow> merged_exception x e | None \<Rightarrow> x) t @
               filter (\<lambda>e. exception_key e \<notin> exception_key ` set t) new))"

definition state_hit :: "state_row list \<Rightarrow> snapshot \<Rightarrow> state_row option" where
  "state_hit rows s = find (\<lambda>r. sr_monitorId r = m_monitorId s \<and> sr_expectedVersion r = m_version s) rows"

definition updated_state :: "state_row list \<Rightarrow> snapshot \<Rightarrow> snapshot" where
  "updated_state rows s = (case state_hit rows s of
      Some r \<Rightarrow> (sr_state r)\<lparr>m_monitorId := m_monitorId s\<rparr>
    | None \<Rightarrow> s)"

definition minute_effects :: "check_batch \<Rightarrow> minute_rows \<Rightarrow> minute_db \<Rightarrow> js_error + minute_db" where
  "minute_effects batch rows db =
    (let opened = snd (sql_insert_new in_id (map opened_incident (mn_opened rows)) (md_incidents db));
         outbox = fst (sql_insert_new ob_idempotencyKey
           (map snd (filter (\<lambda>(requiresOpen, r). \<not> requiresOpen \<or> (\<exists>i \<in> set opened. Some (in_id i) = ob_incidentId r))
                       (mn_outbox rows))) (md_outbox db));
         (payloads, newPayloads) = sql_insert_new xp_id (mn_payloads rows) (md_payloads db);
         admitted = filter (\<lambda>e. case mx_payloadId e of None \<Rightarrow> True | Some i \<Rightarrow> i \<in> set (map xp_id newPayloads))
                      (mn_exceptions rows);
         stateUpdates = filter (\<lambda>s. state_hit (mn_states rows) s \<noteq> None) (md_states db)
     in res_bind (merge_exceptions admitted (md_exceptions db)) (\<lambda>exceptions.
        if length stateUpdates \<noteq> length (mn_states rows) then
          Inl (Error ''Atomic minute state version mismatch'')
        else Inr \<lparr>md_batches = md_batches db @ [batch],
                  md_states = map (updated_state (mn_states rows)) (md_states db),
                  md_incidents = map (updated_incident rows) (md_incidents db) @ opened,
                  md_outbox = outbox, md_payloads = payloads, md_exceptions = exceptions,
                  md_commits = md_commits db @
                    [\<lparr>mc_scheduledMinute = cb_scheduledMinute batch,
                      mc_stateMutationCount = int (length stateUpdates),
                      mc_committedAt = cb_createdAt batch\<rparr>]\<rparr>))"

text \<open>Without the batch row every other part of the statement is empty.\<close>

definition persist_atomic_minute_sql :: "check_batch \<Rightarrow> minute_rows \<Rightarrow> minute_db \<Rightarrow> js_error + minute_db" where
  "persist_atomic_minute_sql batch rows db =
    (if cb_scheduledMinute batch \<in> cb_scheduledMinute ` set (md_batches db) then Inr db
     else res_bind (minute_effects batch rows db) (\<lambda>db'.
       if minute_constraints db' then Inr db' else Inl (Error ''constraint violation'')))"

subsection \<open>The operation\<close>

datatype invalidation = State_transition | Completed_rollup_bucket

definition minute_batch :: "minute_input \<Rightarrow> string list \<Rightarrow> packed_telemetry \<Rightarrow> check_batch" where
  "minute_batch input monitorIds packed =
     \<lparr>cb_scheduledMinute = am_scheduledMinute input, cb_configVersion = am_configVersion input,
      cb_monitorIds = monitorIds, cb_packed = packed,
      cb_schedulerStartedAt = am_schedulerStartedAt input,
      cb_schedulerCompletedAt = Some (am_schedulerCompletedAt input),
      cb_createdAt = am_schedulerCompletedAt input\<rparr>"

text \<open>What the operation computes before the statement.\<close>

definition compute_minute ::
  "(string \<Rightarrow> byte list) \<Rightarrow> minute_input \<Rightarrow> js_error + (check_batch \<times> minute_rows)" where
  "compute_minute sha256 input =
    (let monitorIds = sort (js_unique (am_monitorIds input))
     in if length monitorIds \<noteq> length (am_monitorIds input) then Inl (Error ''Duplicate monitor mapping'')
        else res_bind (minute_results (am_expectedMonitorIds input) (am_results input) (\<lambda>_. None)) (\<lambda>results.
             res_bind (encodeTelemetry (map (telemetry_of (am_expectedMonitorIds input) results) monitorIds)) (\<lambda>packed.
             res_bind (run_steps (minute_monitor sha256 input results) no_rows monitorIds) (\<lambda>rows.
               Inr (minute_batch input monitorIds packed, rows)))))"

text \<open>\<open>invalidates\<close>: whether the caller passed \<open>invalidatePublicStatus\<close>.\<close>

definition persistAtomicMinute ::
  "(string \<Rightarrow> byte list) \<Rightarrow> bool \<Rightarrow> minute_input \<Rightarrow> minute_db \<Rightarrow> js_error + (minute_db \<times> invalidation option)" where
  "persistAtomicMinute sha256 invalidates input db =
     res_bind (compute_minute sha256 input) (\<lambda>(batch, rows).
     res_bind (persist_atomic_minute_sql batch rows db) (\<lambda>db'.
       Inr (db', if \<not> invalidates then None
                 else if mn_stateChanged rows then Some State_transition
                 else if (am_scheduledMinute input div 60000 + 1) mod 15 = 0 then Some Completed_rollup_bucket
                 else None)))"

end
