(* ===== verification/Minute_Agreement.thy ===== *)
theory Minute_Agreement
  imports Atomic_Minute
begin

text \<open>
  What the commits of minutes (\<open>Atomic_Minute\<close>) keep: the snapshot of a monitor and the table of
  incidents agree. A snapshot names an incident exactly when the monitor has that unresolved
  incident, every incident belongs to a known monitor, and no check opens an incident under an id
  that is taken.
\<close>

subsection \<open>What one monitor contributes to a minute\<close>

definition monitor_change ::
  "minute_input \<Rightarrow> (string \<Rightarrow> completed_check option) \<Rightarrow> string \<Rightarrow>
   (completed_check \<times> snapshot \<times> state_transition) option" where
  "monitor_change input results m =
    (case results m of None \<Rightarrow> None
     | Some check \<Rightarrow> (case am_states input m of None \<Rightarrow> None
       | Some cur \<Rightarrow> (case transitionMonitor cur (CheckEvent (event_of_check check)) of Inl _ \<Rightarrow> None
         | Inr t \<Rightarrow> if t_state t \<noteq> cur then Some (check, cur, t) else None)))"

definition changed_rows ::
  "(string \<Rightarrow> byte list) \<Rightarrow> minute_input \<Rightarrow> (string \<Rightarrow> completed_check option) \<Rightarrow> string \<Rightarrow>
   snapshot option \<times> minute_rows" where
  "changed_rows sha256 input results m = (case monitor_change input results m of
      None \<Rightarrow> (None, no_rows)
    | Some (check, cur, t) \<Rightarrow>
        (let (iid, state, rows) = incident_rows sha256 m check t no_rows
         in (Some state, rows\<lparr>mn_states := [\<lparr>sr_state = state, sr_monitorId = m, sr_expectedVersion = m_version cur\<rparr>]\<rparr>)))"

lemma run_steps_collect:
  assumes "\<And>a m a'. step a m = Inr a' \<Longrightarrow> f a' = f a @ g m"
  shows "run_steps step a ms = Inr a' \<Longrightarrow> f a' = f a @ concat (map g ms)"
proof (induction ms arbitrary: a)
  case Nil
  then show ?case by simp
next
  case (Cons m ms)
  then obtain b where "step a m = Inr b" "run_steps step b ms = Inr a'" by (auto simp: res_bind_Inr_iff)
  with Cons.IH assms show ?case by simp
qed

text \<open>The rows a transition adds do not depend on the rows already there.\<close>

lemma incident_rows_frame:
  assumes "incident_rows sha m check t rows = (iid, state, rows')"
    and "incident_rows sha m check t no_rows = (iid0, state0, r)"
  shows "iid = iid0 \<and> state = state0 \<and> mn_states rows' = mn_states rows \<and>
    mn_opened rows' = mn_opened rows @ mn_opened r \<and> mn_progressed rows' = mn_progressed rows @ mn_progressed r \<and>
    mn_resolved rows' = mn_resolved rows @ mn_resolved r"
  using assms
  by (auto simp: incident_rows_def no_rows_def Let_def split: option.splits incident_intent.splits if_splits)

lemma record_transition_rows:
  assumes "incident_rows sha m check t rows = (iid, state, rows1)"
    and "record_transition sha at m check cur t rows = (state', rows')"
  shows "state' = state \<and>
    mn_states rows' = mn_states rows1 @ [\<lparr>sr_state = state, sr_monitorId = m, sr_expectedVersion = m_version cur\<rparr>] \<and>
    mn_opened rows' = mn_opened rows1 \<and> mn_progressed rows' = mn_progressed rows1 \<and>
    mn_resolved rows' = mn_resolved rows1"
  using assms
  by (auto simp: record_transition_def Let_def split: option.splits incident_intent.splits if_splits)

lemma minute_monitor_rows:
  assumes "minute_monitor sha input results rows m = Inr rows'"
  shows "mn_states rows' = mn_states rows @ mn_states (snd (changed_rows sha input results m))"
    "mn_opened rows' = mn_opened rows @ mn_opened (snd (changed_rows sha input results m))"
    "mn_progressed rows' = mn_progressed rows @ mn_progressed (snd (changed_rows sha input results m))"
    "mn_resolved rows' = mn_resolved rows @ mn_resolved (snd (changed_rows sha input results m))"
proof -
  define same where "same = (\<lambda>a b. mn_states b = mn_states (a::minute_rows) \<and> mn_opened b = mn_opened a \<and>
    mn_progressed b = mn_progressed a \<and> mn_resolved (b::minute_rows) = mn_resolved a)"
  have fail: "same r (if ck_successful check then r else record_failure sha at m check state r)" for check at state r
    by (simp add: same_def record_failure_def Let_def)
  have "\<exists>r. same r rows' \<and> mn_states r = mn_states rows @ mn_states (snd (changed_rows sha input results m)) \<and>
    mn_opened r = mn_opened rows @ mn_opened (snd (changed_rows sha input results m)) \<and>
    mn_progressed r = mn_progressed rows @ mn_progressed (snd (changed_rows sha input results m)) \<and>
    mn_resolved r = mn_resolved rows @ mn_resolved (snd (changed_rows sha input results m))"
  proof (cases "results m")
    case None
    with assms show ?thesis
      by (intro exI [of _ rows]) (auto simp: minute_monitor_def changed_rows_def monitor_change_def no_rows_def same_def)
  next
    case (Some check)
    with assms obtain cur where cur: "am_states input m = Some cur"
      by (auto simp: minute_monitor_def split: option.splits)
    with Some assms obtain t where t: "transitionMonitor cur (CheckEvent (event_of_check check)) = Inr t"
      by (auto simp: minute_monitor_def res_bind_Inr_iff)
    define rows0 where "rows0 = rows\<lparr>mn_stateChanged := mn_stateChanged rows \<or> t_changed t\<rparr>"
    have rows0: "same rows rows0" by (simp add: rows0_def same_def)
    show ?thesis
    proof (cases "t_state t = cur")
      case True
      have ch: "changed_rows sha input results m = (None, no_rows)"
        by (simp add: changed_rows_def monitor_change_def Some cur t True)
      have "same rows0 rows'"
        using assms fail [of rows0 check "am_scheduledMinute input" "t_state t"] Some cur t True
        by (auto simp: minute_monitor_def Let_def rows0_def)
      with rows0 show ?thesis unfolding ch by (intro exI [of _ rows0]) (simp add: same_def no_rows_def)
    next
      case False
      obtain iid state r where r: "incident_rows sha m check t no_rows = (iid, state, r)" by (cases "incident_rows sha m check t no_rows")
      obtain iid1 state1 r1 where r1: "incident_rows sha m check t rows0 = (iid1, state1, r1)" by (cases "incident_rows sha m check t rows0")
      obtain state2 r2 where r2: "record_transition sha (am_scheduledMinute input) m check cur t rows0 = (state2, r2)" by fastforce
      note fr = incident_rows_frame [OF r1 r] record_transition_rows [OF r1 r2]
      have ch: "changed_rows sha input results m =
          (Some state, r\<lparr>mn_states := [\<lparr>sr_state = state, sr_monitorId = m, sr_expectedVersion = m_version cur\<rparr>]\<rparr>)"
        by (simp add: changed_rows_def monitor_change_def Some cur t False r)
      have "same r2 rows'"
        using assms fail [of r2 check "am_scheduledMinute input" state2] Some cur t False r2
        by (auto simp: minute_monitor_def Let_def rows0_def)
      with fr rows0 show ?thesis unfolding ch by (intro exI [of _ r2]) (simp add: same_def)
    qed
  qed
  then show "mn_states rows' = mn_states rows @ mn_states (snd (changed_rows sha input results m))"
    "mn_opened rows' = mn_opened rows @ mn_opened (snd (changed_rows sha input results m))"
    "mn_progressed rows' = mn_progressed rows @ mn_progressed (snd (changed_rows sha input results m))"
    "mn_resolved rows' = mn_resolved rows @ mn_resolved (snd (changed_rows sha input results m))"
    by (auto simp: same_def)
qed

lemma minute_rows_collect:
  assumes "run_steps (minute_monitor sha input results) no_rows ms = Inr rows"
  shows "mn_states rows = concat (map (\<lambda>m. mn_states (snd (changed_rows sha input results m))) ms)"
    "mn_opened rows = concat (map (\<lambda>m. mn_opened (snd (changed_rows sha input results m))) ms)"
    "mn_progressed rows = concat (map (\<lambda>m. mn_progressed (snd (changed_rows sha input results m))) ms)"
    "mn_resolved rows = concat (map (\<lambda>m. mn_resolved (snd (changed_rows sha input results m))) ms)"
  using run_steps_collect [where f = mn_states, OF minute_monitor_rows(1) assms]
    run_steps_collect [where f = mn_opened, OF minute_monitor_rows(2) assms]
    run_steps_collect [where f = mn_progressed, OF minute_monitor_rows(3) assms]
    run_steps_collect [where f = mn_resolved, OF minute_monitor_rows(4) assms]
  by (simp_all add: no_rows_def)

subsection \<open>What a check does to one monitor and its incidents\<close>

lemma checkedState_first_failure:
  assumes "checkedState s e = Inr (n, i)" and "n \<noteq> s"
    and "m_firstFailureAt n = Some f" and "\<not> in_outage (m_state s) \<or> \<not> in_outage (m_state n)"
  shows "f = e_checkedAt e \<or> \<not> in_outage (m_state s) \<and> m_firstFailureAt s = Some f"
  using assms
  by (cases "m_state s"; cases "m_firstFailureAt s")
    (auto simp: check_defs CHECK_STATES_def in_outage_def split: if_splits option.splits)

lemma checkedState_last_checked:
  "checkedState s e = Inr (n, i) \<Longrightarrow> n \<noteq> s \<Longrightarrow> m_lastCheckedAt n = Some (e_checkedAt e)"
  by (auto simp: check_defs split: if_splits option.splits)

lemma checkedState_stays:
  "checkedState s e = Inr (n, i) \<Longrightarrow> m_state s \<in> set CHECK_STATES \<Longrightarrow> m_state n \<in> set CHECK_STATES"
  by (cases "m_state s") (auto simp: check_defs CHECK_STATES_def split: if_splits option.splits)

text \<open>The three things a changed monitor may ask of the incidents.\<close>

definition keeps_incident :: "snapshot \<Rightarrow> snapshot \<Rightarrow> minute_rows \<Rightarrow> bool" where
  "keeps_incident cur state r \<longleftrightarrow> m_activeIncidentId state = m_activeIncidentId cur \<and>
     mn_opened r = [] \<and> mn_resolved r = [] \<and>
     (\<forall>p \<in> set (mn_progressed r). m_activeIncidentId cur = Some (pr_id p))"

definition opens_incident :: "string \<Rightarrow> instant \<Rightarrow> snapshot \<Rightarrow> snapshot \<Rightarrow> minute_rows \<Rightarrow> bool" where
  "opens_incident m at cur state r \<longleftrightarrow> mn_progressed r = [] \<and> mn_resolved r = [] \<and>
     \<not> in_outage (m_state cur) \<and> in_outage (m_state state) \<and> m_activeIncidentId cur = None \<and>
     (\<exists>opn. mn_opened r = [opn] \<and> or_monitorId opn = m \<and> m_activeIncidentId state = Some (or_id opn) \<and>
        (or_firstFailureAt opn = at \<or> m_firstFailureAt cur = Some (or_firstFailureAt opn)) \<and>
        or_firstFailureAt opn \<le> at)"

definition resolves_incident :: "snapshot \<Rightarrow> snapshot \<Rightarrow> minute_rows \<Rightarrow> bool" where
  "resolves_incident cur state r \<longleftrightarrow> mn_opened r = [] \<and> mn_progressed r = [] \<and>
     m_activeIncidentId state = None \<and>
     (\<exists>x. mn_resolved r = [x] \<and> m_activeIncidentId cur = Some (rr_id x))"

lemma change_incident:
  assumes "incident_ok cur" and "thresholds_ok (event_of_check check)" and "chrono_ok cur"
    and "not_before cur (event_of_check check)"
    and "transitionMonitor cur (CheckEvent (event_of_check check)) = Inr t" and "t_state t \<noteq> cur"
    and "m_monitorId cur = m" and "incident_rows sha m check t no_rows = (iid, state, r)"
  shows "state = attachIncident (incidentIdFor sha) t \<and>
    (keeps_incident cur state r \<or> opens_incident m (ck_checkedAt check) cur state r \<or> resolves_incident cur state r)"
proof -
  let ?e = "event_of_check check"
  obtain n i where c: "checkedState cur ?e = Inr (n, i)"
    and t: "t = \<lparr>t_previousState = m_state cur, t_state = n, t_changed = (m_state n \<noteq> m_state cur), t_incident = i\<rparr>"
    using assms(5) by (auto simp: transitionMonitor_def res_bind_Inr_iff)
  have fits: "incident_fits cur n i" by (rule checkedState_incident [OF assms(1,2) c])
  have mid: "m_monitorId n = m" using checkedState_frame [OF c] assms(7) by simp
  have ne: "n \<noteq> cur" using assms(6) t by simp
  have at: "e_checkedAt ?e = ck_checkedAt check" by (simp add: event_of_check_def)
  show ?thesis
  proof (cases i)
    case None
    with fits have "m_activeIncidentId n = m_activeIncidentId cur" by (simp add: incident_fits_def)
    with None assms(8) show ?thesis
      by (auto simp: incident_rows_def t no_rows_def keeps_incident_def attachIncident_def Let_def
          elim!: truthyE split: if_splits)
  next
    case (Some intent)
    show ?thesis
    proof (cases intent)
      case (OpenIncident opn ff)
      with Some fits have f: "m_state n = DOWN" "m_activeIncidentId cur = None" "\<not> in_outage (m_state cur)"
        "m_firstFailureAt n = Some ff" by (simp_all add: incident_fits_def)
      have ff: "ff = ck_checkedAt check \<or> m_firstFailureAt cur = Some ff"
        using checkedState_first_failure [OF c ne f(4)] f(3) at by simp
      moreover have "m_firstFailureAt cur = Some ff \<Longrightarrow> ff \<le> ck_checkedAt check"
        using chrono_now(1) [OF assms(3,4)] at by simp
      ultimately show ?thesis using Some OpenIncident assms(8) f mid
        by (auto simp: incident_rows_def t no_rows_def opens_incident_def attachIncident_def in_outage_def Let_def)
    next
      case (ResolveIncident iid' opn rs fs)
      with Some fits have "m_activeIncidentId cur = Some iid'" "m_state n = UP" "incident_ok n"
        by (simp_all add: incident_fits_def)
      with Some ResolveIncident assms(8) show ?thesis
        by (auto simp: incident_rows_def t no_rows_def resolves_incident_def attachIncident_def Let_def
            incident_ok_def in_outage_def)
    qed
  qed
qed

subsection \<open>Agreement\<close>

definition unresolved_of :: "minute_db \<Rightarrow> string \<Rightarrow> string \<Rightarrow> bool" where
  "unresolved_of db m i \<longleftrightarrow>
     (\<exists>inc \<in> set (md_incidents db). in_id inc = i \<and> in_monitorId inc = m \<and> in_resolvedAt inc = None)"

text \<open>An incident of a monitor began no later than its last check, and before the failure streak in
  progress, if the monitor is not in an outage.\<close>

definition began_before :: "snapshot \<Rightarrow> incident \<Rightarrow> bool" where
  "began_before s inc \<longleftrightarrow> opt_le (Some (in_firstFailureAt inc)) (m_lastCheckedAt s) \<and>
     (\<not> in_outage (m_state s) \<longrightarrow> (\<forall>f. m_firstFailureAt s = Some f \<longrightarrow> in_firstFailureAt inc < f))"

definition agreement :: "minute_db \<Rightarrow> bool" where
  "agreement db \<longleftrightarrow>
     distinct (map m_monitorId (md_states db)) \<and> distinct (map in_id (md_incidents db)) \<and>
     (\<forall>s \<in> set (md_states db). monitor_inv s \<and>
        (\<forall>i. m_activeIncidentId s = Some i \<longleftrightarrow> unresolved_of db (m_monitorId s) i)) \<and>
     (\<forall>inc \<in> set (md_incidents db). \<exists>s \<in> set (md_states db). m_monitorId s = in_monitorId inc \<and> began_before s inc)"

text \<open>
  What a minute may be called with: thresholds are positive, a check comes after the last recorded
  check of its monitor, a snapshot read at a version is the snapshot stored at that version, and the
  identifiers derived for opened incidents collide neither with each other nor with the identifier of
  another incident.
\<close>

definition minute_admissible :: "(string \<Rightarrow> byte list) \<Rightarrow> minute_db \<Rightarrow> minute_input \<Rightarrow> bool" where
  "minute_admissible sha256 db input \<longleftrightarrow>
     (\<forall>check \<in> set (am_results input). thresholds_ok (event_of_check check) \<and>
        (\<forall>s \<in> set (md_states db). m_monitorId s = ck_monitorId check \<longrightarrow>
           (\<forall>at. m_lastCheckedAt s = Some at \<longrightarrow> at < ck_checkedAt check))) \<and>
     (\<forall>s \<in> set (md_states db). \<forall>cur. am_states input (m_monitorId s) = Some cur \<longrightarrow>
        m_version cur = m_version s \<longrightarrow> cur = s) \<and>
     (\<forall>batch rows. compute_minute sha256 input = Inr (batch, rows) \<longrightarrow>
        distinct (map or_id (mn_opened rows)) \<and>
        (\<forall>opn \<in> set (mn_opened rows). \<forall>inc \<in> set (md_incidents db). in_id inc = or_id opn \<longrightarrow>
           in_monitorId inc = or_monitorId opn \<and> in_firstFailureAt inc = or_firstFailureAt opn))"

lemma minute_results_at:
  "minute_results expected rs results = Inr results' \<Longrightarrow>
   (\<And>m c. results m = Some c \<Longrightarrow> ck_monitorId c = m \<and> c \<in> set all) \<Longrightarrow> set rs \<subseteq> set all \<Longrightarrow>
   results' m = Some c \<Longrightarrow> ck_monitorId c = m \<and> c \<in> set all"
proof (induction rs arbitrary: results)
  case Nil
  then show ?case by simp
next
  case (Cons r rs)
  have "minute_results expected rs (results(ck_monitorId r \<mapsto> r)) = Inr results'"
    using Cons.prems(1) by (simp split: if_splits)
  then show ?case by (rule Cons.IH) (use Cons.prems(2-4) in \<open>auto split: if_splits\<close>)
qed

lemma compute_minute_rows:
  assumes "compute_minute sha input = Inr (batch, rows)"
  shows "\<exists>results ms. (\<forall>m c. results m = Some c \<longrightarrow> ck_monitorId c = m \<and> c \<in> set (am_results input)) \<and>
     distinct ms \<and> run_steps (minute_monitor sha input results) no_rows ms = Inr rows \<and>
     cb_scheduledMinute batch = am_scheduledMinute input"
proof -
  define ms where "ms = sort (js_unique (am_monitorIds input))"
  have "res_bind (minute_results (am_expectedMonitorIds input) (am_results input) (\<lambda>_. None)) (\<lambda>results.
      res_bind (encodeTelemetry (map (telemetry_of (am_expectedMonitorIds input) results) ms)) (\<lambda>packed.
      res_bind (run_steps (minute_monitor sha input results) no_rows ms) (\<lambda>rows.
        Inr (minute_batch input ms packed, rows)))) = Inr (batch, rows)"
    using assms unfolding compute_minute_def Let_def ms_def [symmetric] by (simp only: sum.distinct split: if_splits)
  then obtain results packed where
    r: "minute_results (am_expectedMonitorIds input) (am_results input) (\<lambda>_. None) = Inr results"
    and run: "run_steps (minute_monitor sha input results) no_rows ms = Inr rows"
    and b: "minute_batch input ms packed = batch"
    unfolding res_bind_Inr_iff by blast
  have b: "cb_scheduledMinute batch = am_scheduledMinute input"
    unfolding b [symmetric] by (simp add: minute_batch_def)
  have "distinct ms" by (simp add: ms_def)
  moreover have "ck_monitorId c = m \<and> c \<in> set (am_results input)" if "results m = Some c" for m c
    by (rule minute_results_at [OF r _ subset_refl that]) simp
  ultimately show ?thesis using run b by (intro exI [of _ results] exI [of _ ms]) simp
qed

lemma changed_rows_states:
  "mn_states (snd (changed_rows sha input results m)) = [] \<and> changed_rows sha input results m = (None, no_rows) \<or>
   (\<exists>check cur t iid state r. monitor_change input results m = Some (check, cur, t) \<and>
      incident_rows sha m check t no_rows = (iid, state, r) \<and>
      changed_rows sha input results m =
        (Some state, r\<lparr>mn_states := [\<lparr>sr_state = state, sr_monitorId = m, sr_expectedVersion = m_version cur\<rparr>]\<rparr>))"
proof (cases "monitor_change input results m")
  case None
  then show ?thesis by (simp add: changed_rows_def no_rows_def)
next
  case (Some c)
  obtain check cur t where c: "c = (check, cur, t)" by (cases c)
  obtain iid state r where "incident_rows sha m check t no_rows = (iid, state, r)" by (cases "incident_rows sha m check t no_rows")
  with Some c show ?thesis by (simp add: changed_rows_def)
qed

text \<open>A change of a stored snapshot that keeps the invariant of its monitor.\<close>

definition good_change :: "snapshot \<Rightarrow> snapshot \<Rightarrow> minute_rows \<Rightarrow> bool" where
  "good_change s state r \<longleftrightarrow> m_monitorId state = m_monitorId s \<and> monitor_inv state \<and>
     m_state s \<in> set CHECK_STATES \<and> m_state state \<in> set CHECK_STATES \<and>
     (\<exists>at. m_lastCheckedAt state = Some at \<and> (\<forall>last. m_lastCheckedAt s = Some last \<longrightarrow> last < at) \<and>
        (\<forall>f. m_firstFailureAt state = Some f \<longrightarrow> \<not> in_outage (m_state state) \<longrightarrow>
           f = at \<or> \<not> in_outage (m_state s) \<and> m_firstFailureAt s = Some f) \<and>
        (keeps_incident s state r \<or> opens_incident (m_monitorId s) at s state r \<or> resolves_incident s state r))"

lemma change_good:
  assumes "monitor_inv s" and "thresholds_ok (event_of_check check)"
    and "\<forall>last. m_lastCheckedAt s = Some last \<longrightarrow> last < ck_checkedAt check"
    and "transitionMonitor s (CheckEvent (event_of_check check)) = Inr t" and "t_state t \<noteq> s"
    and "incident_rows sha (m_monitorId s) check t no_rows = (iid, state, r)"
  shows "good_change s state r"
proof -
  let ?e = "event_of_check check"
  have at: "e_checkedAt ?e = ck_checkedAt check" by (simp add: event_of_check_def)
  have nb: "not_before s ?e" using assms(3) by (auto simp: not_before_def opt_le_def at split: option.split)
  have inv: "incident_ok s" "chrono_ok s" using assms(1) by (simp_all add: monitor_inv_def snapshot_ok_def)
  obtain n i where c: "checkedState s ?e = Inr (n, i)" and n: "n = t_state t"
    using assms(4) by (auto simp: transitionMonitor_def res_bind_Inr_iff)
  note ci = change_incident [OF inv(1) assms(2) inv(2) nb assms(4,5) refl assms(6)]
  have state: "state = attachIncident (incidentIdFor sha) t" using ci by blast
  have "monitor_step (incidentIdFor sha) s (Op_Check ?e) = Inr state"
    using assms(4) state by (simp add: monitor_step_def)
  from monitor_step_check_inv [OF assms(1,2) nb this] have "monitor_inv state" by simp
  moreover have fields: "m_monitorId state = m_monitorId n" "m_lastCheckedAt state = m_lastCheckedAt n"
    "m_firstFailureAt state = m_firstFailureAt n" "m_state state = m_state n"
    by (simp_all add: state n attachIncident_def split: option.split incident_intent.split)
  have ne: "n \<noteq> s" using assms(5) n by simp
  have "\<forall>f. m_firstFailureAt state = Some f \<longrightarrow> \<not> in_outage (m_state state) \<longrightarrow>
      f = ck_checkedAt check \<or> \<not> in_outage (m_state s) \<and> m_firstFailureAt s = Some f"
    using checkedState_first_failure [OF c ne] fields at by auto
  moreover have "m_lastCheckedAt state = Some (ck_checkedAt check)"
    using checkedState_last_checked [OF c ne] fields at by simp
  moreover have "m_monitorId state = m_monitorId s" using fields checkedState_frame [OF c] by simp
  moreover have "m_state s \<in> set CHECK_STATES"
    using checkedState_inactive [OF assms(2), of s] c ne by (cases "m_state s \<in> set CHECK_STATES") auto
  moreover from this have "m_state state \<in> set CHECK_STATES"
    using checkedState_stays [OF c] fields(4) by simp
  ultimately show ?thesis unfolding good_change_def using assms(3) ci by blast
qed

lemma good_change_rows [simp]:
  "good_change s state (r\<lparr>mn_states := x\<rparr>) = good_change s state r"
  by (simp add: good_change_def keeps_incident_def opens_incident_def resolves_incident_def)

lemma minute_effects_shape:
  assumes "minute_effects batch rows db = Inr db'"
  shows "md_states db' = map (updated_state (mn_states rows)) (md_states db)"
    "md_incidents db' = map (updated_incident rows) (md_incidents db) @
       snd (sql_insert_new in_id (map opened_incident (mn_opened rows)) (md_incidents db))"
    "length (filter (\<lambda>s. state_hit (mn_states rows) s \<noteq> None) (md_states db)) = length (mn_states rows)"
  using assms
  by (auto simp: minute_effects_def Let_def res_bind_Inr_iff split: prod.splits if_splits)

text \<open>Every state row finds its snapshot: the count the statement asserts.\<close>

lemma state_rows_hit:
  assumes "distinct (map m_monitorId states)" and "distinct (map sr_monitorId srs)"
    and "length (filter (\<lambda>s. state_hit srs s \<noteq> None) states) = length srs" and "r \<in> set srs"
  shows "\<exists>s \<in> set states. m_monitorId s = sr_monitorId r \<and> m_version s = sr_expectedVersion r"
proof -
  define hits where "hits = filter (\<lambda>s. state_hit srs s \<noteq> None) states"
  have hit: "\<exists>r' \<in> set srs. sr_monitorId r' = m_monitorId s \<and> sr_expectedVersion r' = m_version s" if "s \<in> set hits" for s
    using that by (auto simp: hits_def state_hit_def find_Some_iff dest: nth_mem)
  have sub: "m_monitorId ` set hits \<subseteq> sr_monitorId ` set srs" using hit by force
  have "card (m_monitorId ` set hits) = length hits"
    using distinct_card [of "map m_monitorId hits"] assms(1) by (simp add: hits_def distinct_map_filter)
  moreover have "card (sr_monitorId ` set srs) = length srs"
    using distinct_card [of "map sr_monitorId srs"] assms(2) by simp
  ultimately have "m_monitorId ` set hits = sr_monitorId ` set srs"
    using sub assms(3) by (intro card_subset_eq) (simp_all add: hits_def)
  with assms(4) obtain s where s: "s \<in> set hits" "m_monitorId s = sr_monitorId r" by force
  from hit [OF s(1)] obtain r' where r': "r' \<in> set srs" "sr_monitorId r' = m_monitorId s" "sr_expectedVersion r' = m_version s"
    by blast
  with s assms(2,4) have "r' = r" by (metis distinct_map inj_on_def)
  with r' s show ?thesis by (auto simp: hits_def)
qed

definition stored_change ::
  "(string \<Rightarrow> byte list) \<Rightarrow> minute_input \<Rightarrow> (string \<Rightarrow> completed_check option) \<Rightarrow> string list \<Rightarrow> snapshot \<Rightarrow>
   (snapshot \<times> minute_rows) option" where
  "stored_change sha input results ms s =
    (if m_monitorId s \<in> set ms then
       (case changed_rows sha input results (m_monitorId s) of (Some state, r) \<Rightarrow> Some (state, r) | (None, _) \<Rightarrow> None)
     else None)"

lemma find_unique:
  assumes "x \<in> set xs" and "p x" and "\<And>y. y \<in> set xs \<Longrightarrow> p y \<Longrightarrow> y = x"
  shows "find p xs = Some x"
proof (cases "find p xs")
  case None
  with assms(1,2) show ?thesis by (auto simp: find_None_iff)
next
  case (Some y)
  then have "y \<in> set xs" "p y" by (auto simp: find_Some_iff)
  with assms(3) Some show ?thesis by simp
qed

lemma concat_at_most_one_distinct:
  assumes "distinct ms" and "\<And>m. m \<in> set ms \<Longrightarrow> f m = [] \<or> (\<exists>r. f m = [r] \<and> key r = m)"
  shows "distinct (map key (concat (map f ms)))"
  using assms
proof (induction ms)
  case Nil
  then show ?case by simp
next
  case (Cons m ms)
  have "key r \<in> set ms" if "r \<in> set (concat (map f ms))" for r
  proof -
    from that obtain m' where m': "m' \<in> set ms" "r \<in> set (f m')" by auto
    with Cons.prems(2) [of m'] show ?thesis by auto
  qed
  moreover have "f m = [] \<or> (\<exists>r. f m = [r] \<and> key r = m)" using Cons.prems(2) [of m] by simp
  moreover have "distinct (map key (concat (map f ms)))" using Cons by simp
  moreover have "m \<notin> set ms" using Cons.prems(1) by simp
  ultimately show ?case by fastforce
qed

lemma state_rows_distinct:
  assumes "run_steps (minute_monitor sha input results) no_rows ms = Inr rows" and "distinct ms"
  shows "distinct (map sr_monitorId (mn_states rows))"
proof -
  have one: "mn_states (snd (changed_rows sha input results m)) = [] \<or>
      (\<exists>r. mn_states (snd (changed_rows sha input results m)) = [r] \<and> sr_monitorId r = m)" for m
    using changed_rows_states [of sha input results m] by auto
  show ?thesis unfolding minute_rows_collect(1) [OF assms(1)]
    by (rule concat_at_most_one_distinct [OF assms(2) one])
qed

lemma concat_back:
  assumes "x \<in> set (concat (map (\<lambda>m. f (snd (C m))) ms))" and "f no_rows = []"
    and "\<And>m. fst (C m) = None \<Longrightarrow> C m = (None, no_rows)"
  shows "\<exists>m \<in> set ms. fst (C m) \<noteq> None \<and> x \<in> set (f (snd (C m)))"
proof -
  from assms(1) obtain m where m: "m \<in> set ms" "x \<in> set (f (snd (C m)))" by auto
  have "fst (C m) \<noteq> None"
  proof
    assume "fst (C m) = None"
    with m(2) assms(2) assms(3) [of m] show False by simp
  qed
  with m show ?thesis by blast
qed

text \<open>The changes of the stored snapshots account for all the incident rows of a minute.\<close>

definition changes_ok ::
  "minute_db \<Rightarrow> minute_rows \<Rightarrow> (snapshot \<Rightarrow> (snapshot \<times> minute_rows) option) \<Rightarrow> bool" where
  "changes_ok db rows ch \<longleftrightarrow>
     (\<forall>s \<in> set (md_states db). \<forall>state r. ch s = Some (state, r) \<longrightarrow> good_change s state r \<and>
        set (mn_opened r) \<subseteq> set (mn_opened rows) \<and> set (mn_resolved r) \<subseteq> set (mn_resolved rows)) \<and>
     (\<forall>x \<in> set (mn_opened rows). \<exists>s \<in> set (md_states db). \<exists>state r. ch s = Some (state, r) \<and> x \<in> set (mn_opened r)) \<and>
     (\<forall>x \<in> set (mn_progressed rows). \<exists>s \<in> set (md_states db). \<exists>state r. ch s = Some (state, r) \<and> x \<in> set (mn_progressed r)) \<and>
     (\<forall>x \<in> set (mn_resolved rows). \<exists>s \<in> set (md_states db). \<exists>state r. ch s = Some (state, r) \<and> x \<in> set (mn_resolved r))"

lemma minute_changes:
  assumes agree: "agreement db" and adm: "minute_admissible sha db input"
    and c: "compute_minute sha input = Inr (batch, rows)" and e: "minute_effects batch rows db = Inr db'"
  shows "\<exists>ch. (\<forall>s \<in> set (md_states db).
        updated_state (mn_states rows) s = (case ch s of None \<Rightarrow> s | Some (state, r) \<Rightarrow> state)) \<and> changes_ok db rows ch"
proof -
  obtain results ms where res: "\<And>m c. results m = Some c \<Longrightarrow> ck_monitorId c = m \<and> c \<in> set (am_results input)"
    and ms: "distinct ms" and run: "run_steps (minute_monitor sha input results) no_rows ms = Inr rows"
    using compute_minute_rows [OF c] by blast
  note col = minute_rows_collect [OF run]
  let ?C = "changed_rows sha input results"
  define ch where "ch = stored_change sha input results ms"
  have dst: "distinct (map m_monitorId (md_states db))" using agree by (simp add: agreement_def)
  have dr: "distinct (map sr_monitorId (mn_states rows))" using state_rows_distinct [OF run ms] .
  note hit = state_rows_hit [OF dst dr minute_effects_shape(3) [OF e]]
  \<comment> \<open>a changed monitor has its snapshot stored, and was computed from it\<close>
  have stored: "\<exists>s \<in> set (md_states db). \<exists>check t iid state r. m_monitorId s = m \<and>
      monitor_change input results m = Some (check, s, t) \<and> incident_rows sha m check t no_rows = (iid, state, r) \<and>
      ?C m = (Some state, r\<lparr>mn_states := [\<lparr>sr_state = state, sr_monitorId = m, sr_expectedVersion = m_version s\<rparr>]\<rparr>)"
    if m: "m \<in> set ms" and ne: "fst (?C m) \<noteq> None" for m
  proof -
    from changed_rows_states [of sha input results m] ne obtain check cur t iid state r where
      mc: "monitor_change input results m = Some (check, cur, t)"
      and ir: "incident_rows sha m check t no_rows = (iid, state, r)"
      and C: "?C m = (Some state, r\<lparr>mn_states := [\<lparr>sr_state = state, sr_monitorId = m, sr_expectedVersion = m_version cur\<rparr>]\<rparr>)"
      by fastforce
    have "\<lparr>sr_state = state, sr_monitorId = m, sr_expectedVersion = m_version cur\<rparr> \<in> set (mn_states rows)"
      unfolding col(1) using m C by (force simp: image_iff)
    from hit [OF this] obtain s where s: "s \<in> set (md_states db)" "m_monitorId s = m" "m_version s = m_version cur" by auto
    have "am_states input m = Some cur"
      using mc by (auto simp: monitor_change_def split: option.splits sum.splits if_splits)
    with adm s have "cur = s" unfolding minute_admissible_def by metis
    with s mc ir C show ?thesis by blast
  qed
  have same: "s' = s" if "s \<in> set (md_states db)" "s' \<in> set (md_states db)" "m_monitorId s' = m_monitorId s" for s s'
    using that dst by (auto simp: distinct_map inj_on_def)
  have chD: "m_monitorId s \<in> set ms \<and> ?C (m_monitorId s) = (Some state, r)" if "ch s = Some (state, r)" for s state r
    using that by (auto simp: ch_def stored_change_def split: if_splits prod.splits option.splits)
  have chI: "ch s = Some (state, r)" if "m_monitorId s \<in> set ms" "?C (m_monitorId s) = (Some state, r)" for s state r
    using that by (simp add: ch_def stored_change_def)
  have good: "good_change s state r" if s: "s \<in> set (md_states db)" and chs: "ch s = Some (state, r)" for s state r
  proof -
    from stored [of "m_monitorId s"] chD [OF chs] obtain s' check t iid state' r' where
      s': "s' \<in> set (md_states db)" "m_monitorId s' = m_monitorId s"
      and mc: "monitor_change input results (m_monitorId s) = Some (check, s', t)"
      and ir: "incident_rows sha (m_monitorId s) check t no_rows = (iid, state', r')"
      and C: "state = state'" "r = r'\<lparr>mn_states := [\<lparr>sr_state = state', sr_monitorId = m_monitorId s, sr_expectedVersion = m_version s'\<rparr>]\<rparr>"
      by auto
    have "s' = s" using same s s' by blast
    with mc have t: "results (m_monitorId s) = Some check" "transitionMonitor s (CheckEvent (event_of_check check)) = Inr t"
      "t_state t \<noteq> s" by (auto simp: monitor_change_def split: option.splits sum.splits if_splits)
    from res [OF t(1)] adm s have "thresholds_ok (event_of_check check)"
      "\<forall>last. m_lastCheckedAt s = Some last \<longrightarrow> last < ck_checkedAt check"
      unfolding minute_admissible_def by auto
    moreover have "monitor_inv s" using agree s by (simp add: agreement_def)
    ultimately show ?thesis using change_good [OF _ _ _ t(2,3) ir] C by simp
  qed
  have row_of: "\<exists>state rr. ?C (sr_monitorId r) = (Some state, rr) \<and> sr_monitorId r \<in> set ms \<and> sr_state r = state"
    if "r \<in> set (mn_states rows)" for r
  proof -
    from that obtain m where m: "m \<in> set ms" "r \<in> set (mn_states (snd (?C m)))" unfolding col(1) by auto
    with changed_rows_states [of sha input results m] show ?thesis by auto
  qed
  have upd: "updated_state (mn_states rows) s = (case ch s of None \<Rightarrow> s | Some (state, r) \<Rightarrow> state)"
    if s: "s \<in> set (md_states db)" for s
  proof (cases "ch s")
    case None
    have "state_hit (mn_states rows) s = None"
      unfolding state_hit_def find_None_iff
    proof (rule notI)
      assume "\<exists>r. r \<in> set (mn_states rows) \<and> sr_monitorId r = m_monitorId s \<and> sr_expectedVersion r = m_version s"
      then obtain r where "r \<in> set (mn_states rows)" "sr_monitorId r = m_monitorId s" by blast
      from row_of [OF this(1)] this(2) chI [of s] None show False by auto
    qed
    with None show ?thesis by (simp add: updated_state_def)
  next
    case (Some c)
    obtain state r where c: "c = (state, r)" by (cases c)
    note D = chD [OF Some [unfolded c]]
    with stored [of "m_monitorId s"] same s obtain r' where
      "r = r'\<lparr>mn_states := [\<lparr>sr_state = state, sr_monitorId = m_monitorId s, sr_expectedVersion = m_version s\<rparr>]\<rparr>"
      by fastforce
    then have row: "\<lparr>sr_state = state, sr_monitorId = m_monitorId s, sr_expectedVersion = m_version s\<rparr> \<in> set (mn_states rows)"
      unfolding col(1) using D by (force simp: image_iff)
    have "state_hit (mn_states rows) s = Some \<lparr>sr_state = state, sr_monitorId = m_monitorId s, sr_expectedVersion = m_version s\<rparr>"
      unfolding state_hit_def
    proof (rule find_unique [OF row])
      fix y assume y: "y \<in> set (mn_states rows)" "sr_monitorId y = m_monitorId s \<and> sr_expectedVersion y = m_version s"
      with row dr show "y = \<lparr>sr_state = state, sr_monitorId = m_monitorId s, sr_expectedVersion = m_version s\<rparr>"
        by (auto simp: distinct_map inj_on_def)
    qed simp
    moreover have "m_monitorId state = m_monitorId s" using good [OF s Some [unfolded c]] by (simp add: good_change_def)
    ultimately show ?thesis using Some c by (simp add: updated_state_def)
  qed
  have none: "?C m = (None, no_rows)" if "fst (?C m) = None" for m
    using changed_rows_states [of sha input results m] that by auto
  have origin: "\<exists>s \<in> set (md_states db). \<exists>state r. ch s = Some (state, r) \<and> r = snd (?C m)"
    if m: "m \<in> set ms" "fst (?C m) \<noteq> None" for m
  proof -
    from stored [OF m] obtain s state r where "s \<in> set (md_states db)" "m_monitorId s = m" "?C m = (Some state, r)" by blast
    with chI [of s state r] m show ?thesis by auto
  qed
  have fwd: "set (mn_opened r) \<subseteq> set (mn_opened rows) \<and> set (mn_resolved r) \<subseteq> set (mn_resolved rows)"
    if "ch s = Some (state, r)" for s state r
    unfolding col(2,4) using chD [OF that] by force
  show ?thesis unfolding changes_ok_def
  proof (rule exI [of _ ch], intro conjI ballI)
    fix x assume "x \<in> set (mn_opened rows)"
    from concat_back [where f = mn_opened and C = ?C, OF this [unfolded col(2)] _ none]
    obtain m where "m \<in> set ms" "fst (?C m) \<noteq> None" "x \<in> set (mn_opened (snd (?C m)))"
      by (auto simp: no_rows_def)
    with origin show "\<exists>s \<in> set (md_states db). \<exists>state r. ch s = Some (state, r) \<and> x \<in> set (mn_opened r)"
      by blast
  next
    fix x assume "x \<in> set (mn_progressed rows)"
    from concat_back [where f = mn_progressed and C = ?C, OF this [unfolded col(3)] _ none]
    obtain m where "m \<in> set ms" "fst (?C m) \<noteq> None" "x \<in> set (mn_progressed (snd (?C m)))"
      by (auto simp: no_rows_def)
    with origin show "\<exists>s \<in> set (md_states db). \<exists>state r. ch s = Some (state, r) \<and> x \<in> set (mn_progressed r)"
      by blast
  next
    fix x assume "x \<in> set (mn_resolved rows)"
    from concat_back [where f = mn_resolved and C = ?C, OF this [unfolded col(4)] _ none]
    obtain m where "m \<in> set ms" "fst (?C m) \<noteq> None" "x \<in> set (mn_resolved (snd (?C m)))"
      by (auto simp: no_rows_def)
    with origin show "\<exists>s \<in> set (md_states db). \<exists>state r. ch s = Some (state, r) \<and> x \<in> set (mn_resolved r)"
      by blast
  qed (use upd good fwd in auto)
qed

subsection \<open>Preservation\<close>

lemma sql_insert_new_fresh:
  "distinct (map key rs) \<Longrightarrow> key ` set rs \<inter> key ` set t = {} \<Longrightarrow> sql_insert_new key rs t = (t @ rs, rs)"
proof (induction rs arbitrary: t)
  case Nil
  then show ?case by simp
next
  case (Cons r rs)
  then have "sql_insert_new key rs (t @ [r]) = ((t @ [r]) @ rs, rs)" by (intro Cons.IH) auto
  with Cons.prems show ?case by auto
qed

lemma updated_incident_frame:
  "in_id (updated_incident rows i) = in_id i" "in_monitorId (updated_incident rows i) = in_monitorId i"
  "in_firstFailureAt (updated_incident rows i) = in_firstFailureAt i"
  "in_resolvedAt i \<noteq> None \<Longrightarrow> in_resolvedAt (updated_incident rows i) \<noteq> None"
  by (auto simp: updated_incident_def progressed_incident_def recovered_incident_def split: option.split)

lemma agreement_distinct:
  "agreement db \<Longrightarrow> distinct (map m_monitorId (md_states db))"
  "agreement db \<Longrightarrow> distinct (map in_id (md_incidents db))"
  by (simp_all add: agreement_def)

lemma agreement_same_monitor:
  "agreement db \<Longrightarrow> s \<in> set (md_states db) \<Longrightarrow> s' \<in> set (md_states db) \<Longrightarrow> m_monitorId s = m_monitorId s' \<Longrightarrow> s = s'"
  by (auto simp: agreement_def distinct_map inj_on_def)

lemma agreement_active:
  "agreement db \<Longrightarrow> s \<in> set (md_states db) \<Longrightarrow> (m_activeIncidentId s = Some i \<longleftrightarrow> unresolved_of db (m_monitorId s) i)"
  by (simp add: agreement_def)

lemma agreement_owner:
  assumes "agreement db" and "inc \<in> set (md_incidents db)" and "in_resolvedAt inc = None"
    and "s \<in> set (md_states db)" and "m_activeIncidentId s = Some (in_id inc)"
  shows "in_monitorId inc = m_monitorId s"
proof -
  from assms(1,4,5) obtain inc' where "inc' \<in> set (md_incidents db)" "in_id inc' = in_id inc" "in_monitorId inc' = m_monitorId s"
    unfolding agreement_def unresolved_of_def by blast
  moreover have "distinct (map in_id (md_incidents db))" using assms(1) by (simp add: agreement_def)
  ultimately show ?thesis using assms(2) by (metis distinct_map inj_on_def)
qed

lemma changed_resolution:
  assumes agree: "agreement db" and ch: "changes_ok db rows ch"
    and inc: "inc \<in> set (md_incidents db)" "in_resolvedAt inc = None"
    and s: "s \<in> set (md_states db)" "m_monitorId s = in_monitorId inc"
  shows "in_resolvedAt (updated_incident rows inc) \<noteq> None \<longleftrightarrow>
    (\<exists>state r. ch s = Some (state, r) \<and> resolves_incident s state r)"
proof -
  have own: "s' = s" if "s' \<in> set (md_states db)" "m_activeIncidentId s' = Some (in_id inc)" for s'
    using agreement_same_monitor [OF agree that(1) s(1)] agreement_owner [OF agree inc that] s(2) by simp
  have active: "m_activeIncidentId s = Some (in_id inc)"
    unfolding agreement_active [OF agree s(1)] unresolved_of_def using inc s(2) by (intro bexI [of _ inc]) simp_all
  have good: "good_change s' state r" if "s' \<in> set (md_states db)" "ch s' = Some (state, r)" for s' state r
    using ch that by (simp add: changes_ok_def)
  show ?thesis
  proof (cases "find (\<lambda>r. pr_id r = in_id inc) (mn_progressed rows)")
    case (Some p)
    then have p: "p \<in> set (mn_progressed rows)" "pr_id p = in_id inc" by (auto simp: find_Some_iff)
    with ch obtain s' state r where s': "s' \<in> set (md_states db)" "ch s' = Some (state, r)" "p \<in> set (mn_progressed r)"
      unfolding changes_ok_def by blast
    from good [OF s'(1,2)] s'(3) have k: "keeps_incident s' state r"
      by (auto simp: good_change_def opens_incident_def resolves_incident_def)
    with s'(3) p(2) have "m_activeIncidentId s' = Some (in_id inc)" by (auto simp: keeps_incident_def)
    with own s'(1) have "s' = s" by blast
    with k s' have "\<not> (\<exists>state r. ch s = Some (state, r) \<and> resolves_incident s state r)"
      by (auto simp: keeps_incident_def resolves_incident_def)
    with Some inc(2) show ?thesis by (simp add: updated_incident_def progressed_incident_def)
  next
    case None
    have "find (\<lambda>r. rr_id r = in_id inc) (mn_resolved rows) \<noteq> None \<longleftrightarrow>
      (\<exists>state r. ch s = Some (state, r) \<and> resolves_incident s state r)"
    proof
      assume "find (\<lambda>r. rr_id r = in_id inc) (mn_resolved rows) \<noteq> None"
      then obtain x where x: "x \<in> set (mn_resolved rows)" "rr_id x = in_id inc"
        unfolding find_None_iff by blast
      with ch obtain s' state r where s': "s' \<in> set (md_states db)" "ch s' = Some (state, r)" "x \<in> set (mn_resolved r)"
        unfolding changes_ok_def by blast
      from good [OF s'(1,2)] s'(3) have k: "resolves_incident s' state r"
        by (auto simp: good_change_def opens_incident_def keeps_incident_def)
      with s'(3) x(2) have "m_activeIncidentId s' = Some (in_id inc)" by (auto simp: resolves_incident_def)
      with own s'(1) have "s' = s" by blast
      with k s' show "\<exists>state r. ch s = Some (state, r) \<and> resolves_incident s state r" by blast
    next
      assume "\<exists>state r. ch s = Some (state, r) \<and> resolves_incident s state r"
      then obtain state r x where x: "ch s = Some (state, r)" "mn_resolved r = [x]" "rr_id x = in_id inc"
        using active by (auto simp: resolves_incident_def)
      with ch s(1) have "x \<in> set (mn_resolved rows)" unfolding changes_ok_def by (metis list.set_intros(1) subsetD)
      with x(3) show "find (\<lambda>r. rr_id r = in_id inc) (mn_resolved rows) \<noteq> None" by (auto simp: find_None_iff)
    qed
    with None inc(2) show ?thesis
      by (auto simp: updated_incident_def recovered_incident_def split: option.split)
  qed
qed

lemma opened_fresh:
  assumes agree: "agreement db" and ch: "changes_ok db rows ch" and opn: "opn \<in> set (mn_opened rows)"
    and unique: "\<forall>inc \<in> set (md_incidents db). in_id inc = or_id opn \<longrightarrow>
           in_monitorId inc = or_monitorId opn \<and> in_firstFailureAt inc = or_firstFailureAt opn"
  shows "or_id opn \<notin> in_id ` set (md_incidents db)"
proof
  assume "or_id opn \<in> in_id ` set (md_incidents db)"
  then obtain inc where inc: "inc \<in> set (md_incidents db)" "in_id inc = or_id opn" by auto
  with unique have m: "in_monitorId inc = or_monitorId opn" "in_firstFailureAt inc = or_firstFailureAt opn" by auto
  from ch opn obtain s state r where s: "s \<in> set (md_states db)" "ch s = Some (state, r)" "opn \<in> set (mn_opened r)"
    unfolding changes_ok_def by blast
  then have "good_change s state r" using ch by (simp add: changes_ok_def)
  then obtain at where at: "\<forall>last. m_lastCheckedAt s = Some last \<longrightarrow> last < at"
    and o: "opens_incident (m_monitorId s) at s state r"
    using s(3) by (auto simp: good_change_def keeps_incident_def resolves_incident_def)
  have "or_monitorId opn = m_monitorId s" using o s(3) by (auto simp: opens_incident_def)
  with agree inc(1) m(1) s(1) have b: "began_before s inc"
    using agreement_same_monitor [OF agree _ s(1)] unfolding agreement_def by metis
  with at have "in_firstFailureAt inc < at" by (auto simp: began_before_def opt_le_def split: option.splits)
  with b o s(3) m(2) show False by (auto simp: opens_incident_def began_before_def)
qed

text \<open>After the statement: which incidents of a monitor are unresolved.\<close>

lemma unresolved_after:
  assumes agree: "agreement db" and ch: "changes_ok db rows ch"
    and incs: "md_incidents db' = map (updated_incident rows) (md_incidents db) @ map opened_incident (mn_opened rows)"
    and s: "s \<in> set (md_states db)"
  shows "unresolved_of db' (m_monitorId s) i \<longleftrightarrow> (case ch s of
      None \<Rightarrow> m_activeIncidentId s = Some i
    | Some (state, r) \<Rightarrow> m_activeIncidentId state = Some i)"
proof -
  have good: "good_change s state r" if "ch s = Some (state, r)" for state r
    using ch s that by (simp add: changes_ok_def)
  have old: "(\<exists>inc \<in> set (md_incidents db). in_id inc = i \<and> in_monitorId inc = m_monitorId s \<and>
        in_resolvedAt (updated_incident rows inc) = None) \<longleftrightarrow>
      m_activeIncidentId s = Some i \<and> \<not> (\<exists>state r. ch s = Some (state, r) \<and> resolves_incident s state r)"
    (is "?L \<longleftrightarrow> ?R")
  proof
    assume ?L
    then obtain inc where inc: "inc \<in> set (md_incidents db)" "in_id inc = i" "in_monitorId inc = m_monitorId s"
      "in_resolvedAt (updated_incident rows inc) = None" by blast
    have "in_resolvedAt inc = None" using updated_incident_frame(4) [of inc rows] inc(4) by blast
    with inc changed_resolution [OF agree ch inc(1) this s inc(3) [symmetric]] show ?R
      unfolding agreement_active [OF agree s] unresolved_of_def by blast
  next
    assume R: ?R
    then obtain inc where inc: "inc \<in> set (md_incidents db)" "in_id inc = i" "in_monitorId inc = m_monitorId s"
      "in_resolvedAt inc = None"
      unfolding agreement_active [OF agree s] unresolved_of_def by blast
    from changed_resolution [OF agree ch inc(1,4) s inc(3) [symmetric]] R
    have "in_resolvedAt (updated_incident rows inc) = None" by blast
    with inc show ?L by blast
  qed
  have opened: "(\<exists>opn \<in> set (mn_opened rows). or_id opn = i \<and> or_monitorId opn = m_monitorId s) \<longleftrightarrow>
      (\<exists>state r at. ch s = Some (state, r) \<and> opens_incident (m_monitorId s) at s state r \<and> m_activeIncidentId state = Some i)"
    (is "?L \<longleftrightarrow> ?R")
  proof
    assume ?L
    then obtain opn where opn: "opn \<in> set (mn_opened rows)" "or_id opn = i" "or_monitorId opn = m_monitorId s" by blast
    with ch obtain s' state r where s': "s' \<in> set (md_states db)" "ch s' = Some (state, r)" "opn \<in> set (mn_opened r)"
      unfolding changes_ok_def by blast
    then have "good_change s' state r" using ch by (simp add: changes_ok_def)
    then obtain at where o: "opens_incident (m_monitorId s') at s' state r"
      using s'(3) by (auto simp: good_change_def keeps_incident_def resolves_incident_def)
    with s'(3) opn(2) have a: "m_activeIncidentId state = Some i" "or_monitorId opn = m_monitorId s'"
      by (auto simp: opens_incident_def)
    with opn(3) have "s' = s" using agreement_same_monitor [OF agree s'(1) s] by simp
    with s' o a show ?R by blast
  next
    assume ?R
    then obtain state r at where c: "ch s = Some (state, r)" "opens_incident (m_monitorId s) at s state r"
      "m_activeIncidentId state = Some i" by blast
    then obtain opn where "opn \<in> set (mn_opened r)" "or_id opn = i" "or_monitorId opn = m_monitorId s"
      by (auto simp: opens_incident_def)
    moreover have "set (mn_opened r) \<subseteq> set (mn_opened rows)" using ch s c(1) by (simp add: changes_ok_def)
    ultimately show ?L by blast
  qed
  have "unresolved_of db' (m_monitorId s) i \<longleftrightarrow>
      (\<exists>inc \<in> set (md_incidents db). in_id inc = i \<and> in_monitorId inc = m_monitorId s \<and>
        in_resolvedAt (updated_incident rows inc) = None) \<or>
      (\<exists>opn \<in> set (mn_opened rows). or_id opn = i \<and> or_monitorId opn = m_monitorId s)"
    by (simp add: unresolved_of_def incs bex_Un updated_incident_frame opened_incident_def)
  then show ?thesis unfolding old opened
  proof (cases "ch s")
    case (Some c)
    obtain state r where c: "c = (state, r)" by (cases c)
    with good Some have "good_change s state r" by simp
    then show "(unresolved_of db' (m_monitorId s) i \<longleftrightarrow>
        (m_activeIncidentId s = Some i \<and> \<not> (\<exists>state r. ch s = Some (state, r) \<and> resolves_incident s state r)) \<or>
        (\<exists>state r at. ch s = Some (state, r) \<and> opens_incident (m_monitorId s) at s state r \<and> m_activeIncidentId state = Some i)) \<Longrightarrow>
      unresolved_of db' (m_monitorId s) i \<longleftrightarrow> (case ch s of None \<Rightarrow> m_activeIncidentId s = Some i
        | Some (state, r) \<Rightarrow> m_activeIncidentId state = Some i)"
      using Some c
      by (auto simp: good_change_def keeps_incident_def opens_incident_def resolves_incident_def)
  qed simp
qed

lemma began_before_after:
  assumes "good_change s state r" and "began_before s inc" and "in_firstFailureAt inc' = in_firstFailureAt inc"
  shows "began_before state inc'"
proof -
  from assms(1) obtain at where at: "m_lastCheckedAt state = Some at"
    "\<forall>last. m_lastCheckedAt s = Some last \<longrightarrow> last < at"
    "\<forall>f. m_firstFailureAt state = Some f \<longrightarrow> \<not> in_outage (m_state state) \<longrightarrow>
       f = at \<or> \<not> in_outage (m_state s) \<and> m_firstFailureAt s = Some f"
    by (auto simp: good_change_def)
  from assms(2) at(2) have "in_firstFailureAt inc < at" by (auto simp: began_before_def opt_le_def split: option.splits)
  with at assms(2,3) show ?thesis by (auto simp: began_before_def)
qed

lemma agreement_step:
  assumes agree: "agreement db" and adm: "minute_admissible sha db input"
    and c: "compute_minute sha input = Inr (batch, rows)" and e: "minute_effects batch rows db = Inr db'"
  shows "agreement db'"
proof -
  obtain ch where upd: "\<And>s. s \<in> set (md_states db) \<Longrightarrow>
      updated_state (mn_states rows) s = (case ch s of None \<Rightarrow> s | Some (state, r) \<Rightarrow> state)"
    and ch: "changes_ok db rows ch"
    using minute_changes [OF agree adm c e] by blast
  have good: "good_change s state r" if "s \<in> set (md_states db)" "ch s = Some (state, r)" for s state r
    using ch that by (simp add: changes_ok_def)
  define new where "new = (\<lambda>s. case ch s of None \<Rightarrow> s | Some (state, r) \<Rightarrow> state)"
  have states: "md_states db' = map new (md_states db)"
    unfolding minute_effects_shape(1) [OF e] new_def using upd by simp
  have fresh: "or_id opn \<notin> in_id ` set (md_incidents db)" if "opn \<in> set (mn_opened rows)" for opn
    using opened_fresh [OF agree ch that] adm c that unfolding minute_admissible_def by blast
  have ids: "distinct (map or_id (mn_opened rows))" using adm c unfolding minute_admissible_def by blast
  have "sql_insert_new in_id (map opened_incident (mn_opened rows)) (md_incidents db) =
      (md_incidents db @ map opened_incident (mn_opened rows), map opened_incident (mn_opened rows))"
    using ids fresh by (intro sql_insert_new_fresh) (auto simp: opened_incident_def comp_def image_iff)
  with minute_effects_shape(2) [OF e] have incs: "md_incidents db' =
      map (updated_incident rows) (md_incidents db) @ map opened_incident (mn_opened rows)" by simp
  have new_cases: "new s = s \<and> ch s = None \<or> (\<exists>r. ch s = Some (new s, r) \<and> good_change s (new s) r)"
    if "s \<in> set (md_states db)" for s
    using good [OF that] by (cases "ch s") (auto simp: new_def)
  have mid: "m_monitorId (new s) = m_monitorId s" if "s \<in> set (md_states db)" for s
    using new_cases [OF that] unfolding good_change_def by metis
  have "map m_monitorId (md_states db') = map m_monitorId (md_states db)"
    unfolding states map_map comp_def using mid by (rule map_cong [OF refl])
  then have "distinct (map m_monitorId (md_states db'))" using agreement_distinct(1) [OF agree] by simp
  moreover have "map in_id (md_incidents db') = map in_id (md_incidents db) @ map or_id (mn_opened rows)"
    by (simp add: incs comp_def updated_incident_frame opened_incident_def)
  moreover have "set (map in_id (md_incidents db)) \<inter> set (map or_id (mn_opened rows)) = {}" using fresh by force
  with agreement_distinct(2) [OF agree] ids
  have "distinct (map in_id (md_incidents db) @ map or_id (mn_opened rows))" by simp
  moreover have "monitor_inv (new s) \<and> (\<forall>i. m_activeIncidentId (new s) = Some i \<longleftrightarrow> unresolved_of db' (m_monitorId (new s)) i)"
    if s: "s \<in> set (md_states db)" for s
  proof -
    have "monitor_inv s" using agree s by (simp add: agreement_def)
    with new_cases [OF s] have "monitor_inv (new s)" unfolding good_change_def by metis
    moreover have "m_activeIncidentId (new s) = Some i \<longleftrightarrow> unresolved_of db' (m_monitorId s) i" for i
      using unresolved_after [OF agree ch incs s, of i] by (auto simp: new_def split: option.split)
    ultimately show ?thesis using mid [OF s] by simp
  qed
  moreover have "\<exists>s \<in> set (md_states db'). m_monitorId s = in_monitorId inc \<and> began_before s inc"
    if inc: "inc \<in> set (md_incidents db')" for inc
  proof (cases "inc \<in> set (map (updated_incident rows) (md_incidents db))")
    case True
    then obtain inc0 where i0: "inc0 \<in> set (md_incidents db)" "inc = updated_incident rows inc0" by auto
    with agree obtain s where s: "s \<in> set (md_states db)" "m_monitorId s = in_monitorId inc0" "began_before s inc0"
      unfolding agreement_def by blast
    have ff: "in_firstFailureAt inc = in_firstFailureAt inc0" by (simp add: i0(2) updated_incident_frame)
    have "began_before (new s) inc" using new_cases [OF s(1)]
    proof
      assume "new s = s \<and> ch s = None"
      with s(3) ff show ?thesis by (simp add: began_before_def)
    qed (use began_before_after [OF _ s(3) ff] in blast)
    moreover have "m_monitorId (new s) = in_monitorId inc" using mid [OF s(1)] s(2) i0(2) by (simp add: updated_incident_frame)
    ultimately show ?thesis using s(1) unfolding states by auto
  next
    case False
    with inc obtain opn where opn: "opn \<in> set (mn_opened rows)" "inc = opened_incident opn" by (auto simp: incs)
    with ch obtain s state r where s: "s \<in> set (md_states db)" "ch s = Some (state, r)" "opn \<in> set (mn_opened r)"
      unfolding changes_ok_def by blast
    from good [OF s(1,2)] s(3) obtain at where "m_lastCheckedAt state = Some at"
      "opens_incident (m_monitorId s) at s state r"
      by (auto simp: good_change_def keeps_incident_def resolves_incident_def)
    with s(3) have "m_monitorId s = in_monitorId inc \<and> began_before state inc"
      by (auto simp: opn(2) opened_incident_def opens_incident_def began_before_def)
    moreover have "new s = state" using s(2) by (simp add: new_def)
    ultimately show ?thesis using s(1) mid [OF s(1)] unfolding states by (intro bexI [of _ "new s"]) auto
  qed
  ultimately show ?thesis unfolding agreement_def by (simp add: states)
qed

subsection \<open>The minutes as a machine\<close>

definition minute_step :: "(string \<Rightarrow> byte list) \<Rightarrow> minute_db \<Rightarrow> minute_input \<Rightarrow> js_error + minute_db" where
  "minute_step sha256 db input = res_bind (persistAtomicMinute sha256 False input db) (\<lambda>(db', _). Inr db')"

lemma persist_cases:
  assumes "persistAtomicMinute sha inval input db = Inr (db', x)"
  shows "\<exists>batch rows. compute_minute sha input = Inr (batch, rows) \<and> cb_scheduledMinute batch = am_scheduledMinute input \<and>
    (if am_scheduledMinute input \<in> cb_scheduledMinute ` set (md_batches db) then db' = db
     else minute_effects batch rows db = Inr db' \<and> minute_constraints db')"
proof -
  obtain batch rows where c: "compute_minute sha input = Inr (batch, rows)"
    and p: "persist_atomic_minute_sql batch rows db = Inr db'"
    using assms by (auto simp: persistAtomicMinute_def res_bind_Inr_iff)
  have "cb_scheduledMinute batch = am_scheduledMinute input" using compute_minute_rows [OF c] by blast
  with c p show ?thesis
    by (auto simp: persist_atomic_minute_sql_def res_bind_Inr_iff split: if_splits)
qed

lemma minute_step_agreement:
  assumes "agreement db" and "minute_admissible sha db input" and "minute_step sha db input = Inr db'"
  shows "agreement db'"
proof -
  obtain x where "persistAtomicMinute sha False input db = Inr (db', x)"
    using assms(3) by (auto simp: minute_step_def res_bind_Inr_iff)
  from persist_cases [OF this] assms(1,2) show ?thesis
    by (auto split: if_splits intro: agreement_step)
qed

interpretation minute_machine: invariant_machine "minute_step sha" agreement "minute_admissible sha" for sha
  by unfold_locales (rule minute_step_agreement)

subsection \<open>Properties\<close>

text \<open>C3. Whatever minutes are committed, in whatever order and however late a worker read the
  snapshots, monitors and incidents agree: a monitor is in an outage exactly when it has an
  unresolved incident, that incident is the one its snapshot names, and no incident is opened under
  the identifier of another.\<close>

theorem minutes_keep_agreement:
  assumes "agreement db" and "admissible_run (minute_step sha) (minute_admissible sha) db inputs"
    and "run_steps (minute_step sha) db inputs = Inr db'"
  shows "agreement db' \<and>
    (\<forall>s \<in> set (md_states db'). (in_outage (m_state s) \<longleftrightarrow> (\<exists>i. unresolved_of db' (m_monitorId s) i)) \<and>
       (\<forall>i. unresolved_of db' (m_monitorId s) i \<longleftrightarrow> m_activeIncidentId s = Some i))"
proof -
  have agree: "agreement db'" using minute_machine.inv_run assms by blast
  moreover have "in_outage (m_state s) \<longleftrightarrow> (\<exists>i. m_activeIncidentId s = Some i)" if "s \<in> set (md_states db')" for s
  proof -
    have "incident_ok s" using agree that by (simp add: agreement_def monitor_inv_def snapshot_ok_def)
    then show ?thesis by (auto simp: incident_ok_def elim: truthyE split: if_splits)
  qed
  ultimately show ?thesis using agreement_active [OF agree] by blast
qed

text \<open>A snapshot that a check changes has the next version.\<close>

lemma changed_version:
  assumes "monitor_change input results m = Some (check, cur, t)"
    and "incident_rows sha m check t no_rows = (iid, state, r)"
  shows "m_version state = m_version cur + 1"
proof -
  have t: "transitionMonitor cur (CheckEvent (event_of_check check)) = Inr t" "t_state t \<noteq> cur"
    using assms(1) by (auto simp: monitor_change_def split: option.splits sum.splits if_splits)
  then obtain n i where c: "checkedState cur (event_of_check check) = Inr (n, i)" and n: "n = t_state t"
    by (auto simp: transitionMonitor_def res_bind_Inr_iff)
  have "m_state cur \<in> set CHECK_STATES"
  proof (rule ccontr)
    assume "m_state cur \<notin> set CHECK_STATES"
    with c have "n = cur" by (auto simp: checkedState_def res_bind_Inr_iff)
    with t n show False by simp
  qed
  with checkedState_version [OF c] have "m_version (t_state t) = m_version cur + 1" by (simp add: n)
  moreover have "m_version state = m_version (t_state t)"
    using assms(2)
    by (auto simp: incident_rows_def Let_def split: option.splits incident_intent.splits if_splits)
  ultimately show ?thesis by simp
qed

lemma minute_results_in:
  "minute_results expected rs results = Inr results' \<Longrightarrow>
   (\<forall>r \<in> set rs. results' (ck_monitorId r) = Some r) \<and> (\<forall>m c. results m = Some c \<longrightarrow> results' m = Some c)"
proof (induction rs arbitrary: results)
  case Nil
  then show ?case by simp
next
  case (Cons r rs)
  then have rec: "minute_results expected rs (results(ck_monitorId r \<mapsto> r)) = Inr results'"
    and new: "results (ck_monitorId r) = None" by (simp_all split: if_splits)
  from Cons.IH [OF rec] new show ?case by (metis fun_upd_other fun_upd_same option.distinct(1) set_ConsD)
qed

lemma active_check_changes:
  assumes "transitionMonitor cur (CheckEvent e) = Inr t" and "m_state cur \<in> set CHECK_STATES"
  shows "t_state t \<noteq> cur"
proof -
  obtain n i where c: "checkedState cur e = Inr (n, i)" and n: "n = t_state t"
    using assms(1) by (auto simp: transitionMonitor_def res_bind_Inr_iff)
  with checkedState_version [OF c] assms(2) have "m_version (t_state t) = m_version cur + 1" by simp
  then show ?thesis by auto
qed

lemma run_steps_each:
  "run_steps step a ms = Inr a' \<Longrightarrow> m \<in> set ms \<Longrightarrow> \<exists>b b'. step b m = Inr b'"
  by (induction ms arbitrary: a) (auto simp: res_bind_Inr_iff)

lemma compute_minute_results:
  assumes "compute_minute sha input = Inr (batch, rows)"
  shows "\<exists>results packed ms. minute_results (am_expectedMonitorIds input) (am_results input) (\<lambda>_. None) = Inr results \<and>
     ms = sort (js_unique (am_monitorIds input)) \<and>
     encodeTelemetry (map (telemetry_of (am_expectedMonitorIds input) results) ms) = Inr packed \<and>
     run_steps (minute_monitor sha input results) no_rows ms = Inr rows \<and> batch = minute_batch input ms packed"
proof -
  define ms where "ms = sort (js_unique (am_monitorIds input))"
  have "res_bind (minute_results (am_expectedMonitorIds input) (am_results input) (\<lambda>_. None)) (\<lambda>results.
      res_bind (encodeTelemetry (map (telemetry_of (am_expectedMonitorIds input) results) ms)) (\<lambda>packed.
      res_bind (run_steps (minute_monitor sha input results) no_rows ms) (\<lambda>rows.
        Inr (minute_batch input ms packed, rows)))) = Inr (batch, rows)"
    using assms unfolding compute_minute_def Let_def ms_def [symmetric] by (simp only: sum.distinct split: if_splits)
  then show ?thesis unfolding res_bind_Inr_iff ms_def by blast
qed

text \<open>The row of a completed check of an active monitor.\<close>

lemma completed_check_row:
  assumes run: "run_steps (minute_monitor sha input results) no_rows ms = Inr rows"
    and m: "m \<in> set ms" "results m = Some check" "am_states input m = Some cur" "m_state cur \<in> set CHECK_STATES"
  shows "\<exists>r \<in> set (mn_states rows). sr_monitorId r = m \<and> sr_expectedVersion r = m_version cur \<and>
    m_version (sr_state r) = m_version cur + 1"
proof -
  from run_steps_each [OF run m(1)] obtain a a' where "minute_monitor sha input results a m = Inr a'" by blast
  with m(2,3) obtain t where t: "transitionMonitor cur (CheckEvent (event_of_check check)) = Inr t"
    by (auto simp: minute_monitor_def res_bind_Inr_iff)
  with m active_check_changes [OF t] have mc: "monitor_change input results m = Some (check, cur, t)"
    by (simp add: monitor_change_def)
  then have "changed_rows sha input results m \<noteq> (None, no_rows)"
    by (auto simp: changed_rows_def split: prod.splits)
  with changed_rows_states [of sha input results m] obtain iid state r where
    ir: "incident_rows sha m check t no_rows = (iid, state, r)"
    and C: "changed_rows sha input results m =
      (Some state, r\<lparr>mn_states := [\<lparr>sr_state = state, sr_monitorId = m, sr_expectedVersion = m_version cur\<rparr>]\<rparr>)"
    unfolding mc by auto
  have "\<lparr>sr_state = state, sr_monitorId = m, sr_expectedVersion = m_version cur\<rparr> \<in> set (mn_states rows)"
    unfolding minute_rows_collect(1) [OF run] using m(1) C by (force simp: image_iff)
  with changed_version [OF mc ir] show ?thesis by force
qed

lemma locked_version:
  assumes e: "minute_effects batch rows db = Inr db'" and "distinct (map m_monitorId (md_states db))"
    and "distinct (map sr_monitorId (mn_states rows))" and r: "r \<in> set (mn_states rows)"
    and "m_version (sr_state r) = sr_expectedVersion r + 1"
  shows "(\<exists>s \<in> set (md_states db). m_monitorId s = sr_monitorId r \<and> m_version s = sr_expectedVersion r) \<and>
    (\<exists>s \<in> set (md_states db'). m_monitorId s = sr_monitorId r \<and> m_version s = sr_expectedVersion r + 1)"
proof -
  obtain s where s: "s \<in> set (md_states db)" "m_monitorId s = sr_monitorId r" "m_version s = sr_expectedVersion r"
    using state_rows_hit [OF assms(2,3) minute_effects_shape(3) [OF e] r] by blast
  have "state_hit (mn_states rows) s = Some r"
    unfolding state_hit_def
    by (rule find_unique [OF r]) (use s assms(3) r in \<open>auto simp: distinct_map inj_on_def\<close>)
  then have "updated_state (mn_states rows) s = (sr_state r)\<lparr>m_monitorId := m_monitorId s\<rparr>"
    by (simp add: updated_state_def)
  moreover have "updated_state (mn_states rows) s \<in> set (md_states db')"
    unfolding minute_effects_shape(1) [OF e] using s(1) by simp
  ultimately show ?thesis using s assms(5) by (metis snapshot.select_convs(1) snapshot.select_convs(15) snapshot.surjective snapshot.update_convs(1))
qed

text \<open>C15. A minute is committed once and on the snapshots it was computed from: when it is
  already recorded nothing changes; otherwise its batch is added, the tables satisfy their
  constraints, every completed check of an active monitor found the version it had read and left
  the next one, and no later call for the minute changes anything.\<close>

theorem minute_commits_once:
  assumes "persistAtomicMinute sha inval input db = Inr (db', x)"
    and "distinct (map m_monitorId (md_states db))"
  shows "if am_scheduledMinute input \<in> cb_scheduledMinute ` set (md_batches db) then db' = db
    else minute_constraints db' \<and>
      (\<exists>batch. md_batches db' = md_batches db @ [batch] \<and> cb_scheduledMinute batch = am_scheduledMinute input) \<and>
      (\<forall>check \<in> set (am_results input). \<forall>cur. ck_monitorId check \<in> set (am_monitorIds input) \<and>
         am_states input (ck_monitorId check) = Some cur \<and> m_state cur \<in> set CHECK_STATES \<longrightarrow>
         (\<exists>s \<in> set (md_states db). m_monitorId s = ck_monitorId check \<and> m_version s = m_version cur) \<and>
         (\<exists>s \<in> set (md_states db'). m_monitorId s = ck_monitorId check \<and> m_version s = m_version cur + 1)) \<and>
      (\<forall>input' inval' db'' y. am_scheduledMinute input' = am_scheduledMinute input \<longrightarrow>
         persistAtomicMinute sha inval' input' db' = Inr (db'', y) \<longrightarrow> db'' = db')"
proof (cases "am_scheduledMinute input \<in> cb_scheduledMinute ` set (md_batches db)")
  case True
  with persist_cases [OF assms(1)] show ?thesis by auto
next
  case False
  with persist_cases [OF assms(1)] obtain batch rows where c: "compute_minute sha input = Inr (batch, rows)"
    and b: "cb_scheduledMinute batch = am_scheduledMinute input"
    and e: "minute_effects batch rows db = Inr db'" "minute_constraints db'" by auto
  obtain results ms where r: "minute_results (am_expectedMonitorIds input) (am_results input) (\<lambda>_. None) = Inr results"
    and ms: "ms = sort (js_unique (am_monitorIds input))"
    and run: "run_steps (minute_monitor sha input results) no_rows ms = Inr rows"
    using compute_minute_results [OF c] by blast
  have dms: "distinct ms" by (simp add: ms)
  have batches: "md_batches db' = md_batches db @ [batch]"
    using e(1) by (auto simp: minute_effects_def Let_def res_bind_Inr_iff split: prod.splits if_splits)
  have lock: "(\<exists>s \<in> set (md_states db). m_monitorId s = ck_monitorId check \<and> m_version s = m_version cur) \<and>
      (\<exists>s \<in> set (md_states db'). m_monitorId s = ck_monitorId check \<and> m_version s = m_version cur + 1)"
    if k: "check \<in> set (am_results input)" "ck_monitorId check \<in> set (am_monitorIds input)"
      "am_states input (ck_monitorId check) = Some cur" "m_state cur \<in> set CHECK_STATES" for check cur
  proof -
    have "ck_monitorId check \<in> set ms" "results (ck_monitorId check) = Some check"
      using k(1,2) minute_results_in [OF r] by (simp_all add: ms)
    from completed_check_row [OF run this k(3,4)] obtain sr where sr: "sr \<in> set (mn_states rows)"
      "sr_monitorId sr = ck_monitorId check" "sr_expectedVersion sr = m_version cur"
      "m_version (sr_state sr) = m_version cur + 1" by blast
    from locked_version [OF e(1) assms(2) state_rows_distinct [OF run dms] sr(1)] sr(2-4) show ?thesis by simp
  qed
  have again: "db'' = db'" if "am_scheduledMinute input' = am_scheduledMinute input"
    "persistAtomicMinute sha inval' input' db' = Inr (db'', y)" for input' inval' db'' y
  proof -
    have "am_scheduledMinute input' \<in> cb_scheduledMinute ` set (md_batches db')"
      unfolding batches using that(1) b by simp
    with persist_cases [OF that(2)] show ?thesis by auto
  qed
  show ?thesis unfolding if_not_P [OF False] using e(2) b batches lock again by blast
qed

text \<open>C37. The telemetry a minute records is what was measured: the batch decodes to one value per
  monitor, in the order of the stored identifiers, with the outcome and the latency of its check.\<close>

theorem recorded_minute_decodes:
  assumes "persistAtomicMinute sha inval input db = Inr (db', x)"
    and "am_scheduledMinute input \<notin> cb_scheduledMinute ` set (md_batches db)"
  shows "\<exists>batch. md_batches db' = md_batches db @ [batch] \<and>
     set (cb_monitorIds batch) = set (am_monitorIds input) \<and> distinct (cb_monitorIds batch) \<and>
     decodeTelemetry (cb_packed batch) = Inr (map (telemetry_of (am_expectedMonitorIds input)
       (\<lambda>m. find (\<lambda>c. ck_monitorId c = m) (am_results input))) (cb_monitorIds batch))"
proof -
  from persist_cases [OF assms(1)] assms(2) obtain batch rows where c: "compute_minute sha input = Inr (batch, rows)"
    and e: "minute_effects batch rows db = Inr db'" by auto
  obtain results packed ms where r: "minute_results (am_expectedMonitorIds input) (am_results input) (\<lambda>_. None) = Inr results"
    and ms: "ms = sort (js_unique (am_monitorIds input))"
    and enc: "encodeTelemetry (map (telemetry_of (am_expectedMonitorIds input) results) ms) = Inr packed"
    and b: "batch = minute_batch input ms packed"
    using compute_minute_results [OF c] by blast
  have "results = (\<lambda>m. find (\<lambda>c. ck_monitorId c = m) (am_results input))"
  proof
    fix m
    show "results m = find (\<lambda>c. ck_monitorId c = m) (am_results input)"
    proof (cases "results m")
      case None
      have "find (\<lambda>c. ck_monitorId c = m) (am_results input) = None"
        unfolding find_None_iff using minute_results_in [OF r] None by auto
      with None show ?thesis by simp
    next
      case (Some c0)
      have "ck_monitorId c0 = m \<and> c0 \<in> set (am_results input)"
        by (rule minute_results_at [OF r _ subset_refl Some]) simp
      moreover have "y = c0" if "y \<in> set (am_results input)" "ck_monitorId y = m" for y
        using minute_results_in [OF r] that Some by auto
      ultimately have "find (\<lambda>c. ck_monitorId c = m) (am_results input) = Some c0"
        by (intro find_unique) auto
      with Some show ?thesis by simp
    qed
  qed
  moreover have "decodeTelemetry packed = Inr (map (telemetry_of (am_expectedMonitorIds input) results) ms)"
    using enc decodeTelemetry_encoded [of "map (telemetry_of (am_expectedMonitorIds input) results) ms"]
    by (auto simp: encodeTelemetry_iff packed_of_def telemetry_of_def)
  moreover have "md_batches db' = md_batches db @ [batch]"
    using e by (auto simp: minute_effects_def Let_def res_bind_Inr_iff split: prod.splits if_splits)
  ultimately show ?thesis by (intro exI [of _ batch]) (simp add: b minute_batch_def ms)
qed

subsection \<open>Samples\<close>

text \<open>A healthy monitor with failure threshold 1 fails its first check.\<close>

definition sample_failure :: completed_check where
  "sample_failure = \<lparr>ck_monitorId = ''api'', ck_monitorName = ''API'', ck_checkedAt = 60000, ck_successful = False,
     ck_statusCode = Some 503, ck_latencyMs = 40, ck_effectiveUrl = None, ck_redirectCount = 0,
     ck_resolvedAddress = None, ck_errorCode = Some INVALID_STATUS, ck_errorMessage = None,
     ck_failureThreshold = 1, ck_recoveryThreshold = 1, ck_recipients = []\<rparr>"

definition sample_minute :: minute_input where
  "sample_minute = \<lparr>am_scheduledMinute = 60000, am_configVersion = 1, am_monitorIds = [''api''],
     am_expectedMonitorIds = [''api''], am_results = [sample_failure],
     am_states = (\<lambda>m. if m = ''api'' then Some healthy_sample else None),
     am_schedulerStartedAt = 60000, am_schedulerCompletedAt = 61000\<rparr>"

definition sample_minute_db :: minute_db where
  "sample_minute_db = \<lparr>md_batches = [], md_states = [healthy_sample], md_incidents = [], md_outbox = [],
     md_payloads = [], md_exceptions = [], md_commits = []\<rparr>"

lemma sample_results:
  "minute_results [''api''] [sample_failure] (\<lambda>_. None) = Inr ((\<lambda>_. None)(''api'' \<mapsto> sample_failure))"
  by (simp add: sample_failure_def)

lemma sample_packed:
  "\<exists>packed. encodeTelemetry (map (telemetry_of [''api''] ((\<lambda>_. None)(''api'' \<mapsto> sample_failure))) [''api'']) = Inr packed \<and>
     pk_encodingVersion packed = 1"
  by (simp add: encodeTelemetry_iff telemetry_of_def sample_failure_def encodable_def NO_LATENCY_def packed_of_def
      PACKED_TELEMETRY_VERSION_def)

definition sample_minute_rows :: "(string \<Rightarrow> byte list) \<Rightarrow> minute_rows" where
  "sample_minute_rows sha =
    (let down = healthy_sample\<lparr>m_state := DOWN, m_consecutiveFailures := 1, m_firstFailureAt := Some 60000,
           m_lastCheckedAt := Some 60000, m_lastFailureAt := Some 60000, m_lastStatusCode := Some 503,
           m_lastLatencyMs := Some 40, m_lastErrorCode := Some INVALID_STATUS,
           m_activeIncidentId := Some (incidentIdFor sha ''api'' 60000), m_version := 1, m_updatedAt := 60000\<rparr>
     in record_failure sha 60000 ''api'' sample_failure down
       (no_rows\<lparr>mn_stateChanged := True, mn_states := [\<lparr>sr_state = down, sr_monitorId = ''api'', sr_expectedVersion = 0\<rparr>],
          mn_opened := [\<lparr>or_id = incidentIdFor sha ''api'' 60000, or_monitorId = ''api'', or_openedAt = 60000,
            or_firstFailureAt = 60000, or_lastFailureAt = 60000, or_errorCode = Some INVALID_STATUS,
            or_statusCode = Some 503, or_createdAt = 60000\<rparr>]\<rparr>))"

lemma sample_rows:
  "run_steps (minute_monitor sha sample_minute ((\<lambda>_. None)(''api'' \<mapsto> sample_failure))) no_rows [''api''] =
     Inr (sample_minute_rows sha)"
  by (simp add: minute_monitor_def sample_minute_def sample_failure_def event_of_check_def transitionMonitor_def
      check_defs healthy_sample_def initial_snapshot_def CHECK_STATES_def record_transition_def incident_rows_def
      no_rows_def incident_notifications_def js_unique_def sample_minute_rows_def)

lemma sample_computed:
  "\<exists>packed. compute_minute sha sample_minute = Inr (minute_batch sample_minute [''api''] packed, sample_minute_rows sha) \<and>
     pk_encodingVersion packed = 1"
proof -
  obtain packed where p: "encodeTelemetry (map (telemetry_of [''api''] ((\<lambda>_. None)(''api'' \<mapsto> sample_failure))) [''api'']) = Inr packed"
    "pk_encodingVersion packed = 1" using sample_packed by blast
  have ids: "am_monitorIds sample_minute = [''api'']" "am_expectedMonitorIds sample_minute = [''api'']"
    "am_results sample_minute = [sample_failure]" by (simp_all add: sample_minute_def)
  have "sort (js_unique [''api'']) = [''api'']" by simp
  then have "compute_minute sha sample_minute = Inr (minute_batch sample_minute [''api''] packed, sample_minute_rows sha)"
    unfolding compute_minute_def ids Let_def sample_results by (simp only: res_bind_simps p sample_rows) simp
  with p show ?thesis by blast
qed

lemma sample_effects:
  "pk_encodingVersion packed = 1 \<Longrightarrow>
   \<exists>db'. minute_effects (minute_batch sample_minute [''api''] packed) (sample_minute_rows sha) sample_minute_db = Inr db' \<and>
     minute_constraints db'"
  by (simp add: sample_minute_rows_def no_rows_def record_failure_def sample_failure_def sample_minute_def
      healthy_sample_def initial_snapshot_def sample_minute_db_def minute_effects_def
      minute_batch_def exception_row_def merge_exceptions_def state_hit_def updated_state_def minute_constraints_def
      opened_incident_def incident_checks_def one_active_per_monitor_def monitor_state_checks_def check_batch_checks_def
      exception_payload_checks_def exception_checks_def opt_nonneg_def Let_def)

lemma sample_persisted: "\<exists>db' x. persistAtomicMinute sha False sample_minute sample_minute_db = Inr (db', x)"
proof -
  obtain packed where c: "compute_minute sha sample_minute = Inr (minute_batch sample_minute [''api''] packed, sample_minute_rows sha)"
    "pk_encodingVersion packed = 1" using sample_computed by blast
  have "md_batches sample_minute_db = []" by (simp add: sample_minute_db_def)
  with c sample_effects [OF c(2), of sha] show ?thesis
    by (auto simp: persistAtomicMinute_def persist_atomic_minute_sql_def)
qed

lemma sample_agreement: "agreement sample_minute_db"
  by (simp add: agreement_def sample_minute_db_def unresolved_of_def healthy_sample_def monitor_inv_def snapshot_ok_def
      counters_ok_def incident_ok_def in_outage_def chrono_ok_def initial_snapshot_def)

lemma sample_admissible: "minute_admissible sha sample_minute_db sample_minute"
proof -
  have "length (mn_opened rows) = 1" if "compute_minute sha sample_minute = Inr (batch, rows)" for batch rows
    using sample_computed [of sha] that by (auto simp: sample_minute_rows_def record_failure_def Let_def)
  then have "distinct (map or_id (mn_opened rows))" if "compute_minute sha sample_minute = Inr (batch, rows)" for batch rows
    using that by (metis (no_types) One_nat_def distinct_singleton length_0_conv length_Suc_conv list.simps(8,9))
  then show ?thesis
    by (simp add: minute_admissible_def sample_minute_db_def)
      (simp add: sample_minute_def sample_failure_def event_of_check_def thresholds_ok_def healthy_sample_def initial_snapshot_def)
qed

theorem minutes_keep_agreement_witness:
  "\<exists>db'. run_steps (minute_step (\<lambda>_. [])) sample_minute_db [sample_minute] = Inr db' \<and> agreement db'"
proof -
  obtain db' x where p: "persistAtomicMinute (\<lambda>_. []) False sample_minute sample_minute_db = Inr (db', x)"
    using sample_persisted by blast
  then have run: "run_steps (minute_step (\<lambda>_. [])) sample_minute_db [sample_minute] = Inr db'"
    by (simp add: minute_step_def)
  have "admissible_run (minute_step (\<lambda>_. [])) (minute_admissible (\<lambda>_. [])) sample_minute_db [sample_minute]"
    using sample_admissible by (simp split: sum.split)
  from minutes_keep_agreement [OF sample_agreement this run] run show ?thesis by blast
qed

theorem minute_commits_once_witness:
  "\<exists>db' x. persistAtomicMinute (\<lambda>_. []) False sample_minute sample_minute_db = Inr (db', x) \<and> minute_constraints db'"
proof -
  obtain db' x where p: "persistAtomicMinute (\<lambda>_. []) False sample_minute sample_minute_db = Inr (db', x)"
    using sample_persisted by blast
  have "distinct (map m_monitorId (md_states sample_minute_db))" "md_batches sample_minute_db = []"
    by (simp_all add: sample_minute_db_def)
  with minute_commits_once [OF p] p show ?thesis by auto
qed

theorem recorded_minute_decodes_witness:
  "\<exists>db' x. persistAtomicMinute (\<lambda>_. []) False sample_minute sample_minute_db = Inr (db', x) \<and> length (md_batches db') = 1"
proof -
  obtain db' x where p: "persistAtomicMinute (\<lambda>_. []) False sample_minute sample_minute_db = Inr (db', x)"
    using sample_persisted by blast
  have "md_batches sample_minute_db = []" by (simp add: sample_minute_db_def)
  with recorded_minute_decodes [OF p] p show ?thesis by auto
qed

end
