(* ===== verification/Maintenance.thy ===== *)
theory Maintenance
  imports Iso_Time Notifications Storage_Policy
begin

text \<open>
  The daily maintenance pass and the frequent sweep: \<open>lib/maintenance/budget.ts\<close> and
  \<open>performMaintenance\<close>, \<open>performSweep\<close> of \<open>lib/maintenance/coordinator.ts\<close>.

  The environment is a state of an arbitrary type \<open>'s\<close>: the database, the network and the clock.
  \<open>nowMs\<close> and every operation of the store act on it, so that a clock reading may let time pass and
  a store operation may do anything, raise included. An action carries the environment and the
  list of skipped tasks of the budget; its result is \<open>None\<close> when it does not return, otherwise the
  value or the exception with the state it left.
\<close>

subsection \<open>Budgets\<close>

datatype budget_bound = Hard | Pre_catalog | Catalog

datatype skip_reason = Hard_deadline | Pre_catalog_budget | Catalog_budget

record skipped_task =
  sk_task :: string
  sk_reason :: skip_reason

record maintenance_budget =
  bu_hardDeadlineAtMs :: int
  bu_catalogDeadlineAtMs :: int
  bu_preCatalogDeadlineAtMs :: int

definition createMaintenanceBudget :: "int \<Rightarrow> int \<Rightarrow> maintenance_budget" where
  "createMaintenanceBudget hardDeadlineAtMs catalogBudgetMs =
     \<lparr>bu_hardDeadlineAtMs = hardDeadlineAtMs,
      bu_catalogDeadlineAtMs = hardDeadlineAtMs,
      bu_preCatalogDeadlineAtMs = hardDeadlineAtMs - catalogBudgetMs\<rparr>"

fun deadlineFor :: "maintenance_budget \<Rightarrow> budget_bound \<Rightarrow> int" where
  "deadlineFor b Hard = bu_hardDeadlineAtMs b"
| "deadlineFor b Pre_catalog = bu_preCatalogDeadlineAtMs b"
| "deadlineFor b Catalog = bu_catalogDeadlineAtMs b"

definition MIN_MAINTENANCE_TASK_MS :: int where "MIN_MAINTENANCE_TASK_MS = 100"
definition MIN_RETENTION_BATCH_MS :: int where "MIN_RETENTION_BATCH_MS = 250"
definition MIN_USAGE_MEASUREMENT_MS :: int where "MIN_USAGE_MEASUREMENT_MS = 500"
definition MIN_CATALOG_TASK_MS :: int where "MIN_CATALOG_TASK_MS = 250"

subsection \<open>Actions\<close>

record 's world =
  wo_env :: 's
  wo_skips :: "skipped_task list"

type_synonym ('s, 'a) action = "'s world \<Rightarrow> ((thrown + 'a) \<times> 's world) option"
type_synonym ('s, 'a) operation = "'s \<Rightarrow> (thrown + 'a) \<times> 's"

definition act_return :: "'a \<Rightarrow> ('s, 'a) action" where
  "act_return x w = Some (Inr x, w)"

definition act_bind :: "('s, 'a) action \<Rightarrow> ('a \<Rightarrow> ('s, 'b) action) \<Rightarrow> ('s, 'b) action" where
  "act_bind m f w = (case m w of
      None \<Rightarrow> None
    | Some (Inl e, w') \<Rightarrow> Some (Inl e, w')
    | Some (Inr x, w') \<Rightarrow> f x w')"

text \<open>A store operation as an action, the clock, and the methods of the budget.\<close>

definition act_call :: "('s, 'a) operation \<Rightarrow> ('s, 'a) action" where
  "act_call f w = (let (r, s) = f (wo_env w) in Some (r, w\<lparr>wo_env := s\<rparr>))"

definition act_now :: "('s \<Rightarrow> int \<times> 's) \<Rightarrow> ('s, int) action" where
  "act_now nowMs w = (let (t, s) = nowMs (wo_env w) in Some (Inr t, w\<lparr>wo_env := s\<rparr>))"

definition remainingMs :: "('s \<Rightarrow> int \<times> 's) \<Rightarrow> maintenance_budget \<Rightarrow> budget_bound \<Rightarrow> ('s, int) action" where
  "remainingMs nowMs b bound = act_bind (act_now nowMs) (\<lambda>t. act_return (max 0 (deadlineFor b bound - t)))"

definition canStart ::
  "('s \<Rightarrow> int \<times> 's) \<Rightarrow> maintenance_budget \<Rightarrow> int \<Rightarrow> budget_bound \<Rightarrow> ('s, bool) action" where
  "canStart nowMs b minimumMs bound =
     act_bind (act_now nowMs) (\<lambda>t. act_return (minimumMs \<le> deadlineFor b bound - t))"

definition recordSkip :: "string \<Rightarrow> skip_reason \<Rightarrow> ('s, unit) action" where
  "recordSkip task reason w =
     Some (Inr (), w\<lparr>wo_skips := wo_skips w @ [\<lparr>sk_task = task, sk_reason = reason\<rparr>]\<rparr>)"

text \<open>\<open>deadlineExceeded\<close> reads the clock only when no task was skipped.\<close>

definition deadlineExceeded :: "('s \<Rightarrow> int \<times> 's) \<Rightarrow> maintenance_budget \<Rightarrow> ('s, bool) action" where
  "deadlineExceeded nowMs b w =
     (if wo_skips w \<noteq> [] then Some (Inr True, w)
      else act_bind (act_now nowMs) (\<lambda>t. act_return (bu_hardDeadlineAtMs b \<le> t)) w)"

text \<open>\<open>try { work } catch (error)\<close>: the handler sees the state the failed work left.\<close>

definition act_catch :: "('s, 'a) action \<Rightarrow> (thrown \<Rightarrow> ('s, 'a) action) \<Rightarrow> ('s, 'a) action" where
  "act_catch m handler w = (case m w of
      None \<Rightarrow> None
    | Some (Inl e, w') \<Rightarrow> handler e w'
    | Some (Inr x, w') \<Rightarrow> Some (Inr x, w'))"

definition act_throw :: "thrown \<Rightarrow> ('s, 'a) action" where
  "act_throw e w = Some (Inl e, w)"

subsection \<open>Guarded steps\<close>

definition isStatementBudgetError :: "thrown \<Rightarrow> bool" where
  "isStatementBudgetError error = (case error of
      ThrownPrimitive _ \<Rightarrow> False
    | ThrownObject isError code message \<Rightarrow>
        code = Some ''57014'' \<or>
        (isError \<and>
         (js_includes (js_lower message) ''statement timeout'' \<or>
          js_includes (js_lower message) ''canceling statement'' \<or>
          js_includes (js_lower message) ''query_canceled'')))"

definition runGuarded ::
  "('s \<Rightarrow> int \<times> 's) \<Rightarrow> maintenance_budget \<Rightarrow> string \<Rightarrow> budget_bound \<Rightarrow> int \<Rightarrow> 'a \<Rightarrow>
   (int \<Rightarrow> ('s, 'a) operation) \<Rightarrow> ('s, 'a) action" where
  "runGuarded nowMs b task bound minimumMs fallback work =
    act_bind (canStart nowMs b minimumMs bound) (\<lambda>ok.
      if \<not> ok then
        (let reason = (if bound = Hard \<or> bound = Catalog then Hard_deadline else Pre_catalog_budget) in
         act_bind (if bound = Catalog
                   then act_bind (remainingMs nowMs b Hard)
                          (\<lambda>left. act_return (if left > 0 then Catalog_budget else reason))
                   else act_return reason) (\<lambda>why.
         act_bind (recordSkip task why) (\<lambda>_. act_return fallback)))
      else
        act_catch (act_bind (remainingMs nowMs b bound) (\<lambda>left. act_call (work left)))
          (\<lambda>error. if bound = Pre_catalog \<and> isStatementBudgetError error
                   then act_bind (recordSkip task Pre_catalog_budget) (\<lambda>_. act_return fallback)
                   else act_throw error))"

definition RETENTION_BATCH_SIZE :: int where "RETENTION_BATCH_SIZE = 10000"
definition MAINTENANCE_WORK_BUDGET_MS :: int where "MAINTENANCE_WORK_BUDGET_MS = 45000"
definition CATALOG_VALIDATION_BUDGET_MS :: int where "CATALOG_VALIDATION_BUDGET_MS = 10000"
definition ORPHAN_IMAGE_KEEP_NEWEST :: int where "ORPHAN_IMAGE_KEEP_NEWEST = 20"
definition SWEEP_WORK_BUDGET_MS :: int where "SWEEP_WORK_BUDGET_MS = 20000"

text \<open>
  One turn of the drain loop: \<open>Inr n\<close> with the number of rows a full batch affected asks for another
  turn, \<open>Inl n\<close> ends the loop with \<open>n\<close> more rows.
\<close>

definition drain_turn ::
  "('s \<Rightarrow> int \<times> 's) \<Rightarrow> maintenance_budget \<Rightarrow> string \<Rightarrow> (int \<Rightarrow> int \<Rightarrow> ('s, int) operation) \<Rightarrow>
   ('s, int + int) action" where
  "drain_turn nowMs b task operation =
    act_bind (canStart nowMs b MIN_RETENTION_BATCH_MS Pre_catalog) (\<lambda>ok.
      if \<not> ok then act_return (Inl 0)
      else act_catch
        (act_bind (remainingMs nowMs b Pre_catalog) (\<lambda>left.
         act_bind (act_call (operation RETENTION_BATCH_SIZE left)) (\<lambda>affected.
         act_return (if affected < RETENTION_BATCH_SIZE then Inl affected else Inr affected))))
        (\<lambda>error. if isStatementBudgetError error
                 then act_bind (recordSkip task Pre_catalog_budget) (\<lambda>_. act_return (Inl 0))
                 else act_throw error))"

partial_function (option) drain_loop ::
  "('s \<Rightarrow> int \<times> 's) \<Rightarrow> maintenance_budget \<Rightarrow> string \<Rightarrow> (int \<Rightarrow> int \<Rightarrow> ('s, int) operation) \<Rightarrow>
   int \<Rightarrow> 's world \<Rightarrow> ((thrown + int) \<times> 's world) option" where
  "drain_loop nowMs b task operation acc w =
    (case drain_turn nowMs b task operation w of
       None \<Rightarrow> None
     | Some (Inl e, w') \<Rightarrow> Some (Inl e, w')
     | Some (Inr (Inl n), w') \<Rightarrow> Some (Inr (acc + n), w')
     | Some (Inr (Inr n), w') \<Rightarrow> drain_loop nowMs b task operation (acc + n) w')"

definition drainBatches ::
  "('s \<Rightarrow> int \<times> 's) \<Rightarrow> maintenance_budget \<Rightarrow> string \<Rightarrow> (int \<Rightarrow> int \<Rightarrow> ('s, int) operation) \<Rightarrow>
   ('s, int) action" where
  "drainBatches nowMs b task operation =
    act_bind (canStart nowMs b MIN_RETENTION_BATCH_MS Pre_catalog) (\<lambda>ok.
      if \<not> ok then act_bind (recordSkip task Pre_catalog_budget) (\<lambda>_. act_return 0)
      else drain_loop nowMs b task operation 0)"

text \<open>The sum of drains run one after the other.\<close>

fun drain_all ::
  "('s \<Rightarrow> int \<times> 's) \<Rightarrow> maintenance_budget \<Rightarrow> (string \<times> (int \<Rightarrow> int \<Rightarrow> ('s, int) operation)) list \<Rightarrow>
   ('s, int) action" where
  "drain_all nowMs b [] = act_return 0"
| "drain_all nowMs b ((task, operation) # rest) =
     act_bind (drainBatches nowMs b task operation) (\<lambda>n.
     act_bind (drain_all nowMs b rest) (\<lambda>m. act_return (n + m)))"

subsection \<open>The store\<close>

record catalog_summary =
  ca_checkedSources :: int
  ca_disabledPresets :: int

record 's maintenance_store =
  ms_reconcileStaleOutbox :: "instant \<Rightarrow> int \<Rightarrow> ('s, int) operation"
  ms_reconcileStaleCronRuns :: "instant \<Rightarrow> int \<Rightarrow> ('s, int) operation"
  ms_deleteRawChecks :: "instant \<Rightarrow> int \<Rightarrow> int \<Rightarrow> ('s, int) operation"
  ms_deleteSentNotifications :: "instant \<Rightarrow> int \<Rightarrow> int \<Rightarrow> ('s, int) operation"
  ms_deleteProcessedPorkbunWebhookReceipts :: "instant \<Rightarrow> int \<Rightarrow> int \<Rightarrow> ('s, int) operation"
  ms_expireConfigApprovals :: "instant \<Rightarrow> instant \<Rightarrow> int \<Rightarrow> int \<Rightarrow> ('s, int) operation"
  ms_expireApiIdempotency :: "instant \<Rightarrow> int \<Rightarrow> int \<Rightarrow> ('s, int) operation"
  ms_markDeviceAuthorizationsExpired :: "instant \<Rightarrow> int \<Rightarrow> int \<Rightarrow> ('s, int) operation"
  ms_deleteExpiredDeviceAuthorizations :: "instant \<Rightarrow> int \<Rightarrow> int \<Rightarrow> ('s, int) operation"
  ms_expireRateLimitBuckets :: "instant \<Rightarrow> int \<Rightarrow> int \<Rightarrow> ('s, int) operation"
  ms_retainConfigSnapshots :: "instant \<Rightarrow> int \<Rightarrow> int \<Rightarrow> int \<Rightarrow> ('s, int) operation"
  ms_deleteOldCronRuns :: "instant \<Rightarrow> int \<Rightarrow> int \<Rightarrow> ('s, int) operation"
  ms_deleteOldRollups :: "string \<Rightarrow> int \<Rightarrow> int \<Rightarrow> ('s, int) operation"
  ms_compact15Minute :: "instant \<Rightarrow> instant \<Rightarrow> instant \<Rightarrow> int \<Rightarrow> ('s, int) operation"
  ms_fillSchedulerGaps :: "instant \<Rightarrow> instant \<Rightarrow> instant \<Rightarrow> int \<Rightarrow> ('s, int) operation"
  ms_schedulerCoverageStart :: "instant \<Rightarrow> int \<Rightarrow> ('s, instant) operation"
  ms_promoteRollups :: "string \<Rightarrow> string \<Rightarrow> instant \<Rightarrow> instant \<Rightarrow> int \<Rightarrow> ('s, int) operation"
  ms_measureAndSnapshotUsage :: "instant \<Rightarrow> int \<Rightarrow> ('s, governor_mode) operation"
  ms_readLatestGovernorMode :: "('s, governor_mode option) operation"
  ms_enforceTelemetryRetention :: "instant \<Rightarrow> governor_mode \<Rightarrow> int \<Rightarrow> int \<Rightarrow> ('s, int) operation"
  ms_retainUsageSnapshots :: "instant \<Rightarrow> int \<Rightarrow> int \<Rightarrow> ('s, int) operation"
  ms_retainExceptions :: "instant \<Rightarrow> int \<Rightarrow> int \<Rightarrow> ('s, int) operation"
  ms_retainExceptionPayloads :: "instant \<Rightarrow> int \<Rightarrow> int \<Rightarrow> ('s, int) operation"
  ms_deleteOrphanImages :: "instant \<Rightarrow> int \<Rightarrow> int \<Rightarrow> int \<Rightarrow> ('s, int) operation"
  ms_reconcileDependencyCatalog :: "instant \<Rightarrow> int \<Rightarrow> ('s, catalog_summary) operation"
  ms_retainDependencyIncidentUpdates :: "instant \<Rightarrow> int \<Rightarrow> int \<Rightarrow> ('s, int) operation"
  ms_compactDependencyStateIntervals :: "instant \<Rightarrow> int \<Rightarrow> int \<Rightarrow> ('s, int) operation"

subsection \<open>The daily pass\<close>

definition utcDay :: "instant \<Rightarrow> int \<Rightarrow> string" where
  "utcDay now daysAgo = take 10 (toISOString ((now div DAY_MS - daysAgo) * DAY_MS))"

text \<open>Stale outbox claims and stale cron runs.\<close>

definition early_work ::
  "('s \<Rightarrow> int \<times> 's) \<Rightarrow> maintenance_budget \<Rightarrow> 's maintenance_store \<Rightarrow> instant \<Rightarrow> ('s, int \<times> int) action" where
  "early_work nowMs b store now =
    act_bind (runGuarded nowMs b ''stale_outbox'' Hard MIN_MAINTENANCE_TASK_MS 0
               (\<lambda>left. ms_reconcileStaleOutbox store now left)) (\<lambda>staleOutbox.
    act_bind (runGuarded nowMs b ''stale_cron'' Hard MIN_MAINTENANCE_TASK_MS 0
               (\<lambda>left. ms_reconcileStaleCronRuns store now left)) (\<lambda>staleCronRuns.
    act_return (staleOutbox, staleCronRuns)))"

definition latest_mode :: "'s maintenance_store \<Rightarrow> ('s, governor_mode) action" where
  "latest_mode store =
    act_bind (recordSkip ''usage_measurement'' Pre_catalog_budget) (\<lambda>_.
    act_bind (act_call (ms_readLatestGovernorMode store)) (\<lambda>mode.
    act_return (case mode of None \<Rightarrow> Essential | Some m \<Rightarrow> m)))"

definition measure_usage ::
  "('s \<Rightarrow> int \<times> 's) \<Rightarrow> maintenance_budget \<Rightarrow> 's maintenance_store \<Rightarrow> instant \<Rightarrow> ('s, governor_mode) action" where
  "measure_usage nowMs b store now =
    act_bind (canStart nowMs b MIN_USAGE_MEASUREMENT_MS Pre_catalog) (\<lambda>ok.
      if ok then
        act_catch (act_bind (remainingMs nowMs b Pre_catalog) (\<lambda>left.
                   act_call (ms_measureAndSnapshotUsage store now left)))
          (\<lambda>error. if \<not> isStatementBudgetError error then act_throw error else latest_mode store)
      else latest_mode store)"

definition coverage_start ::
  "('s \<Rightarrow> int \<times> 's) \<Rightarrow> maintenance_budget \<Rightarrow> 's maintenance_store \<Rightarrow> instant \<Rightarrow> ('s, instant) action" where
  "coverage_start nowMs b store now =
    act_bind (canStart nowMs b MIN_MAINTENANCE_TASK_MS Pre_catalog) (\<lambda>ok.
      if ok then
        act_catch (act_bind (remainingMs nowMs b Pre_catalog) (\<lambda>left.
                   act_call (ms_schedulerCoverageStart store now left)))
          (\<lambda>error. if \<not> isStatementBudgetError error then act_throw error
                   else act_bind (recordSkip ''scheduler_coverage_start'' Pre_catalog_budget)
                          (\<lambda>_. act_return now))
      else act_bind (recordSkip ''scheduler_coverage_start'' Pre_catalog_budget) (\<lambda>_. act_return now))"

text \<open>Filling the gaps of one chunk: whether the recovery goes on.\<close>

definition fill_chunk ::
  "('s \<Rightarrow> int \<times> 's) \<Rightarrow> maintenance_budget \<Rightarrow> 's maintenance_store \<Rightarrow> instant \<Rightarrow> instant \<Rightarrow> instant \<Rightarrow>
   ('s, bool) action" where
  "fill_chunk nowMs b store now cursor chunkEnd =
    act_bind (canStart nowMs b MIN_MAINTENANCE_TASK_MS Pre_catalog) (\<lambda>ok.
      if \<not> ok then act_bind (recordSkip ''scheduler_gap_recovery'' Pre_catalog_budget) (\<lambda>_. act_return False)
      else act_catch
        (act_bind (remainingMs nowMs b Pre_catalog) (\<lambda>left.
         act_bind (act_call (ms_fillSchedulerGaps store cursor chunkEnd now left)) (\<lambda>_. act_return True)))
        (\<lambda>error. if \<not> isStatementBudgetError error then act_throw error
                 else act_bind (recordSkip ''scheduler_gap_recovery'' Pre_catalog_budget)
                        (\<lambda>_. act_return False)))"

text \<open>Compaction and the two promotions of a range, each with its own guard.\<close>

definition rollup_range ::
  "('s \<Rightarrow> int \<times> 's) \<Rightarrow> maintenance_budget \<Rightarrow> 's maintenance_store \<Rightarrow> instant \<Rightarrow> string \<Rightarrow> instant \<Rightarrow> instant \<Rightarrow>
   ('s, int) action" where
  "rollup_range nowMs b store now label start stop =
    act_bind (runGuarded nowMs b (''compact_15m_'' @ label) Pre_catalog MIN_MAINTENANCE_TASK_MS 0
               (\<lambda>left. ms_compact15Minute store start stop now left)) (\<lambda>compacted.
    act_bind (runGuarded nowMs b (''promote_hour_'' @ label) Pre_catalog MIN_MAINTENANCE_TASK_MS 0
               (\<lambda>left. ms_promoteRollups store ''15m'' ''hour'' start stop left)) (\<lambda>hours.
    act_bind (runGuarded nowMs b (''promote_day_'' @ label) Pre_catalog MIN_MAINTENANCE_TASK_MS 0
               (\<lambda>left. ms_promoteRollups store ''hour'' ''day'' start stop left)) (\<lambda>days.
    act_return (compacted + hours + days))))"

function gap_recovery ::
  "('s \<Rightarrow> int \<times> 's) \<Rightarrow> maintenance_budget \<Rightarrow> 's maintenance_store \<Rightarrow> instant \<Rightarrow> instant \<Rightarrow> int \<Rightarrow>
   ('s, int) action" where
  "gap_recovery nowMs b store now cursor rollups =
    (if cursor < now then
       (let chunkEnd = min now (cursor + DAY_MS) in
        act_bind (fill_chunk nowMs b store now cursor chunkEnd) (\<lambda>filled.
          if \<not> filled then act_return rollups
          else act_bind (rollup_range nowMs b store now ''gap'' cursor chunkEnd) (\<lambda>n.
                 gap_recovery nowMs b store now chunkEnd (rollups + n))))
     else act_return rollups)"
  by pat_completeness auto

termination gap_recovery
  by (relation "measure (\<lambda>(_, _, _, now, cursor, _). nat (now - cursor))") (auto simp: DAY_MS_def)

declare gap_recovery.simps [simp del]

definition retention_drains ::
  "'s maintenance_store \<Rightarrow> instant \<Rightarrow> governor_mode \<Rightarrow> (string \<times> (int \<Rightarrow> int \<Rightarrow> ('s, int) operation)) list" where
  "retention_drains store now mode =
    [(''telemetry_retention'', ms_enforceTelemetryRetention store now mode),
     (''usage_retention'', ms_retainUsageSnapshots store now),
     (''exception_retention'', ms_retainExceptions store now),
     (''payload_retention'', ms_retainExceptionPayloads store now),
     (''delete_raw_checks'', ms_deleteRawChecks store (now - 30 * DAY_MS)),
     (''delete_sent_notifications'', ms_deleteSentNotifications store (now - 90 * DAY_MS)),
     (''delete_processed_porkbun_webhook_receipts'',
        ms_deleteProcessedPorkbunWebhookReceipts store (now - 45 * DAY_MS)),
     (''retain_config_snapshots'', ms_retainConfigSnapshots store (now - 30 * DAY_MS) 50),
     (''delete_old_cron_runs'', ms_deleteOldCronRuns store (now - 90 * DAY_MS)),
     (''delete_old_rollups'', ms_deleteOldRollups store (utcDay now 365)),
     (''delete_orphan_images'', ms_deleteOrphanImages store (now - 24 * 3600000) ORPHAN_IMAGE_KEEP_NEWEST),
     (''dependency_updates'', ms_retainDependencyIncidentUpdates store (now - 730 * DAY_MS)),
     (''dependency_compact'', ms_compactDependencyStateIntervals store (now - 730 * DAY_MS))]"

definition expiry_drains ::
  "'s maintenance_store \<Rightarrow> instant \<Rightarrow> (string \<times> (int \<Rightarrow> int \<Rightarrow> ('s, int) operation)) list" where
  "expiry_drains store now =
    [(''expire_config_approvals'', ms_expireConfigApprovals store now (now - 30 * DAY_MS)),
     (''expire_api_idempotency'', ms_expireApiIdempotency store now),
     (''mark_device_expired'', ms_markDeviceAuthorizationsExpired store now),
     (''delete_device_expired'', ms_deleteExpiredDeviceAuthorizations store (now - 7 * DAY_MS)),
     (''expire_rate_limit'', ms_expireRateLimitBuckets store now)]"

definition reconcile_catalog ::
  "('s \<Rightarrow> int \<times> 's) \<Rightarrow> maintenance_budget \<Rightarrow> 's maintenance_store \<Rightarrow> instant \<Rightarrow> ('s, catalog_summary) action" where
  "reconcile_catalog nowMs b store now =
    act_bind (act_now nowMs) (\<lambda>catalogStartMs.
    runGuarded nowMs b ''catalog_reconciliation'' Hard MIN_CATALOG_TASK_MS
      \<lparr>ca_checkedSources = 0, ca_disabledPresets = 0\<rparr>
      (\<lambda>_. ms_reconcileDependencyCatalog store now
             (min (bu_hardDeadlineAtMs b) (catalogStartMs + CATALOG_VALIDATION_BUDGET_MS))))"

record maintenance_summary =
  su_staleOutbox :: int
  su_staleCronRuns :: int
  su_rollups :: int
  su_deleted :: int
  su_expired :: int
  su_governorMode :: governor_mode
  su_dependencyCatalog :: catalog_summary
  su_skippedTasks :: "skipped_task list"
  su_deadlineExceeded :: bool

text \<open>The gap recovery, the recent rollups and the drains, all under the pre-catalog bound.\<close>

definition pre_catalog_rest ::
  "('s \<Rightarrow> int \<times> 's) \<Rightarrow> maintenance_budget \<Rightarrow> 's maintenance_store \<Rightarrow> instant \<Rightarrow> governor_mode \<Rightarrow>
   ('s, governor_mode \<times> int \<times> int \<times> int) action" where
  "pre_catalog_rest nowMs b store now mode =
    act_bind (coverage_start nowMs b store now) (\<lambda>cursor.
    act_bind (gap_recovery nowMs b store now cursor 0) (\<lambda>gaps.
    act_bind (rollup_range nowMs b store now ''recent'' (now - 48 * 3600000) now) (\<lambda>recent.
    act_bind (drain_all nowMs b (retention_drains store now mode)) (\<lambda>deleted.
    act_bind (drain_all nowMs b (expiry_drains store now)) (\<lambda>expired.
    act_return (mode, gaps + recent, deleted, expired))))))"

definition pre_catalog_work ::
  "('s \<Rightarrow> int \<times> 's) \<Rightarrow> maintenance_budget \<Rightarrow> 's maintenance_store \<Rightarrow> instant \<Rightarrow>
   ('s, governor_mode \<times> int \<times> int \<times> int) action" where
  "pre_catalog_work nowMs b store now =
    act_bind (measure_usage nowMs b store now) (pre_catalog_rest nowMs b store now)"

definition perform_with_budget ::
  "('s \<Rightarrow> int \<times> 's) \<Rightarrow> maintenance_budget \<Rightarrow> 's maintenance_store \<Rightarrow> instant \<Rightarrow> ('s, maintenance_summary) action" where
  "perform_with_budget nowMs b store now =
    act_bind (early_work nowMs b store now) (\<lambda>(staleOutbox, staleCronRuns).
    act_bind (pre_catalog_work nowMs b store now) (\<lambda>(mode, rollups, deleted, expired).
    act_bind (reconcile_catalog nowMs b store now) (\<lambda>catalog.
    act_bind (\<lambda>w. Some (Inr (wo_skips w), w)) (\<lambda>skipped.
    act_bind (deadlineExceeded nowMs b) (\<lambda>exceeded.
    act_return \<lparr>su_staleOutbox = staleOutbox, su_staleCronRuns = staleCronRuns, su_rollups = rollups,
                su_deleted = deleted, su_expired = expired, su_governorMode = mode,
                su_dependencyCatalog = catalog, su_skippedTasks = skipped,
                su_deadlineExceeded = exceeded\<rparr>)))))"

definition performMaintenance ::
  "('s \<Rightarrow> int \<times> 's) \<Rightarrow> int option \<Rightarrow> 's maintenance_store \<Rightarrow> instant \<Rightarrow>
   's \<Rightarrow> ((thrown + maintenance_summary) \<times> 's world) option" where
  "performMaintenance nowMs deadlineAtMs store now s =
    act_bind (case deadlineAtMs of Some d \<Rightarrow> act_return d
              | None \<Rightarrow> act_bind (act_now nowMs) (\<lambda>t. act_return (t + MAINTENANCE_WORK_BUDGET_MS)))
      (\<lambda>hardDeadlineAtMs.
         perform_with_budget nowMs
           (createMaintenanceBudget hardDeadlineAtMs CATALOG_VALIDATION_BUDGET_MS) store now)
      \<lparr>wo_env = s, wo_skips = []\<rparr>"

subsection \<open>The sweep\<close>

datatype sweep_key = RateLimit | ApiIdempotency | DeviceMark | DeviceDelete | ConfigApprovals

record 's category =
  sc_key :: sweep_key
  sc_task :: string
  sc_active :: bool
  sc_total :: int
  sc_operation :: "int \<Rightarrow> int \<Rightarrow> ('s, int) operation"

definition sweep_categories :: "'s maintenance_store \<Rightarrow> instant \<Rightarrow> 's category list" where
  "sweep_categories store now =
    [\<lparr>sc_key = RateLimit, sc_task = ''expire_rate_limit'', sc_active = True, sc_total = 0,
      sc_operation = ms_expireRateLimitBuckets store now\<rparr>,
     \<lparr>sc_key = ApiIdempotency, sc_task = ''expire_api_idempotency'', sc_active = True, sc_total = 0,
      sc_operation = ms_expireApiIdempotency store now\<rparr>,
     \<lparr>sc_key = DeviceMark, sc_task = ''mark_device_expired'', sc_active = True, sc_total = 0,
      sc_operation = ms_markDeviceAuthorizationsExpired store now\<rparr>,
     \<lparr>sc_key = DeviceDelete, sc_task = ''delete_device_expired'', sc_active = True, sc_total = 0,
      sc_operation = ms_deleteExpiredDeviceAuthorizations store (now - 7 * DAY_MS)\<rparr>,
     \<lparr>sc_key = ConfigApprovals, sc_task = ''expire_config_approvals'', sc_active = True, sc_total = 0,
      sc_operation = ms_expireConfigApprovals store now (now - 30 * DAY_MS)\<rparr>]"

text \<open>
  One category of one round: \<open>later\<close> are the categories after it in the round, which have not
  changed yet. The result is the category after its turn and whether a batch ran to its end.
\<close>

definition sweep_category ::
  "('s \<Rightarrow> int \<times> 's) \<Rightarrow> maintenance_budget \<Rightarrow> 's category list \<Rightarrow> 's category \<Rightarrow>
   ('s, 's category \<times> bool) action" where
  "sweep_category nowMs b later c =
    (if \<not> sc_active c then act_return (c, False)
     else act_bind (canStart nowMs b MIN_RETENTION_BATCH_MS Hard) (\<lambda>ok.
       if \<not> ok then
         act_bind (recordSkip (sc_task c) Hard_deadline) (\<lambda>_. act_return (c\<lparr>sc_active := False\<rparr>, False))
       else act_catch
         (act_bind (remainingMs nowMs b Hard) (\<lambda>left.
          act_bind (act_call (sc_operation c RETENTION_BATCH_SIZE
                      (max 1 (left div int (length (filter sc_active (c # later))))))) (\<lambda>affected.
          act_return (c\<lparr>sc_total := sc_total c + affected,
                        sc_active := (affected \<ge> RETENTION_BATCH_SIZE)\<rparr>, True))))
         (\<lambda>error. if isStatementBudgetError error
                  then act_bind (recordSkip (sc_task c) Hard_deadline)
                         (\<lambda>_. act_return (c\<lparr>sc_active := False\<rparr>, False))
                  else act_throw error)))"

fun sweep_round ::
  "('s \<Rightarrow> int \<times> 's) \<Rightarrow> maintenance_budget \<Rightarrow> 's category list \<Rightarrow> ('s, 's category list \<times> bool) action" where
  "sweep_round nowMs b [] = act_return ([], False)"
| "sweep_round nowMs b (c # later) =
     act_bind (sweep_category nowMs b later c) (\<lambda>(c', ran).
     act_bind (sweep_round nowMs b later) (\<lambda>(later', ran').
     act_return (c' # later', ran \<or> ran')))"

text \<open>One turn of the outer loop: \<open>Inr\<close> the categories for the next round, \<open>Inl\<close> the final ones.\<close>

definition sweep_turn ::
  "('s \<Rightarrow> int \<times> 's) \<Rightarrow> maintenance_budget \<Rightarrow> 's category list \<Rightarrow>
   ('s, 's category list + 's category list) action" where
  "sweep_turn nowMs b cs =
    act_bind (canStart nowMs b MIN_RETENTION_BATCH_MS Hard) (\<lambda>ok.
      if \<not> ok then act_return (Inl cs)
      else act_bind (sweep_round nowMs b cs) (\<lambda>(cs', progressed).
        act_return (if \<not> progressed \<or> list_all (\<lambda>c. \<not> sc_active c) cs' then Inl cs' else Inr cs')))"

partial_function (option) sweep_rounds ::
  "('s \<Rightarrow> int \<times> 's) \<Rightarrow> maintenance_budget \<Rightarrow> 's category list \<Rightarrow> 's world \<Rightarrow>
   ((thrown + 's category list) \<times> 's world) option" where
  "sweep_rounds nowMs b cs w =
    (case sweep_turn nowMs b cs w of
       None \<Rightarrow> None
     | Some (Inl e, w') \<Rightarrow> Some (Inl e, w')
     | Some (Inr (Inl cs'), w') \<Rightarrow> Some (Inr cs', w')
     | Some (Inr (Inr cs'), w') \<Rightarrow> sweep_rounds nowMs b cs' w')"

record sweep_summary =
  sw_expired :: int
  sw_categories :: "(sweep_key \<times> int) list"

definition performSweep ::
  "('s \<Rightarrow> int \<times> 's) \<Rightarrow> int option \<Rightarrow> 's maintenance_store \<Rightarrow> instant \<Rightarrow>
   's \<Rightarrow> ((thrown + sweep_summary) \<times> 's world) option" where
  "performSweep nowMs deadlineAtMs store now s =
    act_bind (case deadlineAtMs of Some d \<Rightarrow> act_return d
              | None \<Rightarrow> act_bind (act_now nowMs) (\<lambda>t. act_return (t + SWEEP_WORK_BUDGET_MS)))
      (\<lambda>hardDeadlineAtMs.
         act_bind (sweep_rounds nowMs (createMaintenanceBudget hardDeadlineAtMs 0) (sweep_categories store now))
           (\<lambda>cs. act_return \<lparr>sw_expired = sum_list (map sc_total cs),
                              sw_categories = map (\<lambda>c. (sc_key c, sc_total c)) cs\<rparr>))
      \<lparr>wo_env = s, wo_skips = []\<rparr>"

end
