(* ===== verification/Maintenance_Laws.thy ===== *)
theory Maintenance_Laws
  imports Maintenance
begin

text \<open>
  What the maintenance pass and the sweep guarantee whatever the store does: a total-correctness
  triple \<open>yields\<close> for actions with its rules, the termination of the drains, of the gap recovery and
  of the sweep rounds, the reserved slice of the catalog pass, and the fairness of the sweep.
\<close>

subsection \<open>Triples\<close>

text \<open>From a world that satisfies \<open>P\<close> the action returns: a value with \<open>Q\<close>, or an exception with \<open>J\<close>.\<close>

definition yields ::
  "('s world \<Rightarrow> bool) \<Rightarrow> ('s, 'a) action \<Rightarrow> ('a \<Rightarrow> 's world \<Rightarrow> bool) \<Rightarrow> ('s world \<Rightarrow> bool) \<Rightarrow> bool" where
  "yields P m Q J \<longleftrightarrow>
     (\<forall>w. P w \<longrightarrow> (\<exists>r w'. m w = Some (r, w') \<and> (case r of Inl e \<Rightarrow> J w' | Inr x \<Rightarrow> Q x w')))"

lemma yieldsI:
  "(\<And>w. P w \<Longrightarrow> \<exists>r w'. m w = Some (r, w') \<and> (case r of Inl e \<Rightarrow> J w' | Inr x \<Rightarrow> Q x w')) \<Longrightarrow>
   yields P m Q J"
  by (simp add: yields_def)

lemma yieldsE [consumes 2, case_names raised returned]:
  assumes "yields P m Q J" "P w"
  obtains e w' where "m w = Some (Inl e, w')" "J w'" | x w' where "m w = Some (Inr x, w')" "Q x w'"
  using assms unfolding yields_def by (metis old.sum.simps(5,6) sumE)

lemma yields_return: "(\<And>w. P w \<Longrightarrow> Q x w) \<Longrightarrow> yields P (act_return x) Q J"
  by (simp add: yields_def act_return_def)

lemma yields_throw: "(\<And>w. P w \<Longrightarrow> J w) \<Longrightarrow> yields P (act_throw e) Q J"
  by (simp add: yields_def act_throw_def)

lemma yields_bind:
  assumes "yields P m Q J" "\<And>x. yields (Q x) (f x) R J"
  shows "yields P (act_bind m f) R J"
proof (rule yieldsI)
  fix w assume "P w"
  with assms(1) show "\<exists>r w'. act_bind m f w = Some (r, w') \<and> (case r of Inl e \<Rightarrow> J w' | Inr x \<Rightarrow> R x w')"
  proof (cases rule: yieldsE)
    case (raised e w')
    then show ?thesis by (simp add: act_bind_def)
  next
    case (returned x w')
    from assms(2) returned(2) show ?thesis
      by (cases rule: yieldsE) (simp_all add: act_bind_def returned(1))
  qed
qed

lemma yields_catch:
  assumes "yields P m Q K" "\<And>e. yields K (h e) Q J"
  shows "yields P (act_catch m h) Q J"
proof (rule yieldsI)
  fix w assume "P w"
  with assms(1) show "\<exists>r w'. act_catch m h w = Some (r, w') \<and> (case r of Inl e \<Rightarrow> J w' | Inr x \<Rightarrow> Q x w')"
  proof (cases rule: yieldsE)
    case (raised e w')
    from assms(2) [of e] raised(2) show ?thesis
      by (cases rule: yieldsE) (simp_all add: act_catch_def raised(1))
  next
    case (returned x w')
    then show ?thesis by (simp add: act_catch_def)
  qed
qed

lemma yields_call:
  assumes "\<And>w x s. P w \<Longrightarrow> f (wo_env w) = (Inr x, s) \<Longrightarrow> Q x (w\<lparr>wo_env := s\<rparr>)"
    and "\<And>w e s. P w \<Longrightarrow> f (wo_env w) = (Inl e, s) \<Longrightarrow> J (w\<lparr>wo_env := s\<rparr>)"
  shows "yields P (act_call f) Q J"
proof (rule yieldsI)
  fix w assume p: "P w"
  obtain r s where f: "f (wo_env w) = (r, s)" by (cases "f (wo_env w)")
  show "\<exists>r w'. act_call f w = Some (r, w') \<and> (case r of Inl e \<Rightarrow> J w' | Inr x \<Rightarrow> Q x w')"
    using assms [OF p] f by (cases r) (simp_all add: act_call_def)
qed

lemma yields_now:
  assumes "\<And>w t s. P w \<Longrightarrow> nowMs (wo_env w) = (t, s) \<Longrightarrow> Q t (w\<lparr>wo_env := s\<rparr>)"
  shows "yields P (act_now nowMs) Q J"
proof (rule yieldsI)
  fix w assume p: "P w"
  obtain t s where n: "nowMs (wo_env w) = (t, s)" by (cases "nowMs (wo_env w)")
  show "\<exists>r w'. act_now nowMs w = Some (r, w') \<and> (case r of Inl e \<Rightarrow> J w' | Inr x \<Rightarrow> Q x w')"
    using assms [OF p n] n by (simp add: act_now_def)
qed

lemma yields_if:
  "(c \<Longrightarrow> yields P m Q J) \<Longrightarrow> (\<not> c \<Longrightarrow> yields P n Q J) \<Longrightarrow> yields P (if c then m else n) Q J"
  by simp

lemma yields_weaken:
  "yields P m Q J \<Longrightarrow> (\<And>w. P' w \<Longrightarrow> P w) \<Longrightarrow> (\<And>x w. Q x w \<Longrightarrow> Q' x w) \<Longrightarrow> (\<And>w. J w \<Longrightarrow> J' w) \<Longrightarrow>
   yields P' m Q' J'"
  by (rule yieldsI, erule yieldsE, blast) auto

lemma yields_skip:
  "(\<And>w. P w \<Longrightarrow> Q () (w\<lparr>wo_skips := wo_skips w @ [\<lparr>sk_task = task, sk_reason = reason\<rparr>]\<rparr>)) \<Longrightarrow>
   yields P (recordSkip task reason) Q J"
  by (simp add: yields_def recordSkip_def)

text \<open>
  The assertions between a guard and the call it admits: \<open>started P\<close> after \<open>canStart\<close> said yes in an
  environment with \<open>P\<close>, and \<open>ready P left\<close> once \<open>left\<close> was read as the remaining time.
\<close>

definition started ::
  "('s \<Rightarrow> int \<times> 's) \<Rightarrow> int \<Rightarrow> int \<Rightarrow> ('s \<Rightarrow> bool) \<Rightarrow> 's \<Rightarrow> bool" where
  "started nowMs deadline minimumMs P s1 \<longleftrightarrow>
     (\<exists>s t. P s \<and> nowMs s = (t, s1) \<and> minimumMs \<le> deadline - t)"

definition ready ::
  "('s \<Rightarrow> int \<times> 's) \<Rightarrow> int \<Rightarrow> int \<Rightarrow> ('s \<Rightarrow> bool) \<Rightarrow> int \<Rightarrow> 's \<Rightarrow> bool" where
  "ready nowMs deadline minimumMs P left s2 \<longleftrightarrow>
     (\<exists>s1 t. started nowMs deadline minimumMs P s1 \<and> nowMs s1 = (t, s2) \<and> left = max 0 (deadline - t))"

definition reads :: "('s \<Rightarrow> int \<times> 's) \<Rightarrow> ('s \<Rightarrow> bool) \<Rightarrow> bool" where
  "reads nowMs I \<longleftrightarrow> (\<forall>s. I s \<longrightarrow> I (snd (nowMs s)))"

text \<open>An operation keeps \<open>I\<close> when the guard with this deadline and minimum admitted it.\<close>

definition keeps ::
  "('s \<Rightarrow> int \<times> 's) \<Rightarrow> int \<Rightarrow> int \<Rightarrow> ('s \<Rightarrow> bool) \<Rightarrow> (int \<Rightarrow> ('s, 'a) operation) \<Rightarrow> bool" where
  "keeps nowMs deadline minimumMs I f \<longleftrightarrow>
     (\<forall>left s. ready nowMs deadline minimumMs I left s \<longrightarrow> I (snd (f left s)))"

abbreviation on_env :: "('s \<Rightarrow> bool) \<Rightarrow> 's world \<Rightarrow> bool" where
  "on_env I w \<equiv> I (wo_env w)"

lemma reads_started: "reads nowMs I \<Longrightarrow> started nowMs d m I s \<Longrightarrow> I s"
  unfolding started_def reads_def by (metis snd_conv)

lemma reads_ready: "reads nowMs I \<Longrightarrow> ready nowMs d m I left s \<Longrightarrow> I s"
  by (metis reads_def reads_started ready_def snd_conv)

lemma yields_canStart:
  assumes "reads nowMs I" "\<And>s. P s \<Longrightarrow> I s"
  shows "yields (on_env P) (canStart nowMs b m bound)
           (\<lambda>ok. on_env (\<lambda>s. if ok then started nowMs (deadlineFor b bound) m P s else I s)) J"
  unfolding canStart_def
proof (rule yields_bind)
  show "yields (on_env P) (act_now nowMs) (\<lambda>t. on_env (\<lambda>s1. \<exists>s. P s \<and> nowMs s = (t, s1))) J"
    by (rule yields_now) auto
next
  fix t
  show "yields (on_env (\<lambda>s1. \<exists>s. P s \<and> nowMs s = (t, s1))) (act_return (m \<le> deadlineFor b bound - t))
          (\<lambda>ok. on_env (\<lambda>s. if ok then started nowMs (deadlineFor b bound) m P s else I s)) J"
  proof (rule yields_return)
    fix w assume "\<exists>s. P s \<and> nowMs s = (t, wo_env w)"
    then obtain s where s: "P s" "nowMs s = (t, wo_env w)" by blast
    then have "I (wo_env w)" using assms by (metis reads_def snd_conv)
    with s show "if m \<le> deadlineFor b bound - t then started nowMs (deadlineFor b bound) m P (wo_env w)
                 else I (wo_env w)"
      by (auto simp: started_def)
  qed
qed

lemma yields_remainingMs:
  "yields (on_env (started nowMs (deadlineFor b bound) m P)) (remainingMs nowMs b bound)
     (\<lambda>left. on_env (ready nowMs (deadlineFor b bound) m P left)) J"
  unfolding remainingMs_def
proof (rule yields_bind)
  show "yields (on_env (started nowMs (deadlineFor b bound) m P)) (act_now nowMs)
          (\<lambda>t. on_env (\<lambda>s2. \<exists>s1. started nowMs (deadlineFor b bound) m P s1 \<and> nowMs s1 = (t, s2))) J"
    by (rule yields_now) auto
next
  fix t
  show "yields (on_env (\<lambda>s2. \<exists>s1. started nowMs (deadlineFor b bound) m P s1 \<and> nowMs s1 = (t, s2)))
          (act_return (max 0 (deadlineFor b bound - t)))
          (\<lambda>left. on_env (ready nowMs (deadlineFor b bound) m P left)) J"
    by (rule yields_return) (auto simp: ready_def)
qed

lemma keepsD: "keeps nowMs d m I f \<Longrightarrow> ready nowMs d m I left s \<Longrightarrow> f left s = (r, s') \<Longrightarrow> I s'"
  unfolding keeps_def by (metis snd_conv)

lemma yields_keeps:
  assumes "keeps nowMs d m I f"
  shows "yields (on_env (ready nowMs d m I left)) (act_call (f left)) (\<lambda>_. on_env I) (on_env I)"
  by (rule yields_call) (simp_all add: keepsD [OF assms])

text \<open>A guarded call with its handlers, in the form the pass uses it everywhere.\<close>

lemma steady_bind:
  "yields (on_env I) m (\<lambda>_. on_env I) (on_env I) \<Longrightarrow> (\<And>x. yields (on_env I) (f x) Q (on_env I)) \<Longrightarrow>
   yields (on_env I) (act_bind m f) Q (on_env I)"
  by (rule yields_bind)

lemma yields_guarded:
  assumes reads: "reads nowMs I" and keeps: "keeps nowMs (deadlineFor b bound) m I f"
    and after: "\<And>x. yields (on_env I) (g x) Q (on_env I)"
    and no: "yields (on_env I) denied Q (on_env I)"
    and handler: "\<And>e. yields (on_env I) (h e) Q (on_env I)"
  shows "yields (on_env I) (act_bind (canStart nowMs b m bound) (\<lambda>ok.
           if \<not> ok then denied
           else act_catch (act_bind (remainingMs nowMs b bound) (\<lambda>left. act_bind (act_call (f left)) g)) h))
         Q (on_env I)"
proof (rule yields_bind [OF yields_canStart [OF reads]])
  fix ok
  show "yields (on_env (\<lambda>s. if ok then started nowMs (deadlineFor b bound) m I s else I s))
          (if \<not> ok then denied
           else act_catch (act_bind (remainingMs nowMs b bound) (\<lambda>left. act_bind (act_call (f left)) g)) h)
          Q (on_env I)"
  proof (cases ok)
    case False
    then show ?thesis using no by simp
  next
    case True
    have "yields (on_env (started nowMs (deadlineFor b bound) m I))
            (act_bind (remainingMs nowMs b bound) (\<lambda>left. act_bind (act_call (f left)) g)) Q (on_env I)"
      by (rule yields_bind [OF yields_remainingMs], rule yields_bind [OF yields_keeps [OF keeps]], rule after)
    then show ?thesis using True by (auto intro: yields_catch [OF _ handler])
  qed
qed assumption

lemma act_bind_return: "act_bind m act_return = m"
  by (rule ext) (simp add: act_bind_def act_return_def split: option.split sum.split prod.split)

lemma yields_runGuarded:
  assumes reads: "reads nowMs I" and keeps: "keeps nowMs (deadlineFor b bound) m I work"
    and bound: "bound = Hard \<or> bound = Pre_catalog"
  shows "yields (on_env I) (runGuarded nowMs b task bound m fallback work) (\<lambda>_. on_env I) (on_env I)"
proof -
  have "yields (on_env I) (act_bind (canStart nowMs b m bound) (\<lambda>ok.
      if \<not> ok then
        (let reason = (if bound = Hard \<or> bound = Catalog then Hard_deadline else Pre_catalog_budget) in
         act_bind (if bound = Catalog
                   then act_bind (remainingMs nowMs b Hard)
                          (\<lambda>left. act_return (if left > 0 then Catalog_budget else reason))
                   else act_return reason) (\<lambda>why.
         act_bind (recordSkip task why) (\<lambda>_. act_return fallback)))
      else act_catch (act_bind (remainingMs nowMs b bound) (\<lambda>left. act_bind (act_call (work left)) act_return))
          (\<lambda>error. if bound = Pre_catalog \<and> isStatementBudgetError error
                   then act_bind (recordSkip task Pre_catalog_budget) (\<lambda>_. act_return fallback)
                   else act_throw error))) (\<lambda>_. on_env I) (on_env I)"
    using bound
    by (intro yields_guarded [OF reads keeps])
      (auto simp: Let_def intro!: yields_return yields_skip yields_throw
        yields_bind [where Q = "\<lambda>_. on_env I"])
  then show ?thesis unfolding runGuarded_def act_bind_return .
qed

subsection \<open>Drains\<close>

text \<open>
  What a drain asks of its operation: started under the guard it keeps \<open>I\<close>, and a full batch lowers
  the rank \<open>\<mu>\<close> of the environment the guard saw (rows left, or time left).
\<close>

definition drains ::
  "('s \<Rightarrow> int \<times> 's) \<Rightarrow> int \<Rightarrow> ('s \<Rightarrow> bool) \<Rightarrow> ('s \<Rightarrow> nat) \<Rightarrow> (int \<Rightarrow> int \<Rightarrow> ('s, int) operation) \<Rightarrow> bool" where
  "drains nowMs deadline I \<mu> operation \<longleftrightarrow>
     (\<forall>left s k r s'. ready nowMs deadline MIN_RETENTION_BATCH_MS (\<lambda>s. I s \<and> \<mu> s = k) left s \<longrightarrow>
        operation RETENTION_BATCH_SIZE left s = (r, s') \<longrightarrow>
        I s' \<and> (\<forall>n. r = Inr n \<and> RETENTION_BATCH_SIZE \<le> n \<longrightarrow> \<mu> s' < k))"

lemma drains_call:
  assumes "drains nowMs d I \<mu> operation"
  shows "yields (on_env (ready nowMs d MIN_RETENTION_BATCH_MS (\<lambda>s. I s \<and> \<mu> s = k) left))
           (act_call (operation RETENTION_BATCH_SIZE left))
           (\<lambda>n. on_env (\<lambda>s. I s \<and> (RETENTION_BATCH_SIZE \<le> n \<longrightarrow> \<mu> s < k))) (on_env I)"
proof (rule yields_call)
  fix w x s
  assume "on_env (ready nowMs d MIN_RETENTION_BATCH_MS (\<lambda>s. I s \<and> \<mu> s = k) left) w"
    and "operation RETENTION_BATCH_SIZE left (wo_env w) = (Inr x, s)"
  with assms have "I s \<and> (\<forall>n. Inr x = (Inr n :: thrown + int) \<and> RETENTION_BATCH_SIZE \<le> n \<longrightarrow> \<mu> s < k)"
    unfolding drains_def by blast
  then show "on_env (\<lambda>s. I s \<and> (RETENTION_BATCH_SIZE \<le> x \<longrightarrow> \<mu> s < k)) (w\<lparr>wo_env := s\<rparr>)" by simp
next
  fix w e s
  assume "on_env (ready nowMs d MIN_RETENTION_BATCH_MS (\<lambda>s. I s \<and> \<mu> s = k) left) w"
    and "operation RETENTION_BATCH_SIZE left (wo_env w) = (Inl e, s)"
  with assms have "I s" unfolding drains_def by blast
  then show "on_env I (w\<lparr>wo_env := s\<rparr>)" by simp
qed

lemma drain_turn_yields:
  assumes reads: "reads nowMs I" and op: "drains nowMs (bu_preCatalogDeadlineAtMs b) I \<mu> operation"
  shows "yields (on_env (\<lambda>s. I s \<and> \<mu> s = k)) (drain_turn nowMs b task operation)
           (\<lambda>r. on_env (\<lambda>s. I s \<and> (case r of Inl _ \<Rightarrow> True | Inr _ \<Rightarrow> \<mu> s < k))) (on_env I)"
  unfolding drain_turn_def
proof (rule yields_bind [OF yields_canStart [OF reads]])
  let ?Q = "\<lambda>r. on_env (\<lambda>s. I s \<and> (case r of Inl (_ :: int) \<Rightarrow> True | Inr (_ :: int) \<Rightarrow> \<mu> s < k))"
  fix ok
  let ?P = "\<lambda>s. I s \<and> \<mu> s = k"
  show "yields (on_env (\<lambda>s. if ok then started nowMs (deadlineFor b Pre_catalog) MIN_RETENTION_BATCH_MS ?P s else I s))
          (if \<not> ok then act_return (Inl 0)
           else act_catch
            (act_bind (remainingMs nowMs b Pre_catalog) (\<lambda>left.
             act_bind (act_call (operation RETENTION_BATCH_SIZE left)) (\<lambda>affected.
             act_return (if affected < RETENTION_BATCH_SIZE then Inl affected else Inr affected))))
            (\<lambda>error. if isStatementBudgetError error
                     then act_bind (recordSkip task Pre_catalog_budget) (\<lambda>_. act_return (Inl 0))
                     else act_throw error)) ?Q (on_env I)"
  proof (cases ok)
    case False
    then show ?thesis by (auto intro: yields_return)
  next
    case True
    have "yields (on_env (started nowMs (deadlineFor b Pre_catalog) MIN_RETENTION_BATCH_MS ?P))
            (act_bind (remainingMs nowMs b Pre_catalog) (\<lambda>left.
             act_bind (act_call (operation RETENTION_BATCH_SIZE left)) (\<lambda>affected.
             act_return (if affected < RETENTION_BATCH_SIZE then Inl affected else Inr affected)))) ?Q (on_env I)"
      by (rule yields_bind [OF yields_remainingMs], rule yields_bind [OF drains_call])
        (use op in \<open>auto intro: yields_return\<close>)
    moreover have "yields (on_env I) (if isStatementBudgetError e
        then act_bind (recordSkip task Pre_catalog_budget) (\<lambda>_. act_return (Inl 0)) else act_throw e) ?Q (on_env I)" for e
      by (auto intro!: yields_throw yields_skip yields_return yields_bind [where Q = "\<lambda>_. on_env I"])
    ultimately show ?thesis using True by (auto intro: yields_catch)
  qed
qed simp

lemma drain_loop_yields:
  assumes reads: "reads nowMs I" and op: "drains nowMs (bu_preCatalogDeadlineAtMs b) I \<mu> operation"
  shows "yields (on_env I) (drain_loop nowMs b task operation acc) (\<lambda>_. on_env I) (on_env I)"
proof (rule yieldsI)
  fix w assume "on_env I w"
  then show "\<exists>r w'. drain_loop nowMs b task operation acc w = Some (r, w') \<and>
               (case r of Inl e \<Rightarrow> on_env I w' | Inr x \<Rightarrow> on_env I w')"
  proof (induction "\<mu> (wo_env w)" arbitrary: w acc rule: less_induct)
    case less
    have w: "on_env (\<lambda>s. I s \<and> \<mu> s = \<mu> (wo_env w)) w" using less.prems by simp
    from drain_turn_yields [OF reads op, where k = "\<mu> (wo_env w)" and task = task] w show ?case
    proof (cases rule: yieldsE)
      case (raised e w')
      then show ?thesis by (simp add: drain_loop.simps [of _ _ _ _ acc])
    next
      case (returned x w')
      then show ?thesis
      proof (cases x)
        case (Inl n)
        with returned show ?thesis by (simp add: drain_loop.simps [of _ _ _ _ acc])
      next
        case (Inr n)
        with returned have "\<mu> (wo_env w') < \<mu> (wo_env w)" "on_env I w'" by simp_all
        from less.hyps [OF this, of "acc + n"] returned Inr show ?thesis
          by (simp add: drain_loop.simps [of _ _ _ _ acc])
      qed
    qed
  qed
qed

lemma drainBatches_yields:
  assumes reads: "reads nowMs I" and op: "drains nowMs (bu_preCatalogDeadlineAtMs b) I \<mu> operation"
  shows "yields (on_env I) (drainBatches nowMs b task operation) (\<lambda>_. on_env I) (on_env I)"
  unfolding drainBatches_def
proof (rule yields_bind [OF yields_canStart [OF reads]])
  fix ok
  have "yields (on_env I) (if \<not> ok then act_bind (recordSkip task Pre_catalog_budget) (\<lambda>_. act_return 0)
                           else drain_loop nowMs b task operation 0) (\<lambda>_. on_env I) (on_env I)"
    by (auto intro!: drain_loop_yields [OF reads op] yields_skip yields_return yields_bind [where Q = "\<lambda>_. on_env I"])
  then show "yields (on_env (\<lambda>s. if ok then started nowMs (deadlineFor b Pre_catalog) MIN_RETENTION_BATCH_MS I s else I s))
     (if \<not> ok then act_bind (recordSkip task Pre_catalog_budget) (\<lambda>_. act_return 0)
      else drain_loop nowMs b task operation 0) (\<lambda>_. on_env I) (on_env I)"
    by (rule yields_weaken) (auto intro: reads_started [OF reads] split: if_splits)
qed simp

lemma drain_all_yields:
  assumes "reads nowMs I" "\<And>t f. (t, f) \<in> set fs \<Longrightarrow> drains nowMs (bu_preCatalogDeadlineAtMs b) I \<mu> f"
  shows "yields (on_env I) (drain_all nowMs b fs) (\<lambda>_. on_env I) (on_env I)"
  using assms(2)
proof (induction fs)
  case Nil
  show ?case by (auto intro: yields_return)
next
  case (Cons x fs)
  obtain t f where x: "x = (t, f)" by (cases x)
  have head: "yields (on_env I) (drainBatches nowMs b t f) (\<lambda>_. on_env I) (on_env I)"
    by (rule drainBatches_yields [OF assms(1), where \<mu> = \<mu>], rule Cons.prems [of t]) (simp add: x)
  have rest: "yields (on_env I) (drain_all nowMs b fs) (\<lambda>_. on_env I) (on_env I)"
    by (rule Cons.IH, rule Cons.prems) (rule list.set_intros(2))
  show ?case unfolding x drain_all.simps
    by (rule yields_bind [OF head], rule yields_bind [OF rest], rule yields_return)
qed

subsection \<open>The pass\<close>

text \<open>What the part of the pass before the catalog asks of the store.\<close>

definition pre_catalog_store ::
  "('s \<Rightarrow> int \<times> 's) \<Rightarrow> int \<Rightarrow> ('s \<Rightarrow> bool) \<Rightarrow> ('s \<Rightarrow> nat) \<Rightarrow> 's maintenance_store \<Rightarrow> instant \<Rightarrow> bool" where
  "pre_catalog_store nowMs d I \<mu> store now \<longleftrightarrow>
     keeps nowMs d MIN_MAINTENANCE_TASK_MS I (ms_schedulerCoverageStart store now) \<and>
     (\<forall>start stop. keeps nowMs d MIN_MAINTENANCE_TASK_MS I (ms_fillSchedulerGaps store start stop now)) \<and>
     (\<forall>start stop. keeps nowMs d MIN_MAINTENANCE_TASK_MS I (ms_compact15Minute store start stop now)) \<and>
     (\<forall>a z start stop. keeps nowMs d MIN_MAINTENANCE_TASK_MS I (ms_promoteRollups store a z start stop)) \<and>
     (\<forall>mode t f. (t, f) \<in> set (retention_drains store now mode) \<union> set (expiry_drains store now) \<longrightarrow>
        drains nowMs d I \<mu> f)"

lemma if_flip: "(if \<not> c then x else y) = (if c then y else x)"
  by simp

lemma coverage_start_yields:
  assumes reads: "reads nowMs I"
    and op: "keeps nowMs (bu_preCatalogDeadlineAtMs b) MIN_MAINTENANCE_TASK_MS I (ms_schedulerCoverageStart store now)"
  shows "yields (on_env I) (coverage_start nowMs b store now) (\<lambda>_. on_env I) (on_env I)"
proof -
  have "yields (on_env I) (act_bind (canStart nowMs b MIN_MAINTENANCE_TASK_MS Pre_catalog) (\<lambda>ok.
      if \<not> ok then act_bind (recordSkip ''scheduler_coverage_start'' Pre_catalog_budget) (\<lambda>_. act_return now)
      else act_catch (act_bind (remainingMs nowMs b Pre_catalog) (\<lambda>left.
                   act_bind (act_call (ms_schedulerCoverageStart store now left)) act_return))
          (\<lambda>error. if \<not> isStatementBudgetError error then act_throw error
                   else act_bind (recordSkip ''scheduler_coverage_start'' Pre_catalog_budget)
                          (\<lambda>_. act_return now)))) (\<lambda>_. on_env I) (on_env I)"
    by (intro yields_guarded [OF reads]) (use op in \<open>auto intro!: yields_return yields_skip yields_throw steady_bind\<close>)
  then show ?thesis unfolding coverage_start_def act_bind_return if_flip .
qed

lemma fill_chunk_yields:
  assumes reads: "reads nowMs I"
    and op: "keeps nowMs (bu_preCatalogDeadlineAtMs b) MIN_MAINTENANCE_TASK_MS I
               (ms_fillSchedulerGaps store cursor chunkEnd now)"
  shows "yields (on_env I) (fill_chunk nowMs b store now cursor chunkEnd) (\<lambda>_. on_env I) (on_env I)"
  unfolding fill_chunk_def
  by (intro yields_guarded [OF reads]) (use op in \<open>auto intro!: yields_return yields_skip yields_throw steady_bind\<close>)

lemma rollup_range_yields:
  assumes reads: "reads nowMs I"
    and compact: "keeps nowMs (bu_preCatalogDeadlineAtMs b) MIN_MAINTENANCE_TASK_MS I (ms_compact15Minute store start stop now)"
    and promote: "\<And>a z. keeps nowMs (bu_preCatalogDeadlineAtMs b) MIN_MAINTENANCE_TASK_MS I (ms_promoteRollups store a z start stop)"
  shows "yields (on_env I) (rollup_range nowMs b store now label start stop) (\<lambda>_. on_env I) (on_env I)"
  unfolding rollup_range_def
  by (intro steady_bind yields_runGuarded [OF reads] yields_return) (simp_all add: compact promote)

lemma gap_recovery_yields:
  assumes reads: "reads nowMs I"
    and fill: "\<And>start stop. keeps nowMs (bu_preCatalogDeadlineAtMs b) MIN_MAINTENANCE_TASK_MS I (ms_fillSchedulerGaps store start stop now)"
    and compact: "\<And>start stop. keeps nowMs (bu_preCatalogDeadlineAtMs b) MIN_MAINTENANCE_TASK_MS I (ms_compact15Minute store start stop now)"
    and promote: "\<And>a z start stop. keeps nowMs (bu_preCatalogDeadlineAtMs b) MIN_MAINTENANCE_TASK_MS I (ms_promoteRollups store a z start stop)"
  shows "yields (on_env I) (gap_recovery nowMs b store now cursor rollups) (\<lambda>_. on_env I) (on_env I)"
proof (induction "nat (now - cursor)" arbitrary: cursor rollups rule: less_induct)
  case less
  show ?case
  proof (cases "cursor < now")
    case False
    then show ?thesis by (subst gap_recovery.simps) (simp add: yields_return)
  next
    case True
    let ?stop = "min now (cursor + DAY_MS)"
    have "nat (now - ?stop) < nat (now - cursor)" using True by (auto simp: DAY_MS_def)
    note IH = less.hyps [OF this]
    show ?thesis
      unfolding gap_recovery.simps [of nowMs b store now cursor rollups] if_P [OF True] Let_def
      by (rule steady_bind [OF fill_chunk_yields [OF reads fill]])
        (auto intro!: yields_return steady_bind [OF rollup_range_yields [OF reads compact promote]] IH)
  qed
qed

text \<open>Everything between the usage measurement and the catalog keeps \<open>I\<close> and returns.\<close>

lemma pre_catalog_rest_yields:
  assumes reads: "reads nowMs I"
    and store: "pre_catalog_store nowMs (bu_preCatalogDeadlineAtMs b) I \<mu> store now"
  shows "yields (on_env I) (pre_catalog_rest nowMs b store now mode) (\<lambda>_. on_env I) (on_env I)"
proof -
  have parts: "keeps nowMs (bu_preCatalogDeadlineAtMs b) MIN_MAINTENANCE_TASK_MS I (ms_schedulerCoverageStart store now)"
    "\<And>start stop. keeps nowMs (bu_preCatalogDeadlineAtMs b) MIN_MAINTENANCE_TASK_MS I (ms_fillSchedulerGaps store start stop now)"
    "\<And>start stop. keeps nowMs (bu_preCatalogDeadlineAtMs b) MIN_MAINTENANCE_TASK_MS I (ms_compact15Minute store start stop now)"
    "\<And>a z start stop. keeps nowMs (bu_preCatalogDeadlineAtMs b) MIN_MAINTENANCE_TASK_MS I (ms_promoteRollups store a z start stop)"
    using store by (auto simp: pre_catalog_store_def)
  have retention: "yields (on_env I) (drain_all nowMs b (retention_drains store now mode)) (\<lambda>_. on_env I) (on_env I)"
    by (rule drain_all_yields [OF reads, where \<mu> = \<mu>]) (use store in \<open>unfold pre_catalog_store_def, blast\<close>)
  have expiry: "yields (on_env I) (drain_all nowMs b (expiry_drains store now)) (\<lambda>_. on_env I) (on_env I)"
    by (rule drain_all_yields [OF reads, where \<mu> = \<mu>]) (use store in \<open>unfold pre_catalog_store_def, blast\<close>)
  show ?thesis unfolding pre_catalog_rest_def
    by (rule steady_bind [OF coverage_start_yields [OF reads parts(1)]],
        rule steady_bind [OF gap_recovery_yields [OF reads parts(2-4)]],
        rule steady_bind [OF rollup_range_yields [OF reads parts(3,4)]],
        rule steady_bind [OF retention], rule steady_bind [OF expiry], rule yields_return)
qed

text \<open>The usage measurement may read the latest stored mode, which has no budget: it leads from \<open>I\<close>
  to \<open>I'\<close>.\<close>

lemma measure_usage_yields:
  assumes reads: "reads nowMs I"
    and measure: "keeps nowMs (bu_preCatalogDeadlineAtMs b) MIN_USAGE_MEASUREMENT_MS I (ms_measureAndSnapshotUsage store now)"
    and latest: "\<And>s. I s \<Longrightarrow> I' (snd (ms_readLatestGovernorMode store s))"
    and weaker: "\<And>s. I s \<Longrightarrow> I' s"
  shows "yields (on_env I) (measure_usage nowMs b store now) (\<lambda>_. on_env I') (on_env I')"
proof -
  have call: "yields (on_env I) (act_call (ms_readLatestGovernorMode store)) (\<lambda>_. on_env I') (on_env I')"
  proof -
    have "I' s'" if "I s" "ms_readLatestGovernorMode store s = (r, s')" for s r s'
      using latest [OF that(1)] that(2) by simp
    then show ?thesis by (intro yields_call) simp_all
  qed
  have skip: "yields (on_env I) (recordSkip ''usage_measurement'' Pre_catalog_budget) (\<lambda>_. on_env I) (on_env I')"
    by (rule yields_skip) simp
  have read: "yields (on_env I) (latest_mode store) (\<lambda>_. on_env I') (on_env I')"
    unfolding latest_mode_def by (rule yields_bind [OF skip], rule yields_bind [OF call], rule yields_return)
  show ?thesis unfolding measure_usage_def
  proof (rule yields_bind [OF yields_canStart [OF reads]])
    fix ok
    have work: "yields (on_env (started nowMs (deadlineFor b Pre_catalog) MIN_USAGE_MEASUREMENT_MS I))
        (act_bind (remainingMs nowMs b Pre_catalog) (\<lambda>left. act_call (ms_measureAndSnapshotUsage store now left)))
        (\<lambda>_. on_env I) (on_env I)"
      by (rule yields_bind [OF yields_remainingMs], rule yields_keeps) (use measure in simp)
    have handler: "yields (on_env I) (if \<not> isStatementBudgetError e then act_throw e else latest_mode store)
        (\<lambda>_. on_env I') (on_env I')" for e
      using read by (auto intro: yields_throw weaker)
    show "yields (on_env (\<lambda>s. if ok then started nowMs (deadlineFor b Pre_catalog) MIN_USAGE_MEASUREMENT_MS I s else I s))
      (if ok then act_catch (act_bind (remainingMs nowMs b Pre_catalog) (\<lambda>left.
                   act_call (ms_measureAndSnapshotUsage store now left)))
          (\<lambda>error. if \<not> isStatementBudgetError error then act_throw error else latest_mode store)
       else latest_mode store) (\<lambda>_. on_env I') (on_env I')"
    proof (cases ok)
      case True
      have "yields (on_env (started nowMs (deadlineFor b Pre_catalog) MIN_USAGE_MEASUREMENT_MS I))
        (act_bind (remainingMs nowMs b Pre_catalog) (\<lambda>left. act_call (ms_measureAndSnapshotUsage store now left)))
        (\<lambda>_. on_env I') (on_env I)"
        by (rule yields_weaken [OF work]) (auto intro: weaker)
      with True show ?thesis by (auto intro: yields_catch [OF _ handler])
    next
      case False
      then show ?thesis using read by simp
    qed
  qed simp
qed

subsection \<open>The clock\<close>

text \<open>\<open>nowMs\<close> reads \<open>time\<close>, and reading lets time pass at most forwards.\<close>

definition clock :: "('s \<Rightarrow> int \<times> 's) \<Rightarrow> ('s \<Rightarrow> int) \<Rightarrow> bool" where
  "clock nowMs time \<longleftrightarrow> (\<forall>s. fst (nowMs s) = time s \<and> time s \<le> time (snd (nowMs s)))"

lemma clock_started:
  assumes "clock nowMs time" "started nowMs d m P s1"
  obtains s where "P s" "time s \<le> time s1" "m \<le> d - time s"
proof -
  obtain s t where "P s" "nowMs s = (t, s1)" "m \<le> d - t" using assms(2) by (auto simp: started_def)
  moreover from this assms(1) have "t = time s" "time s \<le> time s1" by (auto simp: clock_def dest: spec [of _ s])
  ultimately show thesis using that by simp
qed

lemma clock_ready:
  assumes "clock nowMs time" "ready nowMs d m P left s2"
  obtains s where "P s" "time s \<le> time s2" "m \<le> d - time s"
proof -
  obtain s1 t where s1: "started nowMs d m P s1" "nowMs s1 = (t, s2)" using assms(2) by (auto simp: ready_def)
  then have "time s1 \<le> time s2" using assms(1) by (auto simp: clock_def dest: spec [of _ s1])
  moreover obtain s where "P s" "time s \<le> time s1" "m \<le> d - time s" using clock_started [OF assms(1) s1(1)] .
  ultimately show thesis using that [of s] by simp
qed

text \<open>A batch is full when it affected as many rows as its limit; every full batch takes time.\<close>

definition full_batches_take_time :: "('s \<Rightarrow> int) \<Rightarrow> 's maintenance_store \<Rightarrow> instant \<Rightarrow> bool" where
  "full_batches_take_time time store now \<longleftrightarrow>
     (\<forall>mode t f left s n s'.
        (t, f) \<in> set (retention_drains store now mode) \<union> set (expiry_drains store now) \<longrightarrow>
        f RETENTION_BATCH_SIZE left s = (Inr n, s') \<longrightarrow> RETENTION_BATCH_SIZE \<le> n \<longrightarrow> time s < time s')"

text \<open>A drain that spends time on every full batch has the time left as its rank.\<close>

lemma drains_by_time:
  assumes "clock nowMs time"
    and "\<And>left s n s'. f RETENTION_BATCH_SIZE left s = (Inr n, s') \<Longrightarrow> RETENTION_BATCH_SIZE \<le> n \<Longrightarrow> time s < time s'"
    and "\<And>left s r s'. ready nowMs d MIN_RETENTION_BATCH_MS I left s \<Longrightarrow> f RETENTION_BATCH_SIZE left s = (r, s') \<Longrightarrow> I s'"
  shows "drains nowMs d I (\<lambda>s. nat (d - time s)) f"
  unfolding drains_def
proof (intro allI impI)
  fix left s k r s'
  assume r: "ready nowMs d MIN_RETENTION_BATCH_MS (\<lambda>s. I s \<and> nat (d - time s) = k) left s"
    and f: "f RETENTION_BATCH_SIZE left s = (r, s')"
  have "ready nowMs d MIN_RETENTION_BATCH_MS I left s" using r by (auto simp: ready_def started_def)
  from assms(3) [OF this f] have "I s'" .
  moreover obtain s0 where "nat (d - time s0) = k" "time s0 \<le> time s" "MIN_RETENTION_BATCH_MS \<le> d - time s0"
    using clock_ready [OF assms(1) r] by metis
  then have "nat (d - time s') < k" if "r = Inr n" "RETENTION_BATCH_SIZE \<le> n" for n
    using assms(2) [OF f [unfolded that(1)] that(2)] by (auto simp: MIN_RETENTION_BATCH_MS_def)
  ultimately show "I s' \<and> (\<forall>n. r = Inr n \<and> RETENTION_BATCH_SIZE \<le> n \<longrightarrow> nat (d - time s') < k)" by blast
qed

lemma reads_True: "reads nowMs (\<lambda>_. True)"
  by (simp add: reads_def)

lemma keeps_True: "keeps nowMs d m (\<lambda>_. True) f"
  by (simp add: keeps_def)

abbreviation anywhere :: "'s world \<Rightarrow> bool" where
  "anywhere \<equiv> on_env (\<lambda>_. True)"

lemma early_work_returns: "yields anywhere (early_work nowMs b store now) (\<lambda>_. anywhere) anywhere"
  unfolding early_work_def
  by (intro steady_bind yields_runGuarded reads_True keeps_True yields_return) simp_all

lemma deadlineExceeded_returns: "yields anywhere (deadlineExceeded nowMs b) (\<lambda>_. anywhere) anywhere"
  by (auto simp: yields_def deadlineExceeded_def act_bind_def act_now_def act_return_def split: prod.splits)

lemma reconcile_catalog_returns: "yields anywhere (reconcile_catalog nowMs b store now) (\<lambda>_. anywhere) anywhere"
  unfolding reconcile_catalog_def
  by (intro steady_bind yields_now yields_runGuarded reads_True keeps_True) simp_all

lemma skips_returns: "yields anywhere (\<lambda>w. Some (Inr (wo_skips w), w)) (\<lambda>_. anywhere) anywhere"
  by (simp add: yields_def)

lemma perform_with_budget_returns:
  assumes "pre_catalog_store nowMs (bu_preCatalogDeadlineAtMs b) (\<lambda>_. True) \<mu> store now"
  shows "yields anywhere (perform_with_budget nowMs b store now) (\<lambda>_. anywhere) anywhere"
proof -
  have pre: "yields anywhere (pre_catalog_work nowMs b store now) (\<lambda>_. anywhere) anywhere"
    unfolding pre_catalog_work_def
    by (rule steady_bind [OF measure_usage_yields [OF reads_True keeps_True]])
      (simp_all add: pre_catalog_rest_yields [OF reads_True assms])
  show ?thesis unfolding perform_with_budget_def
    by (rule steady_bind [OF early_work_returns], unfold split_paired_all prod.case,
        rule steady_bind [OF pre], unfold split_paired_all prod.case,
        rule steady_bind [OF reconcile_catalog_returns], rule steady_bind [OF skips_returns],
        rule steady_bind [OF deadlineExceeded_returns], rule yields_return) simp
qed

text \<open>
  A busy store to evaluate the pass on: the environment is the time and the sweep categories served;
  the telemetry retention and the rate-limit buckets return full batches for ever, each in a few
  seconds or until its time-out, everything else is done at once.
\<close>

type_synonym sample_env = "int \<times> sweep_key list"

definition statement_timeout :: thrown where
  "statement_timeout = ThrownObject True (Some ''57014'') ''canceling statement due to statement timeout''"

definition full_batch :: "int \<Rightarrow> sweep_key list \<Rightarrow> int \<Rightarrow> int \<Rightarrow> (sample_env, int) operation" where
  "full_batch ms served limit left s =
     (if left < ms then (Inl statement_timeout, (fst s + left, served @ snd s))
      else (Inr limit, (fst s + ms, served @ snd s)))"

definition quick :: "sweep_key list \<Rightarrow> int \<Rightarrow> (sample_env, int) operation" where
  "quick served left s = (Inr 0, (fst s, served @ snd s))"

definition busy_store :: "sample_env maintenance_store" where
  "busy_store = \<lparr>
     ms_reconcileStaleOutbox = (\<lambda>_. quick []), ms_reconcileStaleCronRuns = (\<lambda>_. quick []),
     ms_deleteRawChecks = (\<lambda>_ _. quick []), ms_deleteSentNotifications = (\<lambda>_ _. quick []),
     ms_deleteProcessedPorkbunWebhookReceipts = (\<lambda>_ _. quick []),
     ms_expireConfigApprovals = (\<lambda>_ _ _. quick [ConfigApprovals]),
     ms_expireApiIdempotency = (\<lambda>_ _. quick [ApiIdempotency]),
     ms_markDeviceAuthorizationsExpired = (\<lambda>_ _. quick [DeviceMark]),
     ms_deleteExpiredDeviceAuthorizations = (\<lambda>_ _. quick [DeviceDelete]),
     ms_expireRateLimitBuckets = (\<lambda>_. full_batch 1000 [RateLimit]),
     ms_retainConfigSnapshots = (\<lambda>_ _ _. quick []), ms_deleteOldCronRuns = (\<lambda>_ _. quick []),
     ms_deleteOldRollups = (\<lambda>_ _. quick []), ms_compact15Minute = (\<lambda>_ _ _. quick []),
     ms_fillSchedulerGaps = (\<lambda>_ _ _. quick []),
     ms_schedulerCoverageStart = (\<lambda>now _ s. (Inr (now - 2 * DAY_MS), s)),
     ms_promoteRollups = (\<lambda>_ _ _ _. quick []),
     ms_measureAndSnapshotUsage = (\<lambda>_ _ s. (Inr Full, s)), ms_readLatestGovernorMode = (\<lambda>s. (Inr None, s)),
     ms_enforceTelemetryRetention = (\<lambda>_ _. full_batch 5000 []),
     ms_retainUsageSnapshots = (\<lambda>_ _. quick []), ms_retainExceptions = (\<lambda>_ _. quick []),
     ms_retainExceptionPayloads = (\<lambda>_ _. quick []), ms_deleteOrphanImages = (\<lambda>_ _ _. quick []),
     ms_reconcileDependencyCatalog = (\<lambda>_ _ s. (Inr \<lparr>ca_checkedSources = 3, ca_disabledPresets = 1\<rparr>, s)),
     ms_retainDependencyIncidentUpdates = (\<lambda>_ _. quick []),
     ms_compactDependencyStateIntervals = (\<lambda>_ _. quick [])\<rparr>"

lemma busy_store_full: "full_batches_take_time fst busy_store now"
  unfolding full_batches_take_time_def
  by (auto simp: retention_drains_def expiry_drains_def busy_store_def full_batch_def quick_def
      RETENTION_BATCH_SIZE_def split: if_splits)

text \<open>C38. The pass ends: with a clock that does not run backwards and batches of which every full one
  takes time, \<open>performMaintenance\<close> returns a value or raises, however large the backlog of each of
  the eighteen drains is, whatever the other operations do and however far the gap recovery has to
  go back.
\<close>

theorem maintenance_returns:
  assumes "clock nowMs time"
    and "full_batches_take_time time store now"
  shows "\<exists>r w. performMaintenance nowMs deadlineAtMs store now s = Some (r, w)"
proof -
  have "drains nowMs d (\<lambda>_. True) (\<lambda>s. nat (d - time s)) f"
    if "(t, f) \<in> set (retention_drains store now mode) \<union> set (expiry_drains store now)" for d t f mode
    by (rule drains_by_time [OF assms(1)])
      (use assms(2) that in \<open>unfold full_batches_take_time_def, blast\<close>, rule TrueI)
  then have "pre_catalog_store nowMs d (\<lambda>_. True) (\<lambda>s. nat (d - time s)) store now" for d
    unfolding pre_catalog_store_def by (intro conjI allI impI keeps_True) blast
  then have pass: "yields anywhere (perform_with_budget nowMs b store now) (\<lambda>_. anywhere) anywhere" for b
    by (rule perform_with_budget_returns)
  have begins: "yields anywhere (case deadlineAtMs of Some d \<Rightarrow> act_return d
          | None \<Rightarrow> act_bind (act_now nowMs) (\<lambda>t. act_return (t + MAINTENANCE_WORK_BUDGET_MS))) (\<lambda>_. anywhere) anywhere"
    by (auto intro!: yields_return steady_bind yields_now split: option.split)
  have "yields anywhere (act_bind (case deadlineAtMs of Some d \<Rightarrow> act_return d
          | None \<Rightarrow> act_bind (act_now nowMs) (\<lambda>t. act_return (t + MAINTENANCE_WORK_BUDGET_MS)))
      (\<lambda>hardDeadlineAtMs.
         perform_with_budget nowMs
           (createMaintenanceBudget hardDeadlineAtMs CATALOG_VALIDATION_BUDGET_MS) store now)) (\<lambda>_. anywhere) anywhere"
    by (rule steady_bind [OF begins pass])
  then show ?thesis
    unfolding performMaintenance_def yields_def by blast
qed

theorem maintenance_returns_witness:
  "\<exists>r w. performMaintenance (\<lambda>s. (fst s, s)) None busy_store 1000000000000 (1000000000000, []) = Some (r, w)"
  by (rule maintenance_returns [where time = fst]) (simp_all add: clock_def busy_store_full)

subsection \<open>The reserved slice\<close>

text \<open>
  For the bounds on time a reading takes no time: time passes in the store operations. A store is
  timely when an operation given \<open>left\<close> milliseconds as its statement time-out ends, with a result
  or an error, at most \<open>slack\<close> after it, and the read of the latest mode, which has no time-out,
  takes at most \<open>grace\<close>.
\<close>

definition timely :: "('s \<Rightarrow> int) \<Rightarrow> int \<Rightarrow> (int \<Rightarrow> ('s, 'a) operation) \<Rightarrow> bool" where
  "timely time slack f \<longleftrightarrow> (\<forall>left s. 1 \<le> left \<longrightarrow> time (snd (f left s)) \<le> time s + left + slack)"

definition timely_store :: "('s \<Rightarrow> int) \<Rightarrow> int \<Rightarrow> int \<Rightarrow> 's maintenance_store \<Rightarrow> instant \<Rightarrow> bool" where
  "timely_store time slack grace store now \<longleftrightarrow>
     timely time slack (ms_measureAndSnapshotUsage store now) \<and>
     (\<forall>s. time (snd (ms_readLatestGovernorMode store s)) \<le> time s + grace) \<and>
     timely time slack (ms_schedulerCoverageStart store now) \<and>
     (\<forall>start stop. timely time slack (ms_fillSchedulerGaps store start stop now)) \<and>
     (\<forall>start stop. timely time slack (ms_compact15Minute store start stop now)) \<and>
     (\<forall>a z start stop. timely time slack (ms_promoteRollups store a z start stop)) \<and>
     (\<forall>mode t f. (t, f) \<in> set (retention_drains store now mode) \<union> set (expiry_drains store now) \<longrightarrow>
        timely time slack (f RETENTION_BATCH_SIZE))"

lemma instant_clock: "(\<And>s. nowMs s = (time s, s)) \<Longrightarrow> clock nowMs time"
  by (simp add: clock_def)

lemma instant_reads: "(\<And>s. nowMs s = (time s, s)) \<Longrightarrow> reads nowMs I"
  by (simp add: reads_def)

lemma instant_ready:
  "(\<And>s. nowMs s = (time s, s)) \<Longrightarrow> ready nowMs d m P left s \<longleftrightarrow> P s \<and> m \<le> d - time s \<and> left = max 0 (d - time s)"
  by (auto simp: ready_def started_def)

lemma timely_keeps:
  assumes "\<And>s. nowMs s = (time s, s)" "timely time slack f" "1 \<le> m" "d + slack \<le> bound"
  shows "keeps nowMs d m (\<lambda>s. time s \<le> bound) f"
  unfolding keeps_def instant_ready [OF assms(1)]
proof (intro allI impI)
  fix left s assume r: "time s \<le> bound \<and> m \<le> d - time s \<and> left = max 0 (d - time s)"
  then have "1 \<le> left" using assms(3) by linarith
  then have "time (snd (f left s)) \<le> time s + left + slack" using assms(2) by (simp add: timely_def)
  with r assms(3,4) show "time (snd (f left s)) \<le> bound" by simp
qed

lemma timely_pre_catalog_store:
  assumes clock: "\<And>s. nowMs s = (time s, s)" and store: "timely_store time slack grace store now"
    and bound: "d + slack \<le> bound"
    and full: "full_batches_take_time time store now"
  shows "pre_catalog_store nowMs d (\<lambda>s. time s \<le> bound) (\<lambda>s. nat (d - time s)) store now"
  unfolding pre_catalog_store_def
proof (intro conjI allI impI)
  show "keeps nowMs d MIN_MAINTENANCE_TASK_MS (\<lambda>s. time s \<le> bound) (ms_schedulerCoverageStart store now)"
    "keeps nowMs d MIN_MAINTENANCE_TASK_MS (\<lambda>s. time s \<le> bound) (ms_fillSchedulerGaps store start stop now)"
    "keeps nowMs d MIN_MAINTENANCE_TASK_MS (\<lambda>s. time s \<le> bound) (ms_compact15Minute store start stop now)"
    "keeps nowMs d MIN_MAINTENANCE_TASK_MS (\<lambda>s. time s \<le> bound) (ms_promoteRollups store a z start stop)"
    for start stop a z
    using store unfolding timely_store_def
    by - (rule timely_keeps [OF clock _ _ bound], blast, simp add: MIN_MAINTENANCE_TASK_MS_def)+
next
  fix mode t f
  assume f: "(t, f) \<in> set (retention_drains store now mode) \<union> set (expiry_drains store now)"
  then have "timely time slack (f RETENTION_BATCH_SIZE)" using store unfolding timely_store_def by blast
  from timely_keeps [OF clock this _ bound, where m = MIN_RETENTION_BATCH_MS]
  have "keeps nowMs d MIN_RETENTION_BATCH_MS (\<lambda>s. time s \<le> bound) (f RETENTION_BATCH_SIZE)"
    by (simp add: MIN_RETENTION_BATCH_MS_def)
  then show "drains nowMs d (\<lambda>s. time s \<le> bound) (\<lambda>s. nat (d - time s)) f"
    by (intro drains_by_time [OF instant_clock [OF clock]])
      (use full f in \<open>unfold full_batches_take_time_def, blast\<close>, erule keepsD)
qed

text \<open>The catalog was reconciled, inside its slice and inside the window.\<close>

definition catalog_ran :: "('s \<Rightarrow> int) \<Rightarrow> int \<Rightarrow> 's maintenance_store \<Rightarrow> instant \<Rightarrow> catalog_summary \<Rightarrow> bool" where
  "catalog_ran time hard store now c \<longleftrightarrow>
     (\<exists>s deadline. fst (ms_reconcileDependencyCatalog store now deadline s) = Inr c \<and>
        time s + MIN_CATALOG_TASK_MS \<le> hard \<and> deadline = min hard (time s + CATALOG_VALIDATION_BUDGET_MS))"

lemma reconcile_catalog_runs:
  assumes clock: "\<And>s. nowMs s = (time s, s)"
  shows "yields (on_env (\<lambda>s. time s + MIN_CATALOG_TASK_MS \<le> bu_hardDeadlineAtMs b)) (reconcile_catalog nowMs b store now)
           (\<lambda>c _. catalog_ran time (bu_hardDeadlineAtMs b) store now c) anywhere"
proof (rule yieldsI)
  fix w assume w: "on_env (\<lambda>s. time s + MIN_CATALOG_TASK_MS \<le> bu_hardDeadlineAtMs b) w"
  let ?d = "min (bu_hardDeadlineAtMs b) (time (wo_env w) + CATALOG_VALIDATION_BUDGET_MS)"
  obtain r s where r: "ms_reconcileDependencyCatalog store now ?d (wo_env w) = (r, s)"
    by (cases "ms_reconcileDependencyCatalog store now ?d (wo_env w)")
  have "reconcile_catalog nowMs b store now w = Some (r, w\<lparr>wo_env := s\<rparr>)"
    using w r by (cases r)
      (simp_all add: reconcile_catalog_def runGuarded_def act_bind_def act_now_def canStart_def remainingMs_def
        act_return_def act_catch_def act_call_def act_throw_def clock)
  moreover have "catalog_ran time (bu_hardDeadlineAtMs b) store now c" if "r = Inr c" for c
    unfolding catalog_ran_def using w r that by (intro exI [of _ "wo_env w"] exI [of _ ?d]) simp
  ultimately show "\<exists>r w'. reconcile_catalog nowMs b store now w = Some (r, w') \<and>
      (case r of Inl e \<Rightarrow> True | Inr c \<Rightarrow> catalog_ran time (bu_hardDeadlineAtMs b) store now c)"
    by (cases r) auto
qed

lemma yields_forget: "yields anywhere m (\<lambda>_. anywhere) anywhere \<Longrightarrow> yields (\<lambda>_. P) m (\<lambda>_ _. P) anywhere"
  unfolding yields_def by (fastforce split: sum.splits)

lemma pass_reaches_catalog:
  assumes clock: "\<And>s. nowMs s = (time s, s)"
    and b: "b = createMaintenanceBudget hard CATALOG_VALIDATION_BUDGET_MS"
    and store: "timely_store time slack grace store now" and small: "0 \<le> slack" "0 \<le> grace" "slack + grace \<le> 9750"
    and full: "full_batches_take_time time store now"
  shows "yields (on_env (\<lambda>s. time s \<le> bu_preCatalogDeadlineAtMs b))
    (act_bind (pre_catalog_work nowMs b store now) (\<lambda>(mode, rollups, deleted, expired).
     act_bind (reconcile_catalog nowMs b store now) (\<lambda>catalog.
     act_bind (\<lambda>w. Some (Inr (wo_skips w), w)) (\<lambda>skipped.
     act_bind (deadlineExceeded nowMs b) (\<lambda>exceeded.
     act_return \<lparr>su_staleOutbox = staleOutbox, su_staleCronRuns = staleCronRuns, su_rollups = rollups,
                 su_deleted = deleted, su_expired = expired, su_governorMode = mode,
                 su_dependencyCatalog = catalog, su_skippedTasks = skipped,
                 su_deadlineExceeded = exceeded\<rparr>)))))
    (\<lambda>su _. catalog_ran time hard store now (su_dependencyCatalog su)) anywhere"
proof -
  let ?d = "hard - CATALOG_VALIDATION_BUDGET_MS"
  let ?I = "\<lambda>s. time s \<le> ?d + slack" and ?I' = "\<lambda>s. time s \<le> ?d + slack + grace"
  have d: "bu_preCatalogDeadlineAtMs b = ?d" "bu_hardDeadlineAtMs b = hard" by (simp_all add: b createMaintenanceBudget_def)
  have measure: "yields (on_env ?I) (measure_usage nowMs b store now) (\<lambda>_. on_env ?I') (on_env ?I')"
  proof (rule measure_usage_yields [OF instant_reads [OF clock]])
    show "keeps nowMs (bu_preCatalogDeadlineAtMs b) MIN_USAGE_MEASUREMENT_MS ?I (ms_measureAndSnapshotUsage store now)"
      unfolding d using store by (intro timely_keeps [OF clock]) (auto simp: timely_store_def MIN_USAGE_MEASUREMENT_MS_def)
    show "?I' (snd (ms_readLatestGovernorMode store s))" if "?I s" for s
      using that store by (smt (verit) timely_store_def)
  qed (use small in simp)
  have rest: "yields (on_env ?I') (pre_catalog_rest nowMs b store now mode) (\<lambda>_. on_env ?I') (on_env ?I')" for mode
    by (rule pre_catalog_rest_yields [OF instant_reads [OF clock]], unfold d,
        rule timely_pre_catalog_store [OF clock store _ full]) (use small in auto)
  have pre: "yields (on_env (\<lambda>s. time s \<le> ?d)) (pre_catalog_work nowMs b store now)
               (\<lambda>_. on_env (\<lambda>s. time s + MIN_CATALOG_TASK_MS \<le> hard)) anywhere"
    unfolding pre_catalog_work_def
    by (rule yields_weaken [OF yields_bind [OF measure rest]])
      (use small in \<open>auto simp: CATALOG_VALIDATION_BUDGET_MS_def MIN_CATALOG_TASK_MS_def\<close>)
  show ?thesis unfolding d
  proof (rule yields_bind [OF pre], unfold split_paired_all prod.case,
      rule yields_bind [OF reconcile_catalog_runs [OF clock, of b, unfolded d]],
      rule yields_bind [OF yields_forget [OF skips_returns]],
      rule yields_bind [OF yields_forget [OF deadlineExceeded_returns]], rule yields_return)
  qed simp
qed

lemma busy_store_timely: "timely_store fst 0 0 busy_store now"
  unfolding timely_store_def timely_def
  by (auto simp: retention_drains_def expiry_drains_def busy_store_def full_batch_def quick_def)

subsection \<open>Which errors leave the pass\<close>

definition raises_only :: "('s, 'a) action \<Rightarrow> (thrown \<Rightarrow> bool) \<Rightarrow> bool" where
  "raises_only m E \<longleftrightarrow> (\<forall>w e w'. m w = Some (Inl e, w') \<longrightarrow> E e)"

named_theorems raises_intros

lemma raises_simple [raises_intros]:
  "raises_only (act_return x) E" "raises_only (act_now nowMs) E" "raises_only (recordSkip task reason) E"
  by (simp_all add: raises_only_def act_return_def act_now_def recordSkip_def split: prod.split)

lemma raises_bind [raises_intros]:
  "raises_only m E \<Longrightarrow> (\<And>x. raises_only (f x) E) \<Longrightarrow> raises_only (act_bind m f) E"
  by (fastforce simp: raises_only_def act_bind_def split: option.splits sum.splits)

lemma raises_if [raises_intros]:
  "(c \<Longrightarrow> raises_only m E) \<Longrightarrow> (\<not> c \<Longrightarrow> raises_only n E) \<Longrightarrow> raises_only (if c then m else n) E"
  by simp

lemma raises_guards [raises_intros]:
  "raises_only (canStart nowMs b minimum bound) E" "raises_only (remainingMs nowMs b bound) E"
  by (simp_all add: canStart_def remainingMs_def raises_intros)

lemma raises_call: "(\<And>s e. fst (f s) = Inl e \<Longrightarrow> E e) \<Longrightarrow> raises_only (act_call f) E"
  by (simp add: raises_only_def act_call_def split: prod.splits) (metis fst_conv)

lemma raises_throw: "E e \<Longrightarrow> raises_only (act_throw e) E"
  by (simp add: raises_only_def act_throw_def)

text \<open>A handler that swallows the errors with \<open>p\<close> and passes the others on.\<close>

lemma raises_soft:
  assumes "raises_only m K" and "\<And>e. K e \<Longrightarrow> p e \<Longrightarrow> raises_only (h e) E" and "\<And>e. K e \<Longrightarrow> \<not> p e \<Longrightarrow> E e"
  shows "raises_only (act_catch m (\<lambda>e. if p e then h e else act_throw e)) E"
  using assms
  by (fastforce simp: raises_only_def act_catch_def act_throw_def split: option.splits sum.splits if_splits)

text \<open>The errors of the statements a pass runs before the catalog, of the read of the stored mode, of
  the two early steps and of the reconciliation.\<close>

definition heavy_error :: "'s maintenance_store \<Rightarrow> instant \<Rightarrow> thrown \<Rightarrow> bool" where
  "heavy_error store now e \<longleftrightarrow> (\<exists>left s.
     fst (ms_measureAndSnapshotUsage store now left s) = Inl e \<or>
     fst (ms_schedulerCoverageStart store now left s) = Inl e \<or>
     (\<exists>start stop. fst (ms_fillSchedulerGaps store start stop now left s) = Inl e) \<or>
     (\<exists>start stop. fst (ms_compact15Minute store start stop now left s) = Inl e) \<or>
     (\<exists>a z start stop. fst (ms_promoteRollups store a z start stop left s) = Inl e) \<or>
     (\<exists>mode. \<exists>(t, f) \<in> set (retention_drains store now mode) \<union> set (expiry_drains store now).
        fst (f RETENTION_BATCH_SIZE left s) = Inl e))"

definition pass_error :: "'s maintenance_store \<Rightarrow> instant \<Rightarrow> thrown \<Rightarrow> bool" where
  "pass_error store now e \<longleftrightarrow>
     heavy_error store now e \<and> \<not> isStatementBudgetError e \<or>
     (\<exists>s. fst (ms_readLatestGovernorMode store s) = Inl e) \<or>
     (\<exists>left s. fst (ms_reconcileStaleOutbox store now left s) = Inl e \<or>
               fst (ms_reconcileStaleCronRuns store now left s) = Inl e) \<or>
     (\<exists>deadline s. fst (ms_reconcileDependencyCatalog store now deadline s) = Inl e)"

lemma raises_runGuarded:
  assumes "\<And>left s e. fst (work left s) = Inl e \<Longrightarrow> \<not> (bound = Pre_catalog \<and> isStatementBudgetError e) \<Longrightarrow> E e"
  shows "raises_only (runGuarded nowMs b task bound m fallback work) E"
proof -
  have "raises_only (act_bind (remainingMs nowMs b bound) (\<lambda>left. act_call (work left)))
      (\<lambda>e. \<exists>left s. fst (work left s) = Inl e)"
    by (intro raises_intros raises_call) blast
  then have "raises_only (act_catch (act_bind (remainingMs nowMs b bound) (\<lambda>left. act_call (work left)))
      (\<lambda>error. if bound = Pre_catalog \<and> isStatementBudgetError error
               then act_bind (recordSkip task Pre_catalog_budget) (\<lambda>_. act_return fallback)
               else act_throw error)) E"
    using assms by (elim raises_soft) (auto intro: raises_intros)
  then show ?thesis
    unfolding runGuarded_def Let_def by (auto intro!: raises_intros)
qed

lemma raises_soft_call:
  assumes "\<And>left s e. fst (f left s) = Inl e \<Longrightarrow> \<not> isStatementBudgetError e \<Longrightarrow> E e"
    and "\<And>n. raises_only (g n) (\<lambda>e. \<exists>left s. fst (f left s) = Inl e)" and "\<And>e. raises_only (h e) E"
  shows "raises_only (act_catch (act_bind (remainingMs nowMs b bound) (\<lambda>left. act_bind (act_call (f left)) g))
           (\<lambda>error. if isStatementBudgetError error then h error else act_throw error)) E"
proof (rule raises_soft)
  show "raises_only (act_bind (remainingMs nowMs b bound) (\<lambda>left. act_bind (act_call (f left)) g))
      (\<lambda>e. \<exists>left s. fst (f left s) = Inl e)"
    by (intro raises_intros raises_call assms(2)) blast
qed (use assms in auto)

lemma raises_drain_loop:
  assumes "drain_loop nowMs b task operation acc w = Some r"
    and "raises_only (drain_turn nowMs b task operation) E"
  shows "\<forall>e w'. r = (Inl e, w') \<longrightarrow> E e"
  using assms
proof (induction rule: drain_loop.raw_induct [rotated, consumes 1, case_names 1])
  case (1 loop nowMs b task operation acc w r)
  show ?case
  proof (cases "\<exists>n w2. drain_turn nowMs b task operation w = Some (Inr (Inr n), w2)")
    case True
    then obtain n w2 where n: "drain_turn nowMs b task operation w = Some (Inr (Inr n), w2)" by blast
    then have "loop nowMs b task operation (acc + n) w2 = Some r" using 1(2) by simp
    from 1(1) [OF this 1(3)] show ?thesis .
  next
    case False
    with 1(2) 1(3) [unfolded raises_only_def, rule_format, of w] show ?thesis
      by (fastforce split: option.splits sum.splits)
  qed
qed

lemma raises_drainBatches:
  assumes "\<And>left s e. fst (operation RETENTION_BATCH_SIZE left s) = Inl e \<Longrightarrow> \<not> isStatementBudgetError e \<Longrightarrow> E e"
  shows "raises_only (drainBatches nowMs b task operation) E"
proof -
  have turn: "raises_only (drain_turn nowMs b task operation) E"
    unfolding drain_turn_def by (intro raises_intros raises_soft_call) (use assms in auto)
  then have "raises_only (drain_loop nowMs b task operation acc) E" for acc
    unfolding raises_only_def using raises_drain_loop turn by blast
  then show ?thesis unfolding drainBatches_def by (intro raises_intros)
qed

lemma raises_drain_all:
  assumes "\<And>t f left s e. (t, f) \<in> set fs \<Longrightarrow> fst (f RETENTION_BATCH_SIZE left s) = Inl e \<Longrightarrow>
             \<not> isStatementBudgetError e \<Longrightarrow> E e"
  shows "raises_only (drain_all nowMs b fs) E"
  using assms
proof (induction fs)
  case Nil
  show ?case by (simp add: raises_intros)
next
  case (Cons x fs)
  obtain t f where x: "x = (t, f)" by (cases x)
  have "raises_only (drainBatches nowMs b t f) E"
    by (rule raises_drainBatches) (use Cons.prems [of t f] in \<open>simp add: x\<close>)
  moreover have "raises_only (drain_all nowMs b fs) E"
    by (rule Cons.IH) (use Cons.prems in \<open>meson list.set_intros(2)\<close>)
  ultimately show ?case by (simp add: x raises_intros)
qed

lemma raises_rollup_range: "raises_only (rollup_range nowMs b store now label start stop) (pass_error store now)"
  unfolding rollup_range_def
  by (intro raises_intros raises_runGuarded) (auto simp: pass_error_def heavy_error_def)

lemma raises_fill_chunk: "raises_only (fill_chunk nowMs b store now cursor chunkEnd) (pass_error store now)"
proof -
  have flip: "(\<lambda>error. if \<not> isStatementBudgetError error then act_throw error
                 else act_bind (recordSkip ''scheduler_gap_recovery'' Pre_catalog_budget) (\<lambda>_. act_return False)) =
      (\<lambda>error. if isStatementBudgetError error
                 then act_bind (recordSkip ''scheduler_gap_recovery'' Pre_catalog_budget) (\<lambda>_. act_return False)
                 else act_throw error)" by auto
  show ?thesis unfolding fill_chunk_def flip
    by (intro raises_intros raises_soft_call) (auto simp: pass_error_def heavy_error_def)
qed

lemma raises_gap_recovery: "raises_only (gap_recovery nowMs b store now cursor rollups) (pass_error store now)"
proof (induction "nat (now - cursor)" arbitrary: cursor rollups rule: less_induct)
  case less
  show ?case
  proof (cases "cursor < now")
    case False
    then show ?thesis by (subst gap_recovery.simps) (simp add: raises_intros)
  next
    case True
    let ?stop = "min now (cursor + DAY_MS)"
    have "nat (now - ?stop) < nat (now - cursor)" using True by (auto simp: DAY_MS_def)
    note IH = less.hyps [OF this]
    show ?thesis
      unfolding gap_recovery.simps [of nowMs b store now cursor rollups] if_P [OF True] Let_def
      by (intro raises_intros raises_fill_chunk raises_rollup_range IH)
  qed
qed

lemma raises_soft_last:
  assumes "\<And>left s e. fst (f left s) = Inl e \<Longrightarrow> \<not> isStatementBudgetError e \<Longrightarrow> E e"
    and "\<And>e. raises_only (h e) E"
  shows "raises_only (act_catch (act_bind (remainingMs nowMs b bound) (\<lambda>left. act_call (f left)))
           (\<lambda>error. if \<not> isStatementBudgetError error then act_throw error else h error)) E"
proof -
  have "raises_only (act_catch (act_bind (remainingMs nowMs b bound) (\<lambda>left. act_bind (act_call (f left)) act_return))
           (\<lambda>error. if isStatementBudgetError error then h error else act_throw error)) E"
    by (rule raises_soft_call) (use assms in \<open>auto intro: raises_intros\<close>)
  then show ?thesis unfolding act_bind_return if_flip .
qed

lemma raises_measure_usage: "raises_only (measure_usage nowMs b store now) (pass_error store now)"
proof -
  have latest: "raises_only (latest_mode store) (pass_error store now)"
    unfolding latest_mode_def by (intro raises_intros raises_call) (auto simp: pass_error_def)
  show ?thesis unfolding measure_usage_def
    by (intro raises_bind raises_guards raises_if raises_soft_last latest)
      (auto simp: pass_error_def heavy_error_def)
qed

lemma raises_coverage_start: "raises_only (coverage_start nowMs b store now) (pass_error store now)"
  unfolding coverage_start_def
  by (intro raises_bind raises_guards raises_if raises_soft_last raises_simple)
    (auto simp: pass_error_def heavy_error_def)

lemma raises_drains:
  "raises_only (drain_all nowMs b (retention_drains store now mode)) (pass_error store now)"
  "raises_only (drain_all nowMs b (expiry_drains store now)) (pass_error store now)"
proof -
  have drain: "pass_error store now e"
    if "(t, f) \<in> set (retention_drains store now mode) \<union> set (expiry_drains store now)"
      "fst (f RETENTION_BATCH_SIZE left s) = Inl e" "\<not> isStatementBudgetError e" for t f left s e
  proof -
    have "\<exists>(t, f) \<in> set (retention_drains store now mode) \<union> set (expiry_drains store now).
        fst (f RETENTION_BATCH_SIZE left s) = Inl e"
      using that(1,2) by (intro bexI [of _ "(t, f)"]) simp_all
    then have "heavy_error store now e" unfolding heavy_error_def by (intro exI disjI2)
    with that(3) show ?thesis by (simp add: pass_error_def)
  qed
  show "raises_only (drain_all nowMs b (retention_drains store now mode)) (pass_error store now)"
    by (rule raises_drain_all) (rule drain [OF UnI1])
  show "raises_only (drain_all nowMs b (expiry_drains store now)) (pass_error store now)"
    by (rule raises_drain_all) (rule drain [OF UnI2])
qed

lemma raises_perform_with_budget: "raises_only (perform_with_budget nowMs b store now) (pass_error store now)"
proof -
  have early: "raises_only (early_work nowMs b store now) (pass_error store now)"
    unfolding early_work_def
    by (intro raises_intros raises_runGuarded) (auto simp: pass_error_def)
  have pre: "raises_only (pre_catalog_work nowMs b store now) (pass_error store now)"
    unfolding pre_catalog_work_def pre_catalog_rest_def
    by (intro raises_bind raises_measure_usage raises_coverage_start raises_gap_recovery raises_rollup_range
        raises_drains raises_simple)
  have catalog: "raises_only (reconcile_catalog nowMs b store now) (pass_error store now)"
    unfolding reconcile_catalog_def
    by (intro raises_intros raises_runGuarded) (auto simp: pass_error_def)
  have exceeded: "raises_only (deadlineExceeded nowMs b) (pass_error store now)"
    by (auto simp: raises_only_def deadlineExceeded_def act_bind_def act_now_def act_return_def split: prod.splits)
  have skipped: "raises_only (\<lambda>w. Some (Inr (wo_skips w), w)) (pass_error store now)"
    by (simp add: raises_only_def)
  show ?thesis
    unfolding perform_with_budget_def
    by (rule raises_bind [OF early], unfold split_paired_all prod.case,
        rule raises_bind [OF pre], unfold split_paired_all prod.case)
      (intro raises_bind catalog skipped exceeded raises_simple)
qed

subsection \<open>The catalog\<close>

text \<open>C17. Heavy night work never starves the catalog. When the two early steps leave the pre-catalog
  window open and the store is timely (time-outs are honoured up to a slack, and slack and the
  untimed read of the latest mode stay below 9.75 seconds together), the pass returns or raises.
  If it returns, its summary carries the result of a catalog reconciliation that was started at
  least 250 ms before the end of the window, with a deadline at most ten seconds ahead and inside
  the window. It raises only the error of an early step, of the read of the stored mode or of the
  reconciliation, or an error of the work before the catalog that is not a statement time-out: a
  heavy statement that is cancelled is skipped and the catalog still runs.\<close>

theorem maintenance_reaches_catalog:
  assumes "\<And>s. nowMs s = (time s, s)"
    and "timely_store time slack grace store now" "0 \<le> slack" "0 \<le> grace" "slack + grace \<le> 9750"
    and "full_batches_take_time time store now"
    and "hard = (case deadlineAtMs of None \<Rightarrow> time s + MAINTENANCE_WORK_BUDGET_MS | Some d \<Rightarrow> d)"
    and "\<And>r w. early_work nowMs (createMaintenanceBudget hard CATALOG_VALIDATION_BUDGET_MS) store now
                  \<lparr>wo_env = s, wo_skips = []\<rparr> = Some (Inr r, w) \<Longrightarrow>
                time (wo_env w) \<le> hard - CATALOG_VALIDATION_BUDGET_MS"
  shows "\<exists>r w. performMaintenance nowMs deadlineAtMs store now s = Some (r, w) \<and>
           (case r of
              Inl e \<Rightarrow> pass_error store now e
            | Inr su \<Rightarrow> catalog_ran time hard store now (su_dependencyCatalog su))"
proof -
  let ?b = "createMaintenanceBudget hard CATALOG_VALIDATION_BUDGET_MS"
  let ?w = "\<lparr>wo_env = s, wo_skips = []\<rparr>"
  have eq: "performMaintenance nowMs deadlineAtMs store now s = perform_with_budget nowMs ?b store now ?w"
    by (cases deadlineAtMs)
      (simp_all add: performMaintenance_def act_bind_def act_return_def act_now_def assms(1,7))
  have "\<exists>r w. perform_with_budget nowMs ?b store now ?w = Some (r, w) \<and>
      (case r of Inl _ \<Rightarrow> True | Inr su \<Rightarrow> catalog_ran time hard store now (su_dependencyCatalog su))"
    using early_work_returns [of nowMs ?b store now] TrueI
  proof (cases rule: yieldsE [where w = ?w])
    case (raised e w')
    then show ?thesis by (simp add: perform_with_budget_def act_bind_def [of "early_work nowMs ?b store now"])
  next
    case (returned x w')
    have d: "bu_preCatalogDeadlineAtMs ?b = hard - CATALOG_VALIDATION_BUDGET_MS" by (simp add: createMaintenanceBudget_def)
    have "on_env (\<lambda>s. time s \<le> bu_preCatalogDeadlineAtMs ?b) w'" unfolding d by (rule assms(8) [OF returned(1)])
    with pass_reaches_catalog [OF assms(1) refl assms(2-6), where staleOutbox = "fst x" and staleCronRuns = "snd x"]
    show ?thesis
      by (cases rule: yieldsE)
        (simp_all add: perform_with_budget_def act_bind_def [of "early_work nowMs ?b store now"] returned(1) split_beta)
  qed
  with raises_perform_with_budget [of nowMs ?b store now] show ?thesis
    unfolding eq raises_only_def by (metis sum.case_eq_if sum.collapse(1) sum.disc_eq_case(1))
qed

lemma busy_early_work:
  "early_work (\<lambda>s. (fst s, s)) b busy_store now w = Some (Inr x, w') \<Longrightarrow> fst (wo_env w') = fst (wo_env w)"
  by (auto simp: early_work_def runGuarded_def canStart_def remainingMs_def act_now_def act_bind_def act_return_def
      act_catch_def act_call_def recordSkip_def busy_store_def quick_def Let_def split: if_splits)

theorem maintenance_reaches_catalog_witness:
  "\<exists>r w. performMaintenance (\<lambda>s. (fst s, s)) None busy_store 1000000000000 (1000000000000, []) = Some (r, w) \<and>
     (case r of
        Inl e \<Rightarrow> pass_error busy_store 1000000000000 e
      | Inr su \<Rightarrow> catalog_ran fst 1000000045000 busy_store 1000000000000 (su_dependencyCatalog su))"
  by (rule maintenance_reaches_catalog [where slack = 0 and grace = 0])
    (auto simp: busy_store_full busy_store_timely MAINTENANCE_WORK_BUDGET_MS_def CATALOG_VALIDATION_BUDGET_MS_def
      dest!: busy_early_work)

end
