(* ===== verification/Sweep_Laws.thy ===== *)
theory Sweep_Laws
  imports Maintenance_Laws
begin

text \<open>
  The fair rounds of \<open>performSweep\<close>: every category runs in the first round whatever the backlog of
  the others, and the rounds end.
\<close>

text \<open>
  The contract of a category. Time only moves forwards and not beyond the time-out of the batch, a
  full batch takes time, the only error is the time-out; \<open>served k\<close> holds in the environment once the
  operation of the category \<open>k\<close> has run, and no operation undoes it.
\<close>

definition prompt :: "('s \<Rightarrow> int) \<Rightarrow> (sweep_key \<Rightarrow> 's \<Rightarrow> bool) \<Rightarrow> 's category \<Rightarrow> bool" where
  "prompt time served c \<longleftrightarrow>
     (\<forall>left s r s'. 1 \<le> left \<longrightarrow> sc_operation c RETENTION_BATCH_SIZE left s = (r, s') \<longrightarrow>
        time s \<le> time s' \<and> time s' \<le> time s + left \<and>
        (\<forall>n. r = Inr n \<and> RETENTION_BATCH_SIZE \<le> n \<longrightarrow> time s < time s') \<and>
        (\<forall>e. r = Inl e \<longrightarrow> isStatementBudgetError e) \<and>
        served (sc_key c) s' \<and> (\<forall>k. served k s \<longrightarrow> served k s'))"

lemma sweep_category_turn:
  assumes clock: "\<And>s. nowMs s = (time s, s)" and c: "prompt time served c"
  obtains c' moved w' where "sweep_category nowMs b later c w = Some (Inr (c', moved), w')"
    "prompt time served c'" "time (wo_env w) \<le> time (wo_env w')" "\<And>k. served k (wo_env w) \<Longrightarrow> served k (wo_env w')"
    "sc_active c' \<Longrightarrow> time (wo_env w) < time (wo_env w')"
    "sc_active c \<Longrightarrow> 250 \<le> bu_hardDeadlineAtMs b - time (wo_env w) \<Longrightarrow>
       served (sc_key c) (wo_env w') \<and>
       time (wo_env w') \<le> time (wo_env w)
         + max 1 ((bu_hardDeadlineAtMs b - time (wo_env w)) div int (length (filter sc_active (c # later))))"
proof (cases "sc_active c \<and> 250 \<le> bu_hardDeadlineAtMs b - time (wo_env w)")
  case False
  then have "\<exists>c' w'. sweep_category nowMs b later c w = Some (Inr (c', False), w') \<and> \<not> sc_active c' \<and>
      sc_key c' = sc_key c \<and> sc_operation c' = sc_operation c \<and> wo_env w' = wo_env w"
    by (cases "sc_active c")
      (simp_all add: sweep_category_def canStart_def act_now_def act_bind_def act_return_def recordSkip_def clock
        MIN_RETENTION_BATCH_MS_def)
  then obtain c' w' where r: "sweep_category nowMs b later c w = Some (Inr (c', False), w')" "\<not> sc_active c'"
      "sc_key c' = sc_key c" "sc_operation c' = sc_operation c" "wo_env w' = wo_env w"
    by blast
  have "prompt time served c'" using c r(3,4) by (simp add: prompt_def)
  with r False show thesis by (intro that [OF r(1)]) auto
next
  case True
  let ?left = "max 1 ((bu_hardDeadlineAtMs b - time (wo_env w)) div int (length (filter sc_active (c # later))))"
  obtain r s' where op: "sc_operation c RETENTION_BATCH_SIZE ?left (wo_env w) = (r, s')"
    by (cases "sc_operation c RETENTION_BATCH_SIZE ?left (wo_env w)")
  note l = c [unfolded prompt_def, THEN spec, THEN spec, THEN spec, THEN spec, THEN mp, OF max.cobounded1, THEN mp, OF op]
  have law: "time (wo_env w) \<le> time s'" "time s' \<le> time (wo_env w) + ?left"
    "\<And>n. r = Inr n \<Longrightarrow> RETENTION_BATCH_SIZE \<le> n \<Longrightarrow> time (wo_env w) < time s'"
    "\<And>e. r = Inl e \<Longrightarrow> isStatementBudgetError e" "served (sc_key c) s'"
    "\<And>k. served k (wo_env w) \<Longrightarrow> served k s'"
    using l by blast+
  have "\<exists>c' moved w'. sweep_category nowMs b later c w = Some (Inr (c', moved), w') \<and> wo_env w' = s' \<and>
      sc_key c' = sc_key c \<and> sc_operation c' = sc_operation c \<and> (sc_active c' \<longrightarrow> time (wo_env w) < time s')"
  proof (cases r)
    case (Inl e)
    have "Ex Not" by (rule exI [of _ False]) simp
    with Inl op law(4) [of e] True show ?thesis
      by (simp add: sweep_category_def canStart_def remainingMs_def act_now_def act_bind_def act_return_def
        recordSkip_def act_catch_def act_call_def clock MIN_RETENTION_BATCH_MS_def)
  next
    case (Inr n)
    have "\<exists>ran. ran" by (rule exI [of _ True]) simp
    with Inr op law(3) [of n] True show ?thesis
      by (simp add: sweep_category_def canStart_def remainingMs_def act_now_def act_bind_def act_return_def
        recordSkip_def act_catch_def act_call_def clock MIN_RETENTION_BATCH_MS_def)
  qed
  then obtain c' moved w' where r: "sweep_category nowMs b later c w = Some (Inr (c', moved), w')" "wo_env w' = s'"
      "sc_key c' = sc_key c" "sc_operation c' = sc_operation c" "sc_active c' \<longrightarrow> time (wo_env w) < time s'"
    by blast
  have "prompt time served c'" using c r(3,4) by (simp add: prompt_def)
  with r law show thesis by (intro that [OF r(1)]) auto
qed

lemma sweep_round_runs:
  assumes clock: "\<And>s. nowMs s = (time s, s)" and cs: "\<And>c. c \<in> set cs \<Longrightarrow> prompt time served c"
  obtains cs' moved w' where "sweep_round nowMs b cs w = Some (Inr (cs', moved), w')"
    "\<And>c. c \<in> set cs' \<Longrightarrow> prompt time served c" "time (wo_env w) \<le> time (wo_env w')"
    "\<And>k. served k (wo_env w) \<Longrightarrow> served k (wo_env w')"
    "\<And>c. c \<in> set cs' \<Longrightarrow> sc_active c \<Longrightarrow> time (wo_env w) < time (wo_env w')"
  using cs
proof (induction cs arbitrary: w thesis)
  case Nil
  show ?case by (rule Nil.prems(1) [of "[]" False w]) (simp_all add: act_return_def)
next
  case (Cons c later)
  have "prompt time served c" using Cons.prems(2) by simp
  then obtain c' moved w1 where c': "sweep_category nowMs b later c w = Some (Inr (c', moved), w1)"
    "prompt time served c'" "time (wo_env w) \<le> time (wo_env w1)" "\<And>k. served k (wo_env w) \<Longrightarrow> served k (wo_env w1)"
    "sc_active c' \<Longrightarrow> time (wo_env w) < time (wo_env w1)"
    by (rule sweep_category_turn [OF clock]) blast
  obtain cs' moved' w2 where cs': "sweep_round nowMs b later w1 = Some (Inr (cs', moved'), w2)"
    "\<And>c. c \<in> set cs' \<Longrightarrow> prompt time served c" "time (wo_env w1) \<le> time (wo_env w2)"
    "\<And>k. served k (wo_env w1) \<Longrightarrow> served k (wo_env w2)"
    "\<And>c. c \<in> set cs' \<Longrightarrow> sc_active c \<Longrightarrow> time (wo_env w1) < time (wo_env w2)"
    by (rule Cons.IH [of w1]) (use Cons.prems(2) in auto)
  have "sweep_round nowMs b (c # later) w = Some (Inr (c' # cs', moved \<or> moved'), w2)"
    by (simp add: act_bind_def [of "sweep_category nowMs b later c"] c'(1) act_bind_def [of "sweep_round nowMs b later"] cs'(1)
      act_return_def)
  then show ?case
    by (rule Cons.prems(1)) (use c'(2-5) cs'(2-5) in \<open>fastforce+\<close>)
qed

lemma sweep_round_ex:
  assumes "\<And>s. nowMs s = (time s, s)" "\<And>c. c \<in> set cs \<Longrightarrow> prompt time served c"
  shows "\<exists>cs' moved w'. sweep_round nowMs b cs w = Some (Inr (cs', moved), w') \<and>
    (\<forall>c \<in> set cs'. prompt time served c) \<and> (\<forall>k. served k (wo_env w) \<longrightarrow> served k (wo_env w')) \<and>
    (\<forall>c \<in> set cs'. sc_active c \<longrightarrow> time (wo_env w) < time (wo_env w'))"
  by (rule sweep_round_runs [OF assms, where b = b and w = w]) auto

text \<open>In the first round the time-outs leave every later category its share of the window.\<close>

lemma share_left:
  fixes x m :: int
  assumes "1 \<le> m" "250 * m \<le> x"
  shows "max 1 (x div m) \<le> x - 250 * (m - 1)"
proof -
  have "x div m * m \<le> x" using assms(1) by (simp add: minus_mod_eq_div_mult [symmetric])
  have "x div m * (m - 1) \<ge> 250 * (m - 1)"
    using zdiv_mono1 [OF assms(2), of m] assms(1) by (intro mult_right_mono) simp_all
  moreover have "x div m * m = x div m * (m - 1) + x div m" by (simp add: algebra_simps)
  ultimately show ?thesis using \<open>x div m * m \<le> x\<close> assms by simp
qed

lemma first_round_serves:
  assumes clock: "\<And>s. nowMs s = (time s, s)"
    and cs: "\<And>c. c \<in> set cs \<Longrightarrow> prompt time served c \<and> sc_active c"
    and window: "250 * int (length cs) \<le> bu_hardDeadlineAtMs b - time (wo_env w)"
    and round: "sweep_round nowMs b cs w = Some (Inr (cs', moved), w')" and c: "c \<in> set cs"
  shows "served (sc_key c) (wo_env w')"
  using assms(2-5)
proof (induction cs arbitrary: w w' cs' moved)
  case Nil
  then show ?case by simp
next
  case (Cons d later)
  have d: "prompt time served d" "sc_active d" using Cons.prems(1) by auto
  have later: "filter sc_active later = later" using Cons.prems(1) by (simp add: filter_id_conv)
  let ?x = "bu_hardDeadlineAtMs b - time (wo_env w)"
  obtain d' r w1 where d': "sweep_category nowMs b later d w = Some (Inr (d', r), w1)"
    "served (sc_key d) (wo_env w1)" "time (wo_env w1) \<le> time (wo_env w) + max 1 (?x div int (length (d # later)))"
  proof (rule sweep_category_turn [OF clock d(1), of b later w])
    fix c' moved w'
    assume "sweep_category nowMs b later d w = Some (Inr (c', moved), w')"
      and "sc_active d \<Longrightarrow> 250 \<le> ?x \<Longrightarrow> served (sc_key d) (wo_env w') \<and>
        time (wo_env w') \<le> time (wo_env w) + max 1 (?x div int (length (filter sc_active (d # later))))"
    then show thesis using Cons.prems(2) d(2) by (intro that [of c' moved w']) (simp_all add: later)
  qed
  have rest: "250 * int (length later) \<le> bu_hardDeadlineAtMs b - time (wo_env w1)"
    using share_left [of "int (length (d # later))" ?x] Cons.prems(2) d'(3) by simp
  have prompt_later: "\<And>c. c \<in> set later \<Longrightarrow> prompt time served c" using Cons.prems(1) by simp
  obtain cs2 moved2 w2 where r2: "sweep_round nowMs b later w1 = Some (Inr (cs2, moved2), w2)"
    "\<And>k. served k (wo_env w1) \<Longrightarrow> served k (wo_env w2)"
    using sweep_round_ex [OF clock prompt_later, of later b w1] by blast
  have w': "w' = w2"
    using Cons.prems(3)
    by (simp add: act_bind_def [of "sweep_category nowMs b later d"] d'(1) act_bind_def [of "sweep_round nowMs b later"] r2(1)
      act_return_def)
  show ?case
  proof (cases "c = d")
    case True
    then show ?thesis using r2(2) [OF d'(2)] w' by simp
  next
    case False
    then have c: "c \<in> set later" using Cons.prems(4) by simp
    have "served (sc_key c) (wo_env w2)"
      by (rule Cons.IH [OF _ rest r2(1) c]) (use Cons.prems(1) in simp)
    then show ?thesis using w' by simp
  qed
qed

lemma sweep_rounds_end:
  assumes clock: "\<And>s. nowMs s = (time s, s)" and cs: "\<And>c. c \<in> set cs \<Longrightarrow> prompt time served c"
  shows "\<exists>cs' w'. sweep_rounds nowMs b cs w = Some (Inr cs', w') \<and> (\<forall>k. served k (wo_env w) \<longrightarrow> served k (wo_env w'))"
  using cs
proof (induction "nat (bu_hardDeadlineAtMs b - time (wo_env w))" arbitrary: cs w rule: less_induct)
  case less
  have start: "canStart nowMs b MIN_RETENTION_BATCH_MS Hard w
      = Some (Inr (MIN_RETENTION_BATCH_MS \<le> bu_hardDeadlineAtMs b - time (wo_env w)), w)"
    by (simp add: canStart_def act_bind_def act_now_def act_return_def clock)
  show ?case
  proof (cases "MIN_RETENTION_BATCH_MS \<le> bu_hardDeadlineAtMs b - time (wo_env w)")
    case False
    then show ?thesis
      by (simp add: sweep_rounds.simps [of nowMs b cs w] sweep_turn_def act_bind_def start act_return_def)
  next
    case True
    obtain cs' moved w' where r: "sweep_round nowMs b cs w = Some (Inr (cs', moved), w')"
      "\<forall>c \<in> set cs'. prompt time served c" "\<forall>k. served k (wo_env w) \<longrightarrow> served k (wo_env w')"
      "\<forall>c \<in> set cs'. sc_active c \<longrightarrow> time (wo_env w) < time (wo_env w')"
      using sweep_round_ex [OF clock less.prems, of cs b w] by blast
    show ?thesis
    proof (cases "\<not> moved \<or> list_all (\<lambda>c. \<not> sc_active c) cs'")
      case True
      then show ?thesis using r(1,3) \<open>MIN_RETENTION_BATCH_MS \<le> _\<close>
        by (simp add: sweep_rounds.simps [of nowMs b cs w] sweep_turn_def act_bind_def start act_return_def)
    next
      case False
      then obtain c where "c \<in> set cs'" "sc_active c" by (auto simp: list_all_iff)
      with r(4) have "time (wo_env w) < time (wo_env w')" by blast
      with True have "nat (bu_hardDeadlineAtMs b - time (wo_env w')) < nat (bu_hardDeadlineAtMs b - time (wo_env w))"
        by (simp add: MIN_RETENTION_BATCH_MS_def)
      from less.hyps [OF this] r(2) obtain cs2 w2 where "sweep_rounds nowMs b cs' w' = Some (Inr cs2, w2)"
        "\<forall>k. served k (wo_env w') \<longrightarrow> served k (wo_env w2)" by blast
      then show ?thesis using r(1,3) False True
        by (simp add: sweep_rounds.simps [of nowMs b cs w] sweep_turn_def act_bind_def start act_return_def)
    qed
  qed
qed

text \<open>C18. No backlog starves a category: when the operations of the sweep honour their time-outs and
  the window is at least 1.25 seconds (250 ms a category), the sweep returns and every one of the
  five categories has been served, even if each of them keeps returning full batches.
\<close>

theorem sweep_serves_every_category:
  assumes "\<And>s. nowMs s = (time s, s)"
    and "\<And>c. c \<in> set (sweep_categories store now) \<Longrightarrow> prompt time served c"
    and "case deadlineAtMs of None \<Rightarrow> True | Some d \<Rightarrow> time s + 1250 \<le> d"
  shows "\<exists>su w. performSweep nowMs deadlineAtMs store now s = Some (Inr su, w) \<and> (\<forall>k. served k (wo_env w))"
proof -
  define hard where "hard = (case deadlineAtMs of None \<Rightarrow> time s + SWEEP_WORK_BUDGET_MS | Some d \<Rightarrow> d)"
  let ?b = "createMaintenanceBudget hard 0" and ?w = "\<lparr>wo_env = s, wo_skips = []\<rparr>" and ?cs = "sweep_categories store now"
  have h: "bu_hardDeadlineAtMs ?b = hard" by (simp add: createMaintenanceBudget_def)
  have window: "time s + 1250 \<le> hard" using assms(3) by (simp add: hard_def SWEEP_WORK_BUDGET_MS_def split: option.splits)
  have five: "length ?cs = 5" "\<forall>c \<in> set ?cs. sc_active c" "sc_key ` set ?cs = UNIV"
    by (auto simp: sweep_categories_def) (metis sweep_key.exhaust)
  obtain cs' moved w' where r: "sweep_round nowMs ?b ?cs ?w = Some (Inr (cs', moved), w')"
    "\<forall>c \<in> set cs'. prompt time served c"
    using sweep_round_ex [OF assms(1,2), of ?cs ?b ?w] by blast
  have all: "served k (wo_env w')" for k
  proof -
    obtain c where "c \<in> set ?cs" "sc_key c = k" using five(3) by (metis UNIV_I imageE)
    have "served (sc_key c) (wo_env w')"
    proof (rule first_round_serves [OF assms(1) _ _ r(1) \<open>c \<in> set ?cs\<close>])
      show "prompt time served d \<and> sc_active d" if "d \<in> set ?cs" for d using that assms(2) five(2) by blast
      show "250 * int (length ?cs) \<le> bu_hardDeadlineAtMs ?b - time (wo_env ?w)" using window by (simp add: five(1) h)
    qed
    then show ?thesis by (simp add: \<open>sc_key c = k\<close>)
  qed
  have eq: "performSweep nowMs deadlineAtMs store now s =
      act_bind (sweep_rounds nowMs ?b ?cs) (\<lambda>cs. act_return \<lparr>sw_expired = sum_list (map sc_total cs),
                              sw_categories = map (\<lambda>c. (sc_key c, sc_total c)) cs\<rparr>) ?w"
  proof -
    have "(case deadlineAtMs of Some d \<Rightarrow> act_return d
           | None \<Rightarrow> act_bind (act_now nowMs) (\<lambda>t. act_return (t + SWEEP_WORK_BUDGET_MS))) ?w = Some (Inr hard, ?w)"
      by (cases deadlineAtMs) (simp_all add: hard_def act_bind_def act_return_def act_now_def assms(1))
    then show ?thesis unfolding performSweep_def by (subst act_bind_def) simp
  qed
  have turn: "sweep_turn nowMs ?b ?cs ?w = Some (Inr (if \<not> moved \<or> list_all (\<lambda>c. \<not> sc_active c) cs' then Inl cs' else Inr cs'), w')"
    using window by (simp add: sweep_turn_def canStart_def act_bind_def act_now_def act_return_def assms(1) h r(1) MIN_RETENTION_BATCH_MS_def)
  obtain cs2 w2 where "sweep_rounds nowMs ?b ?cs ?w = Some (Inr cs2, w2)" "\<forall>k. served k (wo_env w2)"
  proof (cases "\<not> moved \<or> list_all (\<lambda>c. \<not> sc_active c) cs'")
    case True
    then show thesis using that all by (simp add: sweep_rounds.simps [of nowMs ?b ?cs ?w] turn)
  next
    case False
    from sweep_rounds_end [OF assms(1)] r(2) obtain cs2 w2 where
      "sweep_rounds nowMs ?b cs' w' = Some (Inr cs2, w2)" "\<forall>k. served k (wo_env w') \<longrightarrow> served k (wo_env w2)" by blast
    then show thesis using that all False by (simp add: sweep_rounds.simps [of nowMs ?b ?cs ?w] turn)
  qed
  then show ?thesis unfolding eq by (simp add: act_bind_def act_return_def)
qed

lemma busy_store_prompt:
  "c \<in> set (sweep_categories busy_store now) \<Longrightarrow> prompt fst (\<lambda>k s. k \<in> set (snd s)) c"
  by (auto simp: sweep_categories_def prompt_def busy_store_def quick_def full_batch_def statement_timeout_def
      isStatementBudgetError_def RETENTION_BATCH_SIZE_def split: if_splits)

theorem sweep_serves_every_category_witness:
  "\<exists>su w. performSweep (\<lambda>s. (fst s, s)) (Some 1000000003000) busy_store 1000000000000 (1000000000000, []) = Some (Inr su, w) \<and>
          (\<forall>k. k \<in> set (snd (wo_env w)))"
  by (rule sweep_serves_every_category [where time = fst]) (simp_all add: busy_store_prompt)

end
