(* ===== verification/Config_Json.thy ===== *)
theory Config_Json
  imports Ids
begin

text \<open>
  Canonical JSON: \<open>canonicalSerialize\<close> and \<open>hashCanonical\<close> of \<open>lib/config/canonical.ts\<close>. A value is
  what \<open>JSON\<close> calls one, with the two kinds of value the code refuses: numbers that are not finite,
  and whatever else \<open>typeof\<close> may answer. Numbers are the integers the program serialises, of
  magnitude below \<open>10\<^sup>2\<^sup>1\<close>; an object is the list of its keys and values, each key once, in the order
  of \<open>Object.keys\<close>.

  The laws: the canonical text identifies the value up to the order of the keys of its objects.
\<close>

datatype json =
    J_null
  | J_bool bool
  | J_int int
  | J_not_finite
  | J_string string
  | J_array "json list"
  | J_object "(string \<times> json) list"
  | J_other string

subsection \<open>Serialisation\<close>

definition short_escape :: "nat \<Rightarrow> char option" where
  "short_escape n =
    (if n = 34 then Some CHR 0x22 else if n = 92 then Some CHR 0x5C else if n = 8 then Some CHR ''b''
     else if n = 9 then Some CHR ''t'' else if n = 10 then Some CHR ''n'' else if n = 12 then Some CHR ''f''
     else if n = 13 then Some CHR ''r'' else None)"

definition escape_char :: "char \<Rightarrow> string" where
  "escape_char c = (let n = (of_char c :: nat) in case short_escape n of
      Some x \<Rightarrow> [CHR 0x5C, x]
    | None \<Rightarrow> if n < 32 then CHR 0x5C # ''u00'' @ [hex_digit (n div 16), hex_digit (n mod 16)] else [c])"

definition quote_json :: "string \<Rightarrow> string" where
  "quote_json s = CHR 0x22 # concat (map escape_char s) @ [CHR 0x22]"

fun join_with :: "string \<Rightarrow> string list \<Rightarrow> string" where
  "join_with sep [] = []"
| "join_with sep [x] = x"
| "join_with sep (x # xs) = x @ sep @ join_with sep xs"

text \<open>\<open>Object.keys(record).sort()\<close> with the values of the keys.\<close>

definition by_key :: "(string \<times> 'a) list \<Rightarrow> (string \<times> 'a) list" where
  "by_key fields = sort_key fst fields"

lemma set_by_key [simp]: "set (by_key fields) = set fields"
  by (simp add: by_key_def)

lemma res_map_cong [fundef_cong]:
  "xs = ys \<Longrightarrow> (\<And>y. y \<in> set ys \<Longrightarrow> f y = g y) \<Longrightarrow> res_map f xs = res_map g ys"
proof (induction ys arbitrary: xs)
  case Nil
  then show ?case by simp
next
  case (Cons y ys)
  then show ?case by simp
qed

function canonicalSerialize :: "json \<Rightarrow> js_error + string" where
  "canonicalSerialize J_null = Inr ''null''"
| "canonicalSerialize (J_bool b) = Inr (if b then ''true'' else ''false'')"
| "canonicalSerialize (J_string s) = Inr (quote_json s)"
| "canonicalSerialize (J_int i) = Inr (int_string i)"
| "canonicalSerialize J_not_finite = Inl (TypeError ''Canonical JSON cannot contain non-finite numbers'')"
| "canonicalSerialize (J_array vs) =
     res_bind (res_map canonicalSerialize vs) (\<lambda>parts. Inr (''['' @ join_with '','' parts @ '']''))"
| "canonicalSerialize (J_object fields) =
     res_bind (res_map (\<lambda>(k, v). res_bind (canonicalSerialize v) (\<lambda>text. Inr (quote_json k @ '':'' @ text)))
        (by_key fields))
      (\<lambda>parts. Inr (CHR 0x7B # join_with '','' parts @ [CHR 0x7D]))"
| "canonicalSerialize (J_other kind) = Inl (TypeError (''Canonical JSON cannot contain '' @ kind))"
  by pat_completeness auto
termination
proof (relation "measure size", goal_cases)
  case 1
  show ?case by simp
next
  case (2 vs v)
  then show ?case by (simp add: size_list_estimation' less_Suc_eq_le)
next
  case (3 fields p k v)
  then have "(k, v) \<in> set fields" by simp
  then have "size v < size_list (size_prod (\<lambda>_. 0) size) fields"
    by (intro size_list_estimation [where f = "size_prod (\<lambda>_. 0) size"]) auto
  then show ?case by simp
qed

definition hashCanonical :: "(string \<Rightarrow> string) \<Rightarrow> json \<Rightarrow> js_error + string" where
  "hashCanonical sha256hex v = res_bind (canonicalSerialize v) (\<lambda>text. Inr (''sha256:'' @ sha256hex text))"

subsection \<open>Unique reading\<close>

text \<open>A value with the fields of its objects in the order of their keys.\<close>

function canon :: "json \<Rightarrow> json" where
  "canon (J_array vs) = J_array (map canon vs)"
| "canon (J_object fields) = J_object (map (\<lambda>(k, v). (k, canon v)) (by_key fields))"
| "canon J_null = J_null"
| "canon (J_bool b) = J_bool b"
| "canon (J_string s) = J_string s"
| "canon (J_int i) = J_int i"
| "canon J_not_finite = J_not_finite"
| "canon (J_other kind) = J_other kind"
  by pat_completeness auto
termination
proof (relation "measure size", goal_cases)
  case 1
  show ?case by simp
next
  case (2 vs v)
  then show ?case by (simp add: size_list_estimation' less_Suc_eq_le)
next
  case (3 fields p k v)
  then have "(k, v) \<in> set fields" by simp
  then have "size v < size_list (size_prod (\<lambda>_. 0) size) fields"
    by (intro size_list_estimation [where f = "size_prod (\<lambda>_. 0) size"]) auto
  then show ?case by simp
qed

lemma short_escape_inj: "short_escape m = Some x \<Longrightarrow> short_escape n = Some x \<Longrightarrow> m = n"
  by (auto simp: short_escape_def split: if_splits)

lemma short_escape_not_u: "short_escape n \<noteq> Some CHR ''u''"
  by (simp add: short_escape_def)

lemma of_char_inj: "(of_char c :: nat) = of_char d \<longleftrightarrow> c = d"
  by (metis char_of_char)

text \<open>The escapes are a prefix code.\<close>

lemma escape_char_cases:
  obtains (short) x where "short_escape (of_char c) = Some x" "escape_char c = [CHR 0x5C, x]"
  | (control) "(of_char c :: nat) < 32"
      "escape_char c = CHR 0x5C # ''u00'' @ [hex_digit (of_char c div 16), hex_digit (of_char c mod 16)]"
  | (plain) "escape_char c = [c]" "c \<noteq> CHR 0x22" "c \<noteq> CHR 0x5C"
proof (cases "short_escape (of_char c)")
  case None
  have "c \<noteq> CHR 0x22" "c \<noteq> CHR 0x5C" using None by (auto simp: short_escape_def)
  with None that(2,3) show thesis by (cases "(of_char c :: nat) < 32") (simp_all add: escape_char_def Let_def)
next
  case (Some x)
  then show thesis by (intro that(1)) (simp_all add: escape_char_def Let_def)
qed

lemma escape_char_inj:
  assumes "escape_char c @ x = escape_char d @ y"
  shows "c = d \<and> x = y"
proof (cases c rule: escape_char_cases)
  case (short a)
  show ?thesis
  proof (cases d rule: escape_char_cases)
    case (short b)
    with \<open>short_escape (of_char c) = Some a\<close> \<open>escape_char c = _\<close> assms short_escape_inj [of "of_char c" a "of_char d"]
    show ?thesis by (auto simp: of_char_inj)
  next
    case control
    with \<open>short_escape (of_char c) = Some a\<close> \<open>escape_char c = _\<close> assms short_escape_not_u show ?thesis by auto
  next
    case plain
    with \<open>escape_char c = _\<close> assms show ?thesis by auto
  qed
next
  case control
  show ?thesis
  proof (cases d rule: escape_char_cases)
    case (short b)
    with control assms short_escape_not_u show ?thesis by auto
  next
    case ctl: control
    have "hex_digit (of_char c div 16) = hex_digit (of_char d div 16)"
      "hex_digit (of_char c mod 16) = hex_digit (of_char d mod 16)" "x = y"
      using assms control ctl by simp_all
    moreover have "(of_char c div 16 :: nat) < 16" "(of_char d div 16 :: nat) < 16" using control(1) ctl(1) by auto
    ultimately have "(of_char c div 16 :: nat) = of_char d div 16" "(of_char c mod 16 :: nat) = of_char d mod 16"
      using hex_digit_inj by (auto intro: hex_digit_inj)
    then have "(of_char c :: nat) = of_char d" by (metis div_mult_mod_eq)
    with \<open>x = y\<close> show ?thesis by (simp add: of_char_inj)
  next
    case plain
    with control assms show ?thesis by auto
  qed
next
  case plain
  with assms show ?thesis by (cases d rule: escape_char_cases) auto
qed

lemma escape_char_start: "\<exists>h r. escape_char c = h # r \<and> h \<noteq> CHR 0x22"
  by (cases c rule: escape_char_cases) auto

lemma escaped_inj:
  "concat (map escape_char s) @ CHR 0x22 # x = concat (map escape_char t) @ CHR 0x22 # y \<Longrightarrow> s = t \<and> x = y"
proof (induction s arbitrary: t)
  case Nil
  then show ?case using escape_char_start by (cases t) (auto, metis append_Cons list.inject)
next
  case (Cons c s)
  show ?case
  proof (cases t)
    case Nil
    then show ?thesis using Cons.prems escape_char_start [of c] by auto
  next
    case (Cons d t')
    then show ?thesis using Cons.prems Cons.IH [of t'] escape_char_inj [of c _ d] by auto
  qed
qed

lemma quote_json_inj: "quote_json s @ x = quote_json t @ y \<Longrightarrow> s = t \<and> x = y"
  using escaped_inj [of s x t y] by (simp add: quote_json_def)

text \<open>What follows a value inside a canonical text.\<close>

definition closes :: "string \<Rightarrow> bool" where
  "closes x \<longleftrightarrow> (x = [] \<or> hd x \<in> {CHR '','', CHR '']'', CHR 0x7D})"

lemma closes_simps [simp]: "closes []" "closes (CHR '','' # x)" "closes (CHR '']'' # x)" "closes (CHR 0x7D # x)"
  by (simp_all add: closes_def)

lemma takeWhile_closes: "closes x \<Longrightarrow> takeWhile (\<lambda>c. c \<noteq> CHR '','' \<and> c \<noteq> CHR '']'' \<and> c \<noteq> CHR 0x7D) x = []"
  by (cases x) (auto simp: closes_def)

lemma int_string_reading:
  assumes "int_string i @ x = int_string j @ y" "closes x" "closes y"
  shows "i = j \<and> x = y"
proof -
  let ?p = "\<lambda>c. c \<noteq> CHR '','' \<and> c \<noteq> CHR '']'' \<and> c \<noteq> CHR 0x7D"
  have "?p c" if "c \<in> set (int_string k)" for c k
    using int_string_chars [OF that] by auto
  then have "takeWhile ?p (int_string k @ z) = int_string k" if "closes z" for k z
    using takeWhile_closes [OF that] by (simp add: takeWhile_append2)
  from this [OF assms(2), of i] this [OF assms(3), of j] assms(1) have "int_string i = int_string j" by simp
  with assms(1) show ?thesis by simp
qed

text \<open>A reading law for the parts of a list gives one for the list.\<close>

definition reads_as :: "('v \<Rightarrow> 'e + string) \<Rightarrow> ('v \<Rightarrow> 'c) \<Rightarrow> 'v \<Rightarrow> bool" where
  "reads_as f g u \<longleftrightarrow> (\<forall>w a b x y. f u = Inr a \<longrightarrow> f w = Inr b \<longrightarrow> a @ x = b @ y \<longrightarrow> closes x \<longrightarrow> closes y \<longrightarrow>
     g u = g w \<and> x = y)"

lemma reads_asD:
  "reads_as f g u \<Longrightarrow> f u = Inr a \<Longrightarrow> f w = Inr b \<Longrightarrow> a @ x = b @ y \<Longrightarrow> closes x \<Longrightarrow> closes y \<Longrightarrow> g u = g w \<and> x = y"
  unfolding reads_as_def by blast

lemma join_with_Cons: "join_with sep (x # xs) = x @ concat (map (\<lambda>y. sep @ y) xs)"
  by (induction xs arbitrary: x) auto

lemma tail_closes: "z \<in> {CHR '']'', CHR 0x7D} \<Longrightarrow> closes (concat (map (\<lambda>y. '','' @ y) as) @ z # x)"
  by (cases as) auto

lemma tail_reading:
  assumes "\<forall>u \<in> set us. reads_as f g u" "res_map f us = Inr as" "res_map f ws = Inr bs"
    and "concat (map (\<lambda>y. '','' @ y) as) @ z # x = concat (map (\<lambda>y. '','' @ y) bs) @ z # y" "z \<in> {CHR '']'', CHR 0x7D}"
  shows "map g us = map g ws \<and> x = y"
  using assms
proof (induction us arbitrary: ws as bs)
  case Nil
  then show ?case by (cases ws) (auto simp: res_bind_Inr_iff)
next
  case (Cons u us)
  obtain a as' where a: "f u = Inr a" "res_map f us = Inr as'" "as = a # as'"
    using Cons.prems(2) by (auto simp: res_bind_Inr_iff)
  show ?case
  proof (cases ws)
    case Nil
    then show ?thesis using Cons.prems a by auto
  next
    case (Cons w ws')
    obtain b bs' where b: "f w = Inr b" "res_map f ws' = Inr bs'" "bs = b # bs'"
      using Cons.prems(3) Cons by (auto simp: res_bind_Inr_iff)
    let ?x = "concat (map (\<lambda>y. '','' @ y) as') @ z # x" and ?y = "concat (map (\<lambda>y. '','' @ y) bs') @ z # y"
    have closed: "closes ?x" "closes ?y"
      by (rule tail_closes [OF Cons.prems(5)])+
    have "a @ ?x = b @ ?y" using Cons.prems(4) a b by simp
    then have "g u = g w \<and> ?x = ?y"
      using Cons.prems(1) a(1) b(1) closed by (intro reads_asD [of f g u a w b]) simp_all
    with Cons.IH [OF _ a(2) b(2)] Cons.prems(1,5) Cons show ?thesis by simp
  qed
qed

lemma list_reading:
  assumes "\<forall>u \<in> set us. reads_as f g u" "res_map f us = Inr as" "res_map f ws = Inr bs"
    and "join_with '','' as @ z # x = join_with '','' bs @ z # y" "z \<in> {CHR '']'', CHR 0x7D}"
    and start: "\<forall>u a. f u = Inr a \<longrightarrow> (\<exists>h r. a = h # r \<and> h \<notin> {CHR '']'', CHR 0x7D})"
  shows "map g us = map g ws \<and> x = y"
proof (cases us)
  case Nil
  then have "as = []" using assms(2) by simp
  show ?thesis
  proof (cases ws)
    case Nil
    then show ?thesis using assms \<open>us = []\<close> by simp
  next
    case w: (Cons w ws')
    obtain b bs' where b: "f w = Inr b" "bs = b # bs'" using assms(3) w by (auto simp: res_bind_Inr_iff)
    obtain h r where "b = h # r" "h \<notin> {CHR '']'', CHR 0x7D}" using start b(1) by blast
    with \<open>as = []\<close> show ?thesis using assms(4,5) b(2) by (auto simp: join_with_Cons)
  qed
next
  case (Cons u us')
  obtain a as' where a: "f u = Inr a" "res_map f us' = Inr as'" "as = a # as'"
    using assms(2) Cons by (auto simp: res_bind_Inr_iff)
  show ?thesis
  proof (cases ws)
    case Nil
    then have "bs = []" using assms(3) by simp
    obtain h r where "a = h # r" "h \<notin> {CHR '']'', CHR 0x7D}" using start a(1) by blast
    with \<open>bs = []\<close> show ?thesis using assms(4,5) a(3) by (auto simp: join_with_Cons)
  next
    case w: (Cons w ws')
    obtain b bs' where b: "f w = Inr b" "res_map f ws' = Inr bs'" "bs = b # bs'"
      using assms(3) w by (auto simp: res_bind_Inr_iff)
    have "res_map f us = Inr as" "concat (map (\<lambda>y. '','' @ y) as) @ z # x = concat (map (\<lambda>y. '','' @ y) bs) @ z # y"
      using assms(2,4) a b by (simp_all add: join_with_Cons)
    then show ?thesis by (intro tail_reading [OF assms(1) _ assms(3) _ assms(5)])
  qed
qed

lemma nat_string_nonempty: "nat_string n \<noteq> []"
  by (subst nat_string.simps) simp

lemma canonical_start: "canonicalSerialize v = Inr a \<Longrightarrow> \<exists>h r. a = h # r \<and>
    (case v of J_null \<Rightarrow> h = CHR ''n'' | J_bool b \<Rightarrow> h = (if b then CHR ''t'' else CHR ''f'')
     | J_string s \<Rightarrow> h = CHR 0x22 | J_array vs \<Rightarrow> h = CHR ''['' | J_object fs \<Rightarrow> h = CHR 0x7B
     | J_int i \<Rightarrow> h = CHR ''-'' \<or> (48 \<le> (of_char h :: nat) \<and> (of_char h :: nat) \<le> 57) | _ \<Rightarrow> False)"
proof (cases v)
  case (J_int i)
  assume "canonicalSerialize v = Inr a"
  then have a: "a = int_string i" by (simp add: J_int)
  have "int_string i \<noteq> []" using nat_string_nonempty by (simp add: int_string_def)
  then obtain h r where "a = h # r" using a by (cases "int_string i") auto
  moreover from this have "h \<in> set (int_string i)" using a by auto
  ultimately show ?thesis using int_string_chars by (auto simp: J_int)
qed (auto simp: quote_json_def res_bind_Inr_iff)

lemma canonical_opens: "canonicalSerialize v = Inr a \<Longrightarrow> \<exists>h r. a = h # r \<and> h \<notin> {CHR '']'', CHR 0x7D}"
  using canonical_start [of v a] by (cases v) auto

definition serialize_field :: "string \<times> json \<Rightarrow> js_error + string" where
  "serialize_field = (\<lambda>(k, v). res_bind (canonicalSerialize v) (\<lambda>text. Inr (quote_json k @ '':'' @ text)))"

lemma field_reading:
  assumes "reads_as canonicalSerialize canon (snd p)"
  shows "reads_as serialize_field (\<lambda>(k, v). (k, canon v)) p"
  unfolding reads_as_def
proof (intro allI impI)
  fix w a b x y
  assume f: "serialize_field p = Inr a" "serialize_field w = Inr b" "a @ x = b @ y" "closes x" "closes y"
  obtain k v k' v' where p: "p = (k, v)" "w = (k', v')" by (cases p; cases w) blast
  obtain s t where st: "canonicalSerialize v = Inr s" "a = quote_json k @ '':'' @ s"
    "canonicalSerialize v' = Inr t" "b = quote_json k' @ '':'' @ t"
    using f(1,2) by (auto simp: p serialize_field_def res_bind_Inr_iff)
  have "k = k' \<and> '':'' @ s @ x = '':'' @ t @ y"
    using f(3) st(2,4) by (intro quote_json_inj) simp
  moreover from this have "canon v = canon v' \<and> x = y"
    using reads_asD [OF assms [unfolded p snd_conv] st(1,3) _ f(4,5)] by simp
  ultimately show "(case p of (k, v) \<Rightarrow> (k, canon v)) = (case w of (k, v) \<Rightarrow> (k, canon v)) \<and> x = y"
    by (simp add: p)
qed

lemma field_opens: "serialize_field u = Inr a \<Longrightarrow> \<exists>h r. a = h # r \<and> h \<notin> {CHR '']'', CHR 0x7D}"
  by (auto simp: serialize_field_def res_bind_Inr_iff quote_json_def split: prod.splits)

lemma same_start:
  assumes "canonicalSerialize v = Inr a" "canonicalSerialize w = Inr b" "a @ x = b @ y"
  shows "\<exists>h r r'. a = h # r \<and> b = h # r'"
  using canonical_start [OF assms(1)] canonical_start [OF assms(2)] assms(3) by auto

text \<open>Values without parts.\<close>

fun atomic_json :: "json \<Rightarrow> bool" where
  "atomic_json (J_array vs) = False"
| "atomic_json (J_object fields) = False"
| "atomic_json v = True"

lemma atom_reading:
  assumes "atomic_json v"
  shows "reads_as canonicalSerialize canon v"
  unfolding reads_as_def
proof (intro allI impI)
  fix w a b x y
  assume f: "canonicalSerialize v = Inr a" "canonicalSerialize w = Inr b" "a @ x = b @ y" "closes x" "closes y"
  note start = canonical_start [OF f(1)] canonical_start [OF f(2)] f(3)
  show "canon v = canon w \<and> x = y"
  proof (cases v)
    case (J_int i)
    then obtain j where "w = J_int j" using start by (cases w) (auto split: if_splits)
    then show ?thesis using f J_int int_string_reading [of i x j y] by simp
  next
    case (J_string s)
    then obtain t where "w = J_string t" using start by (cases w) (auto split: if_splits)
    then show ?thesis using f J_string quote_json_inj [of s x t y] by simp
  next
    case J_null
    then have "w = J_null" using start by (cases w) (auto split: if_splits)
    then show ?thesis using f J_null by auto
  next
    case (J_bool p)
    then obtain q where "w = J_bool q" using start by (cases w) (auto split: if_splits)
    then show ?thesis using f J_bool by (cases p; cases q) auto
  qed (use assms f(1) in auto)
qed

lemma canonical_reading: "reads_as canonicalSerialize canon v"
proof (induction v rule: canonicalSerialize.induct)
  case (6 vs)
  show ?case unfolding reads_as_def
  proof (intro allI impI)
    fix w a b x y
    assume f: "canonicalSerialize (J_array vs) = Inr a" "canonicalSerialize w = Inr b" "a @ x = b @ y"
      "closes x" "closes y"
    obtain ws where w: "w = J_array ws"
      using canonical_start [OF f(1)] canonical_start [OF f(2)] f(3) by (cases w) (auto split: if_splits)
    obtain as bs where ab: "res_map canonicalSerialize vs = Inr as" "a = ''['' @ join_with '','' as @ '']''"
      "res_map canonicalSerialize ws = Inr bs" "b = ''['' @ join_with '','' bs @ '']''"
      using f(1,2) by (auto simp: w res_bind_Inr_iff)
    have "map canon vs = map canon ws \<and> x = y"
      by (rule list_reading [OF _ ab(1,3), of canon "CHR '']''" x y])
        (use f(3) ab(2,4) 6 canonical_opens in \<open>auto\<close>)
    then show "canon (J_array vs) = canon w \<and> x = y" by (simp add: w)
  qed
next
  case (7 fields)
  show ?case unfolding reads_as_def
  proof (intro allI impI)
    fix w a b x y
    assume f: "canonicalSerialize (J_object fields) = Inr a" "canonicalSerialize w = Inr b" "a @ x = b @ y"
      "closes x" "closes y"
    obtain ws where w: "w = J_object ws"
      using canonical_start [OF f(1)] canonical_start [OF f(2)] f(3) by (cases w) (auto split: if_splits)
    obtain as bs where ab: "res_map serialize_field (by_key fields) = Inr as" "a = CHR 0x7B # join_with '','' as @ [CHR 0x7D]"
      "res_map serialize_field (by_key ws) = Inr bs" "b = CHR 0x7B # join_with '','' bs @ [CHR 0x7D]"
      using f(1,2) by (auto simp: w res_bind_Inr_iff serialize_field_def)
    have "\<forall>u \<in> set (by_key fields). reads_as serialize_field (\<lambda>(k, v). (k, canon v)) u"
      using 7 by (auto intro!: field_reading)
    then have "map (\<lambda>(k, v). (k, canon v)) (by_key fields) = map (\<lambda>(k, v). (k, canon v)) (by_key ws) \<and> x = y"
      by (rule list_reading [OF _ ab(1,3), of _ "CHR 0x7D" x y])
        (use f(3) ab(2,4) field_opens in \<open>auto\<close>)
    then show "canon (J_object fields) = canon w \<and> x = y" by (simp add: w)
  qed
qed (rule atom_reading, simp)+

text \<open>A value and its canonical form have the same text.\<close>

lemma by_key_sorted: "sorted (map fst fields) \<Longrightarrow> by_key fields = fields"
  by (simp add: by_key_def sorted_sort_id sort_key_id_if_sorted)

lemma by_key_canon: "by_key (map (\<lambda>(k, v). (k, g v)) (by_key fields)) = map (\<lambda>(k, v). (k, g v)) (by_key fields)"
  by (rule by_key_sorted) (simp add: by_key_def comp_def case_prod_unfold)

lemma res_map_map: "res_map f (map g xs) = res_map (\<lambda>x. f (g x)) xs"
  by (induction xs) simp_all

lemma canonicalSerialize_canon: "canonicalSerialize (canon v) = canonicalSerialize v"
proof (induction v rule: canon.induct)
  case (1 vs)
  have "res_map canonicalSerialize (map canon vs) = res_map canonicalSerialize vs"
    unfolding res_map_map by (rule res_map_cong [OF refl]) (rule 1)
  then show ?case by simp
next
  case (2 fields)
  have "res_map serialize_field (map (\<lambda>(k, v). (k, canon v)) (by_key fields)) = res_map serialize_field (by_key fields)"
    unfolding res_map_map
    by (rule res_map_cong [OF refl]) (auto simp: serialize_field_def 2)
  then show ?case by (simp add: by_key_canon serialize_field_def)
qed simp_all

text \<open>C24. The canonical text identifies a value: two values have the same text exactly when they are
  equal up to the order of the keys of their objects, at every depth - whatever characters, escapes,
  numbers and nesting they hold. So a digest of the text without collisions identifies it too.\<close>

theorem canonical_text_identifies:
  assumes "canonicalSerialize v = Inr a"
  shows "(canonicalSerialize w = Inr a \<longleftrightarrow> canon w = canon v) \<and>
    (\<forall>sha256hex. inj sha256hex \<longrightarrow>
       (hashCanonical sha256hex w = hashCanonical sha256hex v \<longleftrightarrow> canon w = canon v))"
proof -
  have read: "canonicalSerialize w = Inr b \<Longrightarrow> b = a \<longleftrightarrow> canon w = canon v" for b
    using reads_asD [OF canonical_reading [of w] _ assms, of b "[]" "[]"] assms
      canonicalSerialize_canon [of v] canonicalSerialize_canon [of w] by auto
  moreover have "canon w = canon v \<Longrightarrow> canonicalSerialize w = Inr a"
    using assms canonicalSerialize_canon [of v] canonicalSerialize_canon [of w] by simp
  ultimately show ?thesis
    using assms by (cases "canonicalSerialize w") (auto simp: hashCanonical_def inj_eq)
qed

theorem canonical_text_identifies_witness:
  "canonicalSerialize (J_object [(''b'', J_int 1), (''a'', J_array [J_string [CHR 0x0A], J_null])]) =
     canonicalSerialize (J_object [(''a'', J_array [J_string [CHR 0x0A], J_null]), (''b'', J_int 1)])"
proof -
  let ?v = "J_object [(''b'', J_int 1), (''a'', J_array [J_string [CHR 0x0A], J_null])]"
  let ?w = "J_object [(''a'', J_array [J_string [CHR 0x0A], J_null]), (''b'', J_int 1)]"
  have "\<exists>a. canonicalSerialize ?v = Inr a" by (simp add: by_key_def)
  then obtain a where a: "canonicalSerialize ?v = Inr a" by blast
  have "canon ?w = canon ?v" by (simp add: by_key_def)
  then show ?thesis using canonical_text_identifies [OF a, of ?w] a by simp
qed

end
