(* ===== verification/Tables_Store.thy ===== *)
theory Tables_Store
  imports Tables Config_Json
begin

text \<open>
  The remaining tables of \<open>lib/db/schema.ts\<close> that the operations of this development read or
  write: configuration, scheduling, API and retention. One record per table with all its columns,
  the CHECK constraints of a row as a predicate, and the unique indexes as predicates on the list
  of rows. The \<open>jsonb\<close> of the configuration tables are JSON values, those of the other tables strings,
  as an \<open>inet\<close> and a \<open>text\<close> are; a \<open>bytea\<close> is a list of bytes.
\<close>

subsection \<open>Configuration\<close>

datatype snapshot_status = Snap_accepted | Snap_rejected

record config_snapshot =
  cs_id :: string
  cs_configVersion :: int
  cs_configHash :: string
  cs_configJson :: json
  cs_status :: snapshot_status
  cs_rejectionReason :: "string option"
  cs_source :: string
  cs_seenAt :: instant
  cs_acceptedAt :: "instant option"

definition config_snapshot_checks :: "config_snapshot \<Rightarrow> bool" where
  "config_snapshot_checks s \<longleftrightarrow>
     cs_configVersion s \<ge> 0 \<and>
     ((cs_status s = Snap_accepted \<and> cs_acceptedAt s \<noteq> None \<and> cs_rejectionReason s = None) \<or>
      (cs_status s = Snap_rejected \<and> cs_acceptedAt s = None \<and> cs_rejectionReason s \<noteq> None)) \<and>
     (case cs_acceptedAt s of None \<Rightarrow> True | Some t \<Rightarrow> t \<ge> cs_seenAt s)"

record config_approval =
  ap_id :: string
  ap_targetConfigHash :: string
  ap_action :: string
  ap_createdByPrincipal :: string
  ap_createdAt :: instant
  ap_expiresAt :: instant
  ap_consumedAt :: "instant option"

definition config_approval_checks :: "config_approval \<Rightarrow> bool" where
  "config_approval_checks a \<longleftrightarrow>
     ap_action a = ''destructive_config_change'' \<and>
     ap_expiresAt a > ap_createdAt a \<and>
     (case ap_consumedAt a of None \<Rightarrow> True | Some t \<Rightarrow> t \<ge> ap_createdAt a)"

datatype operation_state = Op_written | Op_accepted | Op_rejected | Op_failed

record config_operation =
  op_id :: string
  op_principalKey :: string
  op_requestId :: string
  op_idempotencyKey :: string
  op_baseConfigHash :: string
  op_targetConfigHash :: string
  op_planHash :: string
  op_desiredConfig :: json
  op_diffJson :: json
  op_state :: operation_state
  op_edgeConfigVersion :: "int option"
  op_rejectionReason :: "string option"
  op_createdAt :: instant
  op_writtenAt :: "instant option"
  op_acceptedAt :: "instant option"
  op_failedAt :: "instant option"

definition config_operation_checks :: "config_operation \<Rightarrow> bool" where
  "config_operation_checks o' \<longleftrightarrow>
     (case op_edgeConfigVersion o' of None \<Rightarrow> True | Some v \<Rightarrow> v \<ge> 0) \<and>
     (case op_writtenAt o' of None \<Rightarrow> True | Some t \<Rightarrow> t \<ge> op_createdAt o') \<and>
     (case op_acceptedAt o' of None \<Rightarrow> True | Some t \<Rightarrow> t \<ge> op_createdAt o') \<and>
     (case op_failedAt o' of None \<Rightarrow> True | Some t \<Rightarrow> t \<ge> op_createdAt o')"

subsection \<open>Scheduling\<close>

datatype cron_status = Run_running | Run_completed | Run_failed

record cron_run =
  cr_id :: string
  cr_jobName :: string
  cr_scheduledMinute :: instant
  cr_status :: cron_status
  cr_startedAt :: instant
  cr_completedAt :: "instant option"
  cr_monitorCount :: int
  cr_successCount :: int
  cr_failureCount :: int
  cr_skippedCount :: int
  cr_unknownCount :: int
  cr_errorMessage :: "string option"
  cr_errorDetail :: "string option"
  cr_releaseId :: "string option"

definition cron_run_checks :: "cron_run \<Rightarrow> bool" where
  "cron_run_checks r \<longleftrightarrow>
     (cr_monitorCount r \<ge> 0 \<and> cr_successCount r \<ge> 0 \<and> cr_failureCount r \<ge> 0 \<and>
      cr_skippedCount r \<ge> 0 \<and> cr_unknownCount r \<ge> 0) \<and>
     (case cr_completedAt r of None \<Rightarrow> True | Some t \<Rightarrow> t \<ge> cr_startedAt r) \<and>
     (case cr_releaseId r of None \<Rightarrow> True | Some i \<Rightarrow> js_trim i \<noteq> [])"

definition cron_run_key :: "cron_run \<Rightarrow> string \<times> instant" where
  "cron_run_key r = (cr_jobName r, cr_scheduledMinute r)"

record job_lease =
  jl_name :: string
  jl_ownerId :: string
  jl_leaseUntil :: instant
  jl_updatedAt :: instant

subsection \<open>Checks, usage and history\<close>

record raw_check =
  rc_id :: int
  rc_monitorId :: string
  rc_runId :: string
  rc_scheduledAt :: instant
  rc_checkedAt :: instant
  rc_successful :: bool
  rc_statusCode :: "int option"
  rc_latencyMs :: int
  rc_effectiveUrl :: "string option"
  rc_redirectCount :: int
  rc_resolvedAddress :: "string option"
  rc_errorCode :: "string option"
  rc_errorMessage :: "string option"
  rc_createdAt :: instant

definition raw_check_checks :: "raw_check \<Rightarrow> bool" where
  "raw_check_checks r \<longleftrightarrow> rc_latencyMs r \<ge> 0 \<and> 0 \<le> rc_redirectCount r \<and> rc_redirectCount r \<le> 5"

record usage_snapshot =
  us_capturedAt :: instant
  us_storageBytes :: int
  us_indexBytes :: int
  us_categoryBytes :: string
  us_historyBytes :: "int option"
  us_monthlyTransferBytes :: "int option"
  us_projected30DayBytes :: int
  us_governorMode :: governor_mode
  us_lastCompactionAt :: "instant option"
  us_schedulerCoverage :: "string option"
  us_providerMetricsCapturedAt :: "instant option"

definition usage_snapshot_checks :: "usage_snapshot \<Rightarrow> bool" where
  "usage_snapshot_checks u \<longleftrightarrow>
     us_storageBytes u \<ge> 0 \<and> us_indexBytes u \<ge> 0 \<and> us_projected30DayBytes u \<ge> 0 \<and>
     opt_nonneg (us_historyBytes u) \<and> opt_nonneg (us_monthlyTransferBytes u)"

datatype image_kind = Logo_light | Logo_dark | Favicon | Avatar

record image =
  im_id :: string
  im_uploadedByUserId :: "string option"
  im_kind :: image_kind
  im_mimeType :: string
  im_bytes :: "byte list"
  im_byteSize :: int
  im_createdAt :: instant

definition image_checks :: "image \<Rightarrow> bool" where
  "image_checks i \<longleftrightarrow> (im_uploadedByUserId i = None \<or> im_kind i = Avatar) \<and> im_byteSize i > 0"

subsection \<open>Dependencies and the domain provider\<close>

datatype receipt_type = Domain_renewed | Domain_expiring | Webhook_test

record webhook_receipt =
  wr_eventId :: string
  wr_eventType :: receipt_type
  wr_apexDomain :: "string option"
  wr_expireDate :: "string option"
  wr_providerCreatedAt :: instant
  wr_payloadDigest :: string
  wr_receivedAt :: instant
  wr_processingStartedAt :: "instant option"
  wr_processedAt :: "instant option"
  wr_deadLetteredAt :: "instant option"
  wr_attemptCount :: int
  wr_lastErrorCode :: "string option"

definition webhook_receipt_checks :: "webhook_receipt \<Rightarrow> bool" where
  "webhook_receipt_checks r \<longleftrightarrow>
     ((wr_eventType r = Webhook_test \<and> wr_apexDomain r = None) \<or>
      (wr_eventType r \<in> {Domain_renewed, Domain_expiring} \<and> wr_apexDomain r \<noteq> None)) \<and>
     wr_attemptCount r \<ge> 0"

datatype provider_state =
    Investigating | Identified | Monitoring | Resolved_state | Scheduled_state
  | In_progress | Completed_state | Recovering | False_alarm

record incident_update =
  iu_incidentId :: string
  iu_externalUpdateId :: string
  iu_state :: provider_state
  iu_bodyText :: string
  iu_providerCreatedAt :: instant
  iu_providerUpdatedAt :: instant

datatype dependency_state = Operational | Degraded | Outage | Maintenance_state | Unknown_state

record state_interval =
  si_id :: string
  si_dependencyId :: string
  si_state :: dependency_state
  si_startedAt :: instant
  si_endedAt :: "instant option"
  si_sourceObservedAt :: instant

definition state_interval_checks :: "state_interval \<Rightarrow> bool" where
  "state_interval_checks i \<longleftrightarrow> (case si_endedAt i of None \<Rightarrow> True | Some t \<Rightarrow> t \<ge> si_startedAt i)"

subsection \<open>The API\<close>

datatype device_state = Dev_pending | Dev_approved | Dev_denied | Dev_consumed | Dev_expired

record device_authorization =
  da_id :: string
  da_deviceCodeDigest :: "byte list"
  da_userCode :: string
  da_scopeProfile :: string
  da_clientName :: string
  da_installationKey :: string
  da_installationName :: string
  da_platform :: string
  da_architecture :: string
  da_clientVersion :: string
  da_requestIp :: "string option"
  da_state :: device_state
  da_createdAt :: instant
  da_expiresAt :: instant
  da_pollingIntervalSeconds :: int
  da_lastPolledAt :: "instant option"
  da_pollCount :: int
  da_approvedByEmail :: "string option"
  da_approvedAt :: "instant option"
  da_deniedAt :: "instant option"
  da_consumedAt :: "instant option"

definition device_authorization_checks :: "device_authorization \<Rightarrow> bool" where
  "device_authorization_checks d \<longleftrightarrow>
     da_expiresAt d > da_createdAt d \<and> da_pollingIntervalSeconds d > 0 \<and> da_pollCount d \<ge> 0"

definition active_user_codes :: "device_authorization list \<Rightarrow> bool" where
  "active_user_codes t \<longleftrightarrow>
     distinct (map (\<lambda>d. js_lower (da_userCode d)) (filter (\<lambda>d. da_state d \<in> {Dev_pending, Dev_approved}) t))"

datatype idempotency_state = Idem_running | Idem_completed

record idempotency_row =
  id_id :: string
  id_principalKey :: string
  id_idempotencyKey :: string
  id_method :: string
  id_routeKey :: string
  id_requestHash :: string
  id_protocol :: int
  id_responseStatus :: "int option"
  id_responseBody :: "string option"
  id_state :: idempotency_state
  id_createdAt :: instant
  id_completedAt :: "instant option"
  id_expiresAt :: instant

definition idempotency_key :: "idempotency_row \<Rightarrow> string \<times> string" where
  "idempotency_key r = (id_principalKey r, id_idempotencyKey r)"

definition idempotency_checks :: "idempotency_row \<Rightarrow> bool" where
  "idempotency_checks r \<longleftrightarrow>
     id_expiresAt r > id_createdAt r \<and>
     ((id_state r = Idem_running \<and> id_completedAt r = None) \<or>
      (id_state r = Idem_completed \<and> id_completedAt r \<noteq> None \<and> id_responseStatus r \<noteq> None))"

record rate_limit_bucket =
  rb_principalKey :: string
  rb_routeKey :: string
  rb_resourceKey :: string
  rb_windowStartedAt :: instant
  rb_windowSeconds :: int
  rb_requestCount :: int
  rb_expiresAt :: instant

definition rate_limit_key :: "rate_limit_bucket \<Rightarrow> string \<times> string \<times> string \<times> instant" where
  "rate_limit_key b = (rb_principalKey b, rb_routeKey b, rb_resourceKey b, rb_windowStartedAt b)"

definition rate_limit_checks :: "rate_limit_bucket \<Rightarrow> bool" where
  "rate_limit_checks b \<longleftrightarrow>
     rb_windowSeconds b > 0 \<and> rb_requestCount b \<ge> 0 \<and> rb_expiresAt b > rb_windowStartedAt b"

end
