(* ===== verification/Retention.thy ===== *)
theory Retention
  imports Maintenance_Laws Tables_Store Atomic_Minute
begin

text \<open>
  The statements of \<open>lib/maintenance/sql.ts\<close> that delete or expire rows, as functions on the
  tables, and the store over them. A statement deletes the first \<open>limit\<close> rows, in its order, of
  those its condition names; rows that tie in the order are taken in the order of the list, where
  PostgreSQL may take any of them. Intervals of days are 86 400 seconds (the database runs in UTC);
  \<open>interval '2 years'\<close> is calendar arithmetic and stays a parameter.
\<close>

subsection \<open>Bounded deletes\<close>

definition doomed_rows :: "('r \<Rightarrow> bool) \<Rightarrow> ('r \<Rightarrow> 'o :: linorder) \<Rightarrow> int \<Rightarrow> 'r list \<Rightarrow> 'r list" where
  "doomed_rows p order limit t = take (nat limit) (sort_key order (filter p t))"

text \<open>\<open>with doomed as (select key ... where p order by order limit $n) delete ... using doomed\<close>.\<close>

definition delete_batch ::
  "('r \<Rightarrow> 'k) \<Rightarrow> ('r \<Rightarrow> bool) \<Rightarrow> ('r \<Rightarrow> 'o :: linorder) \<Rightarrow> int \<Rightarrow> 'r list \<Rightarrow> 'r list \<times> int" where
  "delete_batch key p order limit t =
    (let doomed = key ` set (doomed_rows p order limit t)
     in (filter (\<lambda>r. key r \<notin> doomed) t, int (length (filter (\<lambda>r. key r \<in> doomed) t))))"

text \<open>The same with an update of the chosen rows.\<close>

definition update_batch ::
  "('r \<Rightarrow> 'k) \<Rightarrow> ('r \<Rightarrow> bool) \<Rightarrow> ('r \<Rightarrow> 'o :: linorder) \<Rightarrow> ('r \<Rightarrow> 'r) \<Rightarrow> int \<Rightarrow> 'r list \<Rightarrow> 'r list \<times> int" where
  "update_batch key p order change limit t =
    (let chosen = key ` set (doomed_rows p order limit t)
     in (map (\<lambda>r. if key r \<in> chosen then change r else r) t,
         int (length (filter (\<lambda>r. key r \<in> chosen) t))))"

subsection \<open>The statements\<close>

definition instant_before :: "instant option \<Rightarrow> instant \<Rightarrow> bool" where
  "instant_before t cutoff \<longleftrightarrow> (case t of None \<Rightarrow> False | Some x \<Rightarrow> x < cutoff)"

definition or_epoch :: "instant option \<Rightarrow> instant" where
  "or_epoch t = (case t of None \<Rightarrow> 0 | Some x \<Rightarrow> x)"

definition delete_checks_sql :: "instant \<Rightarrow> int \<Rightarrow> raw_check list \<Rightarrow> raw_check list \<times> int" where
  "delete_checks_sql cutoff =
     delete_batch rc_id (\<lambda>r. rc_createdAt r < cutoff) (\<lambda>r. (rc_createdAt r, rc_id r))"

definition delete_sent_sql :: "instant \<Rightarrow> int \<Rightarrow> outbox_row list \<Rightarrow> outbox_row list \<times> int" where
  "delete_sent_sql cutoff =
     delete_batch ob_id (\<lambda>r. ob_status r = Sent \<and> instant_before (ob_sentAt r) cutoff)
       (\<lambda>r. (or_epoch (ob_sentAt r), ob_id r))"

definition delete_receipts_sql :: "instant \<Rightarrow> int \<Rightarrow> webhook_receipt list \<Rightarrow> webhook_receipt list \<times> int" where
  "delete_receipts_sql cutoff =
     delete_batch wr_eventId (\<lambda>r. instant_before (wr_processedAt r) cutoff)
       (\<lambda>r. (or_epoch (wr_processedAt r), wr_eventId r))"

definition delete_cron_sql :: "instant \<Rightarrow> int \<Rightarrow> cron_run list \<Rightarrow> cron_run list \<times> int" where
  "delete_cron_sql cutoff =
     delete_batch cr_id (\<lambda>r. cr_startedAt r < cutoff) (\<lambda>r. (cr_startedAt r, cr_id r))"

definition expire_approvals_sql ::
  "instant \<Rightarrow> instant \<Rightarrow> int \<Rightarrow> config_approval list \<Rightarrow> config_approval list \<times> int" where
  "expire_approvals_sql now consumedCutoff =
     delete_batch ap_id
       (\<lambda>a. (ap_expiresAt a < now \<and> ap_consumedAt a = None) \<or> instant_before (ap_consumedAt a) consumedCutoff)
       (\<lambda>a. (ap_createdAt a, ap_id a))"

definition expire_idempotency_sql :: "instant \<Rightarrow> int \<Rightarrow> idempotency_row list \<Rightarrow> idempotency_row list \<times> int" where
  "expire_idempotency_sql now =
     delete_batch id_id (\<lambda>r. id_expiresAt r < now) (\<lambda>r. (id_expiresAt r, id_id r))"

definition mark_device_expired_sql ::
  "instant \<Rightarrow> int \<Rightarrow> device_authorization list \<Rightarrow> device_authorization list \<times> int" where
  "mark_device_expired_sql now =
     update_batch da_id (\<lambda>d. da_state d \<in> {Dev_pending, Dev_approved} \<and> da_expiresAt d < now)
       (\<lambda>d. (da_expiresAt d, da_id d)) (\<lambda>d. d\<lparr>da_state := Dev_expired\<rparr>)"

definition delete_device_sql ::
  "instant \<Rightarrow> int \<Rightarrow> device_authorization list \<Rightarrow> device_authorization list \<times> int" where
  "delete_device_sql cutoff =
     delete_batch da_id (\<lambda>d. da_state d \<in> {Dev_expired, Dev_denied, Dev_consumed} \<and> da_expiresAt d < cutoff)
       (\<lambda>d. (da_expiresAt d, da_id d))"

text \<open>Buckets are deleted by \<open>ctid\<close>, the place of the row; the primary key names the same row.\<close>

definition expire_rate_sql :: "instant \<Rightarrow> int \<Rightarrow> rate_limit_bucket list \<Rightarrow> rate_limit_bucket list \<times> int" where
  "expire_rate_sql now = delete_batch rate_limit_key (\<lambda>b. rb_expiresAt b < now) rb_expiresAt"

text \<open>Rejected snapshots by age, then accepted ones by their position from the newest.\<close>

definition accepted_order :: "config_snapshot \<Rightarrow> instant \<times> instant \<times> string" where
  "accepted_order s = (or_epoch (cs_acceptedAt s), cs_seenAt s, cs_id s)"

definition newest_accepted :: "config_snapshot list \<Rightarrow> config_snapshot list" where
  "newest_accepted t = rev (sort_key accepted_order (filter (\<lambda>s. cs_status s = Snap_accepted) t))"

definition retain_snapshots_sql ::
  "instant \<Rightarrow> int \<Rightarrow> int \<Rightarrow> config_snapshot list \<Rightarrow> config_snapshot list \<times> int" where
  "retain_snapshots_sql cutoff acceptedLimit limit t =
    (let doomed = map cs_id (filter (\<lambda>s. cs_status s = Snap_rejected \<and> cs_seenAt s < cutoff) t)
                  @ map cs_id (drop (nat acceptedLimit) (newest_accepted t));
         batch = set (take (nat limit) doomed)
     in (filter (\<lambda>s. cs_id s \<notin> batch) t, int (length (filter (\<lambda>s. cs_id s \<in> batch) t))))"

text \<open>A usage snapshot is doomed unless it is the newest, or the last of its day or month.\<close>

definition utc_day :: "instant \<Rightarrow> int" where
  "utc_day t = t div DAY_MS"

definition utc_month :: "instant \<Rightarrow> int \<times> int" where
  "utc_month t = (case civil (utc_day t) of (y, m, _) \<Rightarrow> (y, m))"

definition last_of :: "(instant \<Rightarrow> 'k) \<Rightarrow> usage_snapshot list \<Rightarrow> usage_snapshot \<Rightarrow> bool" where
  "last_of part t u \<longleftrightarrow>
     list_all (\<lambda>v. part (us_capturedAt v) = part (us_capturedAt u) \<longrightarrow> us_capturedAt v \<le> us_capturedAt u) t"

definition usage_doomed :: "instant \<Rightarrow> usage_snapshot list \<Rightarrow> usage_snapshot \<Rightarrow> bool" where
  "usage_doomed now t u \<longleftrightarrow>
     \<not> last_of (\<lambda>_. ()) t u \<and>
     ((us_capturedAt u < now - 90 * DAY_MS \<and> \<not> last_of utc_month t u) \<or>
      (us_capturedAt u < now - DAY_MS \<and> us_capturedAt u \<ge> now - 90 * DAY_MS \<and> \<not> last_of utc_day t u))"

definition retain_usage_sql :: "instant \<Rightarrow> int \<Rightarrow> usage_snapshot list \<Rightarrow> usage_snapshot list \<times> int" where
  "retain_usage_sql now limit t = delete_batch us_capturedAt (usage_doomed now t) us_capturedAt limit t"

definition retain_exceptions_sql ::
  "(instant \<Rightarrow> instant) \<Rightarrow> instant \<Rightarrow> int \<Rightarrow> monitor_exception list \<Rightarrow> monitor_exception list \<times> int" where
  "retain_exceptions_sql two_years_before now =
     delete_batch mx_id (\<lambda>x. mx_lastSeenAt x < two_years_before now) mx_lastSeenAt"

definition retain_payloads_sql :: "instant \<Rightarrow> int \<Rightarrow> exception_payload list \<Rightarrow> exception_payload list \<times> int" where
  "retain_payloads_sql now = delete_batch xp_id (\<lambda>x. xp_expiresAt x < now) xp_expiresAt"

text \<open>Images that no row references: by age, and the uploads without an owner by their position.\<close>

definition unreferenced_images :: "string set \<Rightarrow> image list \<Rightarrow> image list" where
  "unreferenced_images referenced = filter (\<lambda>i. im_id i \<notin> referenced)"

definition legacy_ranked :: "string set \<Rightarrow> image list \<Rightarrow> image list" where
  "legacy_ranked referenced t =
     rev (sort_key (\<lambda>i. (im_createdAt i, im_id i))
       (filter (\<lambda>i. im_uploadedByUserId i = None) (unreferenced_images referenced t)))"

definition delete_orphan_images_sql ::
  "string set \<Rightarrow> instant \<Rightarrow> int \<Rightarrow> int \<Rightarrow> image list \<Rightarrow> image list \<times> int" where
  "delete_orphan_images_sql referenced cutoff keepNewest limit t =
     (let old = im_id ` set (filter (\<lambda>i. im_createdAt i < cutoff) (unreferenced_images referenced t));
          surplus = im_id ` set (drop (nat keepNewest) (legacy_ranked referenced t))
      in delete_batch im_id (\<lambda>i. im_id i \<in> old \<union> surplus) (\<lambda>i. (im_createdAt i, im_id i)) limit t)"

definition incident_update_key :: "incident_update \<Rightarrow> string \<times> string" where
  "incident_update_key u = (iu_incidentId u, iu_externalUpdateId u)"

definition retain_updates_sql :: "instant \<Rightarrow> int \<Rightarrow> incident_update list \<Rightarrow> incident_update list \<times> int" where
  "retain_updates_sql cutoff =
     update_batch incident_update_key (\<lambda>u. iu_providerCreatedAt u < cutoff \<and> iu_bodyText u \<noteq> [])
       iu_providerCreatedAt (\<lambda>u. u\<lparr>iu_bodyText := []\<rparr>)"

text \<open>
  Closed intervals of the same dependency, day and state become one. \<open>fresh\<close> gives the identifiers
  of \<open>gen_random_uuid\<close>, one per group.
\<close>

definition closed_before :: "instant \<Rightarrow> state_interval \<Rightarrow> bool" where
  "closed_before cutoff i \<longleftrightarrow> instant_before (si_endedAt i) cutoff"

definition interval_group :: "state_interval \<Rightarrow> string \<times> int \<times> dependency_state" where
  "interval_group i = (si_dependencyId i, utc_day (si_startedAt i), si_state i)"

definition merge_groups ::
  "instant \<Rightarrow> int \<Rightarrow> state_interval list \<Rightarrow> ((string \<times> int \<times> dependency_state) \<times> state_interval list) list" where
  "merge_groups cutoff limit t =
     take (nat limit) (filter (\<lambda>(_, group). length group > 1)
       (sql_group interval_group (filter (closed_before cutoff) t)))"

definition merged_interval ::
  "string \<Rightarrow> (string \<times> int \<times> dependency_state) \<times> state_interval list \<Rightarrow> state_interval" where
  "merged_interval fresh g =
    (let (key, group) = g; start = Min (si_startedAt ` set group)
     in \<lparr>si_id = fresh, si_dependencyId = fst key, si_state = snd (snd key), si_startedAt = start,
         si_endedAt = Some (Max ((or_epoch \<circ> si_endedAt) ` set group)), si_sourceObservedAt = start\<rparr>)"

definition compact_intervals_sql ::
  "(nat \<Rightarrow> string) \<Rightarrow> instant \<Rightarrow> int \<Rightarrow> state_interval list \<Rightarrow> state_interval list \<times> int" where
  "compact_intervals_sql fresh cutoff limit t =
    (let groups = merge_groups cutoff limit t;
         ids = si_id ` set (concat (map snd groups))
     in (filter (\<lambda>i. si_id i \<notin> ids) t @ map (\<lambda>(n, g). merged_interval (fresh n) g) (number_from 0 groups),
         int (length (filter (\<lambda>i. si_id i \<in> ids) t))))"

subsection \<open>The telemetry\<close>

text \<open>What \<open>enforceTelemetryRetention\<close> passes to \<open>RETAIN_TELEMETRY_SQL\<close>.\<close>

record telemetry_cutoffs =
  tc_minute :: instant
  tc_keepFailures :: bool
  tc_quarter :: instant
  tc_hour :: instant
  tc_essential :: bool
  tc_day :: instant
  tc_failures :: instant
  tc_keepIncidents :: bool
  tc_incidents :: instant

definition telemetry_cutoffs_for :: "instant \<Rightarrow> governor_mode \<Rightarrow> telemetry_cutoffs" where
  "telemetry_cutoffs_for now mode =
    (let policy = retentionFor mode
     in \<lparr>tc_minute = now - rp_minuteHours policy * 3600000,
         tc_keepFailures = (mode = Shortened \<or> mode = Incident_only),
         tc_quarter = now - rp_quarterHourDays policy * DAY_MS,
         tc_hour = now - rp_hourlyDays policy * DAY_MS,
         tc_essential = (mode = Essential),
         tc_day = now - 730 * DAY_MS,
         tc_failures = now - 7 * DAY_MS,
         tc_keepIncidents = (mode = Shortened \<or> mode = Incident_only),
         tc_incidents = now - 90 * DAY_MS\<rparr>)"

definition no_failures :: "check_batch \<Rightarrow> bool" where
  "no_failures b \<longleftrightarrow> list_all (\<lambda>x. x = 0) (pk_failureBitmap (cb_packed b))"

definition batch_doomed :: "telemetry_cutoffs \<Rightarrow> check_batch \<Rightarrow> bool" where
  "batch_doomed c b \<longleftrightarrow> cb_scheduledMinute b < tc_minute c \<and>
     (\<not> tc_keepFailures c \<or> no_failures b \<or> cb_scheduledMinute b < tc_failures c)"

definition rollup_doomed :: "telemetry_cutoffs \<Rightarrow> rollup \<Rightarrow> bool" where
  "rollup_doomed c r \<longleftrightarrow>
     (mr_resolution r = Res_15m \<and> mr_bucketStart r < tc_quarter c \<and>
        (\<not> tc_keepIncidents c \<or> \<not> mr_hasIncident r \<or> mr_bucketStart r < tc_incidents c)) \<or>
     (mr_resolution r = Res_hour \<and> mr_bucketStart r < tc_hour c \<and>
        (tc_essential c \<or> \<not> mr_hasIncident r \<or> mr_bucketStart r < tc_incidents c)) \<or>
     (mr_resolution r = Res_day \<and> mr_bucketStart r < tc_day c)"

definition retain_telemetry_sql ::
  "telemetry_cutoffs \<Rightarrow> int \<Rightarrow> check_batch list \<times> rollup list \<Rightarrow> (check_batch list \<times> rollup list) \<times> int" where
  "retain_telemetry_sql c limit t =
    (let (batches, n) = delete_batch cb_scheduledMinute (batch_doomed c) cb_scheduledMinute limit (fst t);
         (rollups, m) = delete_batch rollup_key (rollup_doomed c) mr_bucketStart limit (snd t)
     in ((batches, rollups), n + m))"

definition enforceTelemetryRetention ::
  "instant \<Rightarrow> governor_mode \<Rightarrow> int \<Rightarrow> check_batch list \<times> rollup list \<Rightarrow> (check_batch list \<times> rollup list) \<times> int" where
  "enforceTelemetryRetention now mode limit t = retain_telemetry_sql (telemetry_cutoffs_for now mode) limit t"

end
