(* ===== verification/Retention_Laws.thy ===== *)
theory Retention_Laws
  imports Retention
begin

text \<open>
  The drains over the statements of the store: an interface for a statement that works off a backlog
  in batches, its client \<open>drainBatches\<close>, and the interpretations on the statements of
  \<open>lib/maintenance/sql.ts\<close>.
\<close>

subsection \<open>The interface\<close>

text \<open>
  A statement behind an operation of the store: \<open>tables\<close> are the tables it works on in the
  environment. It may raise, time out included, and then it changed nothing; whatever else it does
  to the environment (the time it takes) is left open.
\<close>

definition performs ::
  "('s \<Rightarrow> 't) \<Rightarrow> (int \<Rightarrow> 't \<Rightarrow> 't \<times> int) \<Rightarrow> (int \<Rightarrow> int \<Rightarrow> ('s, int) operation) \<Rightarrow> bool" where
  "performs tables run operation \<longleftrightarrow>
     (\<forall>limit left s. case operation limit left s of
        (Inl e, s') \<Rightarrow> tables s' = tables s
      | (Inr n, s') \<Rightarrow> run limit (tables s) = (tables s', n))"

text \<open>Reading the clock touches no table.\<close>

definition clock_beside :: "('s \<Rightarrow> 't) \<Rightarrow> ('s \<Rightarrow> int) \<Rightarrow> ('s \<Rightarrow> int \<times> 's) \<Rightarrow> bool" where
  "clock_beside tables time nowMs \<longleftrightarrow> clock nowMs time \<and> (\<forall>s. tables (snd (nowMs s)) = tables s)"

text \<open>
  The turns a drain can take: too late, a batch, a statement out of time, an error. The late turn and
  the timed-out one leave the tables.
\<close>

lemma drain_turn_cases:
  assumes "performs tables run operation" and "clock_beside tables time nowMs"
  obtains (late) s1 where "drain_turn nowMs b task operation \<lparr>wo_env = s, wo_skips = ks\<rparr> =
      Some (Inr (Inl 0), \<lparr>wo_env = s1, wo_skips = ks\<rparr>)" "tables s1 = tables s"
      "bu_preCatalogDeadlineAtMs b < time s1 + MIN_RETENTION_BATCH_MS"
  | (batch) s1 n where "drain_turn nowMs b task operation \<lparr>wo_env = s, wo_skips = ks\<rparr> =
      Some (Inr (if n < RETENTION_BATCH_SIZE then Inl n else Inr n), \<lparr>wo_env = s1, wo_skips = ks\<rparr>)"
      "run RETENTION_BATCH_SIZE (tables s) = (tables s1, n)"
  | (timeout) s1 e left s2 where "drain_turn nowMs b task operation \<lparr>wo_env = s, wo_skips = ks\<rparr> =
      Some (Inr (Inl 0), \<lparr>wo_env = s1, wo_skips = ks @ [\<lparr>sk_task = task, sk_reason = Pre_catalog_budget\<rparr>]\<rparr>)"
      "tables s1 = tables s" "fst (operation RETENTION_BATCH_SIZE left s2) = Inl e" "isStatementBudgetError e"
  | (raised) s1 e left s2 where "drain_turn nowMs b task operation \<lparr>wo_env = s, wo_skips = ks\<rparr> =
      Some (Inl e, \<lparr>wo_env = s1, wo_skips = ks\<rparr>)"
      "tables s1 = tables s" "fst (operation RETENTION_BATCH_SIZE left s2) = Inl e" "\<not> isStatementBudgetError e"
proof -
  obtain t1 s1 where n1: "nowMs s = (t1, s1)" by (cases "nowMs s")
  obtain t2 s2 where n2: "nowMs s1 = (t2, s2)" by (cases "nowMs s1")
  note reading = assms(2) [unfolded clock_beside_def clock_def]
  have r: "time s = t1" "time s \<le> time s1" "tables s1 = tables s" "tables s2 = tables s1"
    using reading [THEN conjunct1, rule_format, of s] reading [THEN conjunct2, rule_format, of s]
      reading [THEN conjunct2, rule_format, of s1] by (simp_all add: n1 n2)
  let ?left = "max 0 (bu_preCatalogDeadlineAtMs b - t2)"
  obtain v s3 where op: "operation RETENTION_BATCH_SIZE ?left s2 = (v, s3)"
    by (cases "operation RETENTION_BATCH_SIZE ?left s2")
  have p: "case (v, s3) of (Inl e, s') \<Rightarrow> tables s' = tables s2
      | (Inr n, s') \<Rightarrow> run RETENTION_BATCH_SIZE (tables s2) = (tables s', n)"
    using assms(1) [unfolded performs_def, rule_format, where limit = RETENTION_BATCH_SIZE and left = ?left
      and s = s2] unfolding op .
  note turn = drain_turn_def canStart_def remainingMs_def act_bind_def act_now_def act_return_def act_catch_def
    act_call_def act_throw_def recordSkip_def n1 n2
  show thesis
  proof (cases "MIN_RETENTION_BATCH_MS \<le> bu_preCatalogDeadlineAtMs b - t1")
    case False
    then show thesis using r by (intro late [of s1]) (simp_all add: turn)
  next
    case True
    show thesis
    proof (cases v)
      case (Inr n)
      with True p op r show thesis by (intro batch [of n s3]) (simp_all add: turn)
    next
      case (Inl e)
      show thesis
      proof (cases "isStatementBudgetError e")
        case budget: True
        with True Inl p op r show thesis by (intro timeout [of s3 ?left s2 e]) (simp_all add: turn)
      next
        case False
        with True Inl p op r show thesis by (intro raised [of e s3 ?left s2]) (simp_all add: turn)
      qed
    qed
  qed
qed

text \<open>
  \<open>backlog\<close> counts the rows the statement still has to take, \<open>rest\<close> is the table it leads to. A batch
  reports what it took off the backlog; one below its limit has taken all there was.
\<close>

locale batch_source =
  fixes run :: "int \<Rightarrow> 't \<Rightarrow> 't \<times> int"
    and backlog :: "'t \<Rightarrow> nat" and rest :: "'t \<Rightarrow> 't" and inv :: "'t \<Rightarrow> bool"
  assumes run_inv: "inv t \<Longrightarrow> run limit t = (t', n) \<Longrightarrow> inv t'"
    and run_counts: "inv t \<Longrightarrow> run limit t = (t', n) \<Longrightarrow> 0 \<le> n \<and> int (backlog t') + n = int (backlog t)"
    and run_partial: "inv t \<Longrightarrow> run limit t = (t', n) \<Longrightarrow> n < limit \<Longrightarrow> backlog t' = 0"
    and run_rest: "inv t \<Longrightarrow> run limit t = (t', n) \<Longrightarrow> rest t' = rest t"
    and rest_done: "inv t \<Longrightarrow> backlog t = 0 \<Longrightarrow> rest t = t"
begin

text \<open>
  How a drain ends, from \<open>s\<close> with \<open>before\<close> rows already reported: with an error of a statement; or with
  the rows it took off the backlog, when nothing is left, when the window is over, or, under a
  recorded skip, after a statement that ran out of time.
\<close>

definition drained ::
  "('s \<Rightarrow> 't) \<Rightarrow> ('s \<Rightarrow> int) \<Rightarrow> maintenance_budget \<Rightarrow> string \<Rightarrow> (int \<Rightarrow> int \<Rightarrow> ('s, int) operation) \<Rightarrow>
   's \<Rightarrow> skipped_task list \<Rightarrow> int \<Rightarrow> thrown + int \<Rightarrow> 's \<Rightarrow> skipped_task list \<Rightarrow> bool" where
  "drained tables time b task operation s ks before r s' ks' \<longleftrightarrow>
     inv (tables s') \<and> rest (tables s') = rest (tables s) \<and>
     (case r of
        Inl e \<Rightarrow> ks' = ks \<and> \<not> isStatementBudgetError e \<and>
          (\<exists>left s2. fst (operation RETENTION_BATCH_SIZE left s2) = Inl e)
      | Inr n \<Rightarrow> int (backlog (tables s')) + n = before + int (backlog (tables s)) \<and>
          (ks' = ks \<and> (backlog (tables s') = 0 \<or> bu_preCatalogDeadlineAtMs b < time s' + MIN_RETENTION_BATCH_MS) \<or>
           ks' = ks @ [\<lparr>sk_task = task, sk_reason = Pre_catalog_budget\<rparr>] \<and>
             (bu_preCatalogDeadlineAtMs b < time s' + MIN_RETENTION_BATCH_MS \<or>
              (\<exists>left s2 e. fst (operation RETENTION_BATCH_SIZE left s2) = Inl e \<and> isStatementBudgetError e))))"

lemma drain_loop_ends:
  assumes "performs tables run operation" and "clock_beside tables time nowMs" and "inv (tables s)"
  shows "\<exists>r s' ks'. drain_loop nowMs b task operation acc \<lparr>wo_env = s, wo_skips = ks\<rparr> =
           Some (r, \<lparr>wo_env = s', wo_skips = ks'\<rparr>) \<and>
         drained tables time b task operation s ks acc r s' ks'"
  using assms(3)
proof (induction "backlog (tables s)" arbitrary: s acc rule: less_induct)
  case less
  note unfold = drain_loop.simps [of nowMs b task operation acc "\<lparr>wo_env = s, wo_skips = ks\<rparr>"]
  from assms(1,2) show ?case
  proof (cases rule: drain_turn_cases [of tables run operation time nowMs b task s ks])
    case (late s1)
    then show ?thesis using less.prems by (simp add: unfold drained_def)
  next
    case (batch s1 n)
    note law = run_inv [OF less.prems batch(2)] run_counts [OF less.prems batch(2)] run_rest [OF less.prems batch(2)]
    show ?thesis
    proof (cases "n < RETENTION_BATCH_SIZE")
      case True
      with run_partial [OF less.prems batch(2)] law batch(1) show ?thesis by (simp add: unfold drained_def)
    next
      case False
      then have "backlog (tables s1) < backlog (tables s)" using law(2) by (simp add: RETENTION_BATCH_SIZE_def)
      from less.hyps [OF this law(1), of "acc + n"] obtain r s' ks' where
        loop: "drain_loop nowMs b task operation (acc + n) \<lparr>wo_env = s1, wo_skips = ks\<rparr> =
          Some (r, \<lparr>wo_env = s', wo_skips = ks'\<rparr>)" "drained tables time b task operation s1 ks (acc + n) r s' ks'"
        by blast
      have "drained tables time b task operation s ks acc r s' ks'"
        using loop(2) law(2,3) by (cases r) (auto simp: drained_def)
      with loop(1) batch(1) False show ?thesis by (simp add: unfold)
    qed
  next
    case (timeout s1 e left s2)
    then show ?thesis using less.prems by (auto simp: unfold drained_def)
  next
    case (raised s1 e left s2)
    then show ?thesis using less.prems by (auto simp: unfold drained_def)
  qed
qed

lemma drain_ends:
  assumes "performs tables run operation" and "clock_beside tables time nowMs" and "inv (tables s)"
  shows "\<exists>r s' ks'. drainBatches nowMs b task operation \<lparr>wo_env = s, wo_skips = ks\<rparr> =
           Some (r, \<lparr>wo_env = s', wo_skips = ks'\<rparr>) \<and>
         drained tables time b task operation s ks 0 r s' ks'"
proof -
  obtain t1 s1 where n1: "nowMs s = (t1, s1)" by (cases "nowMs s")
  note reading = assms(2) [unfolded clock_beside_def clock_def]
  have r: "time s = t1" "time s \<le> time s1" "tables s1 = tables s"
    using reading [THEN conjunct1, rule_format, of s] reading [THEN conjunct2, rule_format, of s]
    by (simp_all add: n1)
  note start = drainBatches_def canStart_def act_bind_def act_now_def act_return_def recordSkip_def n1
  show ?thesis
  proof (cases "MIN_RETENTION_BATCH_MS \<le> bu_preCatalogDeadlineAtMs b - t1")
    case False
    with r assms(3) show ?thesis by (simp add: start drained_def)
  next
    case True
    obtain r' s' ks' where "drain_loop nowMs b task operation 0 \<lparr>wo_env = s1, wo_skips = ks\<rparr> =
        Some (r', \<lparr>wo_env = s', wo_skips = ks'\<rparr>)" "drained tables time b task operation s1 ks 0 r' s' ks'"
      using drain_loop_ends [OF assms(1,2), of s1 b task 0 ks] assms(3) r(3) by auto
    with True r(3) show ?thesis by (auto simp: start drained_def split: sum.splits)
  qed
qed

end

subsection \<open>Bounded deletes\<close>

lemma doomed_rows_set: "set (doomed_rows p order limit t) \<subseteq> {r \<in> set t. p r}"
  unfolding doomed_rows_def using set_take_subset [of "nat limit" "sort_key order (filter p t)"] by auto

lemma length_doomed_rows: "length (doomed_rows p order limit t) = min (nat limit) (length (filter p t))"
  by (simp add: doomed_rows_def)

lemma doomed_key_iff:
  assumes "distinct (map key t)" "r \<in> set t"
  shows "key r \<in> key ` set (doomed_rows p order limit t) \<longleftrightarrow> r \<in> set (doomed_rows p order limit t)"
  using assms doomed_rows_set [of p order limit t] by (auto simp: distinct_map inj_on_def)

lemma count_doomed:
  assumes "distinct (map key t)"
  shows "length (filter (\<lambda>r. key r \<in> key ` set (doomed_rows p order limit t)) t)
       = min (nat limit) (length (filter p t))"
proof -
  have t: "distinct t" using assms by (simp add: distinct_map)
  have "filter (\<lambda>r. key r \<in> key ` set (doomed_rows p order limit t)) t
      = filter (\<lambda>r. r \<in> set (doomed_rows p order limit t)) t"
    by (rule filter_cong) (simp_all add: doomed_key_iff [OF assms])
  also have "length \<dots> = card (set (doomed_rows p order limit t))"
  proof -
    have "set (filter (\<lambda>r. r \<in> set (doomed_rows p order limit t)) t) = set (doomed_rows p order limit t)"
      using doomed_rows_set [of p order limit t] by auto
    then show ?thesis using t by (metis distinct_card distinct_filter)
  qed
  also have "\<dots> = length (doomed_rows p order limit t)"
    using t by (intro distinct_card) (simp add: doomed_rows_def)
  finally show ?thesis by (simp add: length_doomed_rows)
qed

lemma delete_batch_law:
  assumes "distinct (map key t)" "delete_batch key p order limit t = (t', n)"
  shows "distinct (map key t')" "n = int (min (nat limit) (length (filter p t)))"
    "length (filter p t') + min (nat limit) (length (filter p t)) = length (filter p t)"
    "filter (\<lambda>r. \<not> p r) t' = filter (\<lambda>r. \<not> p r) t"
    "n < limit \<Longrightarrow> filter p t' = []"
proof -
  let ?D = "\<lambda>r. key r \<in> key ` set (doomed_rows p order limit t)"
  have t': "t' = filter (\<lambda>r. \<not> ?D r) t" and n: "n = int (length (filter ?D t))"
    using assms(2) by (simp_all add: delete_batch_def Let_def)
  show "distinct (map key t')" using assms(1) by (simp add: t' distinct_map_filter)
  show "n = int (min (nat limit) (length (filter p t)))" by (simp add: n count_doomed [OF assms(1)])
  have d: "p r" if "r \<in> set t" "?D r" for r
    using that doomed_key_iff [OF assms(1)] doomed_rows_set [of p order limit t] by blast
  show "filter (\<lambda>r. \<not> p r) t' = filter (\<lambda>r. \<not> p r) t"
    unfolding t' filter_filter by (rule filter_cong) (use d in auto)
  have "filter ?D (filter p t) = filter ?D t"
    unfolding filter_filter by (rule filter_cong) (use d in auto)
  moreover have "length (filter ?D (filter p t)) + length (filter (\<lambda>r. \<not> ?D r) (filter p t)) = length (filter p t)"
    by (rule sum_length_filter_compl)
  moreover have "filter p t' = filter (\<lambda>r. \<not> ?D r) (filter p t)"
    unfolding t' by (simp add: conj_commute)
  ultimately show left: "length (filter p t') + min (nat limit) (length (filter p t)) = length (filter p t)"
    using count_doomed [OF assms(1), of p order limit] by simp
  show "filter p t' = []" if "n < limit"
    using left that \<open>n = int (min (nat limit) (length (filter p t)))\<close>
    by (auto simp: min_def split: if_splits)
qed

interpretation deletion: batch_source "delete_batch key p order" "\<lambda>t. length (filter p t)"
    "filter (\<lambda>r. \<not> p r)" "\<lambda>t. distinct (map key t)"
  for key :: "'r \<Rightarrow> 'k" and p :: "'r \<Rightarrow> bool" and order :: "'r \<Rightarrow> 'o :: linorder"
proof
  fix limit n and t t' :: "'r list"
  assume t: "distinct (map key t)" and r: "delete_batch key p order limit t = (t', n)"
  note law = delete_batch_law [OF t r]
  show "distinct (map key t')" "filter (\<lambda>r. \<not> p r) t' = filter (\<lambda>r. \<not> p r) t" by (fact law)+
  show "0 \<le> n \<and> int (length (filter p t')) + n = int (length (filter p t))" using law(2,3) by simp
  show "length (filter p t') = 0" if "n < limit" using law(5) [OF that] by simp
next
  fix t :: "'r list"
  assume "length (filter p t) = 0"
  then show "filter (\<lambda>r. \<not> p r) t = t" by (simp add: filter_empty_conv)
qed

subsection \<open>The telemetry\<close>

definition telemetry_backlog :: "telemetry_cutoffs \<Rightarrow> check_batch list \<times> rollup list \<Rightarrow> nat" where
  "telemetry_backlog c t = length (filter (batch_doomed c) (fst t)) + length (filter (rollup_doomed c) (snd t))"

definition telemetry_kept :: "telemetry_cutoffs \<Rightarrow> check_batch list \<times> rollup list \<Rightarrow> check_batch list \<times> rollup list" where
  "telemetry_kept c t = (filter (\<lambda>b. \<not> batch_doomed c b) (fst t), filter (\<lambda>r. \<not> rollup_doomed c r) (snd t))"

text \<open>A part of the tables \<open>t0\<close> with their keys.\<close>

definition telemetry_part :: "check_batch list \<times> rollup list \<Rightarrow> check_batch list \<times> rollup list \<Rightarrow> bool" where
  "telemetry_part t0 t \<longleftrightarrow>
     distinct (map cb_scheduledMinute (fst t)) \<and> distinct (map rollup_key (snd t)) \<and>
     set (fst t) \<subseteq> set (fst t0) \<and> set (snd t) \<subseteq> set (snd t0)"

lemma delete_batch_subset: "delete_batch key p order limit t = (t', n) \<Longrightarrow> set t' \<subseteq> set t"
  by (auto simp: delete_batch_def Let_def)

interpretation telemetry: batch_source "retain_telemetry_sql c" "telemetry_backlog c" "telemetry_kept c" "telemetry_part t0"
  for c :: telemetry_cutoffs and t0 :: "check_batch list \<times> rollup list"
proof
  fix limit n t t'
  assume t: "telemetry_part t0 t" and r: "retain_telemetry_sql c limit t = (t', n)"
  obtain bs nb where b: "delete_batch cb_scheduledMinute (batch_doomed c) cb_scheduledMinute limit (fst t) = (bs, nb)"
    by fastforce
  obtain rs nr where rr: "delete_batch rollup_key (rollup_doomed c) mr_bucketStart limit (snd t) = (rs, nr)"
    by fastforce
  have t': "t' = (bs, rs)" "n = nb + nr" using r by (simp_all add: retain_telemetry_sql_def b rr)
  note lb = delete_batch_law [OF _ b] and lr = delete_batch_law [OF _ rr]
  have keys: "distinct (map cb_scheduledMinute (fst t))" "distinct (map rollup_key (snd t))"
    using t by (simp_all add: telemetry_part_def)
  show "telemetry_part t0 t'"
    using lb(1) lr(1) keys delete_batch_subset [OF b] delete_batch_subset [OF rr] t
    by (auto simp: telemetry_part_def t')
  show "0 \<le> n \<and> int (telemetry_backlog c t') + n = int (telemetry_backlog c t)"
    using lb(2,3) lr(2,3) keys by (simp add: telemetry_backlog_def t')
  show "telemetry_backlog c t' = 0" if "n < limit"
  proof -
    have "nb < limit" "nr < limit" using lb(2) lr(2) keys that by (simp_all add: t')
    with lb(5) lr(5) keys show ?thesis by (simp add: telemetry_backlog_def t')
  qed
  show "telemetry_kept c t' = telemetry_kept c t" using lb(4) lr(4) keys by (simp add: telemetry_kept_def t')
next
  fix t assume "telemetry_backlog c t = 0"
  then show "telemetry_kept c t = t"
    by (cases t) (simp add: telemetry_backlog_def telemetry_kept_def filter_empty_conv)
qed

text \<open>
  The policy itself, by the mode and the age of a row. Minutes are kept for 48, 36, 24 or 12 hours,
  those with a failure for a week in the two modes before the last. Quarter hours are kept for a
  week, three days or one day, those with an incident for 90 days in the same two modes; hours for
  30 or 14 days and with an incident for 90; days for 730. The essential mode keeps days only.
\<close>

definition batch_kept :: "instant \<Rightarrow> governor_mode \<Rightarrow> check_batch \<Rightarrow> bool" where
  "batch_kept now mode b \<longleftrightarrow>
    (let age = now - cb_scheduledMinute b; failed = list_ex (\<lambda>x. x \<noteq> 0) (pk_failureBitmap (cb_packed b)) in
     case mode of
       Full \<Rightarrow> age \<le> 48 * 3600000
     | Compact_early \<Rightarrow> age \<le> 36 * 3600000
     | Shortened \<Rightarrow> age \<le> 24 * 3600000 \<or> failed \<and> age \<le> 7 * 86400000
     | Incident_only \<Rightarrow> age \<le> 12 * 3600000 \<or> failed \<and> age \<le> 7 * 86400000
     | Essential \<Rightarrow> age \<le> 0)"

definition rollup_kept :: "instant \<Rightarrow> governor_mode \<Rightarrow> rollup \<Rightarrow> bool" where
  "rollup_kept now mode r \<longleftrightarrow>
    (let days = \<lambda>n. now - mr_bucketStart r \<le> n * 86400000; incident = mr_hasIncident r in
     case mr_resolution r of
       Res_15m \<Rightarrow> (case mode of
           Full \<Rightarrow> days 7
         | Compact_early \<Rightarrow> days 7
         | Shortened \<Rightarrow> days 3 \<or> incident \<and> days 90
         | Incident_only \<Rightarrow> days 1 \<or> incident \<and> days 90
         | Essential \<Rightarrow> days 0)
     | Res_hour \<Rightarrow> (case mode of
           Essential \<Rightarrow> days 0
         | Incident_only \<Rightarrow> days 14 \<or> incident \<and> days 90
         | _ \<Rightarrow> days 30 \<or> incident \<and> days 90)
     | Res_day \<Rightarrow> days 730)"

lemma batch_kept_doomed: "batch_kept now mode b \<longleftrightarrow> \<not> batch_doomed (telemetry_cutoffs_for now mode) b"
  by (cases mode)
    (auto simp: batch_kept_def batch_doomed_def telemetry_cutoffs_for_def no_failures_def list_all_iff
      list_ex_iff DAY_MS_def Let_def)

lemma rollup_kept_doomed: "rollup_kept now mode r \<longleftrightarrow> \<not> rollup_doomed (telemetry_cutoffs_for now mode) r"
  by (cases mode; cases "mr_resolution r")
    (auto simp: rollup_kept_def rollup_doomed_def telemetry_cutoffs_for_def DAY_MS_def Let_def)

text \<open>C16. The telemetry drain enforces the policy of the mode and nothing else, whatever the clock does
  and whichever statements fail. It always ends; the rows the policy keeps are all still there, in
  their order, and no row is new. If it returns, the number it reports is the number of rows that
  are gone, and none is left that the policy does not keep, unless the window ended or a statement
  ran out of time, which the summary then shows as a skipped task. If it raises, it raises the error
  of a statement that is not a time-out.
\<close>

theorem telemetry_drain_enforces_policy:
  assumes "clock_beside tables time nowMs"
    and "performs tables (enforceTelemetryRetention now mode) operation"
    and "tables s = (batches, rollups)"
    and "distinct (map cb_scheduledMinute batches)" "distinct (map rollup_key rollups)"
  shows "\<exists>r s' ks' batches' rollups'.
    drainBatches nowMs b ''telemetry_retention'' operation \<lparr>wo_env = s, wo_skips = ks\<rparr> =
      Some (r, \<lparr>wo_env = s', wo_skips = ks'\<rparr>) \<and>
    tables s' = (batches', rollups') \<and> set batches' \<subseteq> set batches \<and> set rollups' \<subseteq> set rollups \<and>
    filter (batch_kept now mode) batches' = filter (batch_kept now mode) batches \<and>
    filter (rollup_kept now mode) rollups' = filter (rollup_kept now mode) rollups \<and>
    (case r of
       Inl e \<Rightarrow> ks' = ks \<and> \<not> isStatementBudgetError e \<and>
         (\<exists>left s2. fst (operation RETENTION_BATCH_SIZE left s2) = Inl e)
     | Inr n \<Rightarrow> n = int (length batches + length rollups) - int (length batches' + length rollups') \<and>
         (ks' = ks \<and> (\<forall>m \<in> set batches'. batch_kept now mode m) \<and> (\<forall>m \<in> set rollups'. rollup_kept now mode m) \<or>
          ks' = ks \<and> bu_preCatalogDeadlineAtMs b < time s' + MIN_RETENTION_BATCH_MS \<or>
          ks' = ks @ [\<lparr>sk_task = ''telemetry_retention'', sk_reason = Pre_catalog_budget\<rparr>] \<and>
            (bu_preCatalogDeadlineAtMs b < time s' + MIN_RETENTION_BATCH_MS \<or>
             (\<exists>left s2 e. fst (operation RETENTION_BATCH_SIZE left s2) = Inl e \<and> isStatementBudgetError e))))"
proof -
  define c where "c = telemetry_cutoffs_for now mode"
  have kept: "batch_kept now mode = (\<lambda>m. \<not> batch_doomed c m)" "rollup_kept now mode = (\<lambda>m. \<not> rollup_doomed c m)"
    by (auto simp: c_def batch_kept_doomed rollup_kept_doomed)
  have "enforceTelemetryRetention now mode = retain_telemetry_sql c"
    by (intro ext) (simp add: enforceTelemetryRetention_def c_def)
  then have op: "performs tables (retain_telemetry_sql c) operation" using assms(2) by simp
  have "telemetry_part (tables s) (tables s)" using assms(3-5) by (simp add: telemetry_part_def)
  from telemetry.drain_ends [OF op assms(1) this, of b "''telemetry_retention''" ks] obtain r s' ks' where
    run: "drainBatches nowMs b ''telemetry_retention'' operation \<lparr>wo_env = s, wo_skips = ks\<rparr> =
      Some (r, \<lparr>wo_env = s', wo_skips = ks'\<rparr>)"
    and d: "telemetry.drained c (tables s) tables time b ''telemetry_retention'' operation s ks 0 r s' ks'" by blast
  obtain batches' rollups' where t': "tables s' = (batches', rollups')" by (cases "tables s'")
  note facts = d [unfolded telemetry.drained_def telemetry_part_def telemetry_kept_def telemetry_backlog_def
    assms(3) t' fst_conv snd_conv]
  have same: "filter (batch_kept now mode) batches' = filter (batch_kept now mode) batches"
    "filter (rollup_kept now mode) rollups' = filter (rollup_kept now mode) rollups"
    "set batches' \<subseteq> set batches" "set rollups' \<subseteq> set rollups"
    using facts unfolding kept by simp_all
  have size: "length xs = length (filter (\<lambda>m. p m) xs) + length (filter (\<lambda>m. \<not> p m) xs)" for p and xs :: "'x list"
    by (simp add: sum_length_filter_compl)
  have none: "length (filter (batch_doomed c) batches') + length (filter (rollup_doomed c) rollups') = 0 \<longleftrightarrow>
      (\<forall>m \<in> set batches'. batch_kept now mode m) \<and> (\<forall>m \<in> set rollups'. rollup_kept now mode m)"
    unfolding kept by (auto simp: filter_empty_conv)
  have count: "n = int (length batches + length rollups) - int (length batches' + length rollups')" if "r = Inr n" for n
    using facts that same(1,2) size [of batches "batch_doomed c"] size [of rollups "rollup_doomed c"]
      size [of batches' "batch_doomed c"] size [of rollups' "rollup_doomed c"] unfolding kept by simp
  show ?thesis
  proof (intro exI conjI)
    show "case r of
       Inl e \<Rightarrow> ks' = ks \<and> \<not> isStatementBudgetError e \<and>
         (\<exists>left s2. fst (operation RETENTION_BATCH_SIZE left s2) = Inl e)
     | Inr n \<Rightarrow> n = int (length batches + length rollups) - int (length batches' + length rollups') \<and>
         (ks' = ks \<and> (\<forall>m \<in> set batches'. batch_kept now mode m) \<and> (\<forall>m \<in> set rollups'. rollup_kept now mode m) \<or>
          ks' = ks \<and> bu_preCatalogDeadlineAtMs b < time s' + MIN_RETENTION_BATCH_MS \<or>
          ks' = ks @ [\<lparr>sk_task = ''telemetry_retention'', sk_reason = Pre_catalog_budget\<rparr>] \<and>
            (bu_preCatalogDeadlineAtMs b < time s' + MIN_RETENTION_BATCH_MS \<or>
             (\<exists>left s2 e. fst (operation RETENTION_BATCH_SIZE left s2) = Inl e \<and> isStatementBudgetError e)))"
    proof (cases r)
      case (Inl e)
      with facts show ?thesis by simp
    next
      case (Inr n)
      with facts count [OF Inr] show ?thesis unfolding none by auto
    qed
  qed (rule run t' same)+
qed

definition sample_rollup :: "resolution_size \<Rightarrow> instant \<Rightarrow> bool \<Rightarrow> rollup" where
  "sample_rollup res start incident =
     \<lparr>mr_monitorId = ''web'', mr_resolution = res, mr_bucketStart = start, mr_expectedChecks = 15,
      mr_completedChecks = 15, mr_successfulChecks = 15, mr_failedChecks = 0, mr_unknownChecks = 0,
      mr_downtimeSeconds = 0, mr_unknownSeconds = 0, mr_latencyCount = 15, mr_latencySumMs = 1500,
      mr_latencyMinMs = Some 100, mr_latencyMaxMs = Some 100, mr_latencyHistogram = [0, 15, 0, 0, 0, 0, 0, 0],
      mr_histogramVersion = 1, mr_hasIncident = incident, mr_compactedAt = start + 900000\<rparr>"

definition sample_rollups :: "rollup list" where
  "sample_rollups = [sample_rollup Res_15m (- 10 * DAY_MS) True, sample_rollup Res_15m (- 10 * DAY_MS + 900000) False,
     sample_rollup Res_hour (- 20 * DAY_MS) False, sample_rollup Res_day (- 800 * DAY_MS) False]"

text \<open>A database that takes ten milliseconds for a batch, on a clock of its own.\<close>

definition sample_retention ::
  "int \<Rightarrow> int \<Rightarrow> int \<times> check_batch list \<times> rollup list \<Rightarrow> (thrown + int) \<times> int \<times> check_batch list \<times> rollup list" where
  "sample_retention limit left s =
     (let (t, n) = enforceTelemetryRetention 0 Shortened limit (snd s) in (Inr n, fst s + 10, t))"

theorem telemetry_drain_enforces_policy_witness:
  "\<exists>r s' ks' rollups'. drainBatches (\<lambda>s. (fst s, s)) (createMaintenanceBudget 35000 10000) ''telemetry_retention''
       sample_retention \<lparr>wo_env = (0, [], sample_rollups), wo_skips = []\<rparr> =
     Some (r, \<lparr>wo_env = s', wo_skips = ks'\<rparr>) \<and> snd s' = ([], rollups') \<and>
     filter (rollup_kept 0 Shortened) rollups' =
       [sample_rollup Res_15m (- 10 * DAY_MS) True, sample_rollup Res_hour (- 20 * DAY_MS) False]"
proof -
  have env: "clock_beside snd fst (\<lambda>s. (fst s, s))" "performs snd (enforceTelemetryRetention 0 Shortened) sample_retention"
    by (simp_all add: clock_beside_def clock_def performs_def sample_retention_def split: prod.split)
  have keys: "distinct (map rollup_key sample_rollups)"
    by (simp add: sample_rollups_def sample_rollup_def rollup_key_def)
  have kept: "filter (rollup_kept 0 Shortened) sample_rollups =
      [sample_rollup Res_15m (- 10 * DAY_MS) True, sample_rollup Res_hour (- 20 * DAY_MS) False]"
    by (simp add: sample_rollups_def sample_rollup_def rollup_kept_def DAY_MS_def Let_def)
  show ?thesis
    using telemetry_drain_enforces_policy [OF env _ _ keys, of "(0, [], sample_rollups)" "[]"
      "createMaintenanceBudget 35000 10000" "[]"] unfolding kept by auto
qed

subsection \<open>Expiring rows in place\<close>

lemma update_batch_law:
  assumes keys: "distinct (map key t)" and run: "update_batch key p order change limit t = (t', n)"
    and gone: "\<forall>r. p r \<longrightarrow> \<not> p (change r)" "\<forall>r. key (change r) = key r"
  shows "distinct (map key t')" "n = int (min (nat limit) (length (filter p t)))"
    "length (filter p t') + min (nat limit) (length (filter p t)) = length (filter p t)"
    "map (\<lambda>r. if p r then change r else r) t' = map (\<lambda>r. if p r then change r else r) t"
    "n < limit \<Longrightarrow> filter p t' = []"
proof -
  let ?D = "\<lambda>r. key r \<in> key ` set (doomed_rows p order limit t)"
  have t': "t' = map (\<lambda>r. if ?D r then change r else r) t" and n: "n = int (length (filter ?D t))"
    using run by (simp_all add: update_batch_def Let_def)
  have d: "p r" if "r \<in> set t" "?D r" for r
    using that doomed_key_iff [OF keys] doomed_rows_set [of p order limit t] by blast
  have "map key t' = map key t" unfolding t' by (simp add: gone(2))
  then show "distinct (map key t')" using keys by simp
  show count: "n = int (min (nat limit) (length (filter p t)))" by (simp add: n count_doomed [OF keys])
  show "map (\<lambda>r. if p r then change r else r) t' = map (\<lambda>r. if p r then change r else r) t"
    unfolding t' map_map by (rule map_cong) (use d gone(1) in auto)
  have "length (filter p t') = length (filter (\<lambda>r. p r \<and> \<not> ?D r) t)"
  proof -
    have "filter p t' = map (\<lambda>r. if ?D r then change r else r) (filter (\<lambda>r. p r \<and> \<not> ?D r) t)"
      unfolding t' filter_map comp_def
      by (rule arg_cong [where f = "map _"], rule filter_cong) (use d gone(1) in auto)
    then show ?thesis by simp
  qed
  moreover have "length (filter ?D (filter p t)) + length (filter (\<lambda>r. \<not> ?D r) (filter p t)) = length (filter p t)"
    by (rule sum_length_filter_compl)
  moreover have "filter ?D (filter p t) = filter ?D t"
    unfolding filter_filter by (rule filter_cong) (use d in auto)
  ultimately show left: "length (filter p t') + min (nat limit) (length (filter p t)) = length (filter p t)"
    using count_doomed [OF keys, of p order limit] by (simp add: conj_commute)
  show "filter p t' = []" if "n < limit" using left that count by (auto simp: min_def split: if_splits)
qed

lemma update_batch_source:
  assumes "\<forall>r. p r \<longrightarrow> \<not> p (change r)" "\<forall>r. key (change r) = key r"
  shows "batch_source (update_batch key p order change) (\<lambda>t. length (filter p t))
           (map (\<lambda>r. if p r then change r else r)) (\<lambda>t. distinct (map key t))"
proof
  fix limit n t t'
  assume t: "distinct (map key t)" and r: "update_batch key p order change limit t = (t', n)"
  note law = update_batch_law [OF t r assms]
  show "distinct (map key t')" by (rule law(1))
  show "map (\<lambda>r. if p r then change r else r) t' = map (\<lambda>r. if p r then change r else r) t" by (rule law(4))
  show "0 \<le> n \<and> int (length (filter p t')) + n = int (length (filter p t))" using law(2,3) by simp
  show "length (filter p t') = 0" if "n < limit" using law(5) [OF that] by simp
next
  fix t assume "length (filter p t) = 0"
  then show "map (\<lambda>r. if p r then change r else r) t = t" by (auto simp: filter_empty_conv intro: map_idI)
qed

interpretation devices: batch_source "mark_device_expired_sql now"
    "\<lambda>t. length (filter (\<lambda>d. da_state d \<in> {Dev_pending, Dev_approved} \<and> da_expiresAt d < now) t)"
    "map (\<lambda>d. if da_state d \<in> {Dev_pending, Dev_approved} \<and> da_expiresAt d < now
              then d\<lparr>da_state := Dev_expired\<rparr> else d)"
    "\<lambda>t. distinct (map da_id t)"
  for now :: instant
  unfolding mark_device_expired_sql_def by (rule update_batch_source) simp_all

interpretation updates: batch_source "retain_updates_sql cutoff"
    "\<lambda>t. length (filter (\<lambda>u. iu_providerCreatedAt u < cutoff \<and> iu_bodyText u \<noteq> []) t)"
    "map (\<lambda>u. if iu_providerCreatedAt u < cutoff \<and> iu_bodyText u \<noteq> [] then u\<lparr>iu_bodyText := []\<rparr> else u)"
    "\<lambda>t. distinct (map incident_update_key t)"
  for cutoff :: instant
  unfolding retain_updates_sql_def by (rule update_batch_source) (simp_all add: incident_update_key_def)

subsection \<open>Merging the intervals of a dependency\<close>

text \<open>One interval covers another: same dependency and state, and at least its time.\<close>

definition covers :: "state_interval \<Rightarrow> state_interval \<Rightarrow> bool" where
  "covers j i \<longleftrightarrow> si_dependencyId j = si_dependencyId i \<and> si_state j = si_state i \<and> si_startedAt j \<le> si_startedAt i \<and>
     (case (si_endedAt i, si_endedAt j) of
        (None, None) \<Rightarrow> True | (Some x, Some y) \<Rightarrow> x \<le> y | _ \<Rightarrow> False)"

lemma covers_refl: "covers i i"
  by (simp add: covers_def split: option.split)

lemma merged_covers:
  assumes "i \<in> set members" "interval_group i = key" "si_endedAt i = Some e"
  shows "covers (merged_interval f (key, members)) i"
proof -
  have "Min (si_startedAt ` set members) \<le> si_startedAt i" using assms(1) by simp
  moreover have "e \<le> Max ((or_epoch \<circ> si_endedAt) ` set members)"
    using assms(1,3) by (intro Max_ge) (auto simp: or_epoch_def image_iff intro: bexI [of _ i])
  ultimately show ?thesis
    using assms(2,3) by (auto simp: covers_def merged_interval_def Let_def interval_group_def)
qed

lemma set_number_from: "snd ` set (number_from n xs) = set xs"
  by (induction xs arbitrary: n) auto

text \<open>C39. Compacting two-year-old history loses no time in a state: every interval of a dependency is
  still covered afterwards by one of the same dependency and state, and an open interval stays open.
\<close>

theorem compaction_keeps_coverage:
  assumes "distinct (map si_id t)" "compact_intervals_sql fresh cutoff limit t = (t', n)" "i \<in> set t"
  shows "\<exists>j \<in> set t'. covers j i"
proof -
  define groups where "groups = merge_groups cutoff limit t"
  let ?ids = "si_id ` set (concat (map snd groups))"
  have t': "t' = filter (\<lambda>i. si_id i \<notin> ?ids) t @ map (\<lambda>(n, g). merged_interval (fresh n) g) (number_from 0 groups)"
    using assms(2) by (simp add: compact_intervals_sql_def groups_def Let_def)
  have member: "g \<in> set (sql_group interval_group (filter (closed_before cutoff) t))" if "g \<in> set groups" for g
    using that unfolding groups_def merge_groups_def by (auto dest: in_set_takeD)
  show ?thesis
  proof (cases "si_id i \<in> ?ids")
    case False
    then have "i \<in> set t'" using assms(3) by (simp add: t')
    then show ?thesis using covers_refl by blast
  next
    case True
    then obtain key members i' where g: "(key, members) \<in> set groups" "i' \<in> set members" "si_id i' = si_id i" by auto
    then have gr: "members = filter (\<lambda>r. interval_group r = key) (filter (closed_before cutoff) t)"
      using member [OF g(1)] by (simp add: sql_group_iff)
    then have "i' \<in> set t" "interval_group i' = key" "closed_before cutoff i'" using g(2) by auto
    have "inj_on si_id (set t)" using assms(1) by (simp add: distinct_map)
    from inj_onD [OF this g(3) \<open>i' \<in> set t\<close> assms(3)] have i: "i' = i" .
    then obtain e where "si_endedAt i = Some e"
      using \<open>closed_before cutoff i'\<close> by (auto simp: closed_before_def instant_before_def split: option.splits)
    then have "covers (merged_interval f (key, members)) i" for f
      using merged_covers [OF g(2) \<open>interval_group i' = key\<close>, of e f] i by simp
    moreover obtain m where "(m, (key, members)) \<in> set (number_from 0 groups)"
    proof -
      have "(key, members) \<in> snd ` set (number_from 0 groups)" unfolding set_number_from by (rule g(1))
      then obtain y where y: "y \<in> set (number_from 0 groups)" "snd y = (key, members)" by fastforce
      have "y = (fst y, key, members)" by (simp add: y(2) [symmetric])
      with y(1) have "(fst y, key, members) \<in> set (number_from 0 groups)" by simp
      then show thesis by (rule that)
    qed
    then have "merged_interval (fresh m) (key, members) \<in> set t'" by (force simp: t')
    ultimately show ?thesis by blast
  qed
qed

definition sample_interval :: "string \<Rightarrow> instant \<Rightarrow> instant option \<Rightarrow> state_interval" where
  "sample_interval i start stop =
     \<lparr>si_id = i, si_dependencyId = ''dep'', si_state = Operational, si_startedAt = start, si_endedAt = stop,
      si_sourceObservedAt = start\<rparr>"

definition sample_intervals :: "state_interval list" where
  "sample_intervals = [sample_interval ''a'' 0 (Some 1000), sample_interval ''b'' 2000 (Some 3000), sample_interval ''c'' 4000 None]"

theorem compaction_keeps_coverage_witness:
  "\<exists>j \<in> set (fst (compact_intervals_sql (\<lambda>_. ''new'') 10000 100 sample_intervals)). covers j (sample_interval ''b'' 2000 (Some 3000))"
  by (rule compaction_keeps_coverage [of sample_intervals "\<lambda>_. ''new''" 10000 100 _ "snd (compact_intervals_sql (\<lambda>_. ''new'') 10000 100 sample_intervals)"])
    (simp_all add: sample_intervals_def sample_interval_def)

end
