(* ===== verification/Maintenance_Sql.thy ===== *)
theory Maintenance_Sql
  imports Sweep_Laws Retention Rollups
begin

text \<open>
  \<open>createSqlMaintenanceStore\<close> of \<open>lib/maintenance/sql.ts\<close> over the tables, with the clock and the
  statement time-out of the database. A statement takes a positive number of milliseconds that the
  environment chooses, may raise an error the environment chooses, and is cancelled with code 57014
  when it outlives its time-out, leaving the tables as they were. The statements this development
  does not model are arguments: filling scheduler gaps, measuring the database, and the catalog
  reconciliation. Statements without a \<open>returning\<close> clause report no row.
\<close>

record store_tables =
  st_checks :: "raw_check list"
  st_outbox :: "outbox_row list"
  st_receipts :: "webhook_receipt list"
  st_cronRuns :: "cron_run list"
  st_approvals :: "config_approval list"
  st_idempotency :: "idempotency_row list"
  st_devices :: "device_authorization list"
  st_buckets :: "rate_limit_bucket list"
  st_snapshots :: "config_snapshot list"
  st_telemetry :: "check_batch list \<times> rollup list"
  st_incidents :: "incident list"
  st_usage :: "usage_snapshot list"
  st_exceptions :: "monitor_exception list"
  st_payloads :: "exception_payload list"
  st_images :: "image list"
  st_imageReferences :: "string set"
  st_updates :: "incident_update list"
  st_intervals :: "state_interval list"

record store_env =
  se_tables :: store_tables
  se_clock :: int
  se_step :: nat

text \<open>The choices of the environment for the \<open>n\<close>-th statement, and the code outside the model.\<close>

record store_choices =
  ch_cost :: "nat \<Rightarrow> nat"
  ch_fault :: "nat \<Rightarrow> thrown option"
  ch_fresh :: "nat \<Rightarrow> nat \<Rightarrow> string"
  ch_twoYearsBefore :: "instant \<Rightarrow> instant"
  ch_fillGaps :: "instant \<Rightarrow> instant \<Rightarrow> instant \<Rightarrow> store_tables \<Rightarrow> store_tables"
  ch_measure :: "instant \<Rightarrow> store_tables \<Rightarrow> store_tables \<times> governor_mode list"
  ch_catalog :: "instant \<Rightarrow> int \<Rightarrow> (store_env, catalog_summary) operation"

definition cost_of :: "store_choices \<Rightarrow> store_env \<Rightarrow> int" where
  "cost_of ch s = 1 + int (ch_cost ch (se_step s))"

definition run_query ::
  "store_choices \<Rightarrow> (store_tables \<Rightarrow> thrown + store_tables \<times> 'a) \<Rightarrow> (store_env, 'a) operation" where
  "run_query ch statement s =
    (let after = s\<lparr>se_clock := se_clock s + cost_of ch s, se_step := se_step s + 1\<rparr>
     in case ch_fault ch (se_step s) of
          Some e \<Rightarrow> (Inl e, after)
        | None \<Rightarrow> (case statement (se_tables s) of
                     Inl e \<Rightarrow> (Inl e, after)
                   | Inr (t, x) \<Rightarrow> (Inr x, after\<lparr>se_tables := t\<rparr>)))"

definition queryWithBudget ::
  "store_choices \<Rightarrow> (store_tables \<Rightarrow> thrown + store_tables \<times> 'a) \<Rightarrow> int \<Rightarrow> (store_env, 'a) operation" where
  "queryWithBudget ch statement left s =
    (if left \<le> 0 then run_query ch statement s
     else if cost_of ch s \<le> left then run_query ch statement s
     else (Inl statement_timeout, s\<lparr>se_clock := se_clock s + left, se_step := se_step s + 1\<rparr>))"

text \<open>A statement on one table that reports the rows it affected, and one that reports none.\<close>

definition on_table ::
  "(store_tables \<Rightarrow> 't) \<Rightarrow> (('t \<Rightarrow> 't) \<Rightarrow> store_tables \<Rightarrow> store_tables) \<Rightarrow> ('t \<Rightarrow> 't \<times> int) \<Rightarrow>
   store_tables \<Rightarrow> thrown + store_tables \<times> int" where
  "on_table get upd statement t = (let (rows, n) = statement (get t) in Inr (upd (\<lambda>_. rows) t, n))"

definition sql_error :: "js_error \<Rightarrow> thrown" where
  "sql_error e = ThrownObject True (Some ''22000'') (case e of RangeError m \<Rightarrow> m | TypeError m \<Rightarrow> m | Error m \<Rightarrow> m)"

definition quiet :: "(store_tables \<Rightarrow> js_error + store_tables) \<Rightarrow> store_tables \<Rightarrow> thrown + store_tables \<times> int" where
  "quiet statement t = (case statement t of Inl e \<Rightarrow> Inl (sql_error e) | Inr t' \<Rightarrow> Inr (t', 0))"

definition reconcileStaleOutbox :: "store_choices \<Rightarrow> instant \<Rightarrow> int \<Rightarrow> (store_env, int) operation" where
  "reconcileStaleOutbox ch now = queryWithBudget ch (on_table st_outbox st_outbox_update (\<lambda>rows.
     let hit = stale_claim now 300000 None;
         change = reconciled_row now (now - (PROVIDER_IDEMPOTENCY_WINDOW_MS - PROVIDER_IDEMPOTENCY_RETRY_MARGIN_MS))
     in (sql_update hit change rows, int (length (sql_returning hit change rows)))))"

definition reconcileStaleCronRuns :: "store_choices \<Rightarrow> instant \<Rightarrow> int \<Rightarrow> (store_env, int) operation" where
  "reconcileStaleCronRuns ch now = queryWithBudget ch (on_table st_cronRuns st_cronRuns_update (\<lambda>rows.
     let hit = (\<lambda>r. cr_status r = Run_running \<and> cr_startedAt r < now - 300000);
         change = (\<lambda>r. r\<lparr>cr_status := Run_failed, cr_completedAt := Some now,
                         cr_errorMessage := Some ''Stale running cron reconciled''\<rparr>)
     in (sql_update hit change rows, int (length (sql_returning hit change rows)))))"

definition schedulerCoverageStart :: "store_choices \<Rightarrow> instant \<Rightarrow> int \<Rightarrow> (store_env, instant) operation" where
  "schedulerCoverageStart ch now = queryWithBudget ch (\<lambda>t.
     let floor = now - 48 * 3600000;
         width = (\<lambda>r. case mr_resolution r of Res_15m \<Rightarrow> QUARTER_MS | Res_hour \<Rightarrow> HOUR_MS | Res_day \<Rightarrow> DAY_MS);
         covered = sql_max (map (\<lambda>r. mr_bucketStart r + width r) (snd (st_telemetry t)));
         first = sql_min (map cb_scheduledMinute (fst (st_telemetry t)))
     in Inr (t, case covered of Some c \<Rightarrow> c
                | None \<Rightarrow> (case first of Some f \<Rightarrow> max f floor | None \<Rightarrow> floor)))"

definition compact15Minute :: "store_choices \<Rightarrow> instant \<Rightarrow> instant \<Rightarrow> instant \<Rightarrow> int \<Rightarrow> (store_env, int) operation" where
  "compact15Minute ch start stop now = queryWithBudget ch (quiet (\<lambda>t.
     res_bind (compact_15_minute start stop now (fst (st_telemetry t)) (st_incidents t) (snd (st_telemetry t)))
       (\<lambda>rollups. Inr (t\<lparr>st_telemetry := (fst (st_telemetry t), rollups)\<rparr>))))"

definition resolution_named :: "string \<Rightarrow> resolution_size" where
  "resolution_named name = (if name = ''15m'' then Res_15m else if name = ''hour'' then Res_hour else Res_day)"

definition promoteRollups ::
  "store_choices \<Rightarrow> string \<Rightarrow> string \<Rightarrow> instant \<Rightarrow> instant \<Rightarrow> int \<Rightarrow> (store_env, int) operation" where
  "promoteRollups ch source target start stop = queryWithBudget ch (quiet (\<lambda>t.
     Inr (t\<lparr>st_telemetry := (fst (st_telemetry t),
       promote_rollup (resolution_named source) (resolution_named target) start stop (snd (st_telemetry t)))\<rparr>)))"

definition readLatestGovernorMode :: "store_choices \<Rightarrow> (store_env, governor_mode option) operation" where
  "readLatestGovernorMode ch = run_query ch (\<lambda>t.
     Inr (t, case sql_max (map us_capturedAt (st_usage t)) of None \<Rightarrow> None
             | Some m \<Rightarrow> map_option us_governorMode (find (\<lambda>u. us_capturedAt u = m) (st_usage t))))"

definition measureAndSnapshotUsage :: "store_choices \<Rightarrow> instant \<Rightarrow> int \<Rightarrow> (store_env, governor_mode) operation" where
  "measureAndSnapshotUsage ch now = queryWithBudget ch (\<lambda>t.
     let (t', rows) = ch_measure ch now t in Inr (t', case rows of [] \<Rightarrow> Essential | m # _ \<Rightarrow> m))"

definition fillSchedulerGaps :: "store_choices \<Rightarrow> instant \<Rightarrow> instant \<Rightarrow> instant \<Rightarrow> int \<Rightarrow> (store_env, int) operation" where
  "fillSchedulerGaps ch start stop now = queryWithBudget ch (quiet (\<lambda>t. Inr (ch_fillGaps ch start stop now t)))"

definition deleteRawChecks :: "store_choices \<Rightarrow> instant \<Rightarrow> int \<Rightarrow> int \<Rightarrow> (store_env, int) operation" where
  "deleteRawChecks ch cutoff limit =
     queryWithBudget ch (on_table st_checks st_checks_update (delete_checks_sql cutoff limit))"

definition deleteSentNotifications :: "store_choices \<Rightarrow> instant \<Rightarrow> int \<Rightarrow> int \<Rightarrow> (store_env, int) operation" where
  "deleteSentNotifications ch cutoff limit =
     queryWithBudget ch (on_table st_outbox st_outbox_update (delete_sent_sql cutoff limit))"

definition deleteProcessedPorkbunWebhookReceipts :: "store_choices \<Rightarrow> instant \<Rightarrow> int \<Rightarrow> int \<Rightarrow> (store_env, int) operation" where
  "deleteProcessedPorkbunWebhookReceipts ch cutoff limit =
     queryWithBudget ch (on_table st_receipts st_receipts_update (delete_receipts_sql cutoff limit))"

definition expireConfigApprovals :: "store_choices \<Rightarrow> instant \<Rightarrow> instant \<Rightarrow> int \<Rightarrow> int \<Rightarrow> (store_env, int) operation" where
  "expireConfigApprovals ch now consumedCutoff limit =
     queryWithBudget ch (on_table st_approvals st_approvals_update (expire_approvals_sql now consumedCutoff limit))"

definition expireApiIdempotency :: "store_choices \<Rightarrow> instant \<Rightarrow> int \<Rightarrow> int \<Rightarrow> (store_env, int) operation" where
  "expireApiIdempotency ch now limit =
     queryWithBudget ch (on_table st_idempotency st_idempotency_update (expire_idempotency_sql now limit))"

definition markDeviceAuthorizationsExpired :: "store_choices \<Rightarrow> instant \<Rightarrow> int \<Rightarrow> int \<Rightarrow> (store_env, int) operation" where
  "markDeviceAuthorizationsExpired ch now limit =
     queryWithBudget ch (on_table st_devices st_devices_update (mark_device_expired_sql now limit))"

definition deleteExpiredDeviceAuthorizations :: "store_choices \<Rightarrow> instant \<Rightarrow> int \<Rightarrow> int \<Rightarrow> (store_env, int) operation" where
  "deleteExpiredDeviceAuthorizations ch cutoff limit =
     queryWithBudget ch (on_table st_devices st_devices_update (delete_device_sql cutoff limit))"

definition expireRateLimitBuckets :: "store_choices \<Rightarrow> instant \<Rightarrow> int \<Rightarrow> int \<Rightarrow> (store_env, int) operation" where
  "expireRateLimitBuckets ch now limit =
     queryWithBudget ch (on_table st_buckets st_buckets_update (expire_rate_sql now limit))"

definition retainConfigSnapshots :: "store_choices \<Rightarrow> instant \<Rightarrow> int \<Rightarrow> int \<Rightarrow> int \<Rightarrow> (store_env, int) operation" where
  "retainConfigSnapshots ch cutoff acceptedLimit limit =
     queryWithBudget ch (on_table st_snapshots st_snapshots_update (retain_snapshots_sql cutoff acceptedLimit limit))"

definition deleteOldCronRuns :: "store_choices \<Rightarrow> instant \<Rightarrow> int \<Rightarrow> int \<Rightarrow> (store_env, int) operation" where
  "deleteOldCronRuns ch cutoff limit =
     queryWithBudget ch (on_table st_cronRuns st_cronRuns_update (delete_cron_sql cutoff limit))"

definition deleteOldRollups :: "store_choices \<Rightarrow> string \<Rightarrow> int \<Rightarrow> int \<Rightarrow> (store_env, int) operation" where
  "deleteOldRollups ch cutoff limit left s =
     (Inr 0, s)"

definition enforce_telemetry_retention :: "store_choices \<Rightarrow> instant \<Rightarrow> governor_mode \<Rightarrow> int \<Rightarrow> int \<Rightarrow> (store_env, int) operation" where
  "enforce_telemetry_retention ch now mode limit =
     queryWithBudget ch (on_table st_telemetry st_telemetry_update (enforceTelemetryRetention now mode limit))"

definition retainUsageSnapshots :: "store_choices \<Rightarrow> instant \<Rightarrow> int \<Rightarrow> int \<Rightarrow> (store_env, int) operation" where
  "retainUsageSnapshots ch now limit =
     queryWithBudget ch (on_table st_usage st_usage_update (retain_usage_sql now limit))"

definition retainExceptions :: "store_choices \<Rightarrow> instant \<Rightarrow> int \<Rightarrow> int \<Rightarrow> (store_env, int) operation" where
  "retainExceptions ch now limit =
     queryWithBudget ch (on_table st_exceptions st_exceptions_update (retain_exceptions_sql (ch_twoYearsBefore ch) now limit))"

definition retainExceptionPayloads :: "store_choices \<Rightarrow> instant \<Rightarrow> int \<Rightarrow> int \<Rightarrow> (store_env, int) operation" where
  "retainExceptionPayloads ch now limit =
     queryWithBudget ch (on_table st_payloads st_payloads_update (retain_payloads_sql now limit))"

definition deleteOrphanImages :: "store_choices \<Rightarrow> instant \<Rightarrow> int \<Rightarrow> int \<Rightarrow> int \<Rightarrow> (store_env, int) operation" where
  "deleteOrphanImages ch cutoff keepNewest limit left s =
     queryWithBudget ch (on_table st_images st_images_update (delete_orphan_images_sql (st_imageReferences (se_tables s)) cutoff keepNewest limit)) left s"

definition retainDependencyIncidentUpdates :: "store_choices \<Rightarrow> instant \<Rightarrow> int \<Rightarrow> int \<Rightarrow> (store_env, int) operation" where
  "retainDependencyIncidentUpdates ch cutoff limit =
     queryWithBudget ch (on_table st_updates st_updates_update (retain_updates_sql cutoff limit))"

definition compactDependencyStateIntervals :: "store_choices \<Rightarrow> instant \<Rightarrow> int \<Rightarrow> int \<Rightarrow> (store_env, int) operation" where
  "compactDependencyStateIntervals ch cutoff limit left s =
     queryWithBudget ch (on_table st_intervals st_intervals_update (compact_intervals_sql (ch_fresh ch (se_step s)) cutoff limit)) left s"

definition createSqlMaintenanceStore :: "store_choices \<Rightarrow> store_env maintenance_store" where
  "createSqlMaintenanceStore ch = \<lparr>
     ms_reconcileStaleOutbox = reconcileStaleOutbox ch,
     ms_reconcileStaleCronRuns = reconcileStaleCronRuns ch,
     ms_deleteRawChecks = deleteRawChecks ch,
     ms_deleteSentNotifications = deleteSentNotifications ch,
     ms_deleteProcessedPorkbunWebhookReceipts = deleteProcessedPorkbunWebhookReceipts ch,
     ms_expireConfigApprovals = expireConfigApprovals ch,
     ms_expireApiIdempotency = expireApiIdempotency ch,
     ms_markDeviceAuthorizationsExpired = markDeviceAuthorizationsExpired ch,
     ms_deleteExpiredDeviceAuthorizations = deleteExpiredDeviceAuthorizations ch,
     ms_expireRateLimitBuckets = expireRateLimitBuckets ch,
     ms_retainConfigSnapshots = retainConfigSnapshots ch,
     ms_deleteOldCronRuns = deleteOldCronRuns ch,
     ms_deleteOldRollups = deleteOldRollups ch,
     ms_compact15Minute = compact15Minute ch,
     ms_fillSchedulerGaps = fillSchedulerGaps ch,
     ms_schedulerCoverageStart = schedulerCoverageStart ch,
     ms_promoteRollups = promoteRollups ch,
     ms_measureAndSnapshotUsage = measureAndSnapshotUsage ch,
     ms_readLatestGovernorMode = readLatestGovernorMode ch,
     ms_enforceTelemetryRetention = enforce_telemetry_retention ch,
     ms_retainUsageSnapshots = retainUsageSnapshots ch,
     ms_retainExceptions = retainExceptions ch,
     ms_retainExceptionPayloads = retainExceptionPayloads ch,
     ms_deleteOrphanImages = deleteOrphanImages ch,
     ms_reconcileDependencyCatalog = ch_catalog ch,
     ms_retainDependencyIncidentUpdates = retainDependencyIncidentUpdates ch,
     ms_compactDependencyStateIntervals = compactDependencyStateIntervals ch\<rparr>"

lemmas store_operations =
  deleteRawChecks_def deleteSentNotifications_def deleteProcessedPorkbunWebhookReceipts_def expireConfigApprovals_def
  expireApiIdempotency_def markDeviceAuthorizationsExpired_def deleteExpiredDeviceAuthorizations_def expireRateLimitBuckets_def
  retainConfigSnapshots_def deleteOldCronRuns_def deleteOldRollups_def enforce_telemetry_retention_def
  retainUsageSnapshots_def retainExceptions_def retainExceptionPayloads_def deleteOrphanImages_def
  retainDependencyIncidentUpdates_def compactDependencyStateIntervals_def

subsection \<open>Its clock\<close>

lemma run_query_clock: "se_clock (snd (run_query ch f s)) = se_clock s + cost_of ch s"
  by (simp add: run_query_def Let_def split: option.split sum.split prod.split)

lemma cost_positive: "1 \<le> cost_of ch s"
  by (simp add: cost_of_def)

lemma queryWithBudget_timely: "timely se_clock 0 (queryWithBudget ch f)"
  by (auto simp: timely_def queryWithBudget_def run_query_clock)

lemma queryWithBudget_moves: "se_clock s < se_clock (snd (queryWithBudget ch f left s))"
  using cost_positive [of ch s] by (simp add: queryWithBudget_def run_query_clock)

lemma queryWithBudget_moves': "queryWithBudget ch f left s = (r, s') \<Longrightarrow> se_clock s < se_clock s'"
  using queryWithBudget_moves [of s ch f left] by simp

lemma local_operations_timely:
  "timely se_clock 0 (deleteOldRollups ch day limit)"
  "timely se_clock 0 (deleteOrphanImages ch cutoff keepNewest limit)"
  "timely se_clock 0 (compactDependencyStateIntervals ch cutoff limit)"
  by (auto simp: timely_def deleteOldRollups_def deleteOrphanImages_def compactDependencyStateIntervals_def
      queryWithBudget_def run_query_clock)

text \<open>The store over the tables honours its time-outs, and every batch takes time.\<close>

lemma sql_store_timely:
  assumes "\<And>n. 1 + int (ch_cost ch n) \<le> grace"
  shows "timely_store se_clock 0 grace (createSqlMaintenanceStore ch) now"
  unfolding timely_store_def
proof (intro conjI allI impI)
  show "timely se_clock 0 (ms_measureAndSnapshotUsage (createSqlMaintenanceStore ch) now)"
    "timely se_clock 0 (ms_schedulerCoverageStart (createSqlMaintenanceStore ch) now)"
    "timely se_clock 0 (ms_fillSchedulerGaps (createSqlMaintenanceStore ch) start stop now)"
    "timely se_clock 0 (ms_compact15Minute (createSqlMaintenanceStore ch) start stop now)"
    "timely se_clock 0 (ms_promoteRollups (createSqlMaintenanceStore ch) a z start stop)" for start stop a z
    by (simp_all add: createSqlMaintenanceStore_def measureAndSnapshotUsage_def schedulerCoverageStart_def
        fillSchedulerGaps_def compact15Minute_def promoteRollups_def queryWithBudget_timely)
  show "se_clock (snd (ms_readLatestGovernorMode (createSqlMaintenanceStore ch) s)) \<le> se_clock s + grace" for s
    using assms [of "se_step s"]
    by (simp add: createSqlMaintenanceStore_def readLatestGovernorMode_def run_query_clock cost_of_def)
next
  fix mode t f
  assume "(t, f) \<in> set (retention_drains (createSqlMaintenanceStore ch) now mode)
              \<union> set (expiry_drains (createSqlMaintenanceStore ch) now)"
  then show "timely se_clock 0 (f RETENTION_BATCH_SIZE)"
    by (auto simp: retention_drains_def expiry_drains_def createSqlMaintenanceStore_def store_operations queryWithBudget_timely
        local_operations_timely)
qed

lemma sql_store_full: "full_batches_take_time se_clock (createSqlMaintenanceStore ch) now"
  unfolding full_batches_take_time_def
  by (auto simp: retention_drains_def expiry_drains_def createSqlMaintenanceStore_def store_operations RETENTION_BATCH_SIZE_def
      dest: queryWithBudget_moves')

end
