(* ===== verification/Leases.thy ===== *)
theory Leases
  imports Maintenance Tables_Store
begin

text \<open>
  Job leases: \<open>lib/scheduler/lease.ts\<close> and the lease store of \<open>lib/scheduler/sql.ts\<close> on the table
  \<open>job_leases\<close>. A statement reads \<open>clock_timestamp()\<close> once here; its readings inside one statement
  differ by microseconds at most. Several workers act on the table in any order; the clock is the
  database's own and never runs backwards.
\<close>

definition LEASE_DURATION_MS :: int where "LEASE_DURATION_MS = 90000"
definition MONITORING_LEASE :: string where "MONITORING_LEASE = ''monitor-check''"
definition MAINTENANCE_LEASE :: string where "MAINTENANCE_LEASE = ''maintenance''"
definition DEPENDENCY_LEASE :: string where "DEPENDENCY_LEASE = ''dependency-check''"
definition DOMAIN_HEALTH_LEASE :: string where "DOMAIN_HEALTH_LEASE = ''domain-health''"

subsection \<open>The statements\<close>

definition new_lease :: "instant \<Rightarrow> string \<Rightarrow> string \<Rightarrow> int \<Rightarrow> job_lease" where
  "new_lease clock name ownerId durationMs =
     \<lparr>jl_name = name, jl_ownerId = ownerId, jl_leaseUntil = clock + durationMs, jl_updatedAt = clock\<rparr>"

text \<open>\<open>ACQUIRE_LEASE_SQL\<close>: the table afterwards and whether a row came back.\<close>

definition acquire_lease_sql ::
  "instant \<Rightarrow> string \<Rightarrow> string \<Rightarrow> int \<Rightarrow> job_lease list \<Rightarrow> job_lease list \<times> bool" where
  "acquire_lease_sql clock name ownerId durationMs t =
    (case find (\<lambda>l. jl_name l = name) t of
       None \<Rightarrow> (t @ [new_lease clock name ownerId durationMs], True)
     | Some l \<Rightarrow>
         if jl_leaseUntil l \<le> clock then
           (map (\<lambda>l. if jl_name l = name then new_lease clock name ownerId durationMs else l) t, True)
         else (t, False))"

definition release_lease_sql :: "string \<Rightarrow> string \<Rightarrow> job_lease list \<Rightarrow> job_lease list" where
  "release_lease_sql name ownerId = filter (\<lambda>l. \<not> (jl_name l = name \<and> jl_ownerId l = ownerId))"

subsection \<open>Work under a lease\<close>

record 's lease_store =
  ls_acquire :: "string \<Rightarrow> string \<Rightarrow> int \<Rightarrow> ('s, bool) operation"
  ls_release :: "string \<Rightarrow> string \<Rightarrow> ('s, unit) operation"

text \<open>
  \<open>None\<close> is \<open>acquired: false\<close>. A failure to release is logged and dropped, whether the work
  succeeded or raised.
\<close>

definition withLease ::
  "'s lease_store \<Rightarrow> string \<Rightarrow> string \<Rightarrow> ('s, 'a) operation \<Rightarrow> ('s, 'a option) operation" where
  "withLease store name ownerId work s =
    (case ls_acquire store name ownerId LEASE_DURATION_MS s of
       (Inl e, s1) \<Rightarrow> (Inl e, s1)
     | (Inr False, s1) \<Rightarrow> (Inr None, s1)
     | (Inr True, s1) \<Rightarrow>
         (let (outcome, s2) = work s1;
              (_, s3) = ls_release store name ownerId s2
          in (case outcome of Inl e \<Rightarrow> Inl e | Inr v \<Rightarrow> Inr (Some v), s3)))"

subsection \<open>Workers\<close>

text \<open>What the workers do to the table, with the clock of the statement.\<close>

datatype lease_event =
    Acquire (ev_clock: instant) (ev_name: string) (ev_owner: string) (ev_duration: int)
  | Release (ev_clock: instant) (ev_name: string) (ev_owner: string)

fun lease_step :: "job_lease list \<Rightarrow> lease_event \<Rightarrow> job_lease list" where
  "lease_step t (Acquire c name ownerId durationMs) = fst (acquire_lease_sql c name ownerId durationMs t)"
| "lease_step t (Release c name ownerId) = release_lease_sql name ownerId t"

definition lease_run :: "job_lease list \<Rightarrow> lease_event list \<Rightarrow> job_lease list" where
  "lease_run = foldl lease_step"

text \<open>An acquisition that succeeds in the table it meets.\<close>

fun granted :: "job_lease list \<Rightarrow> lease_event \<Rightarrow> bool" where
  "granted t (Acquire c name ownerId durationMs) = snd (acquire_lease_sql c name ownerId durationMs t)"
| "granted t (Release c name ownerId) = False"

text \<open>The worker that holds a name keeps it until \<open>until\<close> unless it releases it itself.\<close>

definition holds :: "job_lease list \<Rightarrow> string \<Rightarrow> string \<Rightarrow> instant \<Rightarrow> bool" where
  "holds t name ownerId until \<longleftrightarrow>
     (\<exists>l \<in> set t. jl_name l = name \<and> jl_ownerId l = ownerId \<and> jl_leaseUntil l = until)"

definition lease_keys :: "job_lease list \<Rightarrow> bool" where
  "lease_keys t \<longleftrightarrow> distinct (map jl_name t)"

lemma find_lease:
  assumes "lease_keys t" "l \<in> set t" "jl_name l = name"
  shows "find (\<lambda>l. jl_name l = name) t = Some l"
  using assms unfolding lease_keys_def
proof (induction t)
  case Nil
  then show ?case by simp
next
  case (Cons x t)
  then show ?case by (cases "x = l") (auto simp: image_iff)
qed

lemma lease_keys_step: "lease_keys t \<Longrightarrow> lease_keys (lease_step t e)"
proof (cases e)
  case (Acquire c name ownerId d)
  assume t: "lease_keys t"
  show ?thesis
  proof (cases "find (\<lambda>l. jl_name l = name) t")
    case None
    then have "name \<notin> jl_name ` set t" by (auto simp: find_None_iff)
    with t None show ?thesis by (simp add: Acquire acquire_lease_sql_def lease_keys_def new_lease_def)
  next
    case (Some l)
    have "map jl_name (map (\<lambda>l. if jl_name l = name then new_lease c name ownerId d else l) t) = map jl_name t"
      by (simp add: new_lease_def)
    with t Some show ?thesis by (simp add: Acquire acquire_lease_sql_def lease_keys_def del: map_map)
  qed
next
  case (Release c name ownerId)
  assume "lease_keys t"
  then show ?thesis by (simp add: Release release_lease_sql_def lease_keys_def distinct_map_filter)
qed

lemma lease_keys_run: "lease_keys t \<Longrightarrow> lease_keys (lease_run t es)"
  unfolding lease_run_def by (induction es arbitrary: t) (simp_all add: lease_keys_step)

lemma granted_holds:
  assumes "granted t (Acquire c name ownerId d)"
  shows "holds (lease_step t (Acquire c name ownerId d)) name ownerId (c + d)"
proof (cases "find (\<lambda>l. jl_name l = name) t")
  case None
  then show ?thesis by (simp add: acquire_lease_sql_def holds_def new_lease_def)
next
  case (Some l)
  then have l: "l \<in> set t" "jl_name l = name" by (auto simp: find_Some_iff)
  have "jl_leaseUntil l \<le> c" using assms Some by (simp add: acquire_lease_sql_def split: if_splits)
  then have "new_lease c name ownerId d \<in> set (lease_step t (Acquire c name ownerId d))"
    using Some l by (force simp: acquire_lease_sql_def image_iff)
  then show ?thesis unfolding holds_def by (rule bexI [rotated]) (simp add: new_lease_def)
qed

text \<open>While a lease runs, no step of anyone else takes it away.\<close>

lemma holds_step:
  assumes "lease_keys t" "holds t name ownerId until" "ev_clock e < until"
    and "\<And>c. e \<noteq> Release c name ownerId"
  shows "holds (lease_step t e) name ownerId until \<and> (ev_name e = name \<longrightarrow> \<not> granted t e)"
proof -
  obtain l where l: "l \<in> set t" "jl_name l = name" "jl_ownerId l = ownerId" "jl_leaseUntil l = until"
    using assms(2) by (auto simp: holds_def)
  show ?thesis
  proof (cases e)
    case (Release c n ow)
    then have "\<not> (n = name \<and> ow = ownerId)" using assms(4) by blast
    then have "l \<in> set (lease_step t e)" using l by (auto simp: Release release_lease_sql_def)
    then show ?thesis using l by (auto simp: holds_def Release)
  next
    case (Acquire c n ow d)
    show ?thesis
    proof (cases "n = name")
      case True
      have "acquire_lease_sql c n ow d t = (t, False)"
        using find_lease [OF assms(1) l(1,2)] assms(3) l(4) True by (simp add: acquire_lease_sql_def Acquire)
      then show ?thesis using assms(2) True by (simp add: Acquire)
    next
      case False
      then have "l \<in> set (lease_step t e)" using l
        by (auto simp: Acquire acquire_lease_sql_def image_iff split: option.split)
      then show ?thesis using l False by (auto simp: holds_def Acquire)
    qed
  qed
qed

lemma holds_run:
  assumes "lease_keys t" "holds t name ownerId until" "\<forall>e \<in> set es. ev_clock e < until"
    and "\<forall>c. Release c name ownerId \<notin> set es"
  shows "holds (lease_run t es) name ownerId until"
  using assms
proof (induction es arbitrary: t)
  case Nil
  then show ?case by (simp add: lease_run_def)
next
  case (Cons e es)
  have "holds (lease_step t e) name ownerId until"
    using holds_step [OF Cons.prems(1,2), of e] Cons.prems(3,4) by auto
  with Cons.IH [OF lease_keys_step [OF Cons.prems(1)]] Cons.prems(3,4) show ?case
    by (simp add: lease_run_def)
qed

text \<open>C13. A lease excludes: after a worker was granted a name, whatever the workers do in any order,
  the next one to be granted that name comes no earlier than the end of the lease, unless the holder
  itself released it. Another worker's release changes nothing.\<close>

theorem lease_excludes:
  assumes "lease_keys t" "granted t (Acquire c name ownerId d)"
    and "sorted (map ev_clock (es @ [Acquire c' name ownerId' d']))"
    and "granted (lease_run (lease_step t (Acquire c name ownerId d)) es) (Acquire c' name ownerId' d')"
    and "\<forall>r. Release r name ownerId \<notin> set es"
  shows "c + d \<le> c'"
proof (rule ccontr)
  assume early: "\<not> c + d \<le> c'"
  let ?t = "lease_step t (Acquire c name ownerId d)"
  have keys: "lease_keys ?t" by (rule lease_keys_step [OF assms(1)])
  have "\<forall>e \<in> set es. ev_clock e < c + d" using assms(3) early by (auto simp: sorted_append)
  then have h: "holds (lease_run ?t es) name ownerId (c + d)"
    by (rule holds_run [OF keys granted_holds [OF assms(2)] _ assms(5)])
  have "\<not> granted (lease_run ?t es) (Acquire c' name ownerId' d')"
    using holds_step [OF lease_keys_run [OF keys] h, of "Acquire c' name ownerId' d'"] early by simp
  then show False using assms(4) by simp
qed

theorem lease_excludes_witness:
  "(0::instant) + LEASE_DURATION_MS \<le> 90000"
  by (rule lease_excludes [of "[]" 0 MONITORING_LEASE "''a''" LEASE_DURATION_MS "[Acquire 60000 MONITORING_LEASE ''b'' 90000, Release 61000 MONITORING_LEASE ''b'']" 90000 "''b''" 90000])
    (simp_all add: lease_keys_def acquire_lease_sql_def lease_run_def new_lease_def LEASE_DURATION_MS_def release_lease_sql_def)

end
