(* ===== verification/Cron_Runs.thy ===== *)
theory Cron_Runs
  imports Leases
begin

text \<open>
  The run records of the scheduled jobs and the coordinator every job runs under:
  \<open>lib/scheduler/run-record.ts\<close>, the run store of \<open>lib/scheduler/sql.ts\<close> on the table \<open>cron_runs\<close>,
  \<open>lib/scheduler/cron-coordinator.ts\<close>, and \<open>runMaintenanceCoordinator\<close>.
\<close>

subsection \<open>Counts and failures\<close>

record run_counts =
  rc_monitor :: int
  rc_success :: int
  rc_failure :: int
  rc_skipped :: int
  rc_unknown :: int

definition emptyRunCounts :: run_counts where
  "emptyRunCounts = \<lparr>rc_monitor = 0, rc_success = 0, rc_failure = 0, rc_skipped = 0, rc_unknown = 0\<rparr>"

text \<open>\<open>replace(/[\r\n\t]+/g, " ")\<close>: a run of carriage returns, line feeds and tabs becomes one space.\<close>

definition line_break :: "char \<Rightarrow> bool" where
  "line_break c \<longleftrightarrow> (of_char c :: nat) \<in> {9, 10, 13}"

fun join_lines :: "bool \<Rightarrow> string \<Rightarrow> string" where
  "join_lines inside [] = []"
| "join_lines inside (c # s) =
     (if line_break c then (if inside then join_lines True s else CHR '' '' # join_lines True s)
      else c # join_lines False s)"

text \<open>
  A job may throw anything, an object whose accessors throw included. \<open>readMessage\<close> is what reading
  \<open>error.message\<close> of a thrown \<open>Error\<close> does: it may raise. \<open>capture\<close> is \<open>captureCronError\<close>
  followed by its rendering as JSON, which reads further fields and stringifies them, so it may
  raise as well.
\<close>

definition safeCronError :: "(thrown \<Rightarrow> thrown + string) \<Rightarrow> thrown \<Rightarrow> thrown + string" where
  "safeCronError readMessage error =
     res_bind (case error of
         ThrownObject isError _ _ \<Rightarrow> (if isError then readMessage error else Inr ''Unknown cron failure'')
       | ThrownPrimitive _ \<Rightarrow> Inr ''Unknown cron failure'')
       (\<lambda>message. Inr (take 500 (join_lines False message)))"

definition json_member :: "string \<Rightarrow> string \<Rightarrow> string" where
  "json_member key member = [CHR 0x22] @ key @ [CHR 0x22] @ '':'' @ [CHR 0x22] @ member @ [CHR 0x22]"

text \<open>The failure of a run: the message and the capture, or fixed ones when computing either raises.\<close>

definition toCronRunFailure ::
  "(thrown \<Rightarrow> thrown + string) \<Rightarrow> (thrown \<Rightarrow> thrown + string) \<Rightarrow> thrown \<Rightarrow> string \<times> string" where
  "toCronRunFailure readMessage capture error =
    (case res_bind (safeCronError readMessage error) (\<lambda>message.
          res_bind (capture error) (\<lambda>captured. Inr (message, captured))) of
       Inr failure \<Rightarrow> failure
     | Inl _ \<Rightarrow>
         (let message = ''Unrepresentable cron failure''
          in (message, ''{'' @ json_member ''message'' message @ '','' @ json_member ''name'' ''NonError'' @ ''}'')))"

subsection \<open>The store\<close>

record start_input =
  si_runId :: string
  si_jobName :: string
  si_minute :: instant
  si_started :: instant
  si_release :: string

record 's run_store =
  rs_start :: "start_input \<Rightarrow> ('s, bool) operation"
  rs_complete :: "string \<Rightarrow> instant \<Rightarrow> run_counts \<Rightarrow> ('s, unit) operation"
  rs_fail :: "string \<Rightarrow> instant \<Rightarrow> string \<Rightarrow> string \<Rightarrow> run_counts \<Rightarrow> ('s, unit) operation"









subsection \<open>The coordinator\<close>

text \<open>
  The work of a job gets the run, its start and its minute; besides its result it leaves the counts
  it last recorded as its progress, which the failure path stores. \<open>now\<close> and \<open>createId\<close> read the
  environment; \<open>readMessage\<close> and \<open>capture\<close> are the accesses to a thrown value above.
\<close>

record cron_context =
  cx_runId :: string
  cx_startedAt :: instant
  cx_scheduledMinute :: instant

type_synonym ('s, 'a) job = "cron_context \<Rightarrow> 's \<Rightarrow> (thrown + run_counts \<times> 'a) \<times> run_counts \<times> 's"

datatype 'a cron_result = Lease_held | Duplicate string | Completed string run_counts 'a | Failed string string

record 's cron_dependencies =
  cd_leases :: "'s lease_store"
  cd_runs :: "'s run_store"
  cd_leaseName :: string
  cd_jobName :: string
  cd_releaseId :: string
  cd_now :: "'s \<Rightarrow> instant \<times> 's"
  cd_createId :: "'s \<Rightarrow> string \<times> 's"
  cd_readMessage :: "thrown \<Rightarrow> thrown + string"
  cd_capture :: "thrown \<Rightarrow> thrown + string"

definition scheduledMinuteAt :: "instant \<Rightarrow> instant" where
  "scheduledMinuteAt now = now div 60000 * 60000"

text \<open>The failure path: \<open>runs.fail\<close> with the progress, which may raise itself.\<close>

definition settle_failure ::
  "'s cron_dependencies \<Rightarrow> string \<Rightarrow> run_counts \<Rightarrow> thrown \<Rightarrow> ('s, 'a cron_result) operation" where
  "settle_failure d runId progress error s =
    (let (message, captured) = toCronRunFailure (cd_readMessage d) (cd_capture d) error;
         (completedAt, s1) = cd_now d s in
     case rs_fail (cd_runs d) runId completedAt message captured progress s1 of
       (Inl e, s2) \<Rightarrow> (Inl e, s2)
     | (Inr _, s2) \<Rightarrow> (Inr (Failed runId message), s2))"

definition run_started ::
  "'s cron_dependencies \<Rightarrow> ('s, 'a) job \<Rightarrow> cron_context \<Rightarrow> ('s, 'a cron_result) operation" where
  "run_started d work context s =
    (case work context s of
       (Inl error, progress, s1) \<Rightarrow> settle_failure d (cx_runId context) progress error s1
     | (Inr (counts, value), progress, s1) \<Rightarrow>
         (let (completedAt, s2) = cd_now d s1 in
          case rs_complete (cd_runs d) (cx_runId context) completedAt counts s2 of
            (Inl error, s3) \<Rightarrow> settle_failure d (cx_runId context) progress error s3
          | (Inr _, s3) \<Rightarrow> (Inr (Completed (cx_runId context) counts value), s3)))"

definition run_leased ::
  "'s cron_dependencies \<Rightarrow> ('s, 'a) job \<Rightarrow> cron_context \<Rightarrow> ('s, 'a cron_result) operation" where
  "run_leased d work context s =
    (case rs_start (cd_runs d) \<lparr>si_runId = cx_runId context, si_jobName = cd_jobName d,
            si_minute = cx_scheduledMinute context, si_started = cx_startedAt context,
            si_release = cd_releaseId d\<rparr> s of
       (Inl e, s1) \<Rightarrow> (Inl e, s1)
     | (Inr False, s1) \<Rightarrow> (Inr (Duplicate (cx_runId context)), s1)
     | (Inr True, s1) \<Rightarrow> run_started d work context s1)"


text \<open>
  \<open>runMaintenanceCoordinator\<close> draws the run identifier before the owner and stores no progress:
  a failure leaves the zero counts of the default. \<open>perform\<close> is \<open>performMaintenance\<close> on its store.
\<close>

definition maintenance_leased ::
  "'s cron_dependencies \<Rightarrow> (instant \<Rightarrow> ('s, 'a) operation) \<Rightarrow> cron_context \<Rightarrow> ('s, 'a cron_result) operation" where
  "maintenance_leased d perform =
     run_leased (d\<lparr>cd_jobName := ''maintenance''\<rparr>)
       (\<lambda>cx s. case perform (cx_startedAt cx) s of
          (Inl e, s') \<Rightarrow> (Inl e, emptyRunCounts, s')
        | (Inr summary, s') \<Rightarrow> (Inr (emptyRunCounts, summary), emptyRunCounts, s'))"

definition runMaintenanceCoordinator ::
  "'s cron_dependencies \<Rightarrow> (instant \<Rightarrow> ('s, 'a) operation) \<Rightarrow> ('s, 'a cron_result) operation" where
  "runMaintenanceCoordinator d perform s =
    (let (startedAt, s1) = cd_now d s;
         (runId, s2) = cd_createId d s1;
         (ownerId, s3) = cd_createId d s2;
         context = \<lparr>cx_runId = runId, cx_startedAt = startedAt, cx_scheduledMinute = scheduledMinuteAt startedAt\<rparr>
     in case withLease (cd_leases d) MAINTENANCE_LEASE ownerId (maintenance_leased d perform context) s3 of
          (Inl e, s4) \<Rightarrow> (Inl e, s4)
        | (Inr None, s4) \<Rightarrow> (Inr Lease_held, s4)
        | (Inr (Some r), s4) \<Rightarrow> (Inr r, s4))"

subsection \<open>The stores over the tables\<close>



















end
