(* ===== verification/Idempotency.thy ===== *)
theory Idempotency
  imports Maintenance Retention Config_Json
begin

text \<open>
  Idempotent requests, \<open>lib/api/idempotency.ts\<close>: the statements on \<open>api_idempotency\<close>, the acquisition
  of a record, and \<open>executeIdempotent\<close> in its three modes. The request arrives with the parts the
  code reads of it; the digest, the percent-encoding, the collation order of the query and the
  canonical serialisation are arguments. \<open>now\<close> is the clock of the server that handles the request.
\<close>

subsection \<open>Protocols\<close>

definition CONSERVATIVE_PROTOCOL :: int where "CONSERVATIVE_PROTOCOL = 0"
definition ATOMIC_PROTOCOL :: int where "ATOMIC_PROTOCOL = 1"
definition REPLAY_SAFE_PROTOCOL :: int where "REPLAY_SAFE_PROTOCOL = 2"

datatype idempotency_mode = Atomic | Replay_safe | Conservative

fun protocolForMode :: "idempotency_mode \<Rightarrow> int" where
  "protocolForMode Atomic = ATOMIC_PROTOCOL"
| "protocolForMode Replay_safe = REPLAY_SAFE_PROTOCOL"
| "protocolForMode Conservative = CONSERVATIVE_PROTOCOL"

definition RECLAIMABLE_PROTOCOLS :: "int list" where
  "RECLAIMABLE_PROTOCOLS = [ATOMIC_PROTOCOL, REPLAY_SAFE_PROTOCOL]"

definition allowsStaleReclaim :: "int \<Rightarrow> bool" where
  "allowsStaleReclaim protocol \<longleftrightarrow> protocol = ATOMIC_PROTOCOL \<or> protocol = REPLAY_SAFE_PROTOCOL"

subsection \<open>The statements\<close>

text \<open>\<open>on conflict do nothing\<close> covers the primary key and the unique index.\<close>

definition insertRunning :: "idempotency_row \<Rightarrow> idempotency_row list \<Rightarrow> idempotency_row list \<times> string option" where
  "insertRunning r t =
    (if idempotency_key r \<in> idempotency_key ` set t \<or> id_id r \<in> id_id ` set t then (t, None)
     else (t @ [r], Some (id_id r)))"

definition findOwner :: "string \<Rightarrow> string \<Rightarrow> idempotency_row list \<Rightarrow> idempotency_row option" where
  "findOwner principalKey key t = find (\<lambda>r. id_principalKey r = principalKey \<and> id_idempotencyKey r = key) t"

definition set_first :: "('r \<Rightarrow> bool) \<Rightarrow> ('r \<Rightarrow> 'r) \<Rightarrow> ('r \<Rightarrow> string) \<Rightarrow> 'r list \<Rightarrow> 'r list \<times> string option" where
  "set_first hit change key t =
    (sql_update hit change t, map_option (\<lambda>r. key (change r)) (find hit t))"

definition reclaimExpired ::
  "string \<Rightarrow> instant \<Rightarrow> idempotency_row \<Rightarrow> idempotency_row list \<Rightarrow> idempotency_row list \<times> string option" where
  "reclaimExpired i now value = set_first (\<lambda>r. id_id r = i \<and> id_expiresAt r \<le> now) (\<lambda>_. value) id_id"

definition claimStale ::
  "string \<Rightarrow> instant \<Rightarrow> instant \<Rightarrow> instant \<Rightarrow> idempotency_row list \<Rightarrow> idempotency_row list \<times> string option" where
  "claimStale i staleBefore now expiresAt =
     set_first (\<lambda>r. id_id r = i \<and> id_state r = Idem_running \<and> id_protocol r \<in> set RECLAIMABLE_PROTOCOLS \<and>
                    id_createdAt r < staleBefore)
       (\<lambda>r. r\<lparr>id_createdAt := now, id_expiresAt := expiresAt\<rparr>) id_id"

definition complete_sql ::
  "string \<Rightarrow> int \<Rightarrow> string option \<Rightarrow> instant \<Rightarrow> idempotency_row list \<Rightarrow> idempotency_row list" where
  "complete_sql i status body completedAt =
     sql_update (\<lambda>r. id_id r = i)
       (\<lambda>r. r\<lparr>id_state := Idem_completed, id_responseStatus := Some status, id_responseBody := body,
              id_completedAt := Some completedAt\<rparr>)"

subsection \<open>The helper\<close>

datatype idempotency_error =
    Key_required | Key_reused | Request_in_progress string
  | Work_error thrown

record 'b stored_response =
  sr_status :: int
  sr_body :: 'b

text \<open>The persistence as operations on the environment. A failed transaction is rolled back:
  \<open>pe_rollback before failed\<close> is the environment afterwards.\<close>

record 's persistence =
  pe_insertRunning :: "idempotency_row \<Rightarrow> 's \<Rightarrow> string option \<times> 's"
  pe_findOwner :: "string \<Rightarrow> string \<Rightarrow> 's \<Rightarrow> idempotency_row option \<times> 's"
  pe_reclaimExpired :: "string \<Rightarrow> instant \<Rightarrow> idempotency_row \<Rightarrow> 's \<Rightarrow> string option \<times> 's"
  pe_claimStale :: "string \<Rightarrow> instant \<Rightarrow> instant \<Rightarrow> instant \<Rightarrow> 's \<Rightarrow> string option \<times> 's"
  pe_lockOwner :: "string \<Rightarrow> 's \<Rightarrow> 's"
  pe_rollback :: "'s \<Rightarrow> 's \<Rightarrow> 's"
  pe_complete :: "string \<Rightarrow> int \<Rightarrow> string option \<Rightarrow> instant \<Rightarrow> ('s, unit) operation"

record api_request =
  rq_method :: string
  rq_pathname :: string
  rq_query :: "(string \<times> string) list"
  rq_idempotencyKey :: "string option"

record ('s, 'b) idempotent_input =
  ip_mode :: idempotency_mode
  ip_request :: api_request
  ip_principalKey :: string
  ip_routeKey :: string
  ip_bodyText :: string
  ip_retentionSeconds :: int
  ip_now :: instant
  ip_persistBody :: "'b \<Rightarrow> string option"
  ip_replayBody :: "string option \<Rightarrow> string \<Rightarrow> ('s, 'b) operation"
  ip_work :: "string \<Rightarrow> ('s, 'b stored_response) operation"

text \<open>The code outside the program, and the readings of the environment.\<close>

record 's idempotency_lib =
  li_sha256hex :: "string \<Rightarrow> string"
  li_encode :: "string \<Rightarrow> string"
  li_before :: "string \<times> string \<Rightarrow> string \<times> string \<Rightarrow> bool"
  li_upper :: "string \<Rightarrow> string"
  li_uuid :: "'s \<Rightarrow> string \<times> 's"
  li_clock :: "'s \<Rightarrow> instant"

fun insert_by :: "('a \<Rightarrow> 'a \<Rightarrow> bool) \<Rightarrow> 'a \<Rightarrow> 'a list \<Rightarrow> 'a list" where
  "insert_by before x [] = [x]"
| "insert_by before x (y # ys) = (if before y x then y # insert_by before x ys else x # y # ys)"

fun sort_by :: "('a \<Rightarrow> 'a \<Rightarrow> bool) \<Rightarrow> 'a list \<Rightarrow> 'a list" where
  "sort_by before [] = []"
| "sort_by before (x # xs) = insert_by before x (sort_by before xs)"

definition requestHash :: "'s idempotency_lib \<Rightarrow> api_request \<Rightarrow> string \<Rightarrow> string" where
  "requestHash lib rq bodyText =
    (let query = join_with ''&'' (map (\<lambda>(k, v). li_encode lib k @ ''='' @ li_encode lib v)
                   (sort_by (li_before lib) (rq_query rq)))
     in li_sha256hex lib (li_upper lib (rq_method rq) @ [char_of (10 :: nat)] @ rq_pathname rq
          @ (if query = [] then [] else ''?'' @ query) @ [char_of (10 :: nat)] @ bodyText))"

definition requireIdempotencyKey :: "api_request \<Rightarrow> string option" where
  "requireIdempotencyKey rq = (case rq_idempotencyKey rq of
      None \<Rightarrow> None
    | Some h \<Rightarrow> (let key = js_trim h in if key \<noteq> [] \<and> isUuid key then Some key else None))"

definition running_record ::
  "'s idempotency_lib \<Rightarrow> ('s, 'b) idempotent_input \<Rightarrow> string \<Rightarrow> string \<Rightarrow> idempotency_row" where
  "running_record lib input key i =
     \<lparr>id_id = i, id_principalKey = ip_principalKey input, id_idempotencyKey = key,
      id_method = rq_method (ip_request input), id_routeKey = ip_routeKey input,
      id_requestHash = requestHash lib (ip_request input) (ip_bodyText input),
      id_protocol = protocolForMode (ip_mode input), id_responseStatus = None, id_responseBody = None,
      id_state = Idem_running, id_createdAt = ip_now input, id_completedAt = None,
      id_expiresAt = ip_now input + ip_retentionSeconds input * 1000\<rparr>"

text \<open>\<open>acquireIdempotencyOwner\<close>: up to four rounds of insert, find and reclaim.\<close>

fun acquireIdempotencyOwner ::
  "nat \<Rightarrow> instant \<Rightarrow> ('s \<Rightarrow> string option \<times> 's) \<Rightarrow> ('s \<Rightarrow> idempotency_row option \<times> 's) \<Rightarrow>
   (idempotency_row \<Rightarrow> 's \<Rightarrow> string option \<times> 's) \<Rightarrow> 's \<Rightarrow> (string option \<times> idempotency_row option) \<times> 's" where
  "acquireIdempotencyOwner 0 now ins look reclaim s =
     (let (existing, s) = look s in
      ((None, case existing of None \<Rightarrow> None | Some r \<Rightarrow> if id_expiresAt r > now then Some r else None), s))"
| "acquireIdempotencyOwner (Suc attempts) now ins look reclaim s =
     (case ins s of
        (Some i, s) \<Rightarrow> ((Some i, None), s)
      | (None, s) \<Rightarrow> (case look s of
          (None, s) \<Rightarrow> acquireIdempotencyOwner attempts now ins look reclaim s
        | (Some existing, s) \<Rightarrow> (case reclaim existing s of
            (Some i, s) \<Rightarrow> ((Some i, None), s)
          | (None, s) \<Rightarrow>
              if id_expiresAt existing > now then ((None, Some existing), s)
              else acquireIdempotencyOwner attempts now ins look reclaim s)))"

definition reclaimExpiredRecord ::
  "idempotency_row \<Rightarrow> instant \<Rightarrow> (string \<Rightarrow> 's \<Rightarrow> string option \<times> 's) \<Rightarrow> 's \<Rightarrow> string option \<times> 's" where
  "reclaimExpiredRecord r now attempt s = (if id_expiresAt r \<le> now then attempt (id_id r) s else (None, s))"

definition acquire_record ::
  "'s idempotency_lib \<Rightarrow> 's persistence \<Rightarrow> ('s, 'b) idempotent_input \<Rightarrow> string \<Rightarrow>
   's \<Rightarrow> (string option \<times> idempotency_row option) \<times> 's" where
  "acquire_record lib pe input key =
     acquireIdempotencyOwner 4 (ip_now input)
       (\<lambda>s. let (i, s) = li_uuid lib s in pe_insertRunning pe (running_record lib input key i) s)
       (pe_findOwner pe (ip_principalKey input) key)
       (\<lambda>r. reclaimExpiredRecord r (ip_now input) (\<lambda>expiredId s.
          let (i, s) = li_uuid lib s
          in pe_reclaimExpired pe expiredId (ip_now input) (running_record lib input key i) s))"

text \<open>Running the work under the record \<open>operationId\<close>, in a transaction or before the completion.\<close>

definition run_owned ::
  "'s idempotency_lib \<Rightarrow> 's persistence \<Rightarrow> ('s, 'b) idempotent_input \<Rightarrow> string \<Rightarrow>
   's \<Rightarrow> (idempotency_error + 'b stored_response \<times> bool) \<times> 's" where
  "run_owned lib pe input operationId s =
    (let s1 = (if ip_mode input = Atomic then pe_lockOwner pe operationId s else s);
         abort = (\<lambda>s'. if ip_mode input = Atomic then pe_rollback pe s s' else s')
     in case ip_work input operationId s1 of
          (Inl e, s2) \<Rightarrow> (Inl (Work_error e), abort s2)
        | (Inr response, s2) \<Rightarrow>
            (case pe_complete pe operationId (sr_status response) (ip_persistBody input (sr_body response))
                    (li_clock lib s2) s2 of
               (Inl e, s3) \<Rightarrow> (Inl (Work_error e), abort s3)
             | (Inr _, s3) \<Rightarrow> (Inr (response, False), s3)))"

text \<open>Answering from a record someone else owns.\<close>

definition answer_existing ::
  "'s idempotency_lib \<Rightarrow> 's persistence \<Rightarrow> ('s, 'b) idempotent_input \<Rightarrow> idempotency_row \<Rightarrow>
   's \<Rightarrow> (idempotency_error + 'b stored_response \<times> bool) \<times> 's" where
  "answer_existing lib pe input existing s =
    (if id_requestHash existing \<noteq> requestHash lib (ip_request input) (ip_bodyText input) then (Inl Key_reused, s)
     else if id_state existing = Idem_completed then
       (case ip_replayBody input (id_responseBody existing) (id_id existing) s of
          (Inl e, s) \<Rightarrow> (Inl (Work_error e), s)
        | (Inr body, s) \<Rightarrow> (Inr (\<lparr>sr_status = or_else (id_responseStatus existing) 0, sr_body = body\<rparr>, True), s))
     else
       (let staleBefore = ip_now input - 5 * 60000 in
        if id_createdAt existing > staleBefore then (Inl (Request_in_progress ''still running''), s)
        else (case pe_claimStale pe (id_id existing) staleBefore (ip_now input)
                     (ip_now input + ip_retentionSeconds input * 1000) s of
                (None, s) \<Rightarrow> (Inl (Request_in_progress ''still running''), s)
              | (Some i, s) \<Rightarrow> run_owned lib pe input i s)))"

definition executeIdempotent ::
  "'s idempotency_lib \<Rightarrow> 's persistence \<Rightarrow> ('s, 'b) idempotent_input \<Rightarrow>
   's \<Rightarrow> (idempotency_error + 'b stored_response \<times> bool) \<times> 's" where
  "executeIdempotent lib pe input s =
    (case requireIdempotencyKey (ip_request input) of
       None \<Rightarrow> (Inl Key_required, s)
     | Some key \<Rightarrow>
         (case acquire_record lib pe input key s of
            ((Some i, _), s) \<Rightarrow> run_owned lib pe input i s
          | ((None, Some existing), s) \<Rightarrow> answer_existing lib pe input existing s
          | ((None, None), s) \<Rightarrow>
              (case pe_findOwner pe (ip_principalKey input) key s of
                 (None, s) \<Rightarrow> (Inl (Request_in_progress ''ownership changed''), s)
               | (Some existing, s) \<Rightarrow> answer_existing lib pe input existing s)))"

subsection \<open>The persistence over the table\<close>

text \<open>
  \<open>databaseIdempotencyPersistence\<close>, where \<open>rows\<close> and \<open>with_rows\<close> read and replace the table in the
  environment. \<open>for update\<close> changes no row; a transaction that fails puts the tables back, and what
  else the environment holds is the argument \<open>undo\<close>.
\<close>

definition databaseIdempotencyPersistence ::
  "('s \<Rightarrow> idempotency_row list) \<Rightarrow> (idempotency_row list \<Rightarrow> 's \<Rightarrow> 's) \<Rightarrow> ('s \<Rightarrow> 's \<Rightarrow> 's) \<Rightarrow> 's persistence" where
  "databaseIdempotencyPersistence rows with_rows undo =
     (let on_rows = (\<lambda>f s. let (t, v) = f (rows s) in (v, with_rows t s)) in
      \<lparr>pe_insertRunning = (\<lambda>r. on_rows (insertRunning r)),
       pe_findOwner = (\<lambda>principalKey key s. (findOwner principalKey key (rows s), s)),
       pe_reclaimExpired = (\<lambda>i now value. on_rows (reclaimExpired i now value)),
       pe_claimStale = (\<lambda>i staleBefore now expiresAt. on_rows (claimStale i staleBefore now expiresAt)),
       pe_lockOwner = (\<lambda>i s. s),
       pe_rollback = (\<lambda>before failed. with_rows (rows before) (undo before failed)),
       pe_complete = (\<lambda>i status body at s.
          (Inr (), with_rows (complete_sql i status body at (rows s)) s))\<rparr>)"

subsection \<open>Requests in any order\<close>

text \<open>
  What the servers' statements and the maintenance do to the table. Each brings the clock of its own
  server. A replacement record has a fresh id and the key of the record it was found under.
\<close>

datatype idem_event =
    Insert_running instant idempotency_row
  | Reclaim_expired string instant idempotency_row
  | Claim_stale string instant instant
  | Complete string int "string option" instant
  | Expire_records instant int

fun idem_clock :: "idem_event \<Rightarrow> instant" where
  "idem_clock (Insert_running now r) = now"
| "idem_clock (Reclaim_expired i now value) = now"
| "idem_clock (Claim_stale i now expiresAt) = now"
| "idem_clock (Complete i status body at) = at"
| "idem_clock (Expire_records now limit) = now"

fun idem_step :: "idempotency_row list \<Rightarrow> idem_event \<Rightarrow> idempotency_row list \<times> string option" where
  "idem_step t (Insert_running now r) = insertRunning r t"
| "idem_step t (Reclaim_expired i now value) = reclaimExpired i now value t"
| "idem_step t (Claim_stale i now expiresAt) = claimStale i (now - 5 * 60000) now expiresAt t"
| "idem_step t (Complete i status body at) = (complete_sql i status body at t, None)"
| "idem_step t (Expire_records now limit) = (fst (expire_idempotency_sql now limit t), None)"

fun idem_allowed :: "idempotency_row list \<Rightarrow> idem_event \<Rightarrow> bool" where
  "idem_allowed t (Reclaim_expired i now value) \<longleftrightarrow>
     id_id value \<notin> id_id ` set t \<and>
     list_all (\<lambda>r. id_id r = i \<longrightarrow> idempotency_key r = idempotency_key value) t"
| "idem_allowed t e \<longleftrightarrow> True"

fun idem_run :: "idempotency_row list \<Rightarrow> idem_event list \<Rightarrow> idempotency_row list" where
  "idem_run t [] = t"
| "idem_run t (e # es) = idem_run (fst (idem_step t e)) es"

fun idem_possible :: "idempotency_row list \<Rightarrow> idem_event list \<Rightarrow> bool" where
  "idem_possible t [] \<longleftrightarrow> True"
| "idem_possible t (e # es) \<longleftrightarrow> idem_allowed t e \<and> idem_possible (fst (idem_step t e)) es"

text \<open>The key whose record a statement hands to its request: the request then runs its work.\<close>

definition grants :: "idempotency_row list \<Rightarrow> idem_event \<Rightarrow> string \<times> string \<Rightarrow> bool" where
  "grants t e k \<longleftrightarrow> (case idem_step t e of
      (t', None) \<Rightarrow> False
    | (t', Some i) \<Rightarrow> \<exists>r \<in> set t'. id_id r = i \<and> idempotency_key r = k)"

fun granted_in :: "idempotency_row list \<Rightarrow> idem_event list \<Rightarrow> string \<times> string \<Rightarrow> bool" where
  "granted_in t [] k \<longleftrightarrow> False"
| "granted_in t (e # es) k \<longleftrightarrow> grants t e k \<or> granted_in (fst (idem_step t e)) es k"

definition idem_keys :: "idempotency_row list \<Rightarrow> bool" where
  "idem_keys t \<longleftrightarrow> distinct (map id_id t) \<and> distinct (map idempotency_key t)"

text \<open>What stays of a record while nobody is granted its key.\<close>

definition record_kept :: "idempotency_row list \<Rightarrow> idempotency_row \<Rightarrow> bool \<Rightarrow> bool" where
  "record_kept t r0 completed \<longleftrightarrow> (\<exists>r \<in> set t.
     id_id r = id_id r0 \<and> idempotency_key r = idempotency_key r0 \<and> id_requestHash r = id_requestHash r0 \<and>
     id_protocol r = id_protocol r0 \<and> id_createdAt r = id_createdAt r0 \<and> id_expiresAt r = id_expiresAt r0 \<and>
     (completed \<longrightarrow> id_state r = Idem_completed))"

lemma idem_same_id: "idem_keys t \<Longrightarrow> r \<in> set t \<Longrightarrow> r' \<in> set t \<Longrightarrow> id_id r = id_id r' \<Longrightarrow> r = r'"
  by (auto simp: idem_keys_def distinct_map dest: inj_onD)

lemma idem_same_key:
  "idem_keys t \<Longrightarrow> r \<in> set t \<Longrightarrow> r' \<in> set t \<Longrightarrow> idempotency_key r = idempotency_key r' \<Longrightarrow> r = r'"
  by (auto simp: idem_keys_def distinct_map dest: inj_onD)

lemma idem_keys_update:
  assumes "idem_keys t" "\<And>r. r \<in> set t \<Longrightarrow> p r \<Longrightarrow> id_id (f r) = id_id r \<and> idempotency_key (f r) = idempotency_key r"
  shows "idem_keys (sql_update p f t)"
proof -
  have "map id_id (sql_update p f t) = map id_id t" "map idempotency_key (sql_update p f t) = map idempotency_key t"
    unfolding sql_update_def using assms(2) by auto
  with assms(1) show ?thesis by (simp add: idem_keys_def)
qed

text \<open>A replaced record: one row changes its id to a fresh one and keeps its key.\<close>

lemma distinct_map_replace:
  "distinct (map f t) \<Longrightarrow> f v \<notin> f ` set t \<Longrightarrow> distinct (map f (map (\<lambda>r. if f r = i \<and> p r then v else r) t))"
proof (induction t)
  case Nil
  then show ?case by simp
next
  case (Cons x t)
  show ?case
  proof (cases "f x = i \<and> p x")
    case True
    then have "map (\<lambda>r. if f r = i \<and> p r then v else r) t = t"
      using Cons.prems(1) by (intro map_idI) (auto simp: image_iff)
    with Cons.prems True show ?thesis by (simp del: map_map)
  next
    case False
    have "f x \<notin> f ` set (map (\<lambda>r. if f r = i \<and> p r then v else r) t)"
      using Cons.prems by (auto simp: image_iff split: if_splits)
    with Cons False show ?thesis by (auto simp del: map_map)
  qed
qed

lemma idem_keys_replace:
  assumes "idem_keys t" "id_id v \<notin> id_id ` set t"
    and "\<forall>r \<in> set t. id_id r = i \<longrightarrow> idempotency_key r = idempotency_key v"
  shows "idem_keys (sql_update (\<lambda>r. id_id r = i \<and> p r) (\<lambda>_. v) t)"
proof -
  have "map idempotency_key (sql_update (\<lambda>r. id_id r = i \<and> p r) (\<lambda>_. v) t) = map idempotency_key t"
    unfolding sql_update_def using assms(3) by auto
  moreover have "distinct (map id_id (sql_update (\<lambda>r. id_id r = i \<and> p r) (\<lambda>_. v) t))"
    unfolding sql_update_def using assms(1,2) by (intro distinct_map_replace) (simp_all add: idem_keys_def)
  ultimately show ?thesis using assms(1) by (simp add: idem_keys_def del: map_map)
qed

lemma idem_keys_step:
  assumes "idem_keys t" "idem_allowed t e"
  shows "idem_keys (fst (idem_step t e))"
proof (cases e)
  case (Insert_running now r)
  with assms show ?thesis by (auto simp: insertRunning_def idem_keys_def)
next
  case (Reclaim_expired i now v)
  with assms show ?thesis
    by (simp add: reclaimExpired_def set_first_def list_all_iff idem_keys_replace)
next
  case (Claim_stale i now x)
  with assms(1) show ?thesis
    by (auto simp: claimStale_def set_first_def idempotency_key_def intro!: idem_keys_update)
next
  case (Complete i status body at)
  with assms(1) show ?thesis
    by (auto simp: complete_sql_def idempotency_key_def intro!: idem_keys_update)
next
  case (Expire_records now limit)
  with assms(1) show ?thesis
    by (simp add: expire_idempotency_sql_def delete_batch_def Let_def sql_delete_def idem_keys_def distinct_map_filter)
qed


lemma record_kept_update:
  assumes "idem_keys t" "record_kept t r0 c"
    and "\<And>r. r \<in> set t \<Longrightarrow> id_id r = id_id r0 \<Longrightarrow> p r \<Longrightarrow>
      f r = r\<lparr>id_state := Idem_completed, id_responseStatus := id_responseStatus (f r),
        id_responseBody := id_responseBody (f r), id_completedAt := id_completedAt (f r)\<rparr>"
    and "c' \<Longrightarrow> c \<or> (\<forall>r \<in> set t. id_id r = id_id r0 \<longrightarrow> p r)"
  shows "record_kept (sql_update p f t) r0 c'"
proof -
  obtain r where r: "r \<in> set t" "id_id r = id_id r0" "idempotency_key r = idempotency_key r0"
    "id_requestHash r = id_requestHash r0" "id_protocol r = id_protocol r0" "id_createdAt r = id_createdAt r0"
    "id_expiresAt r = id_expiresAt r0" "c \<longrightarrow> id_state r = Idem_completed"
    using assms(2) by (auto simp: record_kept_def)
  let ?r = "if p r then f r else r"
  have "?r \<in> set (sql_update p f t)" using r(1) by (auto simp: sql_update_def)
  moreover have "p r \<Longrightarrow> f r = r\<lparr>id_state := Idem_completed, id_responseStatus := id_responseStatus (f r),
        id_responseBody := id_responseBody (f r), id_completedAt := id_completedAt (f r)\<rparr>"
    by (rule assms(3) [OF r(1,2)])
  then obtain st b at where "p r \<Longrightarrow> f r = r\<lparr>id_state := Idem_completed, id_responseStatus := st,
        id_responseBody := b, id_completedAt := at\<rparr>" by blast
  ultimately show ?thesis unfolding record_kept_def
    using r assms(4) by (intro bexI [of _ ?r]) (auto simp: idempotency_key_def)
qed

text \<open>One statement: the record stays as it is, or its key was granted, and then by a stale claim.\<close>

definition stale_claim :: "idempotency_row \<Rightarrow> idem_event \<Rightarrow> bool" where
  "stale_claim r0 e \<longleftrightarrow> (\<exists>now expiresAt. e = Claim_stale (id_id r0) now expiresAt \<and>
     id_protocol r0 \<in> set RECLAIMABLE_PROTOCOLS \<and> id_createdAt r0 + 5 * 60000 < now)"

definition completes :: "idempotency_row \<Rightarrow> idem_event \<Rightarrow> bool" where
  "completes r0 e \<longleftrightarrow> (\<exists>status body at. e = Complete (id_id r0) status body at)"

lemma record_kept_step:
  assumes "idem_keys t" "record_kept t r0 c" "idem_allowed t e" "idem_clock e < id_expiresAt r0"
  shows "if grants t e (idempotency_key r0) then stale_claim r0 e \<and> \<not> c
         else record_kept (fst (idem_step t e)) r0 (c \<or> completes r0 e)"
proof -
  obtain r where r: "r \<in> set t" "id_id r = id_id r0" "idempotency_key r = idempotency_key r0"
    "id_requestHash r = id_requestHash r0" "id_protocol r = id_protocol r0" "id_createdAt r = id_createdAt r0"
    "id_expiresAt r = id_expiresAt r0" "c \<longrightarrow> id_state r = Idem_completed"
    using assms(2) by (auto simp: record_kept_def)
  note only = idem_same_id [OF assms(1) _ r(1)] idem_same_key [OF assms(1) _ r(1)]
  show ?thesis
  proof (cases e)
    case (Insert_running now v)
    have "\<not> grants t e (idempotency_key r0)"
      using r(1,3) by (auto simp: Insert_running grants_def insertRunning_def image_iff)
    moreover have "record_kept (fst (idem_step t e)) r0 c"
      using assms(2) by (auto simp: Insert_running insertRunning_def record_kept_def)
    ultimately show ?thesis by (simp add: Insert_running completes_def)
  next
    case (Complete i status body at)
    have "record_kept (complete_sql i status body at t) r0 (c \<or> completes r0 e)"
      unfolding complete_sql_def by (rule record_kept_update [OF assms(1,2)]) (auto simp: completes_def Complete)
    then show ?thesis by (simp add: Complete grants_def)
  next
    case (Expire_records now limit)
    have "r \<in> set (fst (expire_idempotency_sql now limit t))"
    proof -
      have "id_id r \<notin> id_id ` set (doomed_rows (\<lambda>r. id_expiresAt r < now) (\<lambda>r. (id_expiresAt r, id_id r)) limit t)"
      proof
        assume "id_id r \<in> id_id ` set (doomed_rows (\<lambda>r. id_expiresAt r < now) (\<lambda>r. (id_expiresAt r, id_id r)) limit t)"
        then obtain x where "x \<in> set t" "id_expiresAt x < now" "id_id x = id_id r"
          unfolding doomed_rows_def by (auto dest!: in_set_takeD)
        with only(1) [of x] assms(4) r(7) show False by (simp add: Expire_records)
      qed
      with r(1) show ?thesis by (simp add: expire_idempotency_sql_def delete_batch_def Let_def)
    qed
    with r have "record_kept (fst (idem_step t e)) r0 c"
      unfolding record_kept_def by (intro bexI [of _ r]) (auto simp: Expire_records)
    then show ?thesis by (simp add: Expire_records grants_def completes_def)
  next
    case (Reclaim_expired i now v)
    have fresh: "id_id v \<notin> id_id ` set t" and key: "\<And>x. x \<in> set t \<Longrightarrow> id_id x = i \<Longrightarrow> idempotency_key x = idempotency_key v"
      using assms(3) by (auto simp: Reclaim_expired list_all_iff)
    have now: "\<not> id_expiresAt r \<le> now" using assms(4) r(7) by (simp add: Reclaim_expired)
    have "\<not> grants t e (idempotency_key r0)"
    proof
      assume "grants t e (idempotency_key r0)"
      then obtain y x where y: "find (\<lambda>r. id_id r = i \<and> id_expiresAt r \<le> now) t = Some y"
        "x \<in> set (sql_update (\<lambda>r. id_id r = i \<and> id_expiresAt r \<le> now) (\<lambda>_. v) t)"
        "id_id x = id_id v" "idempotency_key x = idempotency_key r0"
        by (auto simp: Reclaim_expired grants_def reclaimExpired_def set_first_def split: option.splits)
      have y': "y \<in> set t" "id_id y = i" "id_expiresAt y \<le> now" using y(1) by (auto simp: find_Some_iff)
      have "x = v" using y(2,3) fresh by (auto simp: sql_update_def image_iff split: if_splits)
      then have "y = r" using only(2) [OF y'(1)] key [OF y'(1,2)] y(4) r(3) by simp
      with y'(3) now show False by simp
    qed
    moreover have "record_kept (fst (idem_step t e)) r0 c"
      unfolding record_kept_def
      by (intro bexI [of _ r]) (use r now in \<open>auto simp: Reclaim_expired reclaimExpired_def set_first_def sql_update_def image_iff\<close>)
    ultimately show ?thesis by (simp add: Reclaim_expired completes_def)
  next
    case (Claim_stale i now x)
    let ?p = "\<lambda>r. id_id r = i \<and> id_state r = Idem_running \<and> id_protocol r \<in> set RECLAIMABLE_PROTOCOLS \<and>
      id_createdAt r < now - 5 * 60000"
    let ?f = "\<lambda>r. r\<lparr>id_createdAt := now, id_expiresAt := x\<rparr>"
    have step: "idem_step t e = (sql_update ?p ?f t, map_option (\<lambda>r. id_id (?f r)) (find ?p t))"
      by (simp add: Claim_stale claimStale_def set_first_def)
    show ?thesis
    proof (cases "?p r")
      case True
      have "find ?p t \<noteq> None" using True r(1) by (auto simp: find_None_iff)
      then obtain y where y: "find ?p t = Some y" by blast
      then have "y \<in> set t" "?p y" by (auto simp: find_Some_iff)
      then have "y = r" using only(1) True by simp
      have "?f r \<in> set (sql_update ?p ?f t)"
        unfolding sql_update_def set_map by (rule image_eqI [OF _ r(1)]) (simp only: True if_True simp_thms)
      moreover have "idempotency_key (?f r) = idempotency_key r0" using r(3) by (simp add: idempotency_key_def)
      ultimately have "\<exists>z \<in> set (sql_update ?p ?f t). id_id z = id_id r \<and> idempotency_key z = idempotency_key r0"
        by (intro bexI [of _ "?f r"]) simp_all
      then have "grants t e (idempotency_key r0)"
        unfolding grants_def step using y \<open>y = r\<close> by simp
      moreover have "stale_claim r0 e" "\<not> c" using True r by (auto simp: stale_claim_def Claim_stale)
      ultimately show ?thesis by simp
    next
      case False
      have "\<not> grants t e (idempotency_key r0)"
      proof
        assume "grants t e (idempotency_key r0)"
        then obtain y z where y: "find ?p t = Some y" and z: "z \<in> set (sql_update ?p ?f t)" "id_id z = id_id y"
          "idempotency_key z = idempotency_key r0"
          unfolding grants_def step by (auto split: option.splits)
        obtain w where w: "w \<in> set t" "z = (if ?p w then ?f w else w)" using z(1) by (auto simp: sql_update_def)
        have "idempotency_key w = idempotency_key r" using w(2) z(3) r(3) by (auto simp: idempotency_key_def split: if_splits)
        then have "w = r" by (rule only(2) [OF w(1)])
        then have "id_id r = id_id y" using w(2) z(2) by (auto split: if_splits)
        moreover have "y \<in> set t" "?p y" using y by (auto simp: find_Some_iff)
        ultimately have "?p r" using only(1) [of y] by simp
        with False show False by simp
      qed
      moreover have "record_kept (fst (idem_step t e)) r0 c"
        unfolding record_kept_def step
        by (intro bexI [of _ r]) (use r False in \<open>auto simp: sql_update_def image_iff\<close>)
      ultimately show ?thesis by (simp add: Claim_stale completes_def)
    qed
  qed
qed


lemma record_kept_run:
  assumes "idem_keys t" "record_kept t r0 c" "idem_possible t es" "\<forall>e \<in> set es. idem_clock e < id_expiresAt r0"
    and "\<not> granted_in t es (idempotency_key r0)"
  shows "idem_keys (idem_run t es) \<and> record_kept (idem_run t es) r0 (c \<or> (\<exists>e \<in> set es. completes r0 e))"
  using assms
proof (induction es arbitrary: t c)
  case Nil
  then show ?case by simp
next
  case (Cons e es)
  have "record_kept (fst (idem_step t e)) r0 (c \<or> completes r0 e)"
    using record_kept_step [OF Cons.prems(1,2), of e] Cons.prems(3-5) by simp
  then have "idem_keys (idem_run (fst (idem_step t e)) es) \<and>
      record_kept (idem_run (fst (idem_step t e)) es) r0 ((c \<or> completes r0 e) \<or> (\<exists>e \<in> set es. completes r0 e))"
    by (intro Cons.IH idem_keys_step) (use Cons.prems in simp_all)
  then show ?case by (simp add: disj_assoc)
qed

lemma idem_possible_append:
  "idem_possible t (es @ fs) \<longleftrightarrow> idem_possible t es \<and> idem_possible (idem_run t es) fs"
  by (induction es arbitrary: t) auto

text \<open>C14. A key's work is never run twice behind the first owner's back: as long as no clock has
  reached the record's expiry, whatever statements the servers and the maintenance interleave, the
  next request to be handed the key takes over by a stale claim of that very record - so the record
  is of an atomic or replay-safe operation, is older than five minutes, and was not completed in
  between. A conservative request is never run again before its expiry, a completed one neither.\<close>

theorem idempotency_excludes:
  assumes "idem_keys t" "r \<in> set t" "idem_possible t (es @ [e])"
    and "\<forall>x \<in> set (es @ [e]). idem_clock x < id_expiresAt r"
    and "\<not> granted_in t es (idempotency_key r)" "grants (idem_run t es) e (idempotency_key r)"
  shows "stale_claim r e \<and> id_state r = Idem_running \<and> (\<forall>x \<in> set es. \<not> completes r x)"
proof -
  have kept: "record_kept t r (id_state r = Idem_completed)"
    unfolding record_kept_def using assms(2) by (intro bexI [of _ r]) simp_all
  have "idem_keys (idem_run t es) \<and>
      record_kept (idem_run t es) r (id_state r = Idem_completed \<or> (\<exists>x \<in> set es. completes r x))"
    using assms by (intro record_kept_run kept) (simp_all add: idem_possible_append)
  then have "stale_claim r e \<and> \<not> (id_state r = Idem_completed \<or> (\<exists>x \<in> set es. completes r x))"
    using record_kept_step [of "idem_run t es" r "id_state r = Idem_completed \<or> (\<exists>x \<in> set es. completes r x)" e] assms
    by (simp add: idem_possible_append)
  then show ?thesis by (cases "id_state r") auto
qed

theorem idempotency_excludes_witness:
  "\<exists>r e. stale_claim r e \<and> id_protocol r = ATOMIC_PROTOCOL"
proof -
  let ?r = "\<lparr>id_id = ''a'', id_principalKey = ''p'', id_idempotencyKey = ''k'', id_method = ''POST'',
    id_routeKey = ''monitors'', id_requestHash = ''h'', id_protocol = ATOMIC_PROTOCOL, id_responseStatus = None,
    id_responseBody = None, id_state = Idem_running, id_createdAt = 0, id_completedAt = None,
    id_expiresAt = 86400000\<rparr>"
  have "stale_claim ?r (Claim_stale ''a'' 400000 86800000) \<and> id_state ?r = Idem_running \<and>
      (\<forall>x \<in> set [Insert_running 60000 (?r\<lparr>id_id := ''b''\<rparr>), Complete ''c'' 200 None 70000]. \<not> completes ?r x)"
    by (rule idempotency_excludes [of "[?r]"])
      (simp_all add: idem_keys_def idempotency_key_def grants_def insertRunning_def claimStale_def set_first_def
        complete_sql_def sql_update_def ATOMIC_PROTOCOL_def RECLAIMABLE_PROTOCOLS_def)
  then show ?thesis by (intro exI [of _ ?r] exI [of _ "Claim_stale ''a'' 400000 86800000"]) simp
qed

subsection \<open>A retry\<close>

text \<open>The environment holds the table; the uuids are fresh and drawing one leaves the table alone.\<close>

definition idem_environment ::
  "('s \<Rightarrow> idempotency_row list) \<Rightarrow> (idempotency_row list \<Rightarrow> 's \<Rightarrow> 's) \<Rightarrow> 's idempotency_lib \<Rightarrow> bool" where
  "idem_environment rows with_rows lib \<longleftrightarrow>
     (\<forall>t s. rows (with_rows t s) = t) \<and>
     (\<forall>s. rows (snd (li_uuid lib s)) = rows s \<and> fst (li_uuid lib s) \<notin> id_id ` set (rows s))"

definition keeps_rows :: "('s \<Rightarrow> idempotency_row list) \<Rightarrow> ('s, 'a) operation \<Rightarrow> bool" where
  "keeps_rows rows m \<longleftrightarrow> (\<forall>s. rows (snd (m s)) = rows s)"

text \<open>The record a request owns, or owned and completed.\<close>

definition owned_record ::
  "'s idempotency_lib \<Rightarrow> ('s, 'b) idempotent_input \<Rightarrow> string \<Rightarrow> string \<Rightarrow> idempotency_row \<Rightarrow> bool" where
  "owned_record lib input key i r \<longleftrightarrow>
     id_id r = i \<and> id_principalKey r = ip_principalKey input \<and> id_idempotencyKey r = key \<and>
     id_requestHash r = requestHash lib (ip_request input) (ip_bodyText input) \<and>
     id_expiresAt r = ip_now input + ip_retentionSeconds input * 1000"

definition owns ::
  "'s idempotency_lib \<Rightarrow> ('s, 'b) idempotent_input \<Rightarrow> string \<Rightarrow> string \<Rightarrow> idempotency_row list \<Rightarrow> bool" where
  "owns lib input key i t \<longleftrightarrow> idem_keys t \<and> (\<exists>r \<in> set t. owned_record lib input key i r)"

lemma find_by_key:
  assumes "idem_keys t" "r \<in> set t" "id_principalKey r = pk" "id_idempotencyKey r = key"
  shows "findOwner pk key t = Some r"
proof -
  have "findOwner pk key t \<noteq> None" using assms(2-4) by (auto simp: findOwner_def find_None_iff)
  then obtain x where x: "findOwner pk key t = Some x" by blast
  then have "x \<in> set t" "id_principalKey x = pk" "id_idempotencyKey x = key"
    by (auto simp: findOwner_def find_Some_iff)
  with idem_same_key [OF assms(1) _ assms(2)] assms(3,4) have "x = r" by (simp add: idempotency_key_def)
  with x show ?thesis by simp
qed

lemma findOwner_Some:
  "findOwner pk key t = Some r \<Longrightarrow> r \<in> set t \<and> id_principalKey r = pk \<and> id_idempotencyKey r = key"
  by (auto simp: findOwner_def find_Some_iff)

lemma insertRunning_owns:
  assumes "idem_keys t" "insertRunning (running_record lib input key i) t = (t', Some j)"
  shows "owns lib input key j t'"
proof -
  have "fst (idem_step t (Insert_running 0 (running_record lib input key i))) = t'" using assms(2) by simp
  with idem_keys_step [OF assms(1), of "Insert_running 0 (running_record lib input key i)"] have "idem_keys t'" by simp
  moreover have "t' = t @ [running_record lib input key i]" "j = i"
    using assms(2) by (auto simp: insertRunning_def running_record_def split: if_splits)
  ultimately show ?thesis by (auto simp: owns_def owned_record_def running_record_def)
qed

lemma insertRunning_refused:
  "insertRunning r t = (t', None) \<Longrightarrow> t' = t"
  by (auto simp: insertRunning_def split: if_splits)

lemma set_first_None: "set_first p f key t = (t', None) \<Longrightarrow> t' = t"
  unfolding set_first_def sql_update_def by (auto simp: find_None_iff intro: map_idI)

lemma set_first_Some:
  assumes "set_first p f key t = (t', Some j)"
  obtains x where "x \<in> set t" "p x" "f x \<in> set t'" "j = key (f x)" "t' = sql_update p f t"
proof -
  obtain x where x: "find p t = Some x" "j = key (f x)" "t' = sql_update p f t" using assms by (auto simp: set_first_def)
  then have "x \<in> set t" "p x" by (auto simp: find_Some_iff)
  with x that [of x] show ?thesis by (auto simp: sql_update_def)
qed

lemma reclaimExpired_owns:
  assumes "idem_keys t" "r \<in> set t" "id_principalKey r = ip_principalKey input" "id_idempotencyKey r = key"
    and "i \<notin> id_id ` set t" "reclaimExpired (id_id r) now (running_record lib input key i) t = (t', Some j)"
  shows "owns lib input key j t'"
proof -
  let ?v = "running_record lib input key i"
  have "\<forall>x \<in> set t. id_id x = id_id r \<longrightarrow> idempotency_key x = idempotency_key ?v"
    using idem_same_id [OF assms(1) _ assms(2)] assms(3,4) by (auto simp: idempotency_key_def running_record_def)
  then have "idem_keys (fst (idem_step t (Reclaim_expired (id_id r) now ?v)))"
    by (intro idem_keys_step [OF assms(1)]) (use assms(5) in \<open>simp add: list_all_iff running_record_def\<close>)
  then have "idem_keys t'" using assms(6) by simp
  moreover have "?v \<in> set t'" "j = id_id ?v"
    using assms(6) unfolding reclaimExpired_def by (auto elim!: set_first_Some)
  ultimately show ?thesis
    unfolding owns_def by (intro conjI bexI [of _ ?v]) (simp_all add: owned_record_def running_record_def)
qed

lemma claimStale_owns:
  assumes "idem_keys t" "r \<in> set t" "id_principalKey r = ip_principalKey input" "id_idempotencyKey r = key"
    and "id_requestHash r = requestHash lib (ip_request input) (ip_bodyText input)"
    and "claimStale (id_id r) staleBefore now (ip_now input + ip_retentionSeconds input * 1000) t = (t', Some j)"
  shows "owns lib input key j t'"
proof -
  let ?x = "ip_now input + ip_retentionSeconds input * 1000"
  let ?p = "\<lambda>y. id_id y = id_id r \<and> id_state y = Idem_running \<and> id_protocol y \<in> set RECLAIMABLE_PROTOCOLS \<and>
      id_createdAt y < staleBefore"
  let ?f = "\<lambda>y. y\<lparr>id_createdAt := now, id_expiresAt := ?x\<rparr>"
  have "set_first ?p ?f id_id t = (t', Some j)" using assms(6) by (simp add: claimStale_def)
  then obtain y where y: "y \<in> set t" "?p y" "?f y \<in> set t'" "j = id_id (?f y)" "t' = sql_update ?p ?f t"
    by (rule set_first_Some)
  have "y = r" using idem_same_id [OF assms(1) y(1) assms(2)] y(2) by simp
  moreover have "idem_keys t'" unfolding y(5) by (rule idem_keys_update [OF assms(1)]) (simp add: idempotency_key_def)
  ultimately show ?thesis
    unfolding owns_def using y(3,4) assms(3-5) by (intro conjI bexI [of _ "?f y"]) (simp_all add: owned_record_def)
qed

text \<open>The completion of an owned record: what a retry finds.\<close>

lemma complete_owned:
  assumes "owns lib input key i t"
  shows "\<exists>r. findOwner (ip_principalKey input) key (complete_sql i status body at t) = Some r \<and>
    owned_record lib input key i r \<and> id_state r = Idem_completed \<and> id_responseStatus r = Some status \<and>
    id_responseBody r = body \<and> idem_keys (complete_sql i status body at t)"
proof -
  obtain r where keys: "idem_keys t" and r: "r \<in> set t" "owned_record lib input key i r"
    using assms by (auto simp: owns_def)
  let ?r = "r\<lparr>id_state := Idem_completed, id_responseStatus := Some status, id_responseBody := body,
              id_completedAt := Some at\<rparr>"
  have "idem_keys (complete_sql i status body at t)"
    unfolding complete_sql_def by (rule idem_keys_update [OF keys]) (simp add: idempotency_key_def)
  moreover have "?r \<in> set (complete_sql i status body at t)"
    using r unfolding complete_sql_def sql_update_def set_map
    by (intro image_eqI [OF _ r(1)]) (simp add: owned_record_def)
  moreover have "id_principalKey ?r = ip_principalKey input" "id_idempotencyKey ?r = key"
    using r(2) by (simp_all add: owned_record_def)
  ultimately show ?thesis
    using r(2) by (intro exI [of _ ?r] conjI find_by_key) (simp_all add: owned_record_def)
qed

subsection \<open>The retry replays\<close>

definition acquired_state ::
  "('s \<Rightarrow> idempotency_row list) \<Rightarrow> 's idempotency_lib \<Rightarrow> ('s, 'b) idempotent_input \<Rightarrow> string \<Rightarrow>
   idempotency_row list \<Rightarrow> (string option \<times> idempotency_row option) \<times> 's \<Rightarrow> bool" where
  "acquired_state rows lib input key t out \<longleftrightarrow> (case out of
      ((Some i, _), s) \<Rightarrow> owns lib input key i (rows s)
    | ((None, None), s) \<Rightarrow> rows s = t
    | ((None, Some r), s) \<Rightarrow> rows s = t \<and> r \<in> set t \<and>
        id_principalKey r = ip_principalKey input \<and> id_idempotencyKey r = key)"

lemma acquire_attempts:
  fixes lib :: "'s idempotency_lib" and input :: "('s, 'b) idempotent_input"
    and rows with_rows undo
  defines "P \<equiv> databaseIdempotencyPersistence rows with_rows undo"
  assumes env: "idem_environment rows with_rows lib" and keys: "idem_keys (rows s)"
  shows "acquired_state rows lib input key (rows s) (acquireIdempotencyOwner n (ip_now input)
       (\<lambda>s. let (i, s) = li_uuid lib s in pe_insertRunning P (running_record lib input key i) s)
       (pe_findOwner P (ip_principalKey input) key)
       (\<lambda>r. reclaimExpiredRecord r (ip_now input) (\<lambda>expiredId s.
          let (i, s) = li_uuid lib s
          in pe_reclaimExpired P expiredId (ip_now input) (running_record lib input key i) s)) s)"
    (is "acquired_state _ _ _ _ _ (acquireIdempotencyOwner n _ ?ins ?look ?rec s)")
  using keys
proof (induction n arbitrary: s)
  case 0
  then show ?case
    by (auto simp: acquired_state_def P_def databaseIdempotencyPersistence_def Let_def
        split: option.splits dest: findOwner_Some)
next
  case (Suc n)
  have rw: "rows (with_rows t s) = t" "rows (snd (li_uuid lib s)) = rows s" "fst (li_uuid lib s) \<notin> id_id ` set (rows s)"
    for t s using env by (simp_all add: idem_environment_def)
  show ?case
  proof (cases "?ins s")
    case (Pair inserted s1)
    obtain t1 where t1: "insertRunning (running_record lib input key (fst (li_uuid lib s))) (rows s) = (t1, inserted)"
      "rows s1 = t1"
      using Pair by (auto simp: P_def databaseIdempotencyPersistence_def Let_def rw split: prod.splits)
        (metis rw(2) snd_conv)
    show ?thesis
    proof (cases inserted)
      case (Some i)
      then show ?thesis using Pair insertRunning_owns [OF Suc.prems, of lib input key _ t1 i] t1
        by (simp add: acquired_state_def)
    next
      case None
      have s1: "rows s1 = rows s" using t1 None insertRunning_refused by simp
      show ?thesis
      proof (cases "findOwner (ip_principalKey input) key (rows s1)")
        case None
        have "?look s1 = (None, s1)" using None by (simp add: P_def databaseIdempotencyPersistence_def Let_def)
        then show ?thesis using Pair \<open>inserted = None\<close> Suc.IH [of s1] Suc.prems s1 by simp
      next
        case (Some r)
        have look: "?look s1 = (Some r, s1)" using Some by (simp add: P_def databaseIdempotencyPersistence_def Let_def)
        have r: "r \<in> set (rows s)" "id_principalKey r = ip_principalKey input" "id_idempotencyKey r = key"
          using findOwner_Some [OF Some] s1 by simp_all
        obtain reclaimed s2 where rec: "?rec r s1 = (reclaimed, s2)" by fastforce
        show ?thesis
        proof (cases "id_expiresAt r \<le> ip_now input")
          case False
          then have "reclaimed = None" "s2 = s1" using rec by (simp_all add: reclaimExpiredRecord_def)
          then show ?thesis using False Pair \<open>inserted = None\<close> look rec r s1 by (simp add: acquired_state_def)
        next
          case True
          obtain t2 where t2: "reclaimExpired (id_id r) (ip_now input)
              (running_record lib input key (fst (li_uuid lib s1))) (rows s1) = (t2, reclaimed)" "rows s2 = t2"
            using rec True by (auto simp: reclaimExpiredRecord_def P_def databaseIdempotencyPersistence_def Let_def rw
                split: prod.splits) (metis rw(2) snd_conv)
          show ?thesis
          proof (cases reclaimed)
            case (Some i)
            have "owns lib input key i t2"
              by (rule reclaimExpired_owns [OF _ _ r(2,3) rw(3) [of s1] t2(1) [unfolded Some]])
                (use Suc.prems r(1) s1 in simp_all)
            then show ?thesis using Some Pair \<open>inserted = None\<close> look rec t2(2) by (simp add: acquired_state_def)
          next
            case None
            then have "rows s2 = rows s"
              using t2 s1 set_first_None unfolding reclaimExpired_def by metis
            then show ?thesis using True None Pair \<open>inserted = None\<close> look rec Suc.IH [of s2] Suc.prems by simp
          qed
        qed
      qed
    qed
  qed
qed

lemma acquire_finds:
  fixes lib :: "'s idempotency_lib" and input :: "('s, 'b) idempotent_input"
  assumes env: "idem_environment rows with_rows lib"
    and "findOwner (ip_principalKey input) key (rows s) = Some r" "ip_now input < id_expiresAt r"
  shows "\<exists>s'. acquire_record lib (databaseIdempotencyPersistence rows with_rows undo) input key s =
      ((None, Some r), s') \<and> rows s' = rows s"
proof -
  have rw: "rows (with_rows t s) = t" "rows (snd (li_uuid lib s)) = rows s" for t s
    using env by (simp_all add: idem_environment_def)
  have r: "r \<in> set (rows s)" "id_principalKey r = ip_principalKey input" "id_idempotencyKey r = key"
    using findOwner_Some [OF assms(2)] by simp_all
  obtain i s1 where u: "li_uuid lib s = (i, s1)" by fastforce
  have s1: "rows s1 = rows s" using rw(2) [of s] u by simp
  have "idempotency_key (running_record lib input key i) \<in> idempotency_key ` set (rows s)"
    using r by (auto simp: running_record_def idempotency_key_def intro: rev_image_eqI)
  then have "insertRunning (running_record lib input key i) (rows s) = (rows s, None)" by (simp add: insertRunning_def)
  then show ?thesis
    using u s1 rw assms(2,3)
    by (simp add: acquire_record_def numeral_eq_Suc databaseIdempotencyPersistence_def Let_def reclaimExpiredRecord_def)
qed

lemma database_persistence:
  "pe_findOwner (databaseIdempotencyPersistence rows with_rows undo) pk key s = (findOwner pk key (rows s), s)"
  "pe_claimStale (databaseIdempotencyPersistence rows with_rows undo) i before now x s =
     (let (t, v) = claimStale i before now x (rows s) in (v, with_rows t s))"
  "pe_lockOwner (databaseIdempotencyPersistence rows with_rows undo) i s = s"
  "pe_complete (databaseIdempotencyPersistence rows with_rows undo) i status body at s =
     (Inr (), with_rows (complete_sql i status body at (rows s)) s)"
  by (simp_all add: databaseIdempotencyPersistence_def)

text \<open>A first run that answers with its own response leaves its record, completed.\<close>

definition settled_run ::
  "'s idempotency_lib \<Rightarrow> ('s, 'b) idempotent_input \<Rightarrow> string \<Rightarrow> 'b stored_response \<Rightarrow> idempotency_row list \<Rightarrow> bool" where
  "settled_run lib input key response t' \<longleftrightarrow> (\<exists>i t at. owns lib input key i t \<and>
     t' = complete_sql i (sr_status response) (ip_persistBody input (sr_body response)) at t)"

lemma run_owned_settles:
  assumes "idem_environment rows with_rows lib" "\<forall>i. keeps_rows rows (ip_work input i)"
    and "owns lib input key i (rows s)"
    and "run_owned lib (databaseIdempotencyPersistence rows with_rows undo) input i s = (Inr (response, b), s')"
  shows "settled_run lib input key response (rows s')"
proof -
  have rw: "rows (with_rows t s) = t" "rows (snd (ip_work input i s)) = rows s" for t s i
    using assms(1,2) by (simp_all add: idem_environment_def keeps_rows_def)
  obtain v s2 where w: "ip_work input i s = (v, s2)" by fastforce
  have "rows s2 = rows s" using rw(2) [of i s] w by simp
  moreover have "run_owned lib (databaseIdempotencyPersistence rows with_rows undo) input i s = (case v of
      Inl e \<Rightarrow> (Inl (Work_error e), if ip_mode input = Atomic then pe_rollback (databaseIdempotencyPersistence rows with_rows undo) s s2 else s2)
    | Inr response \<Rightarrow> (Inr (response, False), with_rows (complete_sql i (sr_status response)
        (ip_persistBody input (sr_body response)) (li_clock lib s2) (rows s2)) s2))"
    unfolding run_owned_def Let_def database_persistence if_cancel w by (cases v) simp_all
  then have "rows s' = complete_sql i (sr_status response) (ip_persistBody input (sr_body response)) (li_clock lib s2) (rows s2)"
    using assms(4) by (cases v) (auto simp: rw)
  ultimately show ?thesis using assms(3) unfolding settled_run_def by metis
qed

lemma answer_existing_settles:
  assumes "idem_environment rows with_rows lib" "\<forall>i. keeps_rows rows (ip_work input i)"
    and "idem_keys (rows s)" "r \<in> set (rows s)" "id_principalKey r = ip_principalKey input" "id_idempotencyKey r = key"
    and "answer_existing lib (databaseIdempotencyPersistence rows with_rows undo) input r s = (Inr (response, False), s')"
  shows "settled_run lib input key response (rows s')"
proof -
  let ?claim = "claimStale (id_id r) (ip_now input - 5 * 60000) (ip_now input)
     (ip_now input + ip_retentionSeconds input * 1000) (rows s)"
  obtain t' c where c: "?claim = (t', c)" by fastforce
  have hash: "id_requestHash r = requestHash lib (ip_request input) (ip_bodyText input)"
    using assms(7) by (auto simp: answer_existing_def split: if_splits)
  moreover obtain i where i: "c = Some i"
    and run: "run_owned lib (databaseIdempotencyPersistence rows with_rows undo) input i (with_rows t' s) =
      (Inr (response, False), s')"
    using assms(7) c hash
    by (cases c) (auto simp: answer_existing_def database_persistence Let_def
        split: if_splits sum.splits prod.splits)
  ultimately have "owns lib input key i t'"
    using claimStale_owns [OF assms(3-6) hash, of _ _ t' i] c by simp
  then have "owns lib input key i (rows (with_rows t' s))" using assms(1) by (simp add: idem_environment_def)
  then show ?thesis by (rule run_owned_settles [OF assms(1,2) _ run])
qed

lemma executeIdempotent_settles:
  assumes env: "idem_environment rows with_rows lib" and work: "\<forall>i. keeps_rows rows (ip_work input i)"
    and keys: "idem_keys (rows s)"
    and run: "executeIdempotent lib (databaseIdempotencyPersistence rows with_rows undo) input s = (Inr (response, False), s')"
  obtains key where "requireIdempotencyKey (ip_request input) = Some key"
    "settled_run lib input key response (rows s')"
proof -
  let ?P = "databaseIdempotencyPersistence rows with_rows undo"
  obtain key where key: "requireIdempotencyKey (ip_request input) = Some key"
    using run by (auto simp: executeIdempotent_def split: option.splits)
  obtain own existing s1 where acq: "acquire_record lib ?P input key s = ((own, existing), s1)"
    by (metis surj_pair)
  have st: "acquired_state rows lib input key (rows s) ((own, existing), s1)"
    using acquire_attempts [OF env keys, of input key 4 undo] acq by (simp add: acquire_record_def)
  have "settled_run lib input key response (rows s')"
  proof (cases own)
    case (Some i)
    then show ?thesis using run key acq st run_owned_settles [OF env work, of key i s1 undo response False s']
      by (simp add: executeIdempotent_def acquired_state_def)
  next
    case None
    show ?thesis
    proof (cases existing)
      case (Some r)
      then show ?thesis
        using run key acq st None keys answer_existing_settles [OF env work, of s1 r key undo response s']
        by (simp add: executeIdempotent_def acquired_state_def)
    next
      case None
      obtain r where r: "findOwner (ip_principalKey input) key (rows s1) = Some r"
        using run key acq \<open>own = None\<close> None
        by (auto simp: executeIdempotent_def database_persistence Let_def split: option.splits)
      then show ?thesis
        using run key acq st None \<open>own = None\<close> keys findOwner_Some [OF r]
          answer_existing_settles [OF env work, of s1 r key undo response s']
        by (simp add: executeIdempotent_def acquired_state_def database_persistence Let_def)
    qed
  qed
  with key that show thesis by blast
qed

text \<open>What a retry answers: the stored response, as the caller's \<open>replayBody\<close> renders it.\<close>

definition replayed_answer ::
  "('s, 'b) idempotent_input \<Rightarrow> int \<Rightarrow> string option \<Rightarrow> string \<Rightarrow> 's \<Rightarrow>
   (idempotency_error + 'b stored_response \<times> bool) \<times> 's" where
  "replayed_answer input status stored i s = (case ip_replayBody input stored i s of
      (Inl e, s) \<Rightarrow> (Inl (Work_error e), s)
    | (Inr body, s) \<Rightarrow> (Inr (\<lparr>sr_status = status, sr_body = body\<rparr>, True), s))"

text \<open>C40. After a request with a key was answered, a retry with the same key before the record expires
  never runs its work, in any of the three modes: for the same method, path, query and body it answers
  with the stored status and body, for any other it is refused as a reuse of the key, and either way
  the table stays as it is.\<close>

theorem idempotent_replay:
  assumes "idem_environment rows with_rows lib" "\<forall>i. keeps_rows rows (ip_work input i)" "idem_keys (rows s)"
    and "executeIdempotent lib (databaseIdempotencyPersistence rows with_rows undo) input s = (Inr (response, False), s1)"
    and "rows s2 = rows s1" "ip_now retry < ip_now input + ip_retentionSeconds input * 1000"
    and "ip_principalKey retry = ip_principalKey input"
    and "requireIdempotencyKey (ip_request retry) = requireIdempotencyKey (ip_request input)"
  shows "\<exists>i s3. rows s3 = rows s1 \<and>
    executeIdempotent lib (databaseIdempotencyPersistence rows with_rows undo) retry s2 =
      (if requestHash lib (ip_request retry) (ip_bodyText retry) = requestHash lib (ip_request input) (ip_bodyText input)
       then replayed_answer retry (sr_status response) (ip_persistBody input (sr_body response)) i s3
       else (Inl Key_reused, s3))"
proof -
  obtain key where key: "requireIdempotencyKey (ip_request input) = Some key"
    and settled: "settled_run lib input key response (rows s1)"
    by (rule executeIdempotent_settles [OF assms(1-4)])
  obtain i t at where "owns lib input key i t"
    "rows s1 = complete_sql i (sr_status response) (ip_persistBody input (sr_body response)) at t"
    using settled by (auto simp: settled_run_def)
  with complete_owned [of lib input key i t] obtain r where
    r: "findOwner (ip_principalKey input) key (rows s1) = Some r" "owned_record lib input key i r"
      "id_state r = Idem_completed" "id_responseStatus r = Some (sr_status response)"
      "id_responseBody r = ip_persistBody input (sr_body response)"
    by metis
  obtain s3 where s3: "acquire_record lib (databaseIdempotencyPersistence rows with_rows undo) retry key s2 =
      ((None, Some r), s3)" "rows s3 = rows s1"
    using acquire_finds [OF assms(1), of retry key s2 r undo] r assms(5-7) by (auto simp: owned_record_def)
  have "executeIdempotent lib (databaseIdempotencyPersistence rows with_rows undo) retry s2 =
      answer_existing lib (databaseIdempotencyPersistence rows with_rows undo) retry r s3"
    using key s3(1) assms(8) by (simp add: executeIdempotent_def)
  also have "\<dots> = (if requestHash lib (ip_request retry) (ip_bodyText retry) = id_requestHash r
       then replayed_answer retry (sr_status response) (ip_persistBody input (sr_body response)) (id_id r) s3
       else (Inl Key_reused, s3))"
    unfolding answer_existing_def replayed_answer_def r(4,5) or_else_simps using r(3) by simp
  finally show ?thesis using s3(2) r(2) by (auto simp: owned_record_def)
qed

text \<open>A conservative creation and its retry, over an environment that is the table itself.\<close>

definition sample_lib :: "idempotency_row list idempotency_lib" where
  "sample_lib = \<lparr>li_sha256hex = (\<lambda>x. x), li_encode = (\<lambda>x. x), li_before = (\<lambda>x y. fst x < fst y),
     li_upper = (\<lambda>x. x),
     li_uuid = (\<lambda>t. (replicate (Suc (sum_list (map (\<lambda>r. length (id_id r)) t))) CHR ''u'', t)),
     li_clock = (\<lambda>t. 1000)\<rparr>"

definition sample_request :: "string \<Rightarrow> instant \<Rightarrow> (idempotency_row list, string) idempotent_input" where
  "sample_request bd now = \<lparr>ip_mode = Conservative,
     ip_request = \<lparr>rq_method = ''POST'', rq_pathname = ''/api/v1/monitors'', rq_query = [],
       rq_idempotencyKey = Some ''0190a0b0-0000-4000-8000-000000000001''\<rparr>,
     ip_principalKey = ''token:1'', ip_routeKey = ''monitors'', ip_bodyText = bd, ip_retentionSeconds = 86400,
     ip_now = now, ip_persistBody = Some, ip_replayBody = (\<lambda>b i s. (Inr (or_else b []), s)),
     ip_work = (\<lambda>i s. (Inr \<lparr>sr_status = 201, sr_body = ''created''\<rparr>, s))\<rparr>"

lemma sample_fresh: "r \<in> set t \<Longrightarrow> length (id_id r) \<le> sum_list (map (\<lambda>r. length (id_id r)) t)"
  by (induction t) auto

lemma sample_environment: "idem_environment (\<lambda>t. t) (\<lambda>t _. t) sample_lib"
proof -
  have "replicate (Suc (sum_list (map (\<lambda>r. length (id_id r)) t))) CHR ''u'' \<notin> id_id ` set t"
    for t :: "idempotency_row list"
  proof
    assume "replicate (Suc (sum_list (map (\<lambda>r. length (id_id r)) t))) CHR ''u'' \<in> id_id ` set t"
    then obtain r where r: "r \<in> set t" "id_id r = replicate (Suc (sum_list (map (\<lambda>r. length (id_id r)) t))) CHR ''u''"
      by (auto simp del: replicate_Suc)
    with sample_fresh [of r t] show False by (simp del: replicate_Suc)
  qed
  then show ?thesis by (simp add: idem_environment_def sample_lib_def)
qed

theorem idempotent_replay_witness:
  "\<exists>s. (\<exists>t. executeIdempotent sample_lib (databaseIdempotencyPersistence (\<lambda>t. t) (\<lambda>t _. t) (\<lambda>_ s. s))
        (sample_request ''{}'' 0) [] = (Inr (\<lparr>sr_status = 201, sr_body = ''created''\<rparr>, False), t)) \<and>
     fst (executeIdempotent sample_lib (databaseIdempotencyPersistence (\<lambda>t. t) (\<lambda>t _. t) (\<lambda>_ s. s))
        (sample_request ''{}'' 60000) s) = Inr (\<lparr>sr_status = 201, sr_body = ''created''\<rparr>, True) \<and>
     fst (executeIdempotent sample_lib (databaseIdempotencyPersistence (\<lambda>t. t) (\<lambda>t _. t) (\<lambda>_ s. s))
        (sample_request ''[]'' 60000) s) = Inl Key_reused"
proof -
  let ?P = "databaseIdempotencyPersistence (\<lambda>t. t) (\<lambda>t _. t) (\<lambda>_ s. s)"
  have "fst (executeIdempotent sample_lib ?P (sample_request ''{}'' 0) []) =
      Inr (\<lparr>sr_status = 201, sr_body = ''created''\<rparr>, False)"
    by code_simp
  then obtain t where t: "executeIdempotent sample_lib ?P (sample_request ''{}'' 0) [] =
      (Inr (\<lparr>sr_status = 201, sr_body = ''created''\<rparr>, False), t)" by (metis prod.collapse)
  have "\<exists>i s3. s3 = t \<and> executeIdempotent sample_lib ?P (sample_request bd 60000) t =
      (if requestHash sample_lib (ip_request (sample_request bd 60000)) (ip_bodyText (sample_request bd 60000)) =
          requestHash sample_lib (ip_request (sample_request ''{}'' 0)) (ip_bodyText (sample_request ''{}'' 0))
       then replayed_answer (sample_request bd 60000) (sr_status \<lparr>sr_status = 201, sr_body = ''created''\<rparr>)
         (ip_persistBody (sample_request ''{}'' 0) (sr_body \<lparr>sr_status = 201, sr_body = ''created''\<rparr>)) i s3
       else (Inl Key_reused, s3))" for bd
    by (rule idempotent_replay [OF sample_environment _ _ t refl])
      (simp_all add: keeps_rows_def sample_request_def idem_keys_def)
  from this [of "''{}''"] this [of "''[]''"] t show ?thesis
    by (intro exI [of _ t]) (auto simp: requestHash_def sample_lib_def sample_request_def replayed_answer_def)
qed

end
