(* ===== verification/Public_Url.thy ===== *)
theory Public_Url
  imports Ids
begin

text \<open>
  The policy for public URLs, \<open>lib/net/public-url.ts\<close>. A URL is the part of a \<open>URL\<close> object the
  program reads; the parser of the platform, \<open>new URL(value)\<close>, is the argument \<open>new_url\<close>, \<open>None\<close> where
  it raises.

  The law compares the IPv4 screen with a table of address blocks in the usual notation.
\<close>

record js_url =
  u_href :: string
  u_protocol :: string
  u_hostname :: string
  u_port :: string
  u_username :: string
  u_password :: string
  u_origin :: string

subsection \<open>The screens\<close>

fun js_split :: "char \<Rightarrow> string \<Rightarrow> string list" where
  "js_split sep [] = [[]]"
| "js_split sep (c # s) =
    (if c = sep then [] # js_split sep s
     else (case js_split sep s of [] \<Rightarrow> [[c]] | w # ws \<Rightarrow> (c # w) # ws))"

definition js_endsWith :: "string \<Rightarrow> string \<Rightarrow> bool" where
  "js_endsWith s p \<longleftrightarrow> js_startsWith (rev s) (rev p)"

text \<open>\<open>/^\d+\.\d+\.\d+\.\d+$/\<close>\<close>

definition ipv4_shape :: "string \<Rightarrow> bool" where
  "ipv4_shape host \<longleftrightarrow> (let parts = js_split CHR ''.'' host in
     length parts = 4 \<and> list_all (\<lambda>p. p \<noteq> [] \<and> list_all (\<lambda>c. c \<in> set ''0123456789'') p) parts)"

text \<open>The parts are strings of digits where this is called: \<open>Number\<close> reads a decimal numeral.\<close>

definition isReservedIpv4 :: "string \<Rightarrow> bool" where
  "isReservedIpv4 host = (let octets = map (\<lambda>p. read_nat p) (js_split CHR ''.'' host) in
     if length octets \<noteq> 4 \<or> list_ex (\<lambda>part. part > 255) octets then True
     else (let a = octets ! 0; b = octets ! 1; c = octets ! 2 in
       a = 0 \<or> a = 10 \<or> a = 127 \<or> a \<ge> 224 \<or>
       (a = 100 \<and> b \<ge> 64 \<and> b \<le> 127) \<or>
       (a = 169 \<and> b = 254) \<or>
       (a = 172 \<and> b \<ge> 16 \<and> b \<le> 31) \<or>
       (a = 192 \<and> b = 0) \<or>
       (a = 192 \<and> b = 168) \<or>
       (a = 192 \<and> b = 88 \<and> c = 99) \<or>
       (a = 198 \<and> (b = 18 \<or> b = 19)) \<or>
       (a = 198 \<and> b = 51 \<and> c = 100) \<or>
       (a = 203 \<and> b = 0 \<and> c = 113)))"

text \<open>\<open>replace(/(^|:)0+(?=[0-9a-f])/g, "$1")\<close>: the leading zeros of a group go, but for the last digit.\<close>

definition lower_hex :: "char \<Rightarrow> bool" where
  "lower_hex c \<longleftrightarrow> c \<in> set ''0123456789abcdef''"

fun fold_zeros :: "bool \<Rightarrow> string \<Rightarrow> string" where
  "fold_zeros at_group [] = []"
| "fold_zeros at_group [c] = [c]"
| "fold_zeros at_group (c # d # s) =
    (if at_group \<and> c = CHR ''0'' \<and> lower_hex d then fold_zeros True (d # s)
     else c # fold_zeros (c = CHR '':'') (d # s))"

definition isReservedIpv6 :: "string \<Rightarrow> bool" where
  "isReservedIpv6 host = (let compact = fold_zeros True host in
     compact = ''::'' \<or> compact = ''::1'' \<or> js_startsWith compact ''fc'' \<or> js_startsWith compact ''fd'' \<or>
     js_startsWith compact ''fe8'' \<or> js_startsWith compact ''fe9'' \<or> js_startsWith compact ''fea'' \<or>
     js_startsWith compact ''feb'' \<or> js_startsWith compact ''ff'' \<or> js_startsWith compact ''::ffff:'' \<or>
     js_startsWith compact ''2001:db8:'')"

definition hasAllowedPort :: "js_url \<Rightarrow> bool" where
  "hasAllowedPort url =
    (if u_port url \<noteq> [] \<and> u_port url \<noteq> ''80'' \<and> u_port url \<noteq> ''443'' then False
     else if u_protocol url = ''http:'' \<and> u_port url = ''443'' then False
     else if u_protocol url = ''https:'' \<and> u_port url = ''80'' then False
     else True)"

text \<open>\<open>replace(/^\[|\]$/g, "").replace(/\.$/, "")\<close> on the lower-case host.\<close>

definition bare_host :: "string \<Rightarrow> string" where
  "bare_host hostname =
    (let host = js_lower hostname;
         host = (if js_startsWith host ''['' then tl host else host);
         host = (if js_endsWith host '']'' then butlast host else host)
     in if js_endsWith host ''.'' then butlast host else host)"

definition public_host :: "string \<Rightarrow> bool" where
  "public_host host =
    (if host = [] \<or> host = ''localhost'' \<or> js_endsWith host ''.localhost'' then False
     else if ipv4_shape host then \<not> isReservedIpv4 host
     else if CHR '':'' \<in> set host then \<not> isReservedIpv6 host
     else True)"

definition isPublicHttpUrl :: "(string \<Rightarrow> js_url option) \<Rightarrow> string \<Rightarrow> bool" where
  "isPublicHttpUrl new_url value = (case new_url value of
      None \<Rightarrow> False
    | Some url \<Rightarrow>
        if u_protocol url \<noteq> ''http:'' \<and> u_protocol url \<noteq> ''https:'' then False
        else if u_username url \<noteq> [] \<or> u_password url \<noteq> [] then False
        else if \<not> hasAllowedPort url then False
        else public_host (bare_host (u_hostname url)))"

subsection \<open>The reserved blocks\<close>

text \<open>An IPv4 address and its dotted numeral.\<close>

definition dotted :: "32 word \<Rightarrow> string" where
  "dotted w = nat_string (unat w div 2 ^ 24) @ ''.'' @ nat_string (unat w div 2 ^ 16 mod 256) @ ''.'' @
     nat_string (unat w div 2 ^ 8 mod 256) @ ''.'' @ nat_string (unat w mod 256)"

definition in_block :: "32 word \<Rightarrow> 32 word \<times> nat \<Rightarrow> bool" where
  "in_block w = (\<lambda>(base, len). drop_bit (32 - len) w = drop_bit (32 - len) base)"

text \<open>0/8, 10/8, 127/8, 224/3, 100.64/10, 169.254/16, 172.16/12, 192.0/16, 192.168/16, 192.88.99/24,
  198.18/15, 198.51.100/24 and 203.0.113/24.\<close>

definition RESERVED_BLOCKS :: "(32 word \<times> nat) list" where
  "RESERVED_BLOCKS = [(0x00000000, 8), (0x0A000000, 8), (0x7F000000, 8), (0xE0000000, 3), (0x64400000, 10),
     (0xA9FE0000, 16), (0xAC100000, 12), (0xC0000000, 16), (0xC0A80000, 16), (0xC0586300, 24),
     (0xC6120000, 15), (0xC6336400, 24), (0xCB007100, 24)]"

lemma js_split_no_sep: "sep \<notin> set s \<Longrightarrow> js_split sep s = [s]"
  by (induction s) auto

lemma js_split_append: "sep \<notin> set s \<Longrightarrow> js_split sep (s @ sep # t) = s # js_split sep t"
  by (induction s) (auto split: list.split)

lemma nat_string_no_dot: "CHR ''.'' \<notin> set (nat_string n)"
  using nat_string_digits [of "CHR ''.''" n] by auto

lemma js_split_dotted:
  "js_split CHR ''.'' (dotted w) = [nat_string (unat w div 2 ^ 24), nat_string (unat w div 2 ^ 16 mod 256),
     nat_string (unat w div 2 ^ 8 mod 256), nat_string (unat w mod 256)]"
  unfolding dotted_def
  by (simp add: js_split_append js_split_no_sep nat_string_no_dot)

lemma in_block_iff: "in_block w (base, len) \<longleftrightarrow> unat w div 2 ^ (32 - len) = unat base div 2 ^ (32 - len)"
  unfolding in_block_def prod.case word_unat_eq_iff unat_drop_bit_eq by (simp add: drop_bit_eq_div)

text \<open>A prefix of an address, read off its octets.\<close>

lemma div_pow_step: "k = i + j \<Longrightarrow> (n :: nat) div 2 ^ k = n div 2 ^ i div 2 ^ j"
  by (simp add: power_add div_mult2_eq)

lemma octet_prefixes:
  fixes n :: nat
  shows "n div 2 ^ 29 = n div 2 ^ 24 div 32" "n div 2 ^ 22 = n div 2 ^ 24 * 4 + n div 2 ^ 16 mod 256 div 64"
    "n div 2 ^ 20 = n div 2 ^ 24 * 16 + n div 2 ^ 16 mod 256 div 16"
    "n div 2 ^ 17 = n div 2 ^ 24 * 128 + n div 2 ^ 16 mod 256 div 2"
    "n div 2 ^ 16 = n div 2 ^ 24 * 256 + n div 2 ^ 16 mod 256"
    "n div 2 ^ 8 = (n div 2 ^ 24 * 256 + n div 2 ^ 16 mod 256) * 256 + n div 2 ^ 8 mod 256"
proof -
  have q: "(256 * q + r) div 64 = q * 4 + r div 64" "(256 * q + r) div 16 = q * 16 + r div 16"
    "(256 * q + r) div 2 = q * 128 + r div 2" for q r :: nat
  proof -
    have e: "256 * q + r = r + 64 * (q * 4)" "256 * q + r = r + 16 * (q * 16)" "256 * q + r = r + 2 * (q * 128)"
      by simp_all
    show "(256 * q + r) div 64 = q * 4 + r div 64" by (subst e(1), subst div_mult_self2) simp_all
    show "(256 * q + r) div 16 = q * 16 + r div 16" by (subst e(2), subst div_mult_self2) simp_all
    show "(256 * q + r) div 2 = q * 128 + r div 2" by (subst e(3), subst div_mult_self2) simp_all
  qed
  have m: "m div 64 = m div 256 * 4 + m mod 256 div 64" "m div 16 = m div 256 * 16 + m mod 256 div 16"
    "m div 2 = m div 256 * 128 + m mod 256 div 2" "m = m div 256 * 256 + m mod 256" for m :: nat
    using q [of "m div 256" "m mod 256"] unfolding mult_div_mod_eq by simp_all
  have s: "n div 2 ^ 29 = n div 2 ^ 24 div 2 ^ 5" "n div 2 ^ 24 = n div 2 ^ 16 div 2 ^ 8"
    "n div 2 ^ 22 = n div 2 ^ 16 div 2 ^ 6" "n div 2 ^ 20 = n div 2 ^ 16 div 2 ^ 4"
    "n div 2 ^ 17 = n div 2 ^ 16 div 2 ^ 1" "n div 2 ^ 16 = n div 2 ^ 8 div 2 ^ 8"
    by (rule div_pow_step, simp)+
  have p: "(2 :: nat) ^ 5 = 32" "(2 :: nat) ^ 8 = 256" "(2 :: nat) ^ 6 = 64" "(2 :: nat) ^ 4 = 16" "(2 :: nat) ^ 1 = 2"
    by simp_all
  show "n div 2 ^ 29 = n div 2 ^ 24 div 32" using s(1) unfolding p .
  show "n div 2 ^ 22 = n div 2 ^ 24 * 4 + n div 2 ^ 16 mod 256 div 64"
    unfolding s(2,3) p by (rule m(1))
  show "n div 2 ^ 20 = n div 2 ^ 24 * 16 + n div 2 ^ 16 mod 256 div 16"
    unfolding s(2,4) p by (rule m(2))
  show "n div 2 ^ 17 = n div 2 ^ 24 * 128 + n div 2 ^ 16 mod 256 div 2"
    unfolding s(2,5) p by (rule m(3))
  show c: "n div 2 ^ 16 = n div 2 ^ 24 * 256 + n div 2 ^ 16 mod 256"
    unfolding s(2) p by (rule m(4))
  have "n div 2 ^ 8 = n div 2 ^ 16 * 256 + n div 2 ^ 8 mod 256"
    unfolding s(6) p by (rule m(4))
  then show "n div 2 ^ 8 = (n div 2 ^ 24 * 256 + n div 2 ^ 16 mod 256) * 256 + n div 2 ^ 8 mod 256"
    unfolding c [symmetric] .
qed

text \<open>The IPv4 screen of the URL policy refuses exactly the addresses of thirteen blocks: whatever the
  address, its dotted numeral is reserved just when one of the blocks contains it. (The eighth is all of
  192.0/16, wider than the special-purpose blocks in it.)\<close>

theorem ipv4_screen_is_blocks:
  "isReservedIpv4 (dotted w) \<longleftrightarrow> list_ex (in_block w) RESERVED_BLOCKS"
proof -
  define n a b c d where "n = unat w" and "a = n div 2 ^ 24" and "b = n div 2 ^ 16 mod 256"
    and "c = n div 2 ^ 8 mod 256" and "d = n mod 256"
  have n: "n < 2 ^ 32" using unsigned_less [of w] by (simp add: n_def)
  have r: "a < 256" "b < 256" "c < 256" "d < 256" using n by (simp_all add: a_def b_def c_def d_def less_mult_imp_div_less)
  note pre = octet_prefixes [of n, folded a_def b_def c_def]
  have octet: "n div 16777216 = a" by (simp add: a_def)
  have powers: "(2 :: nat) ^ 29 = 536870912" "(2 :: nat) ^ 22 = 4194304" "(2 :: nat) ^ 20 = 1048576"
    "(2 :: nat) ^ 17 = 131072" "(2 :: nat) ^ 16 = 65536" "(2 :: nat) ^ 8 = 256"
    by simp_all
  note bits = pre [unfolded powers]
  have pair: "x < m \<Longrightarrow> y * m + x = k \<longleftrightarrow> y = k div m \<and> x = k mod m" for x y k m :: nat
    by auto
  have blocks: "list_ex (in_block w) RESERVED_BLOCKS \<longleftrightarrow>
      a = 0 \<or> a = 10 \<or> a = 127 \<or> a div 32 = 7 \<or> a * 4 + b div 64 = 401 \<or> a * 256 + b = 43518 \<or>
      a * 16 + b div 16 = 2753 \<or> a * 256 + b = 49152 \<or> a * 256 + b = 49320 \<or>
      (a * 256 + b) * 256 + c = 12605539 \<or> a * 128 + b div 2 = 25353 \<or> (a * 256 + b) * 256 + c = 12989284 \<or>
      (a * 256 + b) * 256 + c = 13303921"
    by (simp add: RESERVED_BLOCKS_def in_block_iff n_def [symmetric] bits octet)
  have halves: "b div 64 < 4" "b div 16 < 16" "b div 2 < 128" using r(2) by simp_all
  have ranges: "a div 32 = 7 \<longleftrightarrow> a \<ge> 224" "b div 64 = 1 \<longleftrightarrow> b \<ge> 64 \<and> b \<le> 127" "b div 16 = 1 \<longleftrightarrow> b \<ge> 16 \<and> b \<le> 31"
    "b div 2 = 9 \<longleftrightarrow> b = 18 \<or> b = 19"
    using r(1,2) by auto
  have "list_ex (in_block w) RESERVED_BLOCKS \<longleftrightarrow>
      a = 0 \<or> a = 10 \<or> a = 127 \<or> a \<ge> 224 \<or> (a = 100 \<and> b \<ge> 64 \<and> b \<le> 127) \<or> (a = 169 \<and> b = 254) \<or>
      (a = 172 \<and> b \<ge> 16 \<and> b \<le> 31) \<or> (a = 192 \<and> b = 0) \<or> (a = 192 \<and> b = 168) \<or> (a = 192 \<and> b = 88 \<and> c = 99) \<or>
      (a = 198 \<and> (b = 18 \<or> b = 19)) \<or> (a = 198 \<and> b = 51 \<and> c = 100) \<or> (a = 203 \<and> b = 0 \<and> c = 113)"
    unfolding blocks pair [OF r(2)] pair [OF r(3)] pair [OF halves(1)] pair [OF halves(2)] pair [OF halves(3)]
    by (simp add: ranges ranges [unfolded One_nat_def])
  moreover have "isReservedIpv4 (dotted w) \<longleftrightarrow>
      a = 0 \<or> a = 10 \<or> a = 127 \<or> a \<ge> 224 \<or> (a = 100 \<and> b \<ge> 64 \<and> b \<le> 127) \<or> (a = 169 \<and> b = 254) \<or>
      (a = 172 \<and> b \<ge> 16 \<and> b \<le> 31) \<or> (a = 192 \<and> b = 0) \<or> (a = 192 \<and> b = 168) \<or> (a = 192 \<and> b = 88 \<and> c = 99) \<or>
      (a = 198 \<and> (b = 18 \<or> b = 19)) \<or> (a = 198 \<and> b = 51 \<and> c = 100) \<or> (a = 203 \<and> b = 0 \<and> c = 113)"
    unfolding isReservedIpv4_def js_split_dotted Let_def
      n_def [symmetric] a_def [symmetric] b_def [symmetric] c_def [symmetric] d_def [symmetric]
    using r by (simp add: not_less)
  ultimately show ?thesis by simp
qed

end
