(* ===== verification/Checker.thy ===== *)
theory Checker
  imports Public_Url Monitor_State
begin

text \<open>
  The HTTP checker, \<open>lib/checker\<close>: the classification of errors, the address policy, the DNS lookup it
  hands to the HTTP client, the connector it wraps around the client's own, the validation of a target
  and the check itself with its redirects, its content scan and its time budget.

  Outside the program, and arguments here: the URL parser, \<open>ipaddr.js\<close> (the parsed address with its
  range), the UTF-8 decoder, the clock, and undici. Undici is a strategy: it may ask the lookup and the
  connector it was given any number of times, depending on their answers, before it finishes with a
  response or an error.
\<close>

subsection \<open>Errors\<close>

datatype error_class = Blocked_target_error | Monitor_validation_error | Dom_exception string | Other_error

text \<open>A thrown value, its causes by reference: a cause may lead back to an earlier error.\<close>

datatype cause = No_cause | Primitive_cause | Cause_ref nat

record error_obj =
  eo_class :: error_class
  eo_code :: "string option"
  eo_cause :: cause

type_synonym check_error = "error_obj list \<times> cause"

definition DNS_CODES :: "string list" where
  "DNS_CODES = [''EAI_AGAIN'', ''EAI_FAIL'', ''ENODATA'', ''ENOTFOUND'']"

definition TLS_CODES :: "string list" where
  "TLS_CODES = [''CERT_HAS_EXPIRED'', ''DEPTH_ZERO_SELF_SIGNED_CERT'', ''ERR_SSL_CERTIFICATE_VERIFY_FAILED'',
     ''ERR_TLS_CERT_ALTNAME_INVALID'', ''SELF_SIGNED_CERT_IN_CHAIN'', ''UNABLE_TO_GET_ISSUER_CERT_LOCALLY'',
     ''UNABLE_TO_VERIFY_LEAF_SIGNATURE'']"

definition TIMEOUT_CODES :: "string list" where
  "TIMEOUT_CODES = [''ABORT_ERR'', ''UND_ERR_BODY_TIMEOUT'', ''UND_ERR_CONNECT_TIMEOUT'', ''UND_ERR_HEADERS_TIMEOUT'']"

text \<open>An item of the chain that is no object is \<open>None\<close>.\<close>

function errorChain :: "error_obj list \<Rightarrow> nat list \<Rightarrow> cause \<Rightarrow> error_obj option list" where
  "errorChain heap seen No_cause = []"
| "errorChain heap seen Primitive_cause = [None]"
| "errorChain heap seen (Cause_ref i) =
    (if i < length heap \<and> i \<notin> set seen then Some (heap ! i) # errorChain heap (i # seen) (eo_cause (heap ! i))
     else [])"
  by pat_completeness auto
termination
proof (relation "measure (\<lambda>(heap, seen, c). card ({..<length heap} - set seen))", goal_cases)
  case 1
  show ?case by simp
next
  case (2 heap seen i)
  then have "{..<length heap} - set (i # seen) \<subset> {..<length heap} - set seen" by auto
  then show ?case by (simp add: psubset_card_mono)
qed

fun classify_chain :: "error_obj option list \<Rightarrow> check_error_code" where
  "classify_chain [] = UNKNOWN"
| "classify_chain (None # rest) = classify_chain rest"
| "classify_chain (Some item # rest) =
    (let code = or_else (eo_code item) [] in
     if eo_class item = Blocked_target_error then BLOCKED_TARGET
     else if eo_class item = Monitor_validation_error then INVALID_URL
     else if eo_class item = Dom_exception ''AbortError'' \<or> eo_class item = Dom_exception ''TimeoutError'' then TIMEOUT
     else if code \<in> set TIMEOUT_CODES then TIMEOUT
     else if code \<in> set DNS_CODES then DNS_ERROR
     else if code = ''ECONNREFUSED'' then CONNECTION_REFUSED
     else if code = ''ECONNRESET'' \<or> code = ''EPIPE'' then CONNECTION_RESET
     else if code \<in> set TLS_CODES \<or> js_startsWith code ''ERR_SSL_'' \<or> js_startsWith code ''ERR_TLS_'' then TLS_ERROR
     else if js_startsWith code ''UND_ERR_'' then RESPONSE_ERROR
     else classify_chain rest)"

definition classifyCheckError :: "check_error \<Rightarrow> check_error_code" where
  "classifyCheckError e = classify_chain (errorChain (fst e) [] (snd e))"

fun ERROR_MESSAGES :: "check_error_code \<Rightarrow> string" where
  "ERROR_MESSAGES TIMEOUT = ''Request timed out''"
| "ERROR_MESSAGES DNS_ERROR = ''DNS resolution failed''"
| "ERROR_MESSAGES CONNECTION_REFUSED = ''Connection was refused''"
| "ERROR_MESSAGES CONNECTION_RESET = ''Connection was reset''"
| "ERROR_MESSAGES TLS_ERROR = ''TLS connection failed''"
| "ERROR_MESSAGES TOO_MANY_REDIRECTS = ''Too many redirects''"
| "ERROR_MESSAGES INVALID_REDIRECT = ''Redirect destination is invalid''"
| "ERROR_MESSAGES INVALID_STATUS = ''Response status was outside the expected range''"
| "ERROR_MESSAGES CONTENT_MISMATCH = ''Expected text was not found in the response body''"
| "ERROR_MESSAGES BLOCKED_TARGET = ''Target is not publicly routable''"
| "ERROR_MESSAGES INVALID_URL = ''Target URL is invalid''"
| "ERROR_MESSAGES RESPONSE_ERROR = ''Response could not be read''"
| "ERROR_MESSAGES UNKNOWN = ''Check failed''"

definition lone_error :: "error_class \<Rightarrow> string option \<Rightarrow> check_error" where
  "lone_error c code = ([\<lparr>eo_class = c, eo_code = code, eo_cause = No_cause\<rparr>], Cause_ref 0)"

definition blocked_error :: check_error where
  "blocked_error = lone_error Blocked_target_error (Some ''BLOCKED_TARGET'')"

definition validation_error :: check_error where
  "validation_error = lone_error Monitor_validation_error None"

text \<open>The validation error of a URL that does not parse carries the parser's error.\<close>

definition unparsed_error :: check_error where
  "unparsed_error = ([\<lparr>eo_class = Monitor_validation_error, eo_code = None, eo_cause = Cause_ref 1\<rparr>,
      \<lparr>eo_class = Other_error, eo_code = Some ''ERR_INVALID_URL'', eo_cause = No_cause\<rparr>], Cause_ref 0)"

subsection \<open>Addresses\<close>

text \<open>What \<open>ipaddr.js\<close> says of an address: its range, and the range of the IPv4 address it maps.\<close>

datatype parsed_ip = Ipv4 string | Ipv6 string "string option"

definition PUBLIC_RANGE :: string where "PUBLIC_RANGE = ''unicast''"

definition isPublicAddress :: "(string \<Rightarrow> parsed_ip option) \<Rightarrow> string \<Rightarrow> bool" where
  "isPublicAddress parseIpAddress address = (case parseIpAddress address of
      None \<Rightarrow> False
    | Some (Ipv4 rng) \<Rightarrow> rng = PUBLIC_RANGE
    | Some (Ipv6 rng (Some mapped)) \<Rightarrow> mapped = PUBLIC_RANGE
    | Some (Ipv6 rng None) \<Rightarrow> rng = PUBLIC_RANGE)"

definition assertPublicAddress :: "(string \<Rightarrow> parsed_ip option) \<Rightarrow> string \<Rightarrow> check_error + unit" where
  "assertPublicAddress parseIpAddress address =
    (if isPublicAddress parseIpAddress address then Inr () else Inl blocked_error)"

definition normalizeIpLiteral :: "string \<Rightarrow> string" where
  "normalizeIpLiteral hostname =
    (if js_startsWith hostname ''['' \<and> js_endsWith hostname '']'' then butlast (tl hostname) else hostname)"

definition isIpLiteral :: "(string \<Rightarrow> parsed_ip option) \<Rightarrow> string \<Rightarrow> bool" where
  "isIpLiteral parseIpAddress hostname \<longleftrightarrow> parseIpAddress (normalizeIpLiteral hostname) \<noteq> None"

subsection \<open>The lookup\<close>

record lookup_address =
  la_address :: string
  la_family :: int

datatype lookup_options = Family_number int | Options_object "int option" bool | No_options

datatype lookup_answer = All_addresses "lookup_address list" | One_address string int

fun requestedFamily :: "lookup_options \<Rightarrow> int" where
  "requestedFamily (Family_number family) = family"
| "requestedFamily (Options_object family all) = or_else family 0"
| "requestedFamily No_options = 0"

fun wantsAll :: "lookup_options \<Rightarrow> bool" where
  "wantsAll (Options_object family all) = all"
| "wantsAll _ = False"

definition orderByFamilyPreference :: "lookup_address list \<Rightarrow> int \<Rightarrow> lookup_address list" where
  "orderByFamilyPreference addresses wantFamily =
    (let primary = (if wantFamily = 6 then 6 else 4)
     in filter (\<lambda>a. la_family a = primary) addresses @ filter (\<lambda>a. la_family a \<noteq> primary) addresses)"

definition parsed_family :: "parsed_ip option \<Rightarrow> int" where
  "parsed_family p = (case p of Some (Ipv4 _) \<Rightarrow> 4 | Some (Ipv6 _ _) \<Rightarrow> 6 | None \<Rightarrow> 0)"

fun assert_addresses :: "(string \<Rightarrow> parsed_ip option) \<Rightarrow> lookup_address list \<Rightarrow> check_error + unit" where
  "assert_addresses parseIpAddress [] = Inr ()"
| "assert_addresses parseIpAddress (a # rest) =
    res_bind (assertPublicAddress parseIpAddress (la_address a)) (\<lambda>_.
      if (la_family a \<noteq> 4 \<and> la_family a \<noteq> 6) \<or> la_family a \<noteq> parsed_family (parseIpAddress (la_address a))
      then Inl blocked_error
      else assert_addresses parseIpAddress rest)"

definition secureLookup ::
  "(string \<Rightarrow> parsed_ip option) \<Rightarrow> check_error + lookup_address list \<Rightarrow> lookup_options \<Rightarrow> check_error + lookup_answer" where
  "secureLookup parseIpAddress resolved options = res_bind resolved (\<lambda>addresses.
     if addresses = [] then Inl (lone_error Other_error (Some ''ENOTFOUND''))
     else res_bind (assert_addresses parseIpAddress addresses) (\<lambda>_.
       case orderByFamilyPreference addresses (requestedFamily options) of
         [] \<Rightarrow> Inl (lone_error Other_error (Some ''ENOTFOUND''))
       | selected # others \<Rightarrow>
           Inr (if wantsAll options then All_addresses (selected # others)
                else One_address (la_address selected) (la_family selected))))"

subsection \<open>The HTTP client\<close>

datatype header = One string | Many "string list"

text \<open>A body is what its stream yields: chunks, or an error. A body without a stream reads as empty.\<close>

record response =
  rp_statusCode :: int
  rp_headers :: "string \<Rightarrow> header option"
  rp_body :: "(check_error + byte list) list option"

text \<open>
  A request of undici: it may have a host name resolved and ask the lookup, it may open a socket with
  its own connector (the address of the peer, or an error) and hand it to the wrapper, and ends with a
  response or an error in the environment \<open>'s\<close>.
\<close>

datatype 's exchange =
    Finished "check_error + response" 's
  | Ask_lookup "check_error + lookup_address list" lookup_options "check_error + lookup_answer \<Rightarrow> 's exchange"
  | Ask_connect "check_error + string option" "check_error + string \<Rightarrow> 's exchange"

text \<open>\<open>createSecureConnect\<close>: the peer must be known and public.\<close>

definition secureConnect :: "(string \<Rightarrow> parsed_ip option) \<Rightarrow> check_error + string option \<Rightarrow> check_error + string" where
  "secureConnect parseIpAddress outcome = res_bind outcome (\<lambda>remote.
     if \<not> truthy remote then Inl blocked_error
     else (let address = normalizeIpLiteral (or_else remote []) in
       res_bind (assertPublicAddress parseIpAddress address) (\<lambda>_. Inr address)))"

text \<open>The exchange under the lookup and the connector of the checker, with the addresses that reached
  \<open>onConnectedAddress\<close>.\<close>

primrec run_exchange ::
  "(string \<Rightarrow> parsed_ip option) \<Rightarrow> 's exchange \<Rightarrow> (check_error + response) \<times> string list \<times> 's" where
  "run_exchange ip (Finished outcome s) = (outcome, [], s)"
| "run_exchange ip (Ask_lookup resolved options k) = run_exchange ip (k (secureLookup ip resolved options))"
| "run_exchange ip (Ask_connect outcome k) =
    (let peer = secureConnect ip outcome;
         (result, addresses, s) = run_exchange ip (k peer)
     in (result, (case peer of Inl _ \<Rightarrow> [] | Inr address \<Rightarrow> [address]) @ addresses, s))"

fun read_chunks :: "nat \<Rightarrow> byte list \<Rightarrow> (check_error + byte list) list \<Rightarrow> check_error + byte list" where
  "read_chunks limit acc [] = Inr acc"
| "read_chunks limit acc (Inl e # rest) = Inl e"
| "read_chunks limit acc (Inr chunk # rest) =
    (if length (acc @ chunk) \<ge> limit then Inr (acc @ chunk) else read_chunks limit (acc @ chunk) rest)"

definition readBodyPrefix ::
  "(byte list \<Rightarrow> string) \<Rightarrow> (check_error + byte list) list option \<Rightarrow> nat \<Rightarrow> check_error + string" where
  "readBodyPrefix utf8 body limitBytes = (case body of
      None \<Rightarrow> Inr []
    | Some chunks \<Rightarrow> res_bind (read_chunks limitBytes [] chunks) (\<lambda>bytes. Inr (utf8 (take limitBytes bytes))))"

definition headerValue :: "(string \<Rightarrow> header option) \<Rightarrow> string \<Rightarrow> string option" where
  "headerValue headers name =
    (case (case headers name of None \<Rightarrow> headers (js_lower name) | Some h \<Rightarrow> Some h) of
       None \<Rightarrow> None
     | Some (One v) \<Rightarrow> Some v
     | Some (Many vs) \<Rightarrow> (case vs of [] \<Rightarrow> None | v # _ \<Rightarrow> Some v))"

subsection \<open>Targets and results\<close>

datatype check_method = GET | HEAD
datatype check_mode = Scheduled_check | Manual_check

record check_target =
  ct_url :: string
  ct_method :: check_method
  ct_timeoutMs :: int
  ct_minimum :: int
  ct_maximum :: int
  ct_expectedText :: "string option"

record check_result =
  kr_mode :: check_mode
  kr_method :: check_method
  kr_requestedUrl :: string
  kr_finalUrl :: string
  kr_hostname :: string
  kr_resolvedAddress :: "string option"
  kr_statusCode :: "int option"
  kr_latencyMs :: int
  kr_redirectCount :: int
  kr_success :: bool
  kr_errorCode :: "check_error_code option"
  kr_errorMessage :: "string option"

record request_options =
  ro_method :: check_method
  ro_origin :: string
  ro_timeoutMs :: int
  ro_userAgent :: string
  ro_acceptEncoding :: "string option"

text \<open>The code outside and the environment. The checker is created with them and a user agent.\<close>

record 's checker =
  ck_newUrl :: "string \<Rightarrow> js_url option"
  ck_resolveUrl :: "string \<Rightarrow> js_url \<Rightarrow> js_url option"
  ck_parseIp :: "string \<Rightarrow> parsed_ip option"
  ck_utf8 :: "byte list \<Rightarrow> string"
  ck_now :: "'s \<Rightarrow> instant \<times> 's"
  ck_request :: "js_url \<Rightarrow> request_options \<Rightarrow> 's \<Rightarrow> 's exchange"
  ck_userAgent :: string

definition parsePublicHttpUrl :: "'s checker \<Rightarrow> string \<Rightarrow> check_error + js_url" where
  "parsePublicHttpUrl ck value = (case ck_newUrl ck value of
      None \<Rightarrow> Inl unparsed_error
    | Some url \<Rightarrow>
        res_bind (if isIpLiteral (ck_parseIp ck) (u_hostname url)
                  then assertPublicAddress (ck_parseIp ck) (normalizeIpLiteral (u_hostname url)) else Inr ())
          (\<lambda>_. if isPublicHttpUrl (ck_newUrl ck) value then Inr url else Inl validation_error))"

text \<open>\<open>validateCheckTarget\<close> on a target of the declared type.\<close>

definition validateCheckTarget :: "'s checker \<Rightarrow> check_target \<Rightarrow> check_error + check_target" where
  "validateCheckTarget ck t =
    (if ct_url t \<noteq> [] \<and> (case parsePublicHttpUrl ck (ct_url t) of Inl _ \<Rightarrow> False | Inr _ \<Rightarrow> True) \<and>
        1000 \<le> ct_timeoutMs t \<and> ct_timeoutMs t \<le> 15000 \<and>
        100 \<le> ct_minimum t \<and> ct_minimum t \<le> 599 \<and> 100 \<le> ct_maximum t \<and> ct_maximum t \<le> 599 \<and>
        ct_minimum t \<le> ct_maximum t \<and>
        (case ct_expectedText t of None \<Rightarrow> True | Some text \<Rightarrow> 1 \<le> length text \<and> length text \<le> 256) \<and>
        (ct_expectedText t = None \<or> ct_method t = GET)
     then Inr t else Inl validation_error)"

subsection \<open>The check\<close>

definition REDIRECT_STATUSES :: "int list" where "REDIRECT_STATUSES = [301, 302, 303, 307, 308]"
definition MAX_REDIRECTS :: int where "MAX_REDIRECTS = 5"
definition CONTENT_SCAN_LIMIT_BYTES :: nat where "CONTENT_SCAN_LIMIT_BYTES = 100 * 1024"

text \<open>The variables of \<open>check\<close>. \<open>cs_requests\<close> is no variable of the program: the requests made and the
  peers each of them connected to, for the laws.\<close>

record check_vars =
  cs_currentUrl :: "js_url option"
  cs_method :: check_method
  cs_redirects :: int
  cs_statusCode :: "int option"
  cs_resolvedAddress :: "string option"
  cs_dispatchers :: "string list"
  cs_connectedAddresses :: "(string \<times> string) list"
  cs_requests :: "(js_url \<times> string list) list"

definition metadata ::
  "'s checker \<Rightarrow> check_mode \<Rightarrow> check_target \<Rightarrow> instant \<Rightarrow> check_vars \<Rightarrow> instant \<Rightarrow> check_result" where
  "metadata ck mode input startedAt st at =
     \<lparr>kr_mode = mode, kr_method = cs_method st, kr_requestedUrl = ct_url input,
      kr_finalUrl = (case cs_currentUrl st of None \<Rightarrow> ct_url input | Some url \<Rightarrow> u_href url),
      kr_hostname = (case cs_currentUrl st of None \<Rightarrow> [] | Some url \<Rightarrow> u_hostname url),
      kr_resolvedAddress = cs_resolvedAddress st, kr_statusCode = cs_statusCode st,
      kr_latencyMs = max 0 (at - startedAt), kr_redirectCount = cs_redirects st,
      kr_success = True, kr_errorCode = None, kr_errorMessage = None\<rparr>"

definition failure :: "check_result \<Rightarrow> check_error_code \<Rightarrow> check_result" where
  "failure r code = r\<lparr>kr_success := False, kr_errorCode := Some code, kr_errorMessage := Some (ERROR_MESSAGES code)\<rparr>"

text \<open>One pass of the loop ends with the result or goes on with the variables.\<close>

type_synonym turn_result = "check_result \<times> check_vars + check_vars"

definition settled ::
  "'s checker \<Rightarrow> check_mode \<Rightarrow> check_target \<Rightarrow> instant \<Rightarrow> check_vars \<Rightarrow> check_error_code option \<Rightarrow> 's \<Rightarrow>
   (check_result \<times> check_vars) \<times> 's" where
  "settled ck mode input startedAt st verdict s =
    (let (at, s) = ck_now ck s;
         r = metadata ck mode input startedAt st at
     in ((case verdict of None \<Rightarrow> r | Some code \<Rightarrow> failure r code, st), s))"

definition conclude ::
  "'s checker \<Rightarrow> check_mode \<Rightarrow> check_target \<Rightarrow> instant \<Rightarrow> check_vars \<Rightarrow> check_error_code option \<Rightarrow> 's \<Rightarrow>
   turn_result \<times> 's" where
  "conclude ck mode input startedAt st verdict s =
    (let (out, s) = settled ck mode input startedAt st verdict s in (Inl out, s))"

definition with_request :: "js_url \<Rightarrow> string list \<Rightarrow> check_vars \<Rightarrow> check_vars" where
  "with_request url addresses st =
    (let connected = map (\<lambda>a. (u_origin url, a)) (rev addresses) @ cs_connectedAddresses st
     in st\<lparr>cs_connectedAddresses := connected, cs_resolvedAddress := map_of connected (u_origin url),
           cs_requests := cs_requests st @ [(url, addresses)]\<rparr>)"

text \<open>What a redirect leads to.\<close>

definition follow_redirect ::
  "'s checker \<Rightarrow> check_mode \<Rightarrow> check_target \<Rightarrow> instant \<Rightarrow> response \<Rightarrow> js_url \<Rightarrow> check_vars \<Rightarrow> 's \<Rightarrow> turn_result \<times> 's" where
  "follow_redirect ck mode input startedAt response url st s =
    (let location = headerValue (rp_headers response) ''location'' in
     if \<not> truthy location then conclude ck mode input startedAt st (Some INVALID_REDIRECT) s
     else (case (case ck_resolveUrl ck (or_else location []) url of
                   None \<Rightarrow> None
                 | Some u \<Rightarrow> (case parsePublicHttpUrl ck (u_href u) of Inl _ \<Rightarrow> None | Inr d \<Rightarrow> Some d)) of
        None \<Rightarrow> conclude ck mode input startedAt st (Some INVALID_REDIRECT) s
      | Some destination \<Rightarrow>
          if cs_redirects st \<ge> MAX_REDIRECTS then conclude ck mode input startedAt st (Some TOO_MANY_REDIRECTS) s
          else (Inr (st\<lparr>cs_redirects := cs_redirects st + 1,
                        cs_method := (if rp_statusCode response = 303 \<and> cs_method st \<noteq> HEAD then GET else cs_method st),
                        cs_currentUrl := Some destination\<rparr>), s)))"

definition judge_response ::
  "'s checker \<Rightarrow> check_mode \<Rightarrow> check_target \<Rightarrow> instant \<Rightarrow> response \<Rightarrow> js_url \<Rightarrow> check_vars \<Rightarrow> 's \<Rightarrow> turn_result \<times> 's" where
  "judge_response ck mode target startedAt response url st s =
    (if rp_statusCode response \<in> set REDIRECT_STATUSES then follow_redirect ck mode target startedAt response url st s
     else if rp_statusCode response < ct_minimum target \<or> rp_statusCode response > ct_maximum target
     then conclude ck mode target startedAt st (Some INVALID_STATUS) s
     else (case ct_expectedText target of
        None \<Rightarrow> conclude ck mode target startedAt st None s
      | Some text \<Rightarrow> (case readBodyPrefix (ck_utf8 ck) (rp_body response) CONTENT_SCAN_LIMIT_BYTES of
            Inl e \<Rightarrow> conclude ck mode target startedAt st (Some (classifyCheckError e)) s
          | Inr prefix \<Rightarrow>
              if js_includes prefix text then conclude ck mode target startedAt st None s
              else conclude ck mode target startedAt st (Some CONTENT_MISMATCH) s)))"

text \<open>Opening the dispatcher of an origin: a literal address must be public.\<close>

definition open_dispatcher :: "'s checker \<Rightarrow> js_url \<Rightarrow> check_vars \<Rightarrow> check_error + check_vars" where
  "open_dispatcher ck url st =
    (if u_origin url \<in> set (cs_dispatchers st)
     then Inr (st\<lparr>cs_resolvedAddress := map_of (cs_connectedAddresses st) (u_origin url)\<rparr>)
     else res_bind (if isIpLiteral (ck_parseIp ck) (u_hostname url)
                    then assertPublicAddress (ck_parseIp ck) (normalizeIpLiteral (u_hostname url)) else Inr ())
       (\<lambda>_. Inr (st\<lparr>cs_dispatchers := cs_dispatchers st @ [u_origin url]\<rparr>)))"

definition check_turn ::
  "'s checker \<Rightarrow> check_mode \<Rightarrow> check_target \<Rightarrow> instant \<Rightarrow> js_url \<Rightarrow> check_vars \<Rightarrow> 's \<Rightarrow> turn_result \<times> 's" where
  "check_turn ck mode target startedAt url st s =
    (let (at, s) = ck_now ck s;
         remaining = ct_timeoutMs target - (at - startedAt)
     in if remaining \<le> 0 then conclude ck mode target startedAt st (Some TIMEOUT) s
        else (case open_dispatcher ck url st of
          Inl e \<Rightarrow> conclude ck mode target startedAt st (Some (classifyCheckError e)) s
        | Inr st \<Rightarrow>
            (let (outcome, addresses, s) = run_exchange (ck_parseIp ck) (ck_request ck url
                   \<lparr>ro_method = cs_method st, ro_origin = u_origin url, ro_timeoutMs = remaining,
                    ro_userAgent = ck_userAgent ck,
                    ro_acceptEncoding = (case ct_expectedText target of None \<Rightarrow> None | Some _ \<Rightarrow> Some ''identity'')\<rparr> s);
                 st = with_request url addresses st
             in case outcome of
                  Inl e \<Rightarrow> conclude ck mode target startedAt st (Some (classifyCheckError e)) s
                | Inr response \<Rightarrow>
                    judge_response ck mode target startedAt response url
                      (st\<lparr>cs_statusCode := Some (rp_statusCode response)\<rparr>) s)))"

subsection \<open>What a pass keeps\<close>

text \<open>A URL the checker admits, and the variables as far as addresses go.\<close>

definition admitted :: "'s checker \<Rightarrow> js_url \<Rightarrow> bool" where
  "admitted ck url \<longleftrightarrow> (\<exists>v. parsePublicHttpUrl ck v = Inr url)"

definition vars_ok :: "'s checker \<Rightarrow> check_vars \<Rightarrow> bool" where
  "vars_ok ck st \<longleftrightarrow>
     (\<forall>(url, addresses) \<in> set (cs_requests st). admitted ck url \<and> list_all (isPublicAddress (ck_parseIp ck)) addresses) \<and>
     (\<forall>(origin, address) \<in> set (cs_connectedAddresses st). isPublicAddress (ck_parseIp ck) address) \<and>
     (\<forall>address. cs_resolvedAddress st = Some address \<longrightarrow> isPublicAddress (ck_parseIp ck) address) \<and>
     (\<forall>url. cs_currentUrl st = Some url \<longrightarrow> admitted ck url)"

definition status_accepted :: "check_target \<Rightarrow> int option \<Rightarrow> bool" where
  "status_accepted target status \<longleftrightarrow> (\<exists>code. status = Some code \<and> ct_minimum target \<le> code \<and> code \<le> ct_maximum target \<and>
     code \<notin> set REDIRECT_STATUSES)"

definition report_ok :: "check_target \<Rightarrow> check_result \<Rightarrow> check_vars \<Rightarrow> bool" where
  "report_ok target r st \<longleftrightarrow>
     0 \<le> kr_latencyMs r \<and> kr_requestedUrl r = ct_url target \<and> kr_resolvedAddress r = cs_resolvedAddress st \<and>
     kr_redirectCount r = cs_redirects st \<and> kr_statusCode r = cs_statusCode st \<and>
     (if kr_success r then kr_errorCode r = None \<and> kr_errorMessage r = None \<and> status_accepted target (kr_statusCode r)
      else \<exists>code. kr_errorCode r = Some code \<and> kr_errorMessage r = Some (ERROR_MESSAGES code))"

text \<open>A pass from the variables \<open>st0\<close>, made of \<open>n\<close> requests more.\<close>

definition turn_fits :: "'s checker \<Rightarrow> check_target \<Rightarrow> check_vars \<Rightarrow> nat \<Rightarrow> turn_result \<Rightarrow> bool" where
  "turn_fits ck target st0 n out \<longleftrightarrow> (case out of
      Inl (r, st) \<Rightarrow> vars_ok ck st \<and> report_ok target r st \<and> cs_redirects st = cs_redirects st0 \<and>
        length (cs_requests st) \<le> length (cs_requests st0) + n \<and> (kr_success r \<longrightarrow> length (cs_requests st) = length (cs_requests st0) + n)
    | Inr st \<Rightarrow> vars_ok ck st \<and> cs_redirects st0 < MAX_REDIRECTS \<and> cs_redirects st = cs_redirects st0 + 1 \<and>
        length (cs_requests st) = length (cs_requests st0) + n \<and> cs_currentUrl st \<noteq> None)"

lemma conclude_fits:
  assumes "vars_ok ck st" "verdict = None \<Longrightarrow> status_accepted target (cs_statusCode st)"
    and "cs_redirects st = cs_redirects st0" "length (cs_requests st) \<le> length (cs_requests st0) + n"
    and "verdict = None \<Longrightarrow> length (cs_requests st) = length (cs_requests st0) + n"
  shows "turn_fits ck target st0 n (fst (conclude ck mode target startedAt st verdict s))"
  using assms
  by (auto simp: turn_fits_def conclude_def settled_def Let_def report_ok_def metadata_def failure_def split: prod.split option.split)

lemma follow_redirect_fits:
  assumes "vars_ok ck st"
  shows "turn_fits ck target st 0 (fst (follow_redirect ck mode target startedAt response url st s))"
proof -
  have on: "turn_fits ck target st 0 (Inr (st\<lparr>cs_redirects := cs_redirects st + 1,
      cs_method := m, cs_currentUrl := Some d\<rparr>))"
    "turn_fits ck target st 0 (Inr (st\<lparr>cs_redirects := cs_redirects st + 1, cs_currentUrl := Some d\<rparr>))"
    if "parsePublicHttpUrl ck v = Inr d" "\<not> cs_redirects st \<ge> MAX_REDIRECTS" for m d v
    using assms that by (auto simp: turn_fits_def vars_ok_def admitted_def)
  show ?thesis
    unfolding follow_redirect_def Let_def
    using assms by (auto intro!: conclude_fits on split: option.splits sum.splits)
qed

lemma judge_response_fits:
  assumes "vars_ok ck st" "cs_statusCode st = Some (rp_statusCode response)"
  shows "turn_fits ck target st 0 (fst (judge_response ck mode target startedAt response url st s))"
proof -
  have accepted: "status_accepted target (cs_statusCode st)"
    if "rp_statusCode response \<notin> set REDIRECT_STATUSES"
      "\<not> (rp_statusCode response < ct_minimum target \<or> rp_statusCode response > ct_maximum target)"
    using that assms(2) by (simp add: status_accepted_def)
  show ?thesis
    unfolding judge_response_def
    using assms(1) follow_redirect_fits [OF assms(1)] accepted
    by (auto intro!: conclude_fits split: option.splits sum.splits)
qed

text \<open>The lookup answers with public addresses of the resolver only; so does the connector.\<close>

fun answered :: "lookup_answer \<Rightarrow> lookup_address list" where
  "answered (All_addresses as) = as"
| "answered (One_address a f) = [\<lparr>la_address = a, la_family = f\<rparr>]"

lemma assert_addresses_ok:
  "assert_addresses ip as = Inr u \<Longrightarrow>
   list_all (\<lambda>a. isPublicAddress ip (la_address a) \<and> la_family a = parsed_family (ip (la_address a))) as"
  by (induction as) (auto simp: res_bind_Inr_iff assertPublicAddress_def split: if_splits)

lemma secureLookup_public:
  assumes "secureLookup ip resolved options = Inr answer"
  shows "\<exists>addresses. resolved = Inr addresses \<and> (\<forall>a \<in> set (answered answer). a \<in> set addresses \<and>
    isPublicAddress ip (la_address a) \<and> la_family a = parsed_family (ip (la_address a)))"
proof -
  obtain addresses u where r: "resolved = Inr addresses" "assert_addresses ip addresses = Inr u"
    and a: "(case orderByFamilyPreference addresses (requestedFamily options) of
         [] \<Rightarrow> Inl (lone_error Other_error (Some ''ENOTFOUND''))
       | selected # others \<Rightarrow>
           Inr (if wantsAll options then All_addresses (selected # others)
                else One_address (la_address selected) (la_family selected))) = Inr answer"
    using assms by (auto simp: secureLookup_def res_bind_Inr_iff split: if_splits)
  have "set (answered answer) \<subseteq> set (orderByFamilyPreference addresses (requestedFamily options))"
    using a by (auto split: list.splits if_splits)
  also have "\<dots> = set addresses" by (auto simp: orderByFamilyPreference_def Let_def)
  finally show ?thesis using r assert_addresses_ok [OF r(2)] by (auto simp: list_all_iff)
qed

lemma run_exchange_public:
  "run_exchange ip e = (outcome, addresses, s) \<Longrightarrow> list_all (isPublicAddress ip) addresses"
proof (induction e arbitrary: outcome addresses s)
  case (Ask_lookup resolved options k)
  from Ask_lookup.prems show ?case by (auto dest: Ask_lookup.IH [OF rangeI])
next
  case (Ask_connect remote k)
  obtain o' as' s' where r: "run_exchange ip (k (secureConnect ip remote)) = (o', as', s')" by (metis prod.collapse)
  with Ask_connect.IH [OF rangeI] have "list_all (isPublicAddress ip) as'" by blast
  moreover have "isPublicAddress ip a" if "secureConnect ip remote = Inr a" for a
    using that by (auto simp: secureConnect_def res_bind_Inr_iff assertPublicAddress_def Let_def split: if_splits)
  ultimately show ?case using Ask_connect.prems r by (auto split: sum.splits)
qed auto

lemma open_dispatcher_ok:
  assumes "open_dispatcher ck url st = Inr st1" "vars_ok ck st"
  shows "vars_ok ck st1 \<and> cs_redirects st1 = cs_redirects st \<and> cs_requests st1 = cs_requests st"
  using assms by (auto simp: open_dispatcher_def vars_ok_def res_bind_Inr_iff dest!: map_of_SomeD split: if_splits)

lemma with_request_ok:
  assumes "vars_ok ck st" "admitted ck url" "list_all (isPublicAddress (ck_parseIp ck)) addresses"
  shows "vars_ok ck (with_request url addresses st)"
proof -
  let ?c = "map (\<lambda>a. (u_origin url, a)) (rev addresses) @ cs_connectedAddresses st"
  have c: "\<forall>(origin, address) \<in> set ?c. isPublicAddress (ck_parseIp ck) address"
    using assms(1,3) by (auto simp: vars_ok_def list_all_iff)
  then have "isPublicAddress (ck_parseIp ck) a" if "map_of ?c (u_origin url) = Some a" for a
    using map_of_SomeD [OF that] by auto
  with c assms show ?thesis by (auto simp: vars_ok_def with_request_def Let_def)
qed

lemma turn_fits_more:
  "turn_fits ck target st 0 out \<Longrightarrow> cs_redirects st = cs_redirects st0 \<Longrightarrow>
   length (cs_requests st) = length (cs_requests st0) + n \<Longrightarrow> turn_fits ck target st0 n out"
  by (auto simp: turn_fits_def split: sum.splits)

lemma check_turn_fits:
  assumes "vars_ok ck st" "cs_currentUrl st = Some url"
  shows "turn_fits ck target st 1 (fst (check_turn ck mode target startedAt url st s))"
proof -
  obtain at s1 where now: "ck_now ck s = (at, s1)" by fastforce
  show ?thesis
  proof (cases "open_dispatcher ck url st")
    case (Inl e)
    then show ?thesis unfolding check_turn_def Let_def now prod.case using assms(1)
      by (auto intro!: conclude_fits)
  next
    case (Inr st1)
    note st1 = open_dispatcher_ok [OF Inr assms(1)]
    let ?options = "\<lparr>ro_method = cs_method st1, ro_origin = u_origin url,
       ro_timeoutMs = ct_timeoutMs target - (at - startedAt), ro_userAgent = ck_userAgent ck,
       ro_acceptEncoding = (case ct_expectedText target of None \<Rightarrow> None | Some _ \<Rightarrow> Some ''identity'')\<rparr>"
    obtain outcome addresses s2 where ex:
      "run_exchange (ck_parseIp ck) (ck_request ck url ?options s1) = (outcome, addresses, s2)" by (metis prod.collapse)
    have "admitted ck url" using assms by (auto simp: vars_ok_def)
    then have ok: "vars_ok ck (with_request url addresses st1)"
      using with_request_ok [OF _ _ run_exchange_public [OF ex]] st1 by blast
    have len: "length (cs_requests (with_request url addresses st1)) = length (cs_requests st) + 1"
      "cs_redirects (with_request url addresses st1) = cs_redirects st"
      using st1 by (simp_all add: with_request_def Let_def)
    have judged: "turn_fits ck target st 1 (fst (judge_response ck mode target startedAt response url
        ((with_request url addresses st1)\<lparr>cs_statusCode := Some (rp_statusCode response)\<rparr>) s2))" for response
    proof (rule turn_fits_more [OF judge_response_fits])
      show "vars_ok ck ((with_request url addresses st1)\<lparr>cs_statusCode := Some (rp_statusCode response)\<rparr>)"
        using ok by (simp add: vars_ok_def)
    qed (use len in simp_all)
    show ?thesis unfolding check_turn_def Let_def now prod.case
      using Inr ex ok len judged assms(1)
      by (cases outcome) (auto intro!: conclude_fits)
  qed
qed

subsection \<open>The loop\<close>

text \<open>\<open>for (;;)\<close>: the number of redirects left bounds the passes.\<close>

lemma conclude_Inr [simp]: "conclude ck mode input startedAt st verdict s \<noteq> (Inr st', s')"
  by (simp add: conclude_def split: prod.split)

lemma follow_redirect_on:
  "follow_redirect ck mode target startedAt response url st s = (Inr st', s') \<Longrightarrow>
   cs_redirects st < MAX_REDIRECTS \<and> cs_redirects st' = cs_redirects st + 1"
  by (auto simp: follow_redirect_def Let_def not_le split: if_splits option.splits sum.splits)

lemma judge_response_on:
  "judge_response ck mode target startedAt response url st s = (Inr st', s') \<Longrightarrow>
   cs_redirects st < MAX_REDIRECTS \<and> cs_redirects st' = cs_redirects st + 1"
  by (auto simp: judge_response_def dest: follow_redirect_on split: if_splits option.splits sum.splits)

lemma check_turn_redirects:
  assumes "check_turn ck mode target startedAt url st s = (Inr st', s')"
  shows "cs_redirects st < MAX_REDIRECTS \<and> cs_redirects st' = cs_redirects st + 1"
proof -
  obtain st1 response addresses s2 where "open_dispatcher ck url st = Inr st1"
    and "judge_response ck mode target startedAt response url
      ((with_request url addresses st1)\<lparr>cs_statusCode := Some (rp_statusCode response)\<rparr>) s2 = (Inr st', s')"
    using assms by (auto simp: check_turn_def Let_def split: prod.splits if_splits sum.splits)
  with judge_response_on [OF this(2)] show ?thesis
    by (auto simp: with_request_def Let_def open_dispatcher_def res_bind_Inr_iff split: if_splits)
qed

function check_loop ::
  "'s checker \<Rightarrow> check_mode \<Rightarrow> check_target \<Rightarrow> instant \<Rightarrow> js_url \<Rightarrow> check_vars \<Rightarrow> 's \<Rightarrow> (check_result \<times> check_vars) \<times> 's" where
  "check_loop ck mode target startedAt url st s =
    (case check_turn ck mode target startedAt url st s of
       (Inl result, s) \<Rightarrow> (result, s)
     | (Inr st, s) \<Rightarrow> check_loop ck mode target startedAt (case cs_currentUrl st of None \<Rightarrow> url | Some u \<Rightarrow> u) st s)"
  by pat_completeness auto
termination
  by (relation "measure (\<lambda>(ck, mode, target, startedAt, url, st, s). nat (MAX_REDIRECTS - cs_redirects st))")
    (auto dest!: check_turn_redirects [OF sym])

declare check_loop.simps [simp del]

definition check :: "'s checker \<Rightarrow> check_mode \<Rightarrow> check_target \<Rightarrow> 's \<Rightarrow> (check_result \<times> check_vars) \<times> 's" where
  "check ck mode input s =
    (let (startedAt, s) = ck_now ck s;
         st = \<lparr>cs_currentUrl = None, cs_method = ct_method input, cs_redirects = 0, cs_statusCode = None,
               cs_resolvedAddress = None, cs_dispatchers = [], cs_connectedAddresses = [], cs_requests = []\<rparr>;
         stop = (\<lambda>e st. settled ck mode input startedAt st (Some (classifyCheckError e)))
     in case parsePublicHttpUrl ck (ct_url input) of
          Inl e \<Rightarrow> stop e st s
        | Inr url \<Rightarrow>
            (let st = st\<lparr>cs_currentUrl := Some url\<rparr>
             in case validateCheckTarget ck input of
                  Inl e \<Rightarrow> stop e st s
                | Inr target \<Rightarrow> check_loop ck mode target startedAt url st s))"

text \<open>\<open>runManualCheck\<close>: the defaults of a check that a person asks for.\<close>

record manual_options =
  mo_method :: "check_method option"
  mo_timeoutMs :: "int option"
  mo_expectedStatus :: "(int \<times> int) option"
  mo_expectedText :: "string option"
  mo_userAgent :: "string option"

definition runManualCheck :: "'s checker \<Rightarrow> string \<Rightarrow> manual_options \<Rightarrow> 's \<Rightarrow> (check_result \<times> check_vars) \<times> 's" where
  "runManualCheck ck url options =
     check (ck\<lparr>ck_userAgent := or_else (mo_userAgent options) (ck_userAgent ck)\<rparr>) Manual_check
       \<lparr>ct_url = url, ct_method = or_else (mo_method options) GET, ct_timeoutMs = or_else (mo_timeoutMs options) 8000,
        ct_minimum = fst (or_else (mo_expectedStatus options) (200, 399)),
        ct_maximum = snd (or_else (mo_expectedStatus options) (200, 399)),
        ct_expectedText = mo_expectedText options\<rparr>"

subsection \<open>The laws\<close>

definition loop_fits :: "'s checker \<Rightarrow> check_target \<Rightarrow> (check_result \<times> check_vars) \<Rightarrow> bool" where
  "loop_fits ck target = (\<lambda>(r, st). vars_ok ck st \<and> report_ok target r st \<and>
     0 \<le> cs_redirects st \<and> cs_redirects st \<le> MAX_REDIRECTS \<and> int (length (cs_requests st)) \<le> cs_redirects st + 1 \<and>
     (kr_success r \<longrightarrow> int (length (cs_requests st)) = cs_redirects st + 1))"

lemma check_loop_fits:
  assumes "vars_ok ck st" "cs_currentUrl st = Some url" "int (length (cs_requests st)) = cs_redirects st"
    "cs_redirects st \<le> MAX_REDIRECTS"
  shows "loop_fits ck target (fst (check_loop ck mode target startedAt url st s))"
  using assms
proof (induction ck mode target startedAt url st s rule: check_loop.induct)
  case (1 ck mode target startedAt url st s)
  note fits = check_turn_fits [OF 1(2,3), of target mode startedAt s]
  obtain out s1 where turn: "check_turn ck mode target startedAt url st s = (out, s1)" by fastforce
  show ?case
  proof (cases out)
    case (Inl result)
    then show ?thesis
      using fits turn 1(4,5) by (auto simp: check_loop.simps turn_fits_def loop_fits_def split: prod.splits)
  next
    case (Inr st1)
    then have st1: "vars_ok ck st1" "cs_redirects st < MAX_REDIRECTS" "cs_redirects st1 = cs_redirects st + 1"
      "length (cs_requests st1) = length (cs_requests st) + 1" "cs_currentUrl st1 \<noteq> None"
      using fits turn by (simp_all add: turn_fits_def)
    then obtain u where u: "cs_currentUrl st1 = Some u" by blast
    have "loop_fits ck target (fst (check_loop ck mode target startedAt (case cs_currentUrl st1 of None \<Rightarrow> url | Some u \<Rightarrow> u) st1 s1))"
      by (rule 1(1) [OF turn [symmetric, unfolded Inr] refl]) (use st1 u 1(4) in simp_all)
    then show ?thesis by (simp add: check_loop.simps [of ck mode target startedAt url] turn Inr)
  qed
qed

lemma check_fits: "loop_fits ck input (fst (check ck mode input s))"
proof -
  have stop: "loop_fits ck input (fst (settled ck mode input startedAt st (Some code) s'))"
    if "vars_ok ck st" "cs_redirects st = 0" "cs_requests st = []" for startedAt st code s'
    using that by (auto simp: loop_fits_def settled_def Let_def report_ok_def metadata_def failure_def MAX_REDIRECTS_def
        split: prod.split)
  show ?thesis
    unfolding check_def Let_def
    by (auto simp: vars_ok_def admitted_def validateCheckTarget_def MAX_REDIRECTS_def
        intro!: stop check_loop_fits split: prod.split sum.split)
qed

text \<open>C7. A check never leaves the public Internet. Whatever the target, the redirects, the resolver and the
  client do: every URL requested is one the public-URL policy accepts, and is no literal of a private
  address; every peer a request went through, and the address the result reports, is public; and the
  lookup answers with addresses of the resolver that are all public, each under its own family.\<close>

theorem check_stays_public:
  assumes "check ck mode input s = ((r, st), s')"
  shows "(\<forall>(url, peers) \<in> set (cs_requests st).
      (\<exists>v. ck_newUrl ck v = Some url \<and> isPublicHttpUrl (ck_newUrl ck) v) \<and>
      (isIpLiteral (ck_parseIp ck) (u_hostname url) \<longrightarrow>
         isPublicAddress (ck_parseIp ck) (normalizeIpLiteral (u_hostname url))) \<and>
      (\<forall>peer \<in> set peers. isPublicAddress (ck_parseIp ck) peer)) \<and>
    (\<forall>address. kr_resolvedAddress r = Some address \<longrightarrow> isPublicAddress (ck_parseIp ck) address) \<and>
    (\<forall>resolved options answer. secureLookup (ck_parseIp ck) resolved options = Inr answer \<longrightarrow>
       (\<exists>addresses. resolved = Inr addresses \<and> (\<forall>a \<in> set (answered answer). a \<in> set addresses \<and>
          isPublicAddress (ck_parseIp ck) (la_address a) \<and> la_family a = parsed_family (ck_parseIp ck (la_address a)))))"
proof -
  have fits: "vars_ok ck st" "report_ok input r st"
    using check_fits [of ck input mode s] assms by (simp_all add: loop_fits_def)
  have admitted: "(\<exists>v. ck_newUrl ck v = Some url \<and> isPublicHttpUrl (ck_newUrl ck) v) \<and>
      (isIpLiteral (ck_parseIp ck) (u_hostname url) \<longrightarrow>
         isPublicAddress (ck_parseIp ck) (normalizeIpLiteral (u_hostname url)))" if "admitted ck url" for url
    using that by (fastforce simp: admitted_def parsePublicHttpUrl_def res_bind_Inr_iff assertPublicAddress_def
        split: option.splits if_splits)
  show ?thesis
    using fits admitted secureLookup_public by (fastforce simp: vars_ok_def report_ok_def list_all_iff)
qed

text \<open>C20. A check always answers, and its answer fits what it did: it follows at most five redirects with one
  request each and one more, never raises, and reports either a success - no error, a final status in the
  expected range, after a request for every redirect and the last one - or one error code with its own
  message; the latency is never negative.\<close>

theorem check_settles:
  "case check ck mode input s of ((r, st), s') \<Rightarrow>
     0 \<le> kr_latencyMs r \<and> kr_requestedUrl r = ct_url input \<and>
     0 \<le> kr_redirectCount r \<and> kr_redirectCount r \<le> 5 \<and> int (length (cs_requests st)) \<le> kr_redirectCount r + 1 \<and>
     (if kr_success r
      then kr_errorCode r = None \<and> kr_errorMessage r = None \<and> int (length (cs_requests st)) = kr_redirectCount r + 1 \<and>
        (\<exists>code. kr_statusCode r = Some code \<and> ct_minimum input \<le> code \<and> code \<le> ct_maximum input \<and>
           code \<notin> {301, 302, 303, 307, 308})
      else \<exists>code. kr_errorCode r = Some code \<and> kr_errorMessage r = Some (ERROR_MESSAGES code))"
  using check_fits [of ck input mode s]
  by (auto simp: loop_fits_def report_ok_def status_accepted_def MAX_REDIRECTS_def REDIRECT_STATUSES_def)

text \<open>A check that follows one redirect, with the connector asked for every request.\<close>

definition sample_checker :: "nat checker" where
  "sample_checker = \<lparr>
     ck_newUrl = (\<lambda>v. Some \<lparr>u_href = v, u_protocol = ''http:'', u_hostname = drop 7 v, u_port = [], u_username = [],
        u_password = [], u_origin = v\<rparr>),
     ck_resolveUrl = (\<lambda>v base. Some \<lparr>u_href = v, u_protocol = ''http:'', u_hostname = drop 7 v, u_port = [],
        u_username = [], u_password = [], u_origin = v\<rparr>),
     ck_parseIp = (\<lambda>a. if a = ''203.0.114.7'' then Some (Ipv4 ''unicast'') else None),
     ck_utf8 = (\<lambda>b. []), ck_now = (\<lambda>s. (int s, s + 40)),
     ck_request = (\<lambda>url options s. Ask_connect (Inr (Some ''203.0.114.7'')) (\<lambda>peer. Finished (case peer of
         Inl e \<Rightarrow> Inl e
       | Inr a \<Rightarrow> Inr (if u_hostname url = ''a.example''
           then \<lparr>rp_statusCode = 302, rp_headers = (\<lambda>h. Some (One ''http://b.example'')), rp_body = None\<rparr>
           else \<lparr>rp_statusCode = 200, rp_headers = (\<lambda>h. None), rp_body = None\<rparr>)) s)),
     ck_userAgent = ''Pulse-Uptime/1.0''\<rparr>"

definition sample_target :: check_target where
  "sample_target = \<lparr>ct_url = ''http://a.example'', ct_method = GET, ct_timeoutMs = 8000, ct_minimum = 200,
     ct_maximum = 399, ct_expectedText = None\<rparr>"

theorem check_stays_public_witness:
  "\<exists>r st s'. check sample_checker Scheduled_check sample_target 0 = ((r, st), s') \<and>
     map (\<lambda>(url, peers). (u_hostname url, peers)) (cs_requests st) =
       [(''a.example'', [''203.0.114.7'']), (''b.example'', [''203.0.114.7''])] \<and>
     isPublicAddress (ck_parseIp sample_checker) ''203.0.114.7''"
proof -
  obtain r st s' where c: "check sample_checker Scheduled_check sample_target 0 = ((r, st), s')" by (metis prod.collapse)
  have "map (\<lambda>(url, peers). (u_hostname url, peers))
      (cs_requests (snd (fst (check sample_checker Scheduled_check sample_target 0)))) =
       [(''a.example'', [''203.0.114.7'']), (''b.example'', [''203.0.114.7''])]"
    by code_simp
  then have m: "map (\<lambda>(url, peers). (u_hostname url, peers)) (cs_requests st) =
       [(''a.example'', [''203.0.114.7'']), (''b.example'', [''203.0.114.7''])]" using c by simp
  then obtain url where "(url, [''203.0.114.7'']) \<in> set (cs_requests st)" by (cases "cs_requests st") auto
  with check_stays_public [OF c] have "isPublicAddress (ck_parseIp sample_checker) ''203.0.114.7''" by fastforce
  with c m show ?thesis by (intro exI [of _ r] exI [of _ st] exI [of _ s'] conjI)
qed

theorem check_settles_witness:
  "kr_success (fst (fst (check sample_checker Scheduled_check sample_target 0))) \<and>
   kr_redirectCount (fst (fst (check sample_checker Scheduled_check sample_target 0))) = 1 \<and>
   length (cs_requests (snd (fst (check sample_checker Scheduled_check sample_target 0)))) = 2"
proof -
  have "kr_success (fst (fst (check sample_checker Scheduled_check sample_target 0)))"
    "kr_redirectCount (fst (fst (check sample_checker Scheduled_check sample_target 0))) = 1"
    by code_simp+
  with check_settles [where ck = sample_checker and mode = Scheduled_check and input = sample_target and s = 0] show ?thesis by (auto split: prod.splits)
qed

end
