(* ===== verification/Config_Schema.thy ===== *)
theory Config_Schema
  imports Config_Json Public_Url
begin

text \<open>
  The configuration document, \<open>lib/config/schema.ts\<close>, \<open>validation.ts\<close>, \<open>canonical.ts\<close> and
  \<open>export.ts\<close>: its records, the checks of the schema, the normal form, the digest, the size limit and
  the two versions of the document. The schema library parses an unknown value into the shape of the
  records or refuses it (\<open>Malformed\<close>); what the schemas ask beyond the shape is modelled. Outside the
  program, and arguments here: the e-mail pattern of the library, the URL parser and the text of a
  parsed URL with a lower-case host, and SHA-256.
\<close>

subsection \<open>Documents\<close>

definition MAX_ACTIVE_MONITORS :: nat where "MAX_ACTIVE_MONITORS = 100"
definition MAX_MONITOR_GROUPS :: nat where "MAX_MONITOR_GROUPS = 100"
definition MAX_CONFIG_BYTES :: nat where "MAX_CONFIG_BYTES = 55 * 1024"

record expected_status =
  es_minimum :: int
  es_maximum :: int

record group_config =
  gc_id :: string
  gc_name :: string

datatype config_method = Method_get | Method_head

record monitor_fields =
  mf_id :: string
  mf_name :: string
  mf_url :: string
  mf_enabled :: bool
  mf_method :: config_method
  mf_intervalMinutes :: int
  mf_timeoutMs :: int
  mf_expectedStatus :: expected_status
  mf_failureThreshold :: int
  mf_recoveryThreshold :: int
  mf_recipients :: "string list"

record monitor_config = monitor_fields +
  mf_expectedText :: "string option"
  mf_groupId :: "string option"

record legacy_monitor_config = monitor_fields +
  mf_group :: "string option"

record monitoring_settings =
  se_concurrency :: int
  se_defaultTimeoutMs :: int
  se_defaultFailureThreshold :: int
  se_defaultRecoveryThreshold :: int
  se_defaultRecipients :: "string list"
  se_userAgent :: string

record declarative_config =
  dc_settings :: monitoring_settings
  dc_groups :: "group_config list"
  dc_monitors :: "monitor_config list"

record legacy_document =
  ld_settings :: monitoring_settings
  ld_monitors :: "legacy_monitor_config list"

record monitoring_config =
  cf_configVersion :: int
  cf_document :: declarative_config

datatype declarative_input = Malformed | Version_1 legacy_document | Version_2 declarative_config
datatype monitoring_input = Malformed_runtime | Runtime_1 int legacy_document | Runtime_2 monitoring_config

datatype config_error = Schema_error | Config_size_error nat

record config_lib =
  li_isEmail :: "string \<Rightarrow> bool"
  li_newUrl :: "string \<Rightarrow> js_url option"
  li_lowerHostUrl :: "string \<Rightarrow> string"
  li_sha256 :: "string \<Rightarrow> string"

subsection \<open>The schemas\<close>

text \<open>\<open>DISPLAY_CONTROL_CHARS\<close> among the code units below U+0100.\<close>

definition display_control :: "char \<Rightarrow> bool" where
  "display_control c \<longleftrightarrow> (let n = (of_char c :: nat) in n \<le> 31 \<or> (127 \<le> n \<and> n \<le> 159))"

text \<open>A string schema answers with the string it keeps.\<close>

definition displayName :: "nat \<Rightarrow> nat \<Rightarrow> string \<Rightarrow> string option" where
  "displayName lo hi v = (let v = js_trim v in
     if lo \<le> length v \<and> length v \<le> hi \<and> \<not> list_ex display_control v then Some v else None)"

definition emailSchema :: "config_lib \<Rightarrow> string \<Rightarrow> string option" where
  "emailSchema lib v = (let v = js_trim v in if li_isEmail lib v then Some v else None)"

fun all_parsed :: "('a \<Rightarrow> 'b option) \<Rightarrow> 'a list \<Rightarrow> 'b list option" where
  "all_parsed f [] = Some []"
| "all_parsed f (x # xs) = (case (f x, all_parsed f xs) of (Some y, Some ys) \<Rightarrow> Some (y # ys) | _ \<Rightarrow> None)"

definition recipientsSchema :: "config_lib \<Rightarrow> string list \<Rightarrow> string list option" where
  "recipientsSchema lib vs = (if length vs \<le> 20 then all_parsed (emailSchema lib) vs else None)"

text \<open>\<open>/^[a-z0-9]+(?:-[a-z0-9]+)*$/\<close>, with three to sixty-four characters.\<close>

definition slug_char :: "char \<Rightarrow> bool" where
  "slug_char c \<longleftrightarrow> (let n = (of_char c :: nat) in (97 \<le> n \<and> n \<le> 122) \<or> (48 \<le> n \<and> n \<le> 57))"

definition slugSchema :: "string \<Rightarrow> bool" where
  "slugSchema v \<longleftrightarrow> list_all (\<lambda>part. part \<noteq> [] \<and> list_all slug_char part) (js_split CHR ''-'' v) \<and>
     3 \<le> length v \<and> length v \<le> 64"

definition expectedStatusSchema :: "expected_status \<Rightarrow> bool" where
  "expectedStatusSchema s \<longleftrightarrow> 100 \<le> es_minimum s \<and> es_minimum s \<le> 599 \<and> 100 \<le> es_maximum s \<and> es_maximum s \<le> 599 \<and>
     es_minimum s \<le> es_maximum s"

definition groupConfigSchema :: "group_config \<Rightarrow> group_config option" where
  "groupConfigSchema g = (case displayName 1 50 (gc_name g) of
      Some name \<Rightarrow> if slugSchema (gc_id g) then Some (g\<lparr>gc_name := name\<rparr>) else None
    | None \<Rightarrow> None)"

definition monitorFields :: "config_lib \<Rightarrow> 'x monitor_fields_scheme \<Rightarrow> 'x monitor_fields_scheme option" where
  "monitorFields lib v = (case (displayName 1 80 (mf_name v), recipientsSchema lib (mf_recipients v)) of
      (Some name, Some recipients) \<Rightarrow>
        if slugSchema (mf_id v) \<and> isPublicHttpUrl (li_newUrl lib) (mf_url v) \<and>
           mf_intervalMinutes v \<in> {1, 5, 10, 15} \<and> 1000 \<le> mf_timeoutMs v \<and> mf_timeoutMs v \<le> 15000 \<and>
           expectedStatusSchema (mf_expectedStatus v) \<and>
           1 \<le> mf_failureThreshold v \<and> mf_failureThreshold v \<le> 5 \<and>
           1 \<le> mf_recoveryThreshold v \<and> mf_recoveryThreshold v \<le> 5
        then Some (v\<lparr>mf_name := name, mf_recipients := recipients\<rparr>) else None
    | _ \<Rightarrow> None)"

text \<open>An optional or nullable string.\<close>

definition optional :: "('a \<Rightarrow> 'b option) \<Rightarrow> 'a option \<Rightarrow> 'b option option" where
  "optional f v = (case v of None \<Rightarrow> Some None | Some x \<Rightarrow> (case f x of None \<Rightarrow> None | Some y \<Rightarrow> Some (Some y)))"

definition monitorConfigSchema :: "config_lib \<Rightarrow> monitor_config \<Rightarrow> monitor_config option" where
  "monitorConfigSchema lib v = (case (monitorFields lib v, optional (displayName 1 256) (mf_expectedText v)) of
      (Some v', Some text) \<Rightarrow>
        if (case mf_groupId v of None \<Rightarrow> True | Some g \<Rightarrow> slugSchema g) \<and> (text = None \<or> mf_method v = Method_get)
        then Some (v'\<lparr>mf_expectedText := text\<rparr>) else None
    | _ \<Rightarrow> None)"

definition legacyMonitorConfigSchema :: "config_lib \<Rightarrow> legacy_monitor_config \<Rightarrow> legacy_monitor_config option" where
  "legacyMonitorConfigSchema lib v = (case (monitorFields lib v, optional (displayName 1 50) (mf_group v)) of
      (Some v', Some name) \<Rightarrow> Some (v'\<lparr>mf_group := name\<rparr>)
    | _ \<Rightarrow> None)"

definition monitoringSettingsSchema :: "config_lib \<Rightarrow> monitoring_settings \<Rightarrow> monitoring_settings option" where
  "monitoringSettingsSchema lib v = (case recipientsSchema lib (se_defaultRecipients v) of
      Some recipients \<Rightarrow>
        if 1 \<le> se_concurrency v \<and> 1000 \<le> se_defaultTimeoutMs v \<and> se_defaultTimeoutMs v \<le> 15000 \<and>
           1 \<le> se_defaultFailureThreshold v \<and> se_defaultFailureThreshold v \<le> 5 \<and>
           1 \<le> se_defaultRecoveryThreshold v \<and> se_defaultRecoveryThreshold v \<le> 5 \<and> js_trim (se_userAgent v) \<noteq> []
        then Some (v\<lparr>se_defaultRecipients := recipients, se_userAgent := js_trim (se_userAgent v)\<rparr>) else None
    | None \<Rightarrow> None)"

text \<open>\<open>validateMonitorCollection\<close> adds no issue.\<close>

definition validateMonitorCollection :: "group_config list \<Rightarrow> monitor_config list \<Rightarrow> bool" where
  "validateMonitorCollection groups monitors \<longleftrightarrow>
     distinct (map mf_id monitors) \<and> length (filter mf_enabled monitors) \<le> MAX_ACTIVE_MONITORS \<and>
     length groups \<le> MAX_MONITOR_GROUPS \<and> distinct (map gc_id groups) \<and>
     distinct (map (\<lambda>g. js_lower (js_trim (gc_name g))) groups) \<and>
     list_all (\<lambda>m. case mf_groupId m of None \<Rightarrow> True | Some g \<Rightarrow> g \<in> set (map gc_id groups)) monitors"

definition validateLegacyMonitorCollection :: "legacy_monitor_config list \<Rightarrow> bool" where
  "validateLegacyMonitorCollection monitors \<longleftrightarrow>
     distinct (map mf_id monitors) \<and> length (filter mf_enabled monitors) \<le> MAX_ACTIVE_MONITORS"

definition declarativeConfigSchema :: "config_lib \<Rightarrow> declarative_config \<Rightarrow> config_error + declarative_config" where
  "declarativeConfigSchema lib c =
    (case (monitoringSettingsSchema lib (dc_settings c), all_parsed groupConfigSchema (dc_groups c),
           all_parsed (monitorConfigSchema lib) (dc_monitors c)) of
       (Some settings, Some groups, Some monitors) \<Rightarrow>
         if validateMonitorCollection groups monitors
         then Inr \<lparr>dc_settings = settings, dc_groups = groups, dc_monitors = monitors\<rparr> else Inl Schema_error
     | _ \<Rightarrow> Inl Schema_error)"

definition monitoringConfigSchema :: "config_lib \<Rightarrow> monitoring_config \<Rightarrow> config_error + monitoring_config" where
  "monitoringConfigSchema lib c =
    (if cf_configVersion c < 0 then Inl Schema_error
     else res_bind (declarativeConfigSchema lib (cf_document c)) (\<lambda>d. Inr (c\<lparr>cf_document := d\<rparr>)))"

definition legacyDocumentSchema :: "config_lib \<Rightarrow> legacy_document \<Rightarrow> config_error + legacy_document" where
  "legacyDocumentSchema lib c =
    (case (monitoringSettingsSchema lib (ld_settings c), all_parsed (legacyMonitorConfigSchema lib) (ld_monitors c)) of
       (Some settings, Some monitors) \<Rightarrow>
         if validateLegacyMonitorCollection monitors
         then Inr \<lparr>ld_settings = settings, ld_monitors = monitors\<rparr> else Inl Schema_error
     | _ \<Rightarrow> Inl Schema_error)"

subsection \<open>The normal form\<close>

definition normalizeRecipients_config :: "string list \<Rightarrow> string list" where
  "normalizeRecipients_config recipients = sort (js_unique (map (\<lambda>email. js_lower (js_trim email)) recipients))"

definition normalizeMonitor :: "config_lib \<Rightarrow> monitor_config \<Rightarrow> monitor_config" where
  "normalizeMonitor lib v = v\<lparr>mf_name := js_trim (mf_name v), mf_url := li_lowerHostUrl lib (mf_url v),
     mf_recipients := normalizeRecipients_config (mf_recipients v)\<rparr>"

definition normalizeGroup :: "group_config \<Rightarrow> group_config" where
  "normalizeGroup g = \<lparr>gc_id = gc_id g, gc_name = js_trim (gc_name g)\<rparr>"

definition normalizeSettings :: "monitoring_settings \<Rightarrow> monitoring_settings" where
  "normalizeSettings v = v\<lparr>se_defaultRecipients := normalizeRecipients_config (se_defaultRecipients v),
     se_userAgent := js_trim (se_userAgent v)\<rparr>"

definition normalizeDeclarativeConfig :: "config_lib \<Rightarrow> declarative_config \<Rightarrow> declarative_config" where
  "normalizeDeclarativeConfig lib c =
     \<lparr>dc_settings = normalizeSettings (dc_settings c),
      dc_groups = sort_key gc_id (map normalizeGroup (dc_groups c)),
      dc_monitors = sort_key mf_id (map (normalizeMonitor lib) (dc_monitors c))\<rparr>"

definition normalizeMonitoringConfig :: "config_lib \<Rightarrow> monitoring_config \<Rightarrow> monitoring_config" where
  "normalizeMonitoringConfig lib c = c\<lparr>cf_document := normalizeDeclarativeConfig lib (cf_document c)\<rparr>"

definition normalizeLegacyMonitor :: "config_lib \<Rightarrow> legacy_monitor_config \<Rightarrow> legacy_monitor_config" where
  "normalizeLegacyMonitor lib v = v\<lparr>mf_name := js_trim (mf_name v), mf_url := li_lowerHostUrl lib (mf_url v),
     mf_group := (case mf_group v of None \<Rightarrow> None
       | Some g \<Rightarrow> if js_trim g = [] then None else Some (js_trim g)),
     mf_recipients := normalizeRecipients_config (mf_recipients v)\<rparr>"

definition normalizeLegacyDocument :: "config_lib \<Rightarrow> legacy_document \<Rightarrow> legacy_document" where
  "normalizeLegacyDocument lib c =
     \<lparr>ld_settings = normalizeSettings (ld_settings c),
      ld_monitors = sort_key mf_id (map (normalizeLegacyMonitor lib) (ld_monitors c))\<rparr>"

subsection \<open>As JSON\<close>

definition nullable :: "string option \<Rightarrow> json" where
  "nullable v = (case v of None \<Rightarrow> J_null | Some x \<Rightarrow> J_string x)"

definition fields_json :: "'x monitor_fields_scheme \<Rightarrow> (string \<times> json) list" where
  "fields_json v =
     [(''id'', J_string (mf_id v)), (''name'', J_string (mf_name v)), (''url'', J_string (mf_url v)),
      (''enabled'', J_bool (mf_enabled v)),
      (''method'', J_string (case mf_method v of Method_get \<Rightarrow> ''GET'' | Method_head \<Rightarrow> ''HEAD'')),
      (''intervalMinutes'', J_int (mf_intervalMinutes v)), (''timeoutMs'', J_int (mf_timeoutMs v)),
      (''expectedStatus'', J_object [(''minimum'', J_int (es_minimum (mf_expectedStatus v))),
         (''maximum'', J_int (es_maximum (mf_expectedStatus v)))]),
      (''failureThreshold'', J_int (mf_failureThreshold v)), (''recoveryThreshold'', J_int (mf_recoveryThreshold v)),
      (''recipients'', J_array (map J_string (mf_recipients v)))]"

text \<open>The keys a monitor has: an omitted \<open>expectedText\<close> stays omitted.\<close>

definition monitor_entries :: "monitor_config \<Rightarrow> (string \<times> json) list" where
  "monitor_entries v = fields_json v @
     (case mf_expectedText v of None \<Rightarrow> [] | Some text \<Rightarrow> [(''expectedText'', J_string text)]) @
     [(''groupId'', nullable (mf_groupId v))]"

definition monitor_json :: "monitor_config \<Rightarrow> json" where
  "monitor_json v = J_object (monitor_entries v)"

definition legacy_monitor_json :: "legacy_monitor_config \<Rightarrow> json" where
  "legacy_monitor_json v = J_object (fields_json v @ [(''group'', nullable (mf_group v))])"

definition group_json :: "group_config \<Rightarrow> json" where
  "group_json g = J_object [(''id'', J_string (gc_id g)), (''name'', J_string (gc_name g))]"

definition settings_entries :: "monitoring_settings \<Rightarrow> (string \<times> json) list" where
  "settings_entries v =
     [(''concurrency'', J_int (se_concurrency v)), (''defaultTimeoutMs'', J_int (se_defaultTimeoutMs v)),
      (''defaultFailureThreshold'', J_int (se_defaultFailureThreshold v)),
      (''defaultRecoveryThreshold'', J_int (se_defaultRecoveryThreshold v)),
      (''defaultRecipients'', J_array (map J_string (se_defaultRecipients v))),
      (''userAgent'', J_string (se_userAgent v))]"

definition document_entries :: "declarative_config \<Rightarrow> (string \<times> json) list" where
  "document_entries c = [(''settings'', J_object (settings_entries (dc_settings c))),
     (''groups'', J_array (map group_json (dc_groups c))), (''monitors'', J_array (map monitor_json (dc_monitors c)))]"

definition declarative_json :: "declarative_config \<Rightarrow> json" where
  "declarative_json c = J_object ((''version'', J_int 2) # document_entries c)"

definition monitoring_json :: "monitoring_config \<Rightarrow> json" where
  "monitoring_json c = J_object ((''schemaVersion'', J_int 2) # (''configVersion'', J_int (cf_configVersion c)) #
     document_entries (cf_document c))"

definition legacy_json :: "legacy_document \<Rightarrow> json" where
  "legacy_json c = J_object [(''version'', J_int 1), (''settings'', J_object (settings_entries (ld_settings c))),
     (''monitors'', J_array (map legacy_monitor_json (ld_monitors c)))]"

text \<open>The text of a value that has one.\<close>

definition canonical_text :: "json \<Rightarrow> string" where
  "canonical_text v = (case canonicalSerialize v of Inl _ \<Rightarrow> [] | Inr text \<Rightarrow> text)"

definition digest :: "config_lib \<Rightarrow> json \<Rightarrow> string" where
  "digest lib v = (case hashCanonical (li_sha256 lib) v of Inl _ \<Rightarrow> [] | Inr h \<Rightarrow> h)"

definition hashDeclarativeConfig :: "config_lib \<Rightarrow> declarative_config \<Rightarrow> string" where
  "hashDeclarativeConfig lib c = digest lib (declarative_json (normalizeDeclarativeConfig lib c))"

definition hashMonitoringConfig :: "config_lib \<Rightarrow> monitoring_input \<Rightarrow> string option" where
  "hashMonitoringConfig lib c = (case c of
      Runtime_2 c \<Rightarrow> Some (hashDeclarativeConfig lib (cf_document c))
    | Runtime_1 v d \<Rightarrow> Some (digest lib (legacy_json (normalizeLegacyDocument lib d)))
    | Malformed_runtime \<Rightarrow> None)"

text \<open>The length in UTF-8: a code unit above U+007F takes two bytes.\<close>

definition utf8_length :: "string \<Rightarrow> nat" where
  "utf8_length s = sum_list (map (\<lambda>c. if (of_char c :: nat) < 128 then 1 else 2) s)"

definition assertConfigSize :: "json \<Rightarrow> config_error + unit" where
  "assertConfigSize v = (let bytes = utf8_length (canonical_text v) in
     if bytes > MAX_CONFIG_BYTES then Inl (Config_size_error bytes) else Inr ())"

subsection \<open>Validation\<close>

text \<open>A document of version 2.\<close>

definition validate_version_2 :: "config_lib \<Rightarrow> declarative_config \<Rightarrow> config_error + declarative_config" where
  "validate_version_2 lib c = res_bind (declarativeConfigSchema lib c) (\<lambda>parsed.
     let normalized = normalizeDeclarativeConfig lib parsed in
     res_bind (assertConfigSize (declarative_json normalized)) (\<lambda>_. Inr normalized))"

text \<open>The groups of a document of version 1 are the group names of its monitors, case folded.\<close>

definition fold_name :: "string \<Rightarrow> string" where
  "fold_name name = js_lower (js_trim name)"

definition legacyGroupId :: "config_lib \<Rightarrow> string \<Rightarrow> string" where
  "legacyGroupId lib name = ''group-'' @ take 12 (li_sha256 lib (fold_name name))"

fun first_names :: "(string \<times> string) list \<Rightarrow> legacy_monitor_config list \<Rightarrow> (string \<times> string) list" where
  "first_names names [] = names"
| "first_names names (v # rest) =
    (let name = js_trim (or_else (mf_group v) []) in
     first_names (if name \<noteq> [] \<and> js_lower name \<notin> fst ` set names then names @ [(js_lower name, name)] else names) rest)"

definition adapt_monitor :: "(string \<times> string) list \<Rightarrow> legacy_monitor_config \<Rightarrow> monitor_config" where
  "adapt_monitor ids v =
     \<lparr>mf_id = mf_id v, mf_name = mf_name v, mf_url = mf_url v, mf_enabled = mf_enabled v, mf_method = mf_method v,
      mf_intervalMinutes = mf_intervalMinutes v, mf_timeoutMs = mf_timeoutMs v, mf_expectedStatus = mf_expectedStatus v,
      mf_failureThreshold = mf_failureThreshold v, mf_recoveryThreshold = mf_recoveryThreshold v,
      mf_recipients = mf_recipients v, mf_expectedText = None,
      mf_groupId = (if truthy (mf_group v) then map_of ids (fold_name (or_else (mf_group v) [])) else None)\<rparr>"

definition adaptLegacyDeclarativeConfig :: "config_lib \<Rightarrow> legacy_document \<Rightarrow> config_error + declarative_config" where
  "adaptLegacyDeclarativeConfig lib input = res_bind (legacyDocumentSchema lib input) (\<lambda>legacy.
     let groups = map (\<lambda>(folded, name). \<lparr>gc_id = legacyGroupId lib folded, gc_name = name\<rparr>)
           (first_names [] (ld_monitors legacy));
         ids = map (\<lambda>g. (js_lower (gc_name g), gc_id g)) groups
     in validate_version_2 lib \<lparr>dc_settings = ld_settings legacy, dc_groups = groups,
          dc_monitors = map (adapt_monitor ids) (ld_monitors legacy)\<rparr>)"

definition validateDeclarativeConfig :: "config_lib \<Rightarrow> declarative_input \<Rightarrow> config_error + declarative_config" where
  "validateDeclarativeConfig lib input = (case input of
      Version_1 d \<Rightarrow> adaptLegacyDeclarativeConfig lib d
    | Version_2 d \<Rightarrow> validate_version_2 lib d
    | Malformed \<Rightarrow> Inl Schema_error)"

definition validateMonitoringConfig :: "config_lib \<Rightarrow> monitoring_input \<Rightarrow> config_error + monitoring_config" where
  "validateMonitoringConfig lib input = (case input of
      Runtime_1 version d \<Rightarrow>
        if version < 0 then Inl Schema_error
        else res_bind (legacyDocumentSchema lib d) (\<lambda>legacy.
          res_bind (adaptLegacyDeclarativeConfig lib legacy) (\<lambda>document.
            Inr (normalizeMonitoringConfig lib \<lparr>cf_configVersion = version, cf_document = document\<rparr>)))
    | Runtime_2 c \<Rightarrow>
        res_bind (monitoringConfigSchema lib c) (\<lambda>parsed.
          let normalized = normalizeMonitoringConfig lib parsed in
          res_bind (assertConfigSize (monitoring_json normalized)) (\<lambda>_. Inr normalized))
    | Malformed_runtime \<Rightarrow> Inl Schema_error)"

definition exportDeclarativeConfig :: "config_lib \<Rightarrow> monitoring_input \<Rightarrow> config_error + declarative_config" where
  "exportDeclarativeConfig lib input = res_bind (validateMonitoringConfig lib input) (\<lambda>accepted.
     validateDeclarativeConfig lib (Version_2 (cf_document accepted)))"

definition toMonitoringConfig :: "config_lib \<Rightarrow> declarative_input \<Rightarrow> int \<Rightarrow> config_error + monitoring_config" where
  "toMonitoringConfig lib input configVersion = res_bind (validateDeclarativeConfig lib input) (\<lambda>document.
     validateMonitoringConfig lib (Runtime_2 \<lparr>cf_configVersion = configVersion, cf_document = document\<rparr>))"

end
