(* ===== verification/Config_Plan.thy ===== *)
theory Config_Plan
  imports Config_Schema
begin

text \<open>
  What a configuration change amounts to: the plan with its diff and its digest, \<open>lib/config/plan.ts\<close>,
  the tripwire for destructive changes and its approvals, \<open>tripwire.ts\<close>, and the preconditions of an
  apply request, \<open>apply.ts\<close>.
\<close>

subsection \<open>The tripwire\<close>

datatype destructive_reason =
    All_active_monitors_removed nat
  | Removed_monitor_count nat
  | Removed_monitor_percentage nat nat
  | Active_group_removed string nat

record destructive_evaluation =
  de_required :: bool
  de_previousActiveCount :: nat
  de_candidateActiveCount :: nat
  de_removedActiveMonitorIds :: "string list"
  de_reasons :: "destructive_reason list"

definition activeMonitors :: "declarative_config \<Rightarrow> monitor_config list" where
  "activeMonitors c = filter mf_enabled (dc_monitors c)"

definition by_id :: "monitor_config list \<Rightarrow> string \<Rightarrow> monitor_config option" where
  "by_id ms = map_of (rev (map (\<lambda>m. (mf_id m, m)) ms))"

text \<open>The groups with active monitors, in the order of their ids.\<close>

definition active_groups :: "monitor_config list \<Rightarrow> string list" where
  "active_groups ms = sort (js_unique (List.map_filter mf_groupId ms))"

definition group_removed :: "monitor_config list \<Rightarrow> monitor_config list \<Rightarrow> string \<Rightarrow> bool" where
  "group_removed previous candidate g \<longleftrightarrow>
    (let monitors = filter (\<lambda>m. mf_groupId m = Some g) previous in
     length monitors \<ge> 2 \<and>
     list_all (\<lambda>m. (case by_id candidate (mf_id m) of None \<Rightarrow> True | Some c \<Rightarrow> mf_groupId c \<noteq> Some g)) monitors)"

text \<open>
  The percentage is the quotient of two counts of at most a hundred: its double compares with 20 as the
  exact quotient does, \<open>removedCount * 100 > 20 * previousActiveCount\<close>.
\<close>

definition evaluateDestructiveChange :: "declarative_config \<Rightarrow> declarative_config \<Rightarrow> destructive_evaluation" where
  "evaluateDestructiveChange previous candidate =
    (let previousActive = activeMonitors previous;
         candidateActive = activeMonitors candidate;
         removed = filter (\<lambda>m. mf_id m \<notin> mf_id ` set candidateActive) previousActive;
         removedCount = length removed;
         reasons =
           (if length previousActive > 0 \<and> length candidateActive = 0
            then [All_active_monitors_removed (length previousActive)] else []) @
           (if removedCount > 5 then [Removed_monitor_count removedCount] else []) @
           (if removedCount * 100 > 20 * length previousActive
            then [Removed_monitor_percentage removedCount (length previousActive)] else []) @
           map (\<lambda>g. Active_group_removed g (length (filter (\<lambda>m. mf_groupId m = Some g) previousActive)))
             (filter (group_removed previousActive candidateActive) (active_groups previousActive))
     in \<lparr>de_required = (reasons \<noteq> []), de_previousActiveCount = length previousActive,
         de_candidateActiveCount = length candidateActive,
         de_removedActiveMonitorIds = sort (map mf_id removed), de_reasons = reasons\<rparr>)"

text \<open>An approval; the table holds only the action \<open>destructive_config_change\<close>.\<close>

record change_approval =
  ca_targetConfigHash :: string
  ca_action :: string
  ca_expiresAt :: instant
  ca_consumedAt :: "instant option"

definition isValidDestructiveChangeApproval :: "change_approval option \<Rightarrow> string \<Rightarrow> instant \<Rightarrow> bool" where
  "isValidDestructiveChangeApproval approval targetConfigHash now = (case approval of
      None \<Rightarrow> False
    | Some a \<Rightarrow>
        if ca_action a \<noteq> ''destructive_config_change'' \<or> ca_targetConfigHash a \<noteq> targetConfigHash \<or>
           ca_consumedAt a \<noteq> None then False
        else ca_expiresAt a > now)"

subsection \<open>The diff\<close>

record setting_change =
  sc_path :: string
  sc_before :: json
  sc_after :: json

record monitor_update =
  mu_id :: string
  mu_before :: monitor_config
  mu_after :: monitor_config
  mu_changedFields :: "string list"
  mu_restore :: bool

record group_update =
  gu_id :: string
  gu_before :: group_config
  gu_after :: group_config
  gu_changedFields :: "string list"

record configuration_diff =
  df_settingsChanged :: "setting_change list"
  df_groupCreates :: "group_config list"
  df_groupUpdates :: "group_update list"
  df_groupDeletes :: "group_config list"
  df_creates :: "monitor_config list"
  df_updates :: "monitor_update list"
  df_pauses :: "monitor_config list"
  df_resumes :: "monitor_config list"
  df_archives :: "monitor_config list"
  df_unchanged :: "monitor_config list"

text \<open>A property of an object that may be missing.\<close>

definition get_key :: "(string \<times> json) list \<Rightarrow> string \<Rightarrow> json" where
  "get_key entries k = (case map_of entries k of None \<Rightarrow> J_other ''undefined'' | Some v \<Rightarrow> v)"

definition hash_of :: "config_lib \<Rightarrow> json \<Rightarrow> js_error + string" where
  "hash_of lib v = hashCanonical (li_sha256 lib) v"

lemma get_key_size: "size (get_key entries k) < size (J_object entries)"
proof (cases "map_of entries k")
  case None
  then show ?thesis by (simp add: get_key_def)
next
  case (Some v)
  then have "(k, v) \<in> set entries" by (rule map_of_SomeD)
  then have "size v < size_list (size_prod (\<lambda>_. 0) size) entries"
    by (intro size_list_estimation [where f = "size_prod (\<lambda>_. 0) size"]) auto
  with Some show ?thesis by (simp add: get_key_def)
qed

text \<open>\<open>walk\<close> of \<open>diffSettings\<close>.\<close>

function walk_settings :: "config_lib \<Rightarrow> json \<Rightarrow> json \<Rightarrow> string \<Rightarrow> js_error + setting_change list" where
  "walk_settings lib left right path =
    res_bind (hash_of lib left) (\<lambda>hl. res_bind (hash_of lib right) (\<lambda>hr.
      if hl = hr then Inr []
      else (case (left, right) of
          (J_object fl, J_object fr) \<Rightarrow>
            res_bind (res_map (\<lambda>key. walk_settings lib (get_key fl key) (get_key fr key)
                (if path \<noteq> [] then path @ ''.'' @ key else key))
              (sort (js_unique (map fst fl @ map fst fr)))) (\<lambda>changes. Inr (concat changes))
        | _ \<Rightarrow> Inr [\<lparr>sc_path = path, sc_before = left, sc_after = right\<rparr>])))"
  by pat_completeness auto
termination
  by (relation "measure (\<lambda>(lib, left, right, path). size left)") (use get_key_size in auto)

declare walk_settings.simps [simp del]

definition diffSettings :: "config_lib \<Rightarrow> monitoring_settings \<Rightarrow> monitoring_settings \<Rightarrow> js_error + setting_change list" where
  "diffSettings lib before after =
     walk_settings lib (J_object (settings_entries before)) (J_object (settings_entries after)) ''settings''"

text \<open>\<open>Object.keys(after).filter(...)\<close>: the digest of a property the monitor had not raises.\<close>

definition changedMonitorFields :: "config_lib \<Rightarrow> monitor_config \<Rightarrow> monitor_config \<Rightarrow> js_error + string list" where
  "changedMonitorFields lib before after =
    res_bind (res_map (\<lambda>(key, v).
        if key = ''id'' then Inr []
        else res_bind (hash_of lib (get_key (monitor_entries before) key)) (\<lambda>hb.
          res_bind (hash_of lib v) (\<lambda>ha. Inr (if hb \<noteq> ha then [key] else []))))
      (monitor_entries after))
    (\<lambda>keys. Inr (map (\<lambda>key. ''monitors.'' @ mf_id after @ ''.'' @ key) (sort (concat keys))))"

definition group_by_id :: "group_config list \<Rightarrow> string \<Rightarrow> group_config option" where
  "group_by_id gs = map_of (rev (map (\<lambda>g. (gc_id g, g)) gs))"

text \<open>What one monitor of the target adds to the diff.\<close>

definition empty_diff :: configuration_diff where
  "empty_diff = \<lparr>df_settingsChanged = [], df_groupCreates = [], df_groupUpdates = [], df_groupDeletes = [],
     df_creates = [], df_updates = [], df_pauses = [], df_resumes = [], df_archives = [], df_unchanged = []\<rparr>"

definition diff_monitor ::
  "config_lib \<Rightarrow> monitor_config list \<Rightarrow> monitor_config list \<Rightarrow> monitor_config \<Rightarrow> js_error + configuration_diff" where
  "diff_monitor lib current archived monitor = (case by_id current (mf_id monitor) of
      None \<Rightarrow> (case by_id archived (mf_id monitor) of
          Some before \<Rightarrow> res_bind (changedMonitorFields lib before monitor) (\<lambda>entries.
            Inr (empty_diff\<lparr>df_updates := [\<lparr>mu_id = mf_id monitor, mu_before = before, mu_after = monitor,
                   mu_changedFields = entries, mu_restore = True\<rparr>],
                 df_resumes := (if mf_enabled monitor then [monitor] else [])\<rparr>))
        | None \<Rightarrow> Inr (empty_diff\<lparr>df_creates := [monitor]\<rparr>))
    | Some before \<Rightarrow> res_bind (changedMonitorFields lib before monitor) (\<lambda>changedFields.
        let nonStateChanges = filter (\<lambda>path. \<not> js_endsWith path ''.enabled'') changedFields in
        Inr (empty_diff\<lparr>
          df_updates := (if nonStateChanges \<noteq> [] then [\<lparr>mu_id = mf_id monitor, mu_before = before, mu_after = monitor,
             mu_changedFields = nonStateChanges, mu_restore = False\<rparr>] else []),
          df_pauses := (if mf_enabled before \<and> \<not> mf_enabled monitor then [monitor] else []),
          df_resumes := (if \<not> mf_enabled before \<and> mf_enabled monitor then [monitor] else []),
          df_unchanged := (if changedFields = [] then [monitor] else [])\<rparr>)))"

definition diff_group :: "config_lib \<Rightarrow> group_config list \<Rightarrow> group_config \<Rightarrow> js_error + group_config list \<times> group_update list" where
  "diff_group lib current g = (case group_by_id current (gc_id g) of
      None \<Rightarrow> Inr ([g], [])
    | Some before \<Rightarrow> res_bind (hash_of lib (group_json before)) (\<lambda>hb. res_bind (hash_of lib (group_json g)) (\<lambda>ha.
        Inr ([], if hb \<noteq> ha then [\<lparr>gu_id = gc_id g, gu_before = before, gu_after = g,
          gu_changedFields = [''groups.'' @ gc_id g @ ''.name'']\<rparr>] else []))))"

definition calculateConfigurationDiff ::
  "config_lib \<Rightarrow> declarative_config \<Rightarrow> declarative_config \<Rightarrow> monitor_config list \<Rightarrow> js_error + configuration_diff" where
  "calculateConfigurationDiff lib current target archivedMonitors =
    res_bind (diffSettings lib (dc_settings current) (dc_settings target)) (\<lambda>settingsChanged.
    res_bind (res_map (diff_group lib (dc_groups current)) (dc_groups target)) (\<lambda>groups.
    res_bind (res_map (diff_monitor lib (dc_monitors current) archivedMonitors) (dc_monitors target)) (\<lambda>monitors.
      Inr \<lparr>df_settingsChanged = settingsChanged,
           df_groupCreates = concat (map fst groups), df_groupUpdates = concat (map snd groups),
           df_groupDeletes = filter (\<lambda>g. group_by_id (dc_groups target) (gc_id g) = None) (dc_groups current),
           df_creates = concat (map df_creates monitors), df_updates = concat (map df_updates monitors),
           df_pauses = concat (map df_pauses monitors), df_resumes = concat (map df_resumes monitors),
           df_archives = filter (\<lambda>m. by_id (dc_monitors target) (mf_id m) = None) (dc_monitors current),
           df_unchanged = concat (map df_unchanged monitors)\<rparr>)))"

subsection \<open>The plan\<close>

datatype plan_error = Invalid_config config_error | Thrown js_error

record configuration_plan =
  pl_baseConfigHash :: string
  pl_targetConfigHash :: string
  pl_planHash :: string
  pl_targetConfig :: declarative_config
  pl_diff :: configuration_diff
  pl_destructiveConsentRequired :: bool
  pl_destructiveChange :: destructive_evaluation

definition strings_json :: "string list \<Rightarrow> json" where
  "strings_json vs = J_array (map J_string vs)"

definition setting_change_json :: "setting_change \<Rightarrow> json" where
  "setting_change_json c = J_object [(''path'', J_string (sc_path c)), (''before'', sc_before c), (''after'', sc_after c)]"

definition group_update_json :: "group_update \<Rightarrow> json" where
  "group_update_json u = J_object [(''id'', J_string (gu_id u)), (''before'', group_json (gu_before u)),
     (''after'', group_json (gu_after u)), (''changedFields'', strings_json (gu_changedFields u))]"

definition monitor_update_json :: "monitor_update \<Rightarrow> json" where
  "monitor_update_json u = J_object ([(''id'', J_string (mu_id u)), (''before'', monitor_json (mu_before u)),
     (''after'', monitor_json (mu_after u)), (''changedFields'', strings_json (mu_changedFields u))] @
     (if mu_restore u then [(''restore'', J_bool True)] else []))"

definition diff_json :: "configuration_diff \<Rightarrow> json" where
  "diff_json d = J_object
     [(''settingsChanged'', J_array (map setting_change_json (df_settingsChanged d))),
      (''groupCreates'', J_array (map group_json (df_groupCreates d))),
      (''groupUpdates'', J_array (map group_update_json (df_groupUpdates d))),
      (''groupDeletes'', J_array (map group_json (df_groupDeletes d))),
      (''creates'', J_array (map monitor_json (df_creates d))),
      (''updates'', J_array (map monitor_update_json (df_updates d))),
      (''pauses'', J_array (map monitor_json (df_pauses d))),
      (''resumes'', J_array (map monitor_json (df_resumes d))),
      (''archives'', J_array (map monitor_json (df_archives d))),
      (''unchanged'', J_array (map monitor_json (df_unchanged d)))]"

definition map_error :: "('e \<Rightarrow> 'f) \<Rightarrow> 'e + 'a \<Rightarrow> 'f + 'a" where
  "map_error f r = (case r of Inl e \<Rightarrow> Inl (f e) | Inr v \<Rightarrow> Inr v)"

definition createConfigurationPlan ::
  "config_lib \<Rightarrow> declarative_input \<Rightarrow> declarative_input \<Rightarrow> string option \<Rightarrow> monitor_config list \<Rightarrow>
   plan_error + configuration_plan" where
  "createConfigurationPlan lib currentInput targetInput base archivedMonitors =
    res_bind (map_error Invalid_config (validateDeclarativeConfig lib currentInput)) (\<lambda>current.
    res_bind (map_error Invalid_config (validateDeclarativeConfig lib targetInput)) (\<lambda>targetConfig.
      let baseConfigHash = or_else base (hashDeclarativeConfig lib current);
          targetConfigHash = hashDeclarativeConfig lib targetConfig
      in res_bind (map_error Thrown (calculateConfigurationDiff lib current targetConfig archivedMonitors)) (\<lambda>diff.
        let destructiveChange = evaluateDestructiveChange current targetConfig
        in res_bind (map_error Thrown (hash_of lib (J_object [(''baseConfigHash'', J_string baseConfigHash),
                 (''targetConfigHash'', J_string targetConfigHash), (''diff'', diff_json diff)]))) (\<lambda>planHash.
          Inr \<lparr>pl_baseConfigHash = baseConfigHash, pl_targetConfigHash = targetConfigHash, pl_planHash = planHash,
               pl_targetConfig = targetConfig, pl_diff = diff,
               pl_destructiveConsentRequired = (df_archives diff \<noteq> [] \<or> de_required destructiveChange),
               pl_destructiveChange = destructiveChange\<rparr>))))"

subsection \<open>Applying\<close>

datatype apply_error =
    Precondition_mismatch | Config_version_conflict | Target_config_hash_mismatch | Plan_hash_mismatch
  | Destructive_consent_required | Plan_failed plan_error

record apply_request =
  ar_baseConfigHash :: string
  ar_targetConfigHash :: string
  ar_planHash :: string
  ar_targetConfig :: declarative_input
  ar_allowDestructiveChanges :: "bool option"

record apply_input =
  ai_ifMatch :: "string option"
  ai_request :: apply_request
  ai_currentConfig :: declarative_config
  ai_currentConfigHash :: string
  ai_archivedMonitors :: "monitor_config list"

definition parseIfMatch :: "string option \<Rightarrow> string option" where
  "parseIfMatch v = (if \<not> truthy v then None
     else (let trimmed = js_trim (or_else v []) in
       if js_startsWith trimmed [CHR 0x22] \<and> js_endsWith trimmed [CHR 0x22] \<and> length trimmed \<ge> 2
       then Some (butlast (tl trimmed)) else Some trimmed))"

definition validateApplyPreconditions :: "config_lib \<Rightarrow> apply_input \<Rightarrow> apply_error + configuration_plan" where
  "validateApplyPreconditions lib input =
    (let request = ai_request input in
     if parseIfMatch (ai_ifMatch input) \<noteq> Some (ar_baseConfigHash request) then Inl Precondition_mismatch
     else if ar_baseConfigHash request \<noteq> ai_currentConfigHash input then Inl Config_version_conflict
     else res_bind (map_error Plan_failed (createConfigurationPlan lib (Version_2 (ai_currentConfig input))
            (ar_targetConfig request) (Some (ai_currentConfigHash input)) (ai_archivedMonitors input))) (\<lambda>authoritative.
       if ar_targetConfigHash request \<noteq> pl_targetConfigHash authoritative then Inl Target_config_hash_mismatch
       else if ar_planHash request \<noteq> pl_planHash authoritative then Inl Plan_hash_mismatch
       else if pl_destructiveConsentRequired authoritative \<and> \<not> or_else (ar_allowDestructiveChanges request) False
       then Inl Destructive_consent_required
       else Inr authoritative))"

end
