(* ===== verification/Config_Valid.thy ===== *)
theory Config_Valid
  imports Config_Schema
begin

text \<open>
  What a validated configuration document is: every field within its bounds and in normal form, the
  collections sorted, without duplicates and within their limits, every group a monitor names among
  the groups. Documents of this type are just those validation keeps as they are, whichever version
  they were written in, and so what is exported from an accepted document is that document.
\<close>

subsection \<open>The type of documents\<close>

definition display_typed :: "nat \<Rightarrow> nat \<Rightarrow> string \<Rightarrow> bool" where
  "display_typed lo hi v \<longleftrightarrow> js_trim v = v \<and> lo \<le> length v \<and> length v \<le> hi \<and> \<not> list_ex display_control v"

definition recipients_typed :: "config_lib \<Rightarrow> string list \<Rightarrow> bool" where
  "recipients_typed lib vs \<longleftrightarrow> sorted vs \<and> distinct vs \<and> length vs \<le> 20 \<and>
     (\<forall>v \<in> set vs. js_trim v = v \<and> js_lower v = v \<and> li_isEmail lib v)"

definition settings_typed :: "config_lib \<Rightarrow> monitoring_settings \<Rightarrow> bool" where
  "settings_typed lib v \<longleftrightarrow> recipients_typed lib (se_defaultRecipients v) \<and>
     1 \<le> se_concurrency v \<and> 1000 \<le> se_defaultTimeoutMs v \<and> se_defaultTimeoutMs v \<le> 15000 \<and>
     1 \<le> se_defaultFailureThreshold v \<and> se_defaultFailureThreshold v \<le> 5 \<and>
     1 \<le> se_defaultRecoveryThreshold v \<and> se_defaultRecoveryThreshold v \<le> 5 \<and>
     js_trim (se_userAgent v) = se_userAgent v \<and> se_userAgent v \<noteq> []"

definition group_typed :: "group_config \<Rightarrow> bool" where
  "group_typed g \<longleftrightarrow> slugSchema (gc_id g) \<and> display_typed 1 50 (gc_name g)"

definition monitor_typed :: "config_lib \<Rightarrow> monitor_config \<Rightarrow> bool" where
  "monitor_typed lib v \<longleftrightarrow> slugSchema (mf_id v) \<and> display_typed 1 80 (mf_name v) \<and>
     isPublicHttpUrl (li_newUrl lib) (mf_url v) \<and> li_lowerHostUrl lib (mf_url v) = mf_url v \<and>
     mf_intervalMinutes v \<in> {1, 5, 10, 15} \<and> 1000 \<le> mf_timeoutMs v \<and> mf_timeoutMs v \<le> 15000 \<and>
     expectedStatusSchema (mf_expectedStatus v) \<and>
     1 \<le> mf_failureThreshold v \<and> mf_failureThreshold v \<le> 5 \<and>
     1 \<le> mf_recoveryThreshold v \<and> mf_recoveryThreshold v \<le> 5 \<and> recipients_typed lib (mf_recipients v) \<and>
     (\<forall>t. mf_expectedText v = Some t \<longrightarrow> display_typed 1 256 t \<and> mf_method v = Method_get) \<and>
     (\<forall>g. mf_groupId v = Some g \<longrightarrow> slugSchema g)"

definition document_typed :: "config_lib \<Rightarrow> declarative_config \<Rightarrow> bool" where
  "document_typed lib c \<longleftrightarrow> settings_typed lib (dc_settings c) \<and>
     list_all group_typed (dc_groups c) \<and> list_all (monitor_typed lib) (dc_monitors c) \<and>
     sorted (map gc_id (dc_groups c)) \<and> sorted (map mf_id (dc_monitors c)) \<and>
     validateMonitorCollection (dc_groups c) (dc_monitors c)"

text \<open>What the library is known for: an address in lower case is still one, and the text of a URL is stable.\<close>

definition lawful_lib :: "config_lib \<Rightarrow> bool" where
  "lawful_lib lib \<longleftrightarrow> (\<forall>e. li_isEmail lib e \<longrightarrow> li_isEmail lib (js_lower e)) \<and>
     (\<forall>u. isPublicHttpUrl (li_newUrl lib) u \<longrightarrow> isPublicHttpUrl (li_newUrl lib) (li_lowerHostUrl lib u) \<and>
        li_lowerHostUrl lib (li_lowerHostUrl lib u) = li_lowerHostUrl lib u)"

subsection \<open>Typed documents are kept\<close>

lemma all_parsed_same: "(\<And>x. x \<in> set xs \<Longrightarrow> f x = Some x) \<Longrightarrow> all_parsed f xs = Some xs"
  by (induction xs) auto

lemma all_parsed_from: "all_parsed f xs = Some ys \<Longrightarrow> y \<in> set ys \<Longrightarrow> \<exists>x \<in> set xs. f x = Some y"
  by (induction xs arbitrary: ys) (auto split: option.splits)

lemma length_all_parsed: "all_parsed f xs = Some ys \<Longrightarrow> length ys = length xs"
  by (induction xs arbitrary: ys) (auto split: option.splits)

lemma displayName_typed: "display_typed lo hi v \<Longrightarrow> displayName lo hi v = Some v"
  by (simp add: display_typed_def displayName_def)

lemma displayName_result: "displayName lo hi v = Some w \<Longrightarrow> display_typed lo hi w"
  by (auto simp: display_typed_def displayName_def Let_def split: if_splits)

lemma recipientsSchema_typed: "recipients_typed lib vs \<Longrightarrow> recipientsSchema lib vs = Some vs"
  by (simp add: recipients_typed_def recipientsSchema_def emailSchema_def all_parsed_same)

lemma normalizeRecipients_typed: "recipients_typed lib vs \<Longrightarrow> normalizeRecipients_config vs = vs"
proof -
  assume vs: "recipients_typed lib vs"
  then have "map (\<lambda>email. js_lower (js_trim email)) vs = vs" by (intro map_idI) (simp add: recipients_typed_def)
  with vs show ?thesis by (simp add: recipients_typed_def normalizeRecipients_config_def sorted_sort_id)
qed

lemma recipientsSchema_normal:
  assumes "lawful_lib lib" "recipientsSchema lib vs = Some ws"
  shows "recipients_typed lib (normalizeRecipients_config ws)"
proof -
  have ws: "length vs \<le> 20" "all_parsed (emailSchema lib) vs = Some ws"
    using assms(2) by (auto simp: recipientsSchema_def split: if_splits)
  have "li_isEmail lib w \<and> js_trim w = w" if "w \<in> set ws" for w
    using all_parsed_from [OF ws(2) that] by (auto simp: emailSchema_def Let_def split: if_splits)
  then have "\<forall>w \<in> set (normalizeRecipients_config ws). js_trim w = w \<and> js_lower w = w \<and> li_isEmail lib w"
    using assms(1) by (auto simp: normalizeRecipients_config_def lawful_lib_def js_trim_lower)
  moreover have "length (normalizeRecipients_config ws) \<le> 20"
    using ws length_js_unique_from [of "[]" "map (\<lambda>email. js_lower (js_trim email)) ws"]
    by (simp add: normalizeRecipients_config_def js_unique_def length_all_parsed [OF ws(2)])
  ultimately show ?thesis by (simp add: recipients_typed_def normalizeRecipients_config_def)
qed

lemma settings_kept:
  assumes "settings_typed lib v"
  shows "monitoringSettingsSchema lib v = Some v" "normalizeSettings v = v"
  using assms normalizeRecipients_typed [of lib "se_defaultRecipients v"]
  by (simp_all add: settings_typed_def monitoringSettingsSchema_def normalizeSettings_def recipientsSchema_typed)

lemma settings_normal:
  assumes "lawful_lib lib" "monitoringSettingsSchema lib v = Some w"
  shows "settings_typed lib (normalizeSettings w)"
  using assms(2) recipientsSchema_normal [OF assms(1)]
  by (auto simp: settings_typed_def monitoringSettingsSchema_def normalizeSettings_def split: option.splits if_splits)

lemma group_kept:
  assumes "group_typed g"
  shows "groupConfigSchema g = Some g" "normalizeGroup g = g"
  using assms by (simp_all add: group_typed_def groupConfigSchema_def normalizeGroup_def displayName_typed)
    (simp add: display_typed_def)

lemma group_normal: "groupConfigSchema g = Some h \<Longrightarrow> group_typed h \<and> normalizeGroup h = h"
  by (auto simp: group_typed_def groupConfigSchema_def normalizeGroup_def display_typed_def
      split: option.splits if_splits dest!: displayName_result)

lemma monitor_kept:
  assumes "monitor_typed lib v"
  shows "monitorConfigSchema lib v = Some v" "normalizeMonitor lib v = v"
proof -
  have "monitorFields lib v = Some v"
    using assms by (simp add: monitor_typed_def monitorFields_def displayName_typed recipientsSchema_typed)
  then show "monitorConfigSchema lib v = Some v"
    using assms by (auto simp: monitor_typed_def monitorConfigSchema_def optional_def displayName_typed split: option.split)
  show "normalizeMonitor lib v = v"
    using assms normalizeRecipients_typed [of lib "mf_recipients v"]
    by (simp add: monitor_typed_def normalizeMonitor_def display_typed_def)
qed

lemma monitor_normal:
  assumes "lawful_lib lib" "monitorConfigSchema lib v = Some w"
  shows "monitor_typed lib (normalizeMonitor lib w)"
proof -
  obtain w' shown where w: "monitorFields lib v = Some w'" "optional (displayName 1 256) (mf_expectedText v) = Some shown"
    "w = w'\<lparr>mf_expectedText := shown\<rparr>" "\<forall>g. mf_groupId v = Some g \<longrightarrow> slugSchema g"
    "shown = None \<or> mf_method v = Method_get"
    using assms(2) by (auto simp: monitorConfigSchema_def split: option.splits if_splits)
  obtain name recipients where f: "displayName 1 80 (mf_name v) = Some name"
    "recipientsSchema lib (mf_recipients v) = Some recipients"
    "w' = v\<lparr>mf_name := name, mf_recipients := recipients\<rparr>"
    "slugSchema (mf_id v)" "isPublicHttpUrl (li_newUrl lib) (mf_url v)" "mf_intervalMinutes v \<in> {1, 5, 10, 15}"
    "1000 \<le> mf_timeoutMs v \<and> mf_timeoutMs v \<le> 15000" "expectedStatusSchema (mf_expectedStatus v)"
    "1 \<le> mf_failureThreshold v \<and> mf_failureThreshold v \<le> 5" "1 \<le> mf_recoveryThreshold v \<and> mf_recoveryThreshold v \<le> 5"
    using w(1) by (auto simp: monitorFields_def split: option.splits if_splits)
  have "\<forall>t. shown = Some t \<longrightarrow> display_typed 1 256 t"
    using w(2) by (auto simp: optional_def split: option.splits dest: displayName_result)
  moreover have "display_typed 1 80 name" using f(1) by (rule displayName_result)
  moreover from this have "js_trim name = name" by (simp add: display_typed_def)
  moreover have "recipients_typed lib (normalizeRecipients_config recipients)"
    using assms(1) f(2) by (rule recipientsSchema_normal)
  moreover have "isPublicHttpUrl (li_newUrl lib) (li_lowerHostUrl lib (mf_url v)) \<and>
      li_lowerHostUrl lib (li_lowerHostUrl lib (mf_url v)) = li_lowerHostUrl lib (mf_url v)"
    using assms(1) f(5) by (simp add: lawful_lib_def)
  ultimately show ?thesis using f w by (auto simp: monitor_typed_def normalizeMonitor_def)
qed

lemma document_kept:
  assumes "document_typed lib c"
  shows "declarativeConfigSchema lib c = Inr c" "normalizeDeclarativeConfig lib c = c"
proof -
  have parts: "all_parsed groupConfigSchema (dc_groups c) = Some (dc_groups c)"
    "all_parsed (monitorConfigSchema lib) (dc_monitors c) = Some (dc_monitors c)"
    using assms by (auto simp: document_typed_def list_all_iff group_kept monitor_kept intro!: all_parsed_same)
  then show "declarativeConfigSchema lib c = Inr c"
    using assms by (simp add: document_typed_def declarativeConfigSchema_def settings_kept)
  have "map normalizeGroup (dc_groups c) = dc_groups c" "map (normalizeMonitor lib) (dc_monitors c) = dc_monitors c"
    using assms by (auto simp: document_typed_def list_all_iff group_kept monitor_kept intro!: map_idI)
  moreover have "normalizeSettings (dc_settings c) = dc_settings c"
    using assms by (intro settings_kept [of lib]) (simp add: document_typed_def)
  ultimately show "normalizeDeclarativeConfig lib c = c"
    using assms by (simp add: document_typed_def normalizeDeclarativeConfig_def sort_key_id_if_sorted)
qed

text \<open>The collection checks do not see the order of the groups and monitors, nor what normalising changes.\<close>

lemma length_filter_sort_key: "length (filter P (sort_key k xs)) = length (filter P xs)"
  by (simp add: filter_sort)

lemma validateMonitorCollection_normal:
  assumes "validateMonitorCollection gs ms" "\<forall>g \<in> set gs. normalizeGroup g = g"
    and "\<forall>m. mf_id (f m) = mf_id m \<and> mf_enabled (f m) = mf_enabled m \<and> mf_groupId (f m) = mf_groupId m"
  shows "validateMonitorCollection (sort_key gc_id (map normalizeGroup gs)) (sort_key mf_id (map f ms))"
proof -
  have gs: "map normalizeGroup gs = gs" using assms(2) by (simp add: map_idI)
  have distinct: "distinct (map h (sort_key k xs)) \<longleftrightarrow> distinct (map h xs)" for h :: "'x \<Rightarrow> 'y" and k :: "'x \<Rightarrow> string" and xs
    by (simp add: distinct_map)
  have ids: "map mf_id (map f ms) = map mf_id ms" using assms(3) by simp
  have "length (filter mf_enabled (map f ms)) = length (filter mf_enabled ms)"
    using assms(3) by (simp add: filter_map comp_def)
  moreover have "list_all (\<lambda>m. case mf_groupId m of None \<Rightarrow> True | Some g \<Rightarrow> g \<in> set (map gc_id (sort_key gc_id gs)))
      (sort_key mf_id (map f ms))"
  proof -
    have same: "set (map gc_id (sort_key gc_id gs)) = set (map gc_id gs)" by simp
    show ?thesis unfolding same using assms(1,3) by (simp add: list_all_iff validateMonitorCollection_def)
  qed
  ultimately show ?thesis
    using assms(1) unfolding validateMonitorCollection_def gs distinct length_filter_sort_key ids by simp
qed

lemma document_normal:
  assumes "lawful_lib lib" "declarativeConfigSchema lib c = Inr p"
  shows "document_typed lib (normalizeDeclarativeConfig lib p)"
proof -
  have p: "monitoringSettingsSchema lib (dc_settings c) = Some (dc_settings p)"
    "all_parsed groupConfigSchema (dc_groups c) = Some (dc_groups p)"
    "all_parsed (monitorConfigSchema lib) (dc_monitors c) = Some (dc_monitors p)"
    "validateMonitorCollection (dc_groups p) (dc_monitors p)"
    using assms(2) by (auto simp: declarativeConfigSchema_def split: option.splits if_splits)
  have groups: "group_typed g \<and> normalizeGroup g = g" if "g \<in> set (dc_groups p)" for g
    using all_parsed_from [OF p(2) that] group_normal by blast
  have monitors: "monitor_typed lib (normalizeMonitor lib m)" if "m \<in> set (dc_monitors p)" for m
    using all_parsed_from [OF p(3) that] monitor_normal [OF assms(1)] by blast
  have "validateMonitorCollection (sort_key gc_id (map normalizeGroup (dc_groups p)))
      (sort_key mf_id (map (normalizeMonitor lib) (dc_monitors p)))"
    using p(4) groups by (intro validateMonitorCollection_normal) (simp_all add: normalizeMonitor_def)
  then show ?thesis
    using groups monitors settings_normal [OF assms(1) p(1)]
    by (simp add: document_typed_def normalizeDeclarativeConfig_def list_all_iff)
qed

subsection \<open>Validation\<close>

definition fits :: "json \<Rightarrow> bool" where
  "fits v \<longleftrightarrow> utf8_length (canonical_text v) \<le> MAX_CONFIG_BYTES"

lemma assertConfigSize_fits: "assertConfigSize v = Inr () \<longleftrightarrow> fits v"
  by (simp add: assertConfigSize_def fits_def Let_def)

lemma utf8_length_append [simp]: "utf8_length (a @ b) = utf8_length a + utf8_length b"
  by (simp add: utf8_length_def)

text \<open>The parts of a document have a text.\<close>

fun plain_json :: "json \<Rightarrow> bool" where
  "plain_json J_null = True"
| "plain_json (J_bool b) = True"
| "plain_json (J_int i) = True"
| "plain_json (J_string s) = True"
| "plain_json (J_array vs) = list_all plain_json vs"
| "plain_json (J_object entries) = list_all (\<lambda>(k, v). plain_json v) entries"
| "plain_json J_not_finite = False"
| "plain_json (J_other kind) = False"

lemma res_map_exists: "(\<And>x. x \<in> set xs \<Longrightarrow> \<exists>y. f x = Inr y) \<Longrightarrow> \<exists>ys. res_map f xs = Inr ys"
  by (induction xs) fastforce+

lemma plain_json_text: "plain_json v \<Longrightarrow> \<exists>a. canonicalSerialize v = Inr a"
proof (induction v rule: canonicalSerialize.induct)
  case (6 vs)
  then have "\<exists>ys. res_map canonicalSerialize vs = Inr ys" by (intro res_map_exists) (auto simp: list_all_iff)
  then show ?case by auto
next
  case (7 entries)
  then have "\<exists>ys. res_map serialize_field (by_key entries) = Inr ys"
    by (intro res_map_exists) (fastforce simp: list_all_iff serialize_field_def)
  then show ?case by (auto simp: serialize_field_def)
qed auto

lemma plain_monitor: "v \<in> set (map snd (monitor_entries m)) \<Longrightarrow> plain_json v"
  by (auto simp: monitor_entries_def fields_json_def nullable_def list_all_iff split: option.splits)

lemma plain_group: "plain_json (group_json g)"
  by (simp add: group_json_def)

lemma plain_settings: "plain_json (J_object (settings_entries v))" "w \<in> set (map snd (settings_entries v)) \<Longrightarrow> plain_json w"
  by (auto simp: settings_entries_def list_all_iff)

lemma canonical_text_fields:
  assumes "\<forall>(k, v) \<in> set entries. \<exists>a. canonicalSerialize v = Inr a"
  shows "canonical_text (J_object entries) =
    CHR 0x7B # join_with '','' (map (\<lambda>(k, v). quote_json k @ '':'' @ canonical_text v) (by_key entries)) @ [CHR 0x7D]"
proof -
  have "res_map (\<lambda>(k, v). res_bind (canonicalSerialize v) (\<lambda>text. Inr (quote_json k @ '':'' @ text))) xs =
      Inr (map (\<lambda>(k, v). quote_json k @ '':'' @ canonical_text v) xs)" if "set xs \<subseteq> set entries" for xs
    using that assms by (induction xs) (auto simp: canonical_text_def split: sum.splits)
  then show ?thesis by (simp add: canonical_text_def)
qed

lemma plain_document: "plain_json (J_object (document_entries c))"
proof -
  have "plain_json (monitor_json m)" for m
    using plain_monitor [of _ m] by (force simp: monitor_json_def list_all_iff)
  then show ?thesis
    by (auto simp: document_entries_def list_all_iff plain_group settings_entries_def)
qed

lemma canonical_text_document:
  "canonical_text (declarative_json c) = CHR 0x7B # quote_json ''groups'' @ '':'' @ canonical_text (J_array (map group_json (dc_groups c))) @
     '','' @ quote_json ''monitors'' @ '':'' @ canonical_text (J_array (map monitor_json (dc_monitors c))) @
     '','' @ quote_json ''settings'' @ '':'' @ canonical_text (J_object (settings_entries (dc_settings c))) @
     '','' @ quote_json ''version'' @ '':'' @ ''2'' @ [CHR 0x7D]" (is ?declarative)
  "canonical_text (monitoring_json (\<lparr>cf_configVersion = n, cf_document = c\<rparr>)) =
     CHR 0x7B # quote_json ''configVersion'' @ '':'' @ int_string n @
     '','' @ quote_json ''groups'' @ '':'' @ canonical_text (J_array (map group_json (dc_groups c))) @
     '','' @ quote_json ''monitors'' @ '':'' @ canonical_text (J_array (map monitor_json (dc_monitors c))) @
     '','' @ quote_json ''schemaVersion'' @ '':'' @ ''2'' @
     '','' @ quote_json ''settings'' @ '':'' @ canonical_text (J_object (settings_entries (dc_settings c))) @ [CHR 0x7D]" (is ?monitoring)
proof -
  have entries: "\<forall>(k, v) \<in> set (document_entries c). \<exists>a. canonicalSerialize v = Inr a"
    using plain_document [of c] plain_json_text by (fastforce simp: list_all_iff)
  have int: "canonical_text (J_int i) = int_string i" for i by (simp add: canonical_text_def)
  have two: "int_string 2 = ''2''" by code_simp
  have "\<forall>(k, v) \<in> set ((''version'', J_int 2) # document_entries c). \<exists>a. canonicalSerialize v = Inr a"
    "\<forall>(k, v) \<in> set ((''schemaVersion'', J_int 2) # (''configVersion'', J_int n) # document_entries c).
       \<exists>a. canonicalSerialize v = Inr a"
    using entries by auto
  note texts = this [THEN canonical_text_fields]
  show ?declarative unfolding declarative_json_def texts
    by (simp add: document_entries_def by_key_def int two)
  show ?monitoring unfolding monitoring_json_def monitoring_config.select_convs texts
    by (simp add: document_entries_def by_key_def int two)
qed

lemma fits_declarative:
  assumes "fits (monitoring_json c)"
  shows "fits (declarative_json (cf_document c))"
proof -
  obtain n d where c: "c = \<lparr>cf_configVersion = n, cf_document = d\<rparr>" by (cases c)
  have "utf8_length (x # s) = (if (of_char x :: nat) < 128 then 1 else 2) + utf8_length s" "utf8_length [] = 0" for x s
    by (simp_all add: utf8_length_def)
  moreover have "utf8_length (quote_json ''schemaVersion'') = 15" "utf8_length (quote_json ''version'') = 9"
    by (simp_all add: utf8_length_def quote_json_def escape_char_def short_escape_def)
  ultimately show ?thesis
    using assms canonical_text_document(1) [where c = d] canonical_text_document(2) [where c = d and n = n]
    by (simp add: fits_def c)
qed

lemma validate_version_2_typed: "document_typed lib c \<Longrightarrow> fits (declarative_json c) \<Longrightarrow> validate_version_2 lib c = Inr c"
  using assertConfigSize_fits [of "declarative_json c"] by (simp add: validate_version_2_def document_kept Let_def)

lemma validate_version_2_result:
  assumes "lawful_lib lib" "validate_version_2 lib c = Inr d"
  shows "document_typed lib d \<and> fits (declarative_json d)"
proof -
  obtain p where p: "declarativeConfigSchema lib c = Inr p" "d = normalizeDeclarativeConfig lib p"
    "assertConfigSize (declarative_json d) = Inr ()"
    using assms(2) by (auto simp: validate_version_2_def Let_def res_bind_Inr_iff)
  with document_normal [OF assms(1) p(1)] show ?thesis by (simp add: assertConfigSize_fits)
qed

lemma validateDeclarativeConfig_result:
  assumes "lawful_lib lib" "validateDeclarativeConfig lib input = Inr d"
  shows "document_typed lib d \<and> fits (declarative_json d)"
  using assms(2) validate_version_2_result [OF assms(1)]
  by (auto simp: validateDeclarativeConfig_def adaptLegacyDeclarativeConfig_def Let_def res_bind_Inr_iff
      split: declarative_input.splits)

lemma validated_typed:
  assumes "lawful_lib lib" "validateMonitoringConfig lib input = Inr c"
  shows "0 \<le> cf_configVersion c \<and> document_typed lib (cf_document c) \<and> fits (declarative_json (cf_document c)) \<and>
    validateDeclarativeConfig lib (Version_2 (cf_document c)) = Inr (cf_document c) \<and>
    exportDeclarativeConfig lib input = Inr (cf_document c) \<and>
    validateMonitoringConfig lib (Runtime_2 c) =
      (if (\<exists>config. input = Runtime_2 config) \<or> fits (monitoring_json c) then Inr c
       else Inl (Config_size_error (utf8_length (canonical_text (monitoring_json c)))))"
proof -
  have typed: "0 \<le> cf_configVersion c \<and> document_typed lib (cf_document c) \<and> fits (declarative_json (cf_document c)) \<and>
      (\<forall>config. input = Runtime_2 config \<longrightarrow> fits (monitoring_json c))"
  proof (cases input)
    case Malformed_runtime
    then show ?thesis using assms(2) by (simp add: validateMonitoringConfig_def)
  next
    case (Runtime_1 version d)
    obtain legacy document where v: "0 \<le> version" "adaptLegacyDeclarativeConfig lib legacy = Inr document"
      "c = normalizeMonitoringConfig lib \<lparr>cf_configVersion = version, cf_document = document\<rparr>"
      using assms(2) Runtime_1 by (auto simp: validateMonitoringConfig_def res_bind_Inr_iff split: if_splits)
    have "document_typed lib document \<and> fits (declarative_json document)"
      using v(2) by (intro validateDeclarativeConfig_result [OF assms(1), of "Version_1 legacy"])
        (simp add: validateDeclarativeConfig_def)
    then show ?thesis using v Runtime_1 by (simp add: normalizeMonitoringConfig_def document_kept)
  next
    case (Runtime_2 config)
    obtain p where p: "0 \<le> cf_configVersion config" "declarativeConfigSchema lib (cf_document config) = Inr p"
      "c = normalizeMonitoringConfig lib (config\<lparr>cf_document := p\<rparr>)" "assertConfigSize (monitoring_json c) = Inr ()"
      using assms(2) Runtime_2
      by (auto simp: validateMonitoringConfig_def monitoringConfigSchema_def Let_def res_bind_Inr_iff split: if_splits)
    then have "fits (monitoring_json c)" by (simp add: assertConfigSize_fits)
    then show ?thesis using p(1,3) document_normal [OF assms(1) p(2)] fits_declarative [of c]
      by (simp add: normalizeMonitoringConfig_def)
  qed
  then have again: "validateDeclarativeConfig lib (Version_2 (cf_document c)) = Inr (cf_document c)"
    by (simp add: validateDeclarativeConfig_def validate_version_2_typed)
  have "normalizeMonitoringConfig lib c = c" using typed by (simp add: normalizeMonitoringConfig_def document_kept)
  moreover have "monitoringConfigSchema lib c = Inr c" using typed by (simp add: monitoringConfigSchema_def document_kept)
  ultimately have "validateMonitoringConfig lib (Runtime_2 c) =
      res_bind (assertConfigSize (monitoring_json c)) (\<lambda>_. Inr c)"
    by (simp add: validateMonitoringConfig_def)
  also have "\<dots> = (if fits (monitoring_json c) then Inr c
      else Inl (Config_size_error (utf8_length (canonical_text (monitoring_json c)))))"
    by (simp add: assertConfigSize_def fits_def Let_def)
  finally show ?thesis using typed again assms(2) by (auto simp: exportDeclarativeConfig_def)
qed

text \<open>C22. Validation makes typed documents, and keeps them. What \<open>validateMonitoringConfig\<close> answers, from either
  version of the document, has every field within its bounds and in normal form, at most a hundred active
  monitors and a hundred groups, sorted ids without duplicates, and only groups that exist; it
  fits the size limit as a declarative document, so that exporting and validating it gives it back
  unchanged. Validated again, it is accepted as it is - unless it came from a version 1 document and the text
  of the runtime form, which was not measured then, is too long.
\<close>

theorem validated_documents_are_typed:
  assumes "lawful_lib lib" "validateMonitoringConfig lib input = Inr c"
  shows "0 \<le> cf_configVersion c \<and> document_typed lib (cf_document c) \<and> fits (declarative_json (cf_document c)) \<and>
    validateDeclarativeConfig lib (Version_2 (cf_document c)) = Inr (cf_document c) \<and>
    exportDeclarativeConfig lib input = Inr (cf_document c) \<and>
    validateMonitoringConfig lib (Runtime_2 c) =
      (if (\<exists>config. input = Runtime_2 config) \<or> fits (monitoring_json c) then Inr c
       else Inl (Config_size_error (utf8_length (canonical_text (monitoring_json c)))))"
  using assms by (rule validated_typed)

definition sample_settings :: "string list \<Rightarrow> string \<Rightarrow> monitoring_settings" where
  "sample_settings recipients agent = \<lparr>se_concurrency = 10, se_defaultTimeoutMs = 8000, se_defaultFailureThreshold = 2,
     se_defaultRecoveryThreshold = 2, se_defaultRecipients = recipients, se_userAgent = agent\<rparr>"

definition sample_legacy :: "monitoring_settings \<Rightarrow> string \<Rightarrow> legacy_document" where
  "sample_legacy settings name =
     \<lparr>ld_settings = settings,
      ld_monitors = [\<lparr>mf_id = ''web'', mf_name = name, mf_url = ''https://a.example/'', mf_enabled = True,
        mf_method = Method_get, mf_intervalMinutes = 5, mf_timeoutMs = 8000,
        mf_expectedStatus = \<lparr>es_minimum = 200, es_maximum = 299\<rparr>, mf_failureThreshold = 2, mf_recoveryThreshold = 2,
        mf_recipients = [], mf_group = Some ''Sites''\<rparr>]\<rparr>"

definition sample_document :: "string list \<Rightarrow> declarative_config" where
  "sample_document recipients =
     \<lparr>dc_settings = sample_settings recipients ''Pulse'',
      dc_groups = [\<lparr>gc_id = ''group-0123456789ab'', gc_name = ''Sites''\<rparr>],
      dc_monitors = [\<lparr>mf_id = ''web'', mf_name = ''Web'', mf_url = ''https://a.example/'', mf_enabled = True,
        mf_method = Method_get, mf_intervalMinutes = 5, mf_timeoutMs = 8000,
        mf_expectedStatus = \<lparr>es_minimum = 200, es_maximum = 299\<rparr>, mf_failureThreshold = 2, mf_recoveryThreshold = 2,
        mf_recipients = [], mf_expectedText = None, mf_groupId = Some ''group-0123456789ab''\<rparr>]\<rparr>"

definition validation_lib :: config_lib where
  "validation_lib = \<lparr>li_isEmail = (\<lambda>e. CHR ''@'' \<in> set e),
     li_newUrl = (\<lambda>u. Some \<lparr>u_href = u, u_protocol = ''https:'', u_hostname = ''a.example'', u_port = [],
       u_username = [], u_password = [], u_origin = ''https://a.example''\<rparr>),
     li_lowerHostUrl = (\<lambda>u. u), li_sha256 = (\<lambda>_. ''0123456789abcdef'')\<rparr>"

lemma validation_lib_lawful: "lawful_lib validation_lib"
proof -
  have at: "js_lower_char CHR ''@'' = CHR ''@''" by code_simp
  have "CHR ''@'' \<in> set (js_lower e)" if "CHR ''@'' \<in> set e" for e
    using imageI [OF that, of js_lower_char] by (simp add: js_lower_def at)
  then show ?thesis by (simp add: lawful_lib_def validation_lib_def isPublicHttpUrl_def)
qed

lemma sample_digits: "char_of (48::nat) = CHR ''0''" "char_of (49::nat) = CHR ''1''" "char_of (50::nat) = CHR ''2''"
  "char_of (51::nat) = CHR ''3''" "char_of (53::nat) = CHR ''5''" "char_of (56::nat) = CHR ''8''" "char_of (57::nat) = CHR ''9''"
  by code_simp+

lemma sample_ints: "int_string 10 = ''10''" "int_string 8000 = ''8000''" "int_string 2 = ''2''" "int_string 5 = ''5''"
  "int_string 200 = ''200''" "int_string 299 = ''299''" "int_string 3 = ''3''"
  by (simp_all add: int_string_def nat_string.simps sample_digits)

lemma sample_fits: "fits (monitoring_json \<lparr>cf_configVersion = 3, cf_document = sample_document [''b@c.de'']\<rparr>)"
proof -
  have "utf8_length (x # s) = (if (of_char x :: nat) < 128 then 1 else 2) + utf8_length s" "utf8_length [] = 0" for x s
    by (simp_all add: utf8_length_def)
  then have "utf8_length (canonical_text (monitoring_json \<lparr>cf_configVersion = 3, cf_document = sample_document [''b@c.de'']\<rparr>)) \<le> 1000"
    unfolding canonical_text_def monitoring_json_def document_entries_def sample_document_def sample_settings_def
      monitoring_config.select_convs declarative_config.select_convs list.map monitor_json_def monitor_entries_def
      fields_json_def group_json_def settings_entries_def
    by (simp add: by_key_def nullable_def sample_ints quote_json_def escape_char_def short_escape_def)
  then show ?thesis by (simp add: fits_def MAX_CONFIG_BYTES_def)
qed

lemma sample_validates:
  "validateMonitoringConfig validation_lib
     (Runtime_1 3 (sample_legacy (sample_settings [''B@c.de'', '' b@c.de''] ''Pulse '') '' Web'')) =
   Inr \<lparr>cf_configVersion = 3, cf_document = sample_document [''b@c.de'']\<rparr>"
proof -
  let ?legacy = "sample_legacy (sample_settings [''B@c.de'', ''b@c.de''] ''Pulse'') ''Web''"
  have legacy: "legacyDocumentSchema validation_lib (sample_legacy (sample_settings [''B@c.de'', '' b@c.de''] ''Pulse '') '' Web'')
      = Inr ?legacy" by code_simp
  have legacy_again: "legacyDocumentSchema validation_lib ?legacy = Inr ?legacy" by code_simp
  have groups: "map (\<lambda>(folded, name). \<lparr>gc_id = legacyGroupId validation_lib folded, gc_name = name\<rparr>)
      (first_names [] (ld_monitors ?legacy)) = dc_groups (sample_document [])" by code_simp
  have document: "\<lparr>dc_settings = ld_settings ?legacy, dc_groups = dc_groups (sample_document []),
      dc_monitors = map (adapt_monitor (map (\<lambda>g. (js_lower (gc_name g), gc_id g)) (dc_groups (sample_document []))))
        (ld_monitors ?legacy)\<rparr> = sample_document [''B@c.de'', ''b@c.de'']" by code_simp
  have schema: "declarativeConfigSchema validation_lib (sample_document [''B@c.de'', ''b@c.de'']) =
      Inr (sample_document [''B@c.de'', ''b@c.de''])" by code_simp
  have normal: "normalizeDeclarativeConfig validation_lib (sample_document [''B@c.de'', ''b@c.de'']) = sample_document [''b@c.de'']"
    "normalizeDeclarativeConfig validation_lib (sample_document [''b@c.de'']) = sample_document [''b@c.de'']"
    by code_simp+
  have "assertConfigSize (declarative_json (sample_document [''b@c.de''])) = Inr ()"
    using fits_declarative [OF sample_fits] assertConfigSize_fits by simp
  then have "adaptLegacyDeclarativeConfig validation_lib ?legacy = Inr (sample_document [''b@c.de''])"
    unfolding adaptLegacyDeclarativeConfig_def legacy_again res_bind_simps Let_def groups document
      validate_version_2_def schema normal by simp
  then show ?thesis
    by (simp add: validateMonitoringConfig_def legacy normalizeMonitoringConfig_def normal)
qed

theorem validated_documents_are_typed_witness:
  "let c = \<lparr>cf_configVersion = 3, cf_document = sample_document [''b@c.de'']\<rparr> in
   document_typed validation_lib (cf_document c) \<and>
   exportDeclarativeConfig validation_lib
     (Runtime_1 3 (sample_legacy (sample_settings [''B@c.de'', '' b@c.de''] ''Pulse '') '' Web'')) = Inr (cf_document c) \<and>
   validateMonitoringConfig validation_lib (Runtime_2 c) = Inr c"
  using validated_documents_are_typed [OF validation_lib_lawful sample_validates] sample_fits
  by (simp add: Let_def)

end
