(* ===== verification/Plan_Laws.thy ===== *)
theory Plan_Laws
  imports Config_Plan Config_Valid
begin

text \<open>
  What a plan tells of a change: on documents with unique ids, and as long as SHA-256 does not collide
  on the values compared, the lists of the diff are exactly the monitors that are new, gone, changed and
  unchanged - with one gap, a dropped \<open>expectedText\<close>, and one failure, an added one.
\<close>

subsection \<open>Digests of the parts\<close>

definition config_values :: "declarative_config \<Rightarrow> json list" where
  "config_values c = J_object (settings_entries (dc_settings c)) # map snd (settings_entries (dc_settings c)) @
     map group_json (dc_groups c) @ concat (map (\<lambda>m. map snd (monitor_entries m)) (dc_monitors c))"

definition collision_free :: "config_lib \<Rightarrow> json list \<Rightarrow> bool" where
  "collision_free lib vs \<longleftrightarrow> (\<forall>v \<in> set vs. \<forall>w \<in> set vs. hash_of lib v = hash_of lib w \<longrightarrow>
     canonicalSerialize v = canonicalSerialize w)"

lemma hash_of_plain:
  assumes "plain_json v"
  obtains h where "hash_of lib v = Inr h"
  using plain_json_text [OF assms] by (auto simp: hash_of_def hashCanonical_def)

lemma same_digest_iff:
  assumes "collision_free lib vs" "v \<in> set vs" "w \<in> set vs" "plain_json v"
  shows "hash_of lib v = hash_of lib w \<longleftrightarrow> canon v = canon w"
proof -
  obtain a where a: "canonicalSerialize v = Inr a" using plain_json_text [OF assms(4)] by blast
  have "canon v = canon w \<Longrightarrow> canonicalSerialize v = canonicalSerialize w"
    using canonicalSerialize_canon [of v] canonicalSerialize_canon [of w] by simp
  moreover have "canonicalSerialize v = canonicalSerialize w \<Longrightarrow> canon v = canon w"
    using reads_asD [OF canonical_reading [of v] a, of w a "[]" "[]"] a by simp
  moreover have "canonicalSerialize v = canonicalSerialize w \<Longrightarrow> hash_of lib v = hash_of lib w"
    by (simp add: hash_of_def hashCanonical_def)
  ultimately show ?thesis using assms(1-3) unfolding collision_free_def by blast
qed

lemma canon_strings [simp]: "map (canon \<circ> J_string) vs = map J_string vs"
  by simp

lemma map_J_string_inject [simp]: "map J_string xs = map J_string ys \<longleftrightarrow> xs = ys"
  by (simp add: inj_map_eq_map inj_def)

lemma canon_group: "canon (group_json g) = canon (group_json h) \<longleftrightarrow> g = h"
  by (cases g; cases h) (simp add: group_json_def by_key_def)

lemma canon_settings:
  "canon (J_object (settings_entries v)) = canon (J_object (settings_entries w)) \<longleftrightarrow> v = w"
  by (cases v; cases w) (auto simp: settings_entries_def by_key_def)

text \<open>The value a monitor has under a key.\<close>

lemma monitor_keys: "distinct (map fst (monitor_entries m))"
  by (simp add: monitor_entries_def fields_json_def split: option.split)

definition same_values :: "monitor_config \<Rightarrow> monitor_config \<Rightarrow> string \<Rightarrow> bool" where
  "same_values b a key \<longleftrightarrow> canon (get_key (monitor_entries b) key) = canon (get_key (monitor_entries a) key)"

lemma same_values_simps:
  "same_values b a ''name'' \<longleftrightarrow> mf_name b = mf_name a"
  "same_values b a ''url'' \<longleftrightarrow> mf_url b = mf_url a"
  "same_values b a ''enabled'' \<longleftrightarrow> mf_enabled b = mf_enabled a"
  "same_values b a ''method'' \<longleftrightarrow> mf_method b = mf_method a"
  "same_values b a ''intervalMinutes'' \<longleftrightarrow> mf_intervalMinutes b = mf_intervalMinutes a"
  "same_values b a ''timeoutMs'' \<longleftrightarrow> mf_timeoutMs b = mf_timeoutMs a"
  "same_values b a ''expectedStatus'' \<longleftrightarrow> mf_expectedStatus b = mf_expectedStatus a"
  "same_values b a ''failureThreshold'' \<longleftrightarrow> mf_failureThreshold b = mf_failureThreshold a"
  "same_values b a ''recoveryThreshold'' \<longleftrightarrow> mf_recoveryThreshold b = mf_recoveryThreshold a"
  "same_values b a ''recipients'' \<longleftrightarrow> mf_recipients b = mf_recipients a"
  "same_values b a ''expectedText'' \<longleftrightarrow> mf_expectedText b = mf_expectedText a"
  "same_values b a ''groupId'' \<longleftrightarrow> mf_groupId b = mf_groupId a"
  by (auto simp: same_values_def get_key_def monitor_entries_def fields_json_def nullable_def by_key_def
      split: option.splits config_method.splits intro!: expected_status.equality)

subsection \<open>Changed fields\<close>

lemma res_map_values: "res_map f xs = Inr ys \<Longrightarrow> (\<And>x y. x \<in> set xs \<Longrightarrow> f x = Inr y \<Longrightarrow> y = g x) \<Longrightarrow> ys = map g xs"
  by (induction xs arbitrary: ys) (auto simp: res_bind_Inr_iff)

lemma get_key_entry: "(k, v) \<in> set (monitor_entries m) \<Longrightarrow> get_key (monitor_entries m) k = v"
  using map_of_eq_Some_iff [OF monitor_keys [of m], of k v] by (simp add: get_key_def)

lemma get_key_present:
  assumes "hash_of lib (get_key entries k) = Inr h"
  shows "get_key entries k \<in> set (map snd entries)"
proof (cases "map_of entries k")
  case None
  then show ?thesis using assms by (simp add: get_key_def hash_of_def hashCanonical_def)
next
  case (Some v)
  then show ?thesis by (auto simp: get_key_def dest!: map_of_SomeD intro: rev_image_eqI)
qed

definition changed_keys :: "monitor_config \<Rightarrow> monitor_config \<Rightarrow> string list" where
  "changed_keys b a = filter (\<lambda>key. key \<noteq> ''id'' \<and> \<not> same_values b a key) (map fst (monitor_entries a))"

definition field_path :: "monitor_config \<Rightarrow> string \<Rightarrow> string" where
  "field_path m key = ''monitors.'' @ mf_id m @ ''.'' @ key"

lemma concat_if: "concat (map (\<lambda>x. if p x then [f x] else []) xs) = map f (filter p xs)"
  by (induction xs) simp_all

lemma changedMonitorFields_keys:
  assumes "changedMonitorFields lib b a = Inr changed" "collision_free lib vs"
    and "set (map snd (monitor_entries a)) \<union> set (map snd (monitor_entries b)) \<subseteq> set vs"
  shows "changed = map (field_path a) (sort (changed_keys b a))"
proof -
  let ?f = "\<lambda>(key, v). if key = ''id'' then Inr []
        else res_bind (hash_of lib (get_key (monitor_entries b) key)) (\<lambda>hb.
          res_bind (hash_of lib v) (\<lambda>ha. Inr (if hb \<noteq> ha then [key] else [])))"
  let ?g = "\<lambda>(key, v). if key \<noteq> ''id'' \<and> \<not> same_values b a key then [key] else []"
  obtain keys where keys: "res_map ?f (monitor_entries a) = Inr keys"
    "changed = map (field_path a) (sort (concat keys))"
    using assms(1) by (auto simp: changedMonitorFields_def res_bind_Inr_iff field_path_def [abs_def])
  have "y = ?g x" if "x \<in> set (monitor_entries a)" "?f x = Inr y" for x y
  proof -
    note fx = that(2)
    obtain k v where x: "x = (k, v)" by (cases x) blast
    show ?thesis
    proof (cases "k = ''id''")
      case True
      then show ?thesis using fx by (simp add: x)
    next
      case False
      then obtain hb ha where h: "hash_of lib (get_key (monitor_entries b) k) = Inr hb" "hash_of lib v = Inr ha"
        "y = (if hb \<noteq> ha then [k] else [])"
        using fx by (auto simp: x res_bind_Inr_iff)
      have v: "get_key (monitor_entries a) k = v" using that(1) by (simp add: x get_key_entry)
      have "v \<in> set (map snd (monitor_entries a))" using that(1) x by force
      then have "hash_of lib (get_key (monitor_entries b) k) = hash_of lib v \<longleftrightarrow> same_values b a k"
        unfolding same_values_def v
        using get_key_present [OF h(1)] assms(3) plain_monitor
        by (intro same_digest_iff [OF assms(2)]) auto
      then show ?thesis using h False by (simp add: x)
    qed
  qed
  then have "keys = map ?g (monitor_entries a)" by (rule res_map_values [OF keys(1)])
  also have "concat \<dots> = changed_keys b a"
    unfolding changed_keys_def filter_map by (simp add: concat_if case_prod_unfold comp_def)
  finally show ?thesis using keys(2) by simp
qed

text \<open>When the digest of a property raises: exactly for an \<open>expectedText\<close> that is added.\<close>

lemma res_map_error:
  assumes "\<forall>x \<in> set xs. f x = Inl e \<or> (\<exists>y. f x = Inr y)"
  shows "if \<exists>x \<in> set xs. f x = Inl e then res_map f xs = Inl e else \<exists>ys. res_map f xs = Inr ys"
  using assms
proof (induction xs)
  case Nil
  then show ?case by simp
next
  case (Cons x xs)
  then have IH: "if \<exists>x \<in> set xs. f x = Inl e then res_map f xs = Inl e else \<exists>ys. res_map f xs = Inr ys" by simp
  from Cons.prems consider "f x = Inl e" | y where "f x = Inr y" by auto
  then show ?case
  proof cases
    case 1
    then show ?thesis by simp
  next
    case 2
    with IH show ?thesis by (auto split: if_splits)
  qed
qed

definition undefined_error :: js_error where
  "undefined_error = TypeError ''Canonical JSON cannot contain undefined''"

lemma monitor_key_cases:
  "k \<in> set (map fst (monitor_entries a)) \<Longrightarrow> k \<notin> set (map fst (monitor_entries b)) \<longleftrightarrow>
     k = ''expectedText'' \<and> mf_expectedText b = None"
  by (cases "mf_expectedText a"; cases "mf_expectedText b") (auto simp: monitor_entries_def fields_json_def)

lemma changedMonitorFields_raises:
  "if mf_expectedText a \<noteq> None \<and> mf_expectedText b = None
   then changedMonitorFields lib b a = Inl undefined_error
   else \<exists>changed. changedMonitorFields lib b a = Inr changed"
proof -
  let ?f = "\<lambda>(key, v). if key = ''id'' then Inr []
        else res_bind (hash_of lib (get_key (monitor_entries b) key)) (\<lambda>hb.
          res_bind (hash_of lib v) (\<lambda>ha. Inr (if hb \<noteq> ha then [key] else [])))"
  have f: "?f (k, v) = Inl undefined_error \<longleftrightarrow> k = ''expectedText'' \<and> mf_expectedText b = None"
    "?f (k, v) = Inl undefined_error \<or> (\<exists>y. ?f (k, v) = Inr y)" if kv: "(k, v) \<in> set (monitor_entries a)" for k v
  proof -
    have "v \<in> set (map snd (monitor_entries a))" using kv by force
    then obtain h where h: "hash_of lib v = Inr h" using hash_of_plain [OF plain_monitor] by blast
    have k: "k \<notin> set (map fst (monitor_entries b)) \<longleftrightarrow> k = ''expectedText'' \<and> mf_expectedText b = None"
      using kv by (intro monitor_key_cases [of k a]) force
    show "?f (k, v) = Inl undefined_error \<longleftrightarrow> k = ''expectedText'' \<and> mf_expectedText b = None"
      and "?f (k, v) = Inl undefined_error \<or> (\<exists>y. ?f (k, v) = Inr y)"
    proof (atomize (full), cases "map_of (monitor_entries b) k")
      case None
      then have "k \<notin> set (map fst (monitor_entries b))" by (simp add: map_of_eq_None_iff)
      then show "(?f (k, v) = Inl undefined_error \<longleftrightarrow> k = ''expectedText'' \<and> mf_expectedText b = None) \<and>
          (?f (k, v) = Inl undefined_error \<or> (\<exists>y. ?f (k, v) = Inr y))"
        using k None by (simp add: get_key_def hash_of_def hashCanonical_def undefined_error_def)
    next
      case (Some w)
      then have "w \<in> set (map snd (monitor_entries b))" "k \<in> set (map fst (monitor_entries b))"
        by (force dest!: map_of_SomeD)+
      then obtain h' where "hash_of lib w = Inr h'" using hash_of_plain [OF plain_monitor] by blast
      then show "(?f (k, v) = Inl undefined_error \<longleftrightarrow> k = ''expectedText'' \<and> mf_expectedText b = None) \<and>
          (?f (k, v) = Inl undefined_error \<or> (\<exists>y. ?f (k, v) = Inr y))"
        using k h Some \<open>k \<in> set (map fst (monitor_entries b))\<close> by (simp add: get_key_def)
    qed
  qed
  have "(\<exists>x \<in> set (monitor_entries a). ?f x = Inl undefined_error) \<longleftrightarrow> mf_expectedText a \<noteq> None \<and> mf_expectedText b = None"
  proof
    assume "\<exists>x \<in> set (monitor_entries a). ?f x = Inl undefined_error"
    then obtain k v where kv: "(k, v) \<in> set (monitor_entries a)" "?f (k, v) = Inl undefined_error" by force
    then have "k = ''expectedText''" "mf_expectedText b = None" using f(1) by blast+
    moreover from this kv(1) have "mf_expectedText a \<noteq> None"
      by (cases "mf_expectedText a") (auto simp: monitor_entries_def fields_json_def)
    ultimately show "mf_expectedText a \<noteq> None \<and> mf_expectedText b = None" by simp
  next
    assume t: "mf_expectedText a \<noteq> None \<and> mf_expectedText b = None"
    then obtain y where "mf_expectedText a = Some y" by blast
    then have "(''expectedText'', J_string y) \<in> set (monitor_entries a)" by (simp add: monitor_entries_def)
    with f(1) [OF this] t show "\<exists>x \<in> set (monitor_entries a). ?f x = Inl undefined_error" by blast
  qed
  moreover have "if \<exists>x \<in> set (monitor_entries a). ?f x = Inl undefined_error
      then res_map ?f (monitor_entries a) = Inl undefined_error else \<exists>ys. res_map ?f (monitor_entries a) = Inr ys"
    by (rule res_map_error) (use f(2) in force)
  ultimately show ?thesis by (auto simp: changedMonitorFields_def split: if_splits)
qed

lemma changed_keys_empty:
  assumes "mf_id b = mf_id a" "mf_expectedText a = None \<Longrightarrow> mf_expectedText b = None"
  shows "changed_keys b a = [] \<longleftrightarrow> b = a"
proof
  assume "changed_keys b a = []"
  then have same: "same_values b a key" if "key \<in> set (map fst (monitor_entries a))" "key \<noteq> ''id''" for key
    using that by (auto simp: changed_keys_def filter_empty_conv)
  have "mf_expectedText b = mf_expectedText a"
  proof (cases "mf_expectedText a")
    case None
    then show ?thesis using assms(2) by simp
  next
    case (Some t)
    then have "''expectedText'' \<in> set (map fst (monitor_entries a))" by (simp add: monitor_entries_def)
    from same [OF this] show ?thesis by (simp add: same_values_simps)
  qed
  moreover have "set [''name'', ''url'', ''enabled'', ''method'', ''intervalMinutes'', ''timeoutMs'', ''expectedStatus'',
      ''failureThreshold'', ''recoveryThreshold'', ''recipients'', ''groupId''] \<subseteq> set (map fst (monitor_entries a))"
    by (simp add: monitor_entries_def fields_json_def)
  then have "list_all (same_values b a) [''name'', ''url'', ''enabled'', ''method'', ''intervalMinutes'', ''timeoutMs'', ''expectedStatus'',
      ''failureThreshold'', ''recoveryThreshold'', ''recipients'', ''groupId'']"
    unfolding list_all_iff using same by auto
  ultimately show "b = a"
    using assms(1) by (intro monitor_config.equality) (simp_all add: same_values_simps)
next
  assume "b = a"
  then show "changed_keys b a = []" by (simp add: changed_keys_def filter_empty_conv same_values_def)
qed

text \<open>
  \<open>Object.keys(after)\<close> does not name an \<open>expectedText\<close> the new monitor lacks, so the comparison sees
  the old monitor without its own.
\<close>

definition text_blind :: "monitor_config \<Rightarrow> monitor_config \<Rightarrow> monitor_config" where
  "text_blind b a = (if mf_expectedText a = None then b\<lparr>mf_expectedText := None\<rparr> else b)"

lemma text_blind_simps [simp]:
  "mf_id (text_blind b a) = mf_id b" "mf_enabled (text_blind b a) = mf_enabled b"
  "mf_expectedText a = None \<Longrightarrow> mf_expectedText (text_blind b a) = None"
  by (simp_all add: text_blind_def)

lemma same_values_text:
  "key \<noteq> ''expectedText'' \<Longrightarrow> same_values (b\<lparr>mf_expectedText := None\<rparr>) a key = same_values b a key"
  by (simp add: same_values_def get_key_def monitor_entries_def fields_json_def map_of_append split: option.split)

lemma changed_keys_text_blind: "changed_keys (text_blind b a) a = changed_keys b a"
proof (cases "mf_expectedText a")
  case None
  then have "''expectedText'' \<notin> set (map fst (monitor_entries a))"
    by (simp add: monitor_entries_def fields_json_def)
  then have "same_values (b\<lparr>mf_expectedText := None\<rparr>) a key = same_values b a key"
    if "key \<in> set (map fst (monitor_entries a))" for key
    using that by (metis same_values_text)
  with None show ?thesis
    unfolding changed_keys_def by (intro filter_cong) (simp_all add: text_blind_def)
qed (simp add: text_blind_def)

text \<open>A change beyond pausing and resuming.\<close>

definition changed_beyond_state :: "monitor_config \<Rightarrow> monitor_config \<Rightarrow> bool" where
  "changed_beyond_state b a \<longleftrightarrow> b\<lparr>mf_enabled := mf_enabled a\<rparr> \<noteq> a"

lemma field_path_enabled:
  "key \<in> set (map fst (monitor_entries a)) \<Longrightarrow> js_endsWith (field_path m key) ''.enabled'' \<longleftrightarrow> key = ''enabled''"
  by (cases "mf_expectedText a")
    (auto simp: monitor_entries_def fields_json_def js_endsWith_def field_path_def js_startsWith_def)

lemma same_values_enabled:
  "key \<noteq> ''enabled'' \<Longrightarrow> same_values (b\<lparr>mf_enabled := e\<rparr>) a key = same_values b a key"
  by (simp add: same_values_def get_key_def monitor_entries_def fields_json_def map_of_append split: option.split)

lemma changed_keys_beyond:
  assumes "mf_id b = mf_id a" "mf_expectedText a = None \<Longrightarrow> mf_expectedText b = None"
  shows "(\<exists>key \<in> set (changed_keys b a). key \<noteq> ''enabled'') \<longleftrightarrow> changed_beyond_state b a"
proof -
  let ?b = "b\<lparr>mf_enabled := mf_enabled a\<rparr>"
  have "changed_keys ?b a = filter (\<lambda>key. key \<noteq> ''enabled'') (changed_keys b a)"
    unfolding changed_keys_def filter_filter
  proof (rule filter_cong [OF refl])
    fix key
    show "(key \<noteq> ''id'' \<and> \<not> same_values ?b a key) =
        ((key \<noteq> ''id'' \<and> \<not> same_values b a key) \<and> key \<noteq> ''enabled'')"
      by (cases "key = ''enabled''") (simp_all add: same_values_simps same_values_enabled)
  qed
  moreover have "changed_keys ?b a = [] \<longleftrightarrow> ?b = a"
    using assms by (intro changed_keys_empty) simp_all
  ultimately show ?thesis by (auto simp: changed_beyond_state_def filter_empty_conv)
qed

lemma changed_keys_seen:
  assumes "mf_id b = mf_id a"
  shows "changed_keys b a = [] \<longleftrightarrow> text_blind b a = a"
    and "(\<exists>key \<in> set (changed_keys b a). key \<noteq> ''enabled'') \<longleftrightarrow> changed_beyond_state (text_blind b a) a"
  using changed_keys_empty [of "text_blind b a" a] changed_keys_beyond [of "text_blind b a" a] assms
  by (simp_all add: changed_keys_text_blind)

lemma by_id_Some: "distinct (map mf_id ms) \<Longrightarrow> by_id ms i = Some m \<longleftrightarrow> m \<in> set ms \<and> mf_id m = i"
  unfolding by_id_def by (subst map_of_eq_Some_iff) (auto simp: rev_map comp_def distinct_map)

lemma by_id_None: "by_id ms i = None \<longleftrightarrow> i \<notin> mf_id ` set ms"
  by (auto simp: by_id_def map_of_eq_None_iff image_iff)

lemma group_by_id_Some: "distinct (map gc_id gs) \<Longrightarrow> group_by_id gs i = Some g \<longleftrightarrow> g \<in> set gs \<and> gc_id g = i"
  unfolding group_by_id_def by (subst map_of_eq_Some_iff) (auto simp: rev_map comp_def distinct_map)

lemma group_by_id_None: "group_by_id gs i = None \<longleftrightarrow> i \<notin> gc_id ` set gs"
  by (auto simp: group_by_id_def map_of_eq_None_iff image_iff)

lemma res_map_in: "res_map f xs = Inr ys \<Longrightarrow> x \<in> set xs \<Longrightarrow> \<exists>y \<in> set ys. f x = Inr y"
  by (induction xs arbitrary: ys) (auto simp: res_bind_Inr_iff)

lemma parts_filter:
  "res_map f xs = Inr ys \<Longrightarrow> \<forall>x \<in> set xs. \<forall>y. f x = Inr y \<longrightarrow> h y = (if P x then [x] else []) \<Longrightarrow>
   concat (map h ys) = filter P xs"
  by (induction xs arbitrary: ys) (auto simp: res_bind_Inr_iff)

subsection \<open>Settings\<close>

lemma walk_leaf:
  assumes "collision_free lib vs" "v \<in> set vs" "w \<in> set vs" "plain_json v" "plain_json w"
    and "\<forall>es. v \<noteq> J_object es"
  shows "\<exists>changes. walk_settings lib v w path = Inr changes \<and> (changes = [] \<longleftrightarrow> canon v = canon w)"
proof -
  obtain h h' where h: "hash_of lib v = Inr h" "hash_of lib w = Inr h'"
    using hash_of_plain assms(4,5) by metis
  with same_digest_iff [OF assms(1-4)] have "h = h' \<longleftrightarrow> canon v = canon w" by simp
  with h assms(6) show ?thesis by (cases v) (auto simp: walk_settings.simps)
qed

lemma settings_keys: "map fst (settings_entries v) = [''concurrency'', ''defaultTimeoutMs'', ''defaultFailureThreshold'',
     ''defaultRecoveryThreshold'', ''defaultRecipients'', ''userAgent'']"
  by (simp add: settings_entries_def)

lemma settings_values:
  assumes "key \<in> set (map fst (settings_entries v))"
  shows "get_key (settings_entries v) key \<in> set (map snd (settings_entries v))"
    and "\<forall>es. get_key (settings_entries v) key \<noteq> J_object es"
proof -
  have "map_of (settings_entries v) key \<noteq> None" using assms by (simp add: map_of_eq_None_iff)
  then obtain w where w: "map_of (settings_entries v) key = Some w" by blast
  then have "(key, w) \<in> set (settings_entries v)" by (rule map_of_SomeD)
  then have "w \<in> set (map snd (settings_entries v))" by force
  moreover have "\<forall>es. x \<noteq> J_object es" if "x \<in> set (map snd (settings_entries v))" for x
    using that by (auto simp: settings_entries_def)
  ultimately show "get_key (settings_entries v) key \<in> set (map snd (settings_entries v))"
    "\<forall>es. get_key (settings_entries v) key \<noteq> J_object es"
    using w by (simp_all add: get_key_def)
qed

lemma settings_by_keys:
  assumes "\<forall>key \<in> set (map fst (settings_entries b)). canon (get_key (settings_entries b) key) = canon (get_key (settings_entries a) key)"
  shows "b = a"
  using assms unfolding settings_keys
  by (intro monitoring_settings.equality) (simp_all add: settings_entries_def get_key_def)

lemma diffSettings_empty:
  assumes "collision_free lib vs" "set (J_object (settings_entries b) # map snd (settings_entries b)) \<subseteq> set vs"
    "set (J_object (settings_entries a) # map snd (settings_entries a)) \<subseteq> set vs"
    and "diffSettings lib b a = Inr changes"
  shows "changes = [] \<longleftrightarrow> b = a"
proof
  assume eq: "b = a"
  obtain h where "hash_of lib (J_object (settings_entries a)) = Inr h" using hash_of_plain plain_settings(1) by metis
  then have "diffSettings lib a a = Inr []"
    unfolding diffSettings_def by (subst walk_settings.simps) simp
  with assms(4) eq show "changes = []" by simp
next
  assume none: "changes = []"
  obtain h h' where h: "hash_of lib (J_object (settings_entries b)) = Inr h"
    "hash_of lib (J_object (settings_entries a)) = Inr h'"
    using hash_of_plain plain_settings(1) by metis
  show "b = a"
  proof (cases "h = h'")
    case True
    with h same_digest_iff [OF assms(1), of "J_object (settings_entries b)" "J_object (settings_entries a)"] assms(2,3)
    show ?thesis using plain_settings(1) canon_settings by simp
  next
    case False
    let ?walk = "\<lambda>key. walk_settings lib (get_key (settings_entries b) key) (get_key (settings_entries a) key)
      (''settings'' @ ''.'' @ key)"
    let ?keys = "sort (js_unique (map fst (settings_entries b) @ map fst (settings_entries a)))"
    obtain parts where parts: "res_map ?walk ?keys = Inr parts" "changes = concat parts"
      using assms(4) h False unfolding diffSettings_def
      by (subst (asm) walk_settings.simps) (auto simp: res_bind_Inr_iff)
    show ?thesis
    proof (rule settings_by_keys, rule ballI)
      fix key assume key: "key \<in> set (map fst (settings_entries b))"
      then have key': "key \<in> set (map fst (settings_entries a))" by (simp only: settings_keys)
      have "\<exists>changes. ?walk key = Inr changes \<and> (changes = [] \<longleftrightarrow>
          canon (get_key (settings_entries b) key) = canon (get_key (settings_entries a) key))"
        using settings_values [OF key] settings_values [OF key'] assms(2,3)
        by (intro walk_leaf [OF assms(1)] plain_settings(2) [of _ b] plain_settings(2) [of _ a]) auto
      moreover have "key \<in> set ?keys" using key by simp
      then have "\<exists>y \<in> set parts. ?walk key = Inr y" by (rule res_map_in [OF parts(1)])
      then have "?walk key = Inr []" using none parts(2) by auto
      ultimately show "canon (get_key (settings_entries b) key) = canon (get_key (settings_entries a) key)" by auto
    qed
  qed
qed

subsection \<open>The diff\<close>

definition unique_ids :: "declarative_config \<Rightarrow> bool" where
  "unique_ids c \<longleftrightarrow> distinct (map mf_id (dc_monitors c)) \<and> distinct (map gc_id (dc_groups c))"

lemma values_of_monitor: "m \<in> set (dc_monitors c) \<Longrightarrow> set (map snd (monitor_entries m)) \<subseteq> set (config_values c)"
  by (auto simp: config_values_def)

lemma diff_monitor_seen:
  assumes "diff_monitor lib (dc_monitors current) archived a = Inr part" "a \<in> set (dc_monitors target)"
    and "collision_free lib (config_values current @ config_values target)" "unique_ids current"
  shows "df_unchanged part =
      (if \<exists>b \<in> set (dc_monitors current). mf_id b = mf_id a \<and> text_blind b a = a then [a] else []) \<and>
    df_creates part = (if mf_id a \<notin> mf_id ` set (dc_monitors current) \<union> mf_id ` set archived then [a] else []) \<and>
    map mu_after (filter (\<lambda>u. \<not> mu_restore u) (df_updates part)) =
      (if \<exists>b \<in> set (dc_monitors current). mf_id b = mf_id a \<and> changed_beyond_state (text_blind b a) a
       then [a] else []) \<and>
    map mu_after (filter mu_restore (df_updates part)) =
      (if mf_id a \<in> mf_id ` set archived - mf_id ` set (dc_monitors current) then [a] else []) \<and>
    df_pauses part =
      (if \<exists>b \<in> set (dc_monitors current). mf_id b = mf_id a \<and> mf_enabled b \<and> \<not> mf_enabled a then [a] else []) \<and>
    df_resumes part =
      (if mf_enabled a \<and> (mf_id a \<in> mf_id ` set archived - mf_id ` set (dc_monitors current) \<or>
         (\<exists>b \<in> set (dc_monitors current). mf_id b = mf_id a \<and> \<not> mf_enabled b)) then [a] else [])"
proof (cases "by_id (dc_monitors current) (mf_id a)")
  case None
  then have "mf_id a \<notin> mf_id ` set (dc_monitors current)" by (simp add: by_id_None)
  moreover from this have "\<not> (\<exists>b \<in> set (dc_monitors current). mf_id b = mf_id a \<and> p b)" for p
    by (auto simp: image_iff)
  moreover have "mf_id a \<in> mf_id ` set archived \<longleftrightarrow> by_id archived (mf_id a) \<noteq> None" by (simp add: by_id_None)
  ultimately show ?thesis using assms(1) None
    by (cases "by_id archived (mf_id a)")
      (auto simp: diff_monitor_def empty_diff_def res_bind_Inr_iff simp del: image_iff)
next
  case (Some b)
  then have b: "b \<in> set (dc_monitors current)" "mf_id b = mf_id a" using assms(4) by (simp_all add: by_id_Some unique_ids_def)
  have only: "b' = b" if "b' \<in> set (dc_monitors current)" "mf_id b' = mf_id a" for b'
    using that b assms(4) inj_onD [of mf_id "set (dc_monitors current)" b' b] by (simp add: unique_ids_def distinct_map)
  obtain changed where c: "changedMonitorFields lib b a = Inr changed"
    using assms(1) Some by (auto simp: diff_monitor_def res_bind_Inr_iff)
  have changed: "changed = map (field_path a) (sort (changed_keys b a))"
    by (rule changedMonitorFields_keys [OF c assms(3)])
      (use values_of_monitor [OF b(1)] values_of_monitor [OF assms(2)] in auto)
  have none: "changed = [] \<longleftrightarrow> text_blind b a = a"
    unfolding changed using changed_keys_seen(1) [OF b(2)] by (auto simp: length_0_conv [symmetric] simp del: length_0_conv)
  have more: "filter (\<lambda>path. \<not> js_endsWith path ''.enabled'') changed \<noteq> [] \<longleftrightarrow>
      changed_beyond_state (text_blind b a) a"
  proof -
    have path: "js_endsWith (field_path a key) ''.enabled'' \<longleftrightarrow> key = ''enabled''" if "key \<in> set (changed_keys b a)" for key
      using that by (intro field_path_enabled [of key a]) (simp add: changed_keys_def)
    have "filter (\<lambda>path. \<not> js_endsWith path ''.enabled'') changed \<noteq> [] \<longleftrightarrow>
        (\<exists>key \<in> set (changed_keys b a). \<not> js_endsWith (field_path a key) ''.enabled'')"
      unfolding changed by (auto simp: filter_empty_conv)
    also have "\<dots> \<longleftrightarrow> (\<exists>key \<in> set (changed_keys b a). key \<noteq> ''enabled'')"
      using path by (intro bex_cong refl) simp
    finally have "filter (\<lambda>path. \<not> js_endsWith path ''.enabled'') changed \<noteq> [] \<longleftrightarrow>
        (\<exists>key \<in> set (changed_keys b a). key \<noteq> ''enabled'')" .
    then show ?thesis using changed_keys_seen(2) [OF b(2)] by simp
  qed
  have the_one: "(\<exists>b \<in> set (dc_monitors current). mf_id b = mf_id a \<and> p b) \<longleftrightarrow> p b" for p
    using only b by blast
  have here: "mf_id a \<in> mf_id ` set (dc_monitors current)" unfolding b(2) [symmetric] using b(1) by (rule imageI)
  have part: "part = empty_diff\<lparr>
      df_updates := (if filter (\<lambda>path. \<not> js_endsWith path ''.enabled'') changed \<noteq> [] then [\<lparr>mu_id = mf_id a, mu_before = b, mu_after = a,
         mu_changedFields = filter (\<lambda>path. \<not> js_endsWith path ''.enabled'') changed, mu_restore = False\<rparr>] else []),
      df_pauses := (if mf_enabled b \<and> \<not> mf_enabled a then [a] else []),
      df_resumes := (if \<not> mf_enabled b \<and> mf_enabled a then [a] else []),
      df_unchanged := (if changed = [] then [a] else [])\<rparr>"
    using assms(1) Some c by (simp add: diff_monitor_def Let_def)
  show ?thesis unfolding the_one part using here none more by (auto simp: empty_diff_def)
qed

lemma settings_in_values:
  "set (J_object (settings_entries (dc_settings c)) # map snd (settings_entries (dc_settings c))) \<subseteq> set (config_values c)"
  by (auto simp: config_values_def)

lemma diffSettings_returns:
  assumes "collision_free lib vs" "set (J_object (settings_entries b) # map snd (settings_entries b)) \<subseteq> set vs"
    "set (J_object (settings_entries a) # map snd (settings_entries a)) \<subseteq> set vs"
  shows "\<exists>changes. diffSettings lib b a = Inr changes"
proof -
  obtain h h' where h: "hash_of lib (J_object (settings_entries b)) = Inr h"
    "hash_of lib (J_object (settings_entries a)) = Inr h'"
    using hash_of_plain plain_settings(1) by metis
  have "\<exists>ys. res_map (\<lambda>key. walk_settings lib (get_key (settings_entries b) key) (get_key (settings_entries a) key)
      (''settings'' @ ''.'' @ key)) (sort (js_unique (map fst (settings_entries b) @ map fst (settings_entries a)))) = Inr ys"
  proof (rule res_map_exists)
    fix key assume "key \<in> set (sort (js_unique (map fst (settings_entries b) @ map fst (settings_entries a))))"
    then have key: "key \<in> set (map fst (settings_entries b))" "key \<in> set (map fst (settings_entries a))"
      by (auto simp del: list.set_map simp: settings_keys)
    have "\<exists>changes. walk_settings lib (get_key (settings_entries b) key) (get_key (settings_entries a) key)
        (''settings'' @ ''.'' @ key) = Inr changes \<and> (changes = [] \<longleftrightarrow>
          canon (get_key (settings_entries b) key) = canon (get_key (settings_entries a) key))"
      using settings_values [OF key(1)] settings_values [OF key(2)] assms(2,3)
      by (intro walk_leaf [OF assms(1)] plain_settings(2) [of _ b] plain_settings(2) [of _ a]) auto
    then show "\<exists>y. walk_settings lib (get_key (settings_entries b) key) (get_key (settings_entries a) key)
        (''settings'' @ ''.'' @ key) = Inr y" by blast
  qed
  with h show ?thesis unfolding diffSettings_def by (subst walk_settings.simps) auto
qed

lemma diff_group_parts:
  assumes "collision_free lib (config_values current @ config_values target)" "unique_ids current" "a \<in> set (dc_groups target)"
  obtains created updated where "diff_group lib (dc_groups current) a = Inr (created, updated)"
    "created = (if gc_id a \<notin> gc_id ` set (dc_groups current) then [a] else [])"
    "map gu_after updated = (if gc_id a \<in> gc_id ` set (dc_groups current) \<and> a \<notin> set (dc_groups current) then [a] else [])"
proof (cases "group_by_id (dc_groups current) (gc_id a)")
  case None
  then show ?thesis using group_by_id_None [of "dc_groups current" "gc_id a"]
    by (intro that [of "[a]" "[]"]) (auto simp: diff_group_def image_iff)
next
  case (Some b)
  then have b: "b \<in> set (dc_groups current)" "gc_id b = gc_id a"
    using assms(2) by (simp_all add: group_by_id_Some unique_ids_def)
  obtain h h' where h: "hash_of lib (group_json b) = Inr h" "hash_of lib (group_json a) = Inr h'"
    using hash_of_plain plain_group by metis
  have "group_json b \<in> set (config_values current @ config_values target)"
    "group_json a \<in> set (config_values current @ config_values target)"
    using b assms(3) by (auto simp: config_values_def)
  from same_digest_iff [OF assms(1) this plain_group] h have hash: "h = h' \<longleftrightarrow> b = a" by (simp add: canon_group)
  have "b' = b" if "b' \<in> set (dc_groups current)" "gc_id b' = gc_id a" for b'
  proof (rule inj_onD [of gc_id "set (dc_groups current)"])
    show "inj_on gc_id (set (dc_groups current))" using assms(2) by (simp add: unique_ids_def distinct_map)
  qed (use that b in simp_all)
  with b(1) have mem: "a \<in> set (dc_groups current) \<longleftrightarrow> b = a" by blast
  have here: "gc_id a \<in> gc_id ` set (dc_groups current)" using b by (metis imageI)
  define updated where "updated = (if b \<noteq> a then [\<lparr>gu_id = gc_id a, gu_before = b, gu_after = a,
    gu_changedFields = [''groups.'' @ gc_id a @ ''.name'']\<rparr>] else [])"
  have "diff_group lib (dc_groups current) a = Inr ([], updated)"
    using hash h Some by (simp add: diff_group_def updated_def)
  moreover have "map gu_after updated = (if gc_id a \<in> gc_id ` set (dc_groups current) \<and> a \<notin> set (dc_groups current) then [a] else [])"
    using here mem by (simp add: updated_def)
  ultimately show ?thesis using here by (intro that [of "[]" updated]) simp_all
qed

text \<open>A monitor that is there, or was archived, and gets an \<open>expectedText\<close> it had not.\<close>

definition gains_text :: "monitor_config list \<Rightarrow> monitor_config list \<Rightarrow> monitor_config \<Rightarrow> bool" where
  "gains_text current archived a \<longleftrightarrow> mf_expectedText a \<noteq> None \<and>
     (case by_id current (mf_id a) of
        Some b \<Rightarrow> mf_expectedText b = None
      | None \<Rightarrow> (case by_id archived (mf_id a) of Some b \<Rightarrow> mf_expectedText b = None | None \<Rightarrow> False))"

lemma diff_monitor_raises:
  "if gains_text current archived a then diff_monitor lib current archived a = Inl undefined_error
   else \<exists>part. diff_monitor lib current archived a = Inr part"
proof -
  note raises = changedMonitorFields_raises [of a _ lib]
  show ?thesis
    using raises [of "the (by_id current (mf_id a))"] raises [of "the (by_id archived (mf_id a))"]
    by (cases "by_id current (mf_id a)"; cases "by_id archived (mf_id a)"; cases "mf_expectedText a")
      (auto simp: gains_text_def diff_monitor_def Let_def split: if_splits)
qed

lemma parts_filter_map:
  "res_map f xs = Inr ys \<Longrightarrow> \<forall>x \<in> set xs. \<forall>y. f x = Inr y \<longrightarrow> map g (filter q (h y)) = (if P x then [x] else []) \<Longrightarrow>
   map g (filter q (concat (map h ys))) = filter P xs"
  by (induction xs arbitrary: ys) (auto simp: res_bind_Inr_iff)

lemma parts_map:
  "res_map f xs = Inr ys \<Longrightarrow> \<forall>x \<in> set xs. \<forall>y. f x = Inr y \<longrightarrow> map g (h y) = (if P x then [x] else []) \<Longrightarrow>
   map g (concat (map h ys)) = filter P xs"
  using parts_filter_map [of f xs ys g "\<lambda>_. True" h P] by simp

lemma groups_diff:
  assumes "collision_free lib (config_values current @ config_values target)" "unique_ids current"
  obtains parts where "res_map (diff_group lib (dc_groups current)) (dc_groups target) = Inr parts"
    "concat (map fst parts) = filter (\<lambda>a. gc_id a \<notin> gc_id ` set (dc_groups current)) (dc_groups target)"
    "map gu_after (concat (map snd parts)) =
       filter (\<lambda>a. gc_id a \<in> gc_id ` set (dc_groups current) \<and> a \<notin> set (dc_groups current)) (dc_groups target)"
proof -
  note part = diff_group_parts [OF assms]
  have "\<exists>y. diff_group lib (dc_groups current) a = Inr y" if "a \<in> set (dc_groups target)" for a
    using part [OF that] by metis
  then obtain parts where parts: "res_map (diff_group lib (dc_groups current)) (dc_groups target) = Inr parts"
    using res_map_exists by blast
  have each: "fst y = (if gc_id a \<notin> gc_id ` set (dc_groups current) then [a] else []) \<and>
      map gu_after (snd y) =
        (if gc_id a \<in> gc_id ` set (dc_groups current) \<and> a \<notin> set (dc_groups current) then [a] else [])"
    if "a \<in> set (dc_groups target)" "diff_group lib (dc_groups current) a = Inr y" for a y
  proof -
    note in_target = that(1) and result = that(2)
    obtain created updated where p: "diff_group lib (dc_groups current) a = Inr (created, updated)"
      "created = (if gc_id a \<notin> gc_id ` set (dc_groups current) then [a] else [])"
      "map gu_after updated = (if gc_id a \<in> gc_id ` set (dc_groups current) \<and> a \<notin> set (dc_groups current) then [a] else [])"
      by (rule part [OF in_target])
    then have "y = (created, updated)" using result by simp
    with p(2,3) show ?thesis by (simp only: fst_conv snd_conv simp_thms)
  qed
  show thesis
  proof (rule that [OF parts])
    show "concat (map fst parts) = filter (\<lambda>a. gc_id a \<notin> gc_id ` set (dc_groups current)) (dc_groups target)"
      using each by (intro parts_filter [OF parts]) blast
    show "map gu_after (concat (map snd parts)) =
       filter (\<lambda>a. gc_id a \<in> gc_id ` set (dc_groups current) \<and> a \<notin> set (dc_groups current)) (dc_groups target)"
      using each by (intro parts_map [OF parts]) blast
  qed
qed

lemma monitors_diff_raises:
  assumes "\<exists>a \<in> set monitors. gains_text current archived a"
  shows "res_map (diff_monitor lib current archived) monitors = Inl undefined_error"
proof -
  note raises = diff_monitor_raises [of current archived _ lib]
  have "if \<exists>a \<in> set monitors. diff_monitor lib current archived a = Inl undefined_error
    then res_map (diff_monitor lib current archived) monitors = Inl undefined_error
    else \<exists>ys. res_map (diff_monitor lib current archived) monitors = Inr ys"
    using raises by (intro res_map_error) metis
  with assms show ?thesis using raises by metis
qed

lemma monitors_diff:
  assumes "collision_free lib (config_values current @ config_values target)" "unique_ids current"
    "\<not> (\<exists>a \<in> set (dc_monitors target). gains_text (dc_monitors current) archived a)"
  obtains parts where "res_map (diff_monitor lib (dc_monitors current) archived) (dc_monitors target) = Inr parts"
    "concat (map df_creates parts) =
       filter (\<lambda>a. mf_id a \<notin> mf_id ` set (dc_monitors current) \<union> mf_id ` set archived) (dc_monitors target)"
    "map mu_after (filter mu_restore (concat (map df_updates parts))) =
       filter (\<lambda>a. mf_id a \<in> mf_id ` set archived - mf_id ` set (dc_monitors current)) (dc_monitors target)"
    "map mu_after (filter (\<lambda>u. \<not> mu_restore u) (concat (map df_updates parts))) =
       filter (\<lambda>a. \<exists>b \<in> set (dc_monitors current). mf_id b = mf_id a \<and> changed_beyond_state (text_blind b a) a)
         (dc_monitors target)"
    "concat (map df_pauses parts) =
       filter (\<lambda>a. \<exists>b \<in> set (dc_monitors current). mf_id b = mf_id a \<and> mf_enabled b \<and> \<not> mf_enabled a) (dc_monitors target)"
    "concat (map df_resumes parts) =
       filter (\<lambda>a. mf_enabled a \<and> (mf_id a \<in> mf_id ` set archived - mf_id ` set (dc_monitors current) \<or>
         (\<exists>b \<in> set (dc_monitors current). mf_id b = mf_id a \<and> \<not> mf_enabled b))) (dc_monitors target)"
    "concat (map df_unchanged parts) =
       filter (\<lambda>a. \<exists>b \<in> set (dc_monitors current). mf_id b = mf_id a \<and> text_blind b a = a) (dc_monitors target)"
proof -
  let ?part = "diff_monitor lib (dc_monitors current) archived"
  have "\<exists>y. ?part a = Inr y" if "a \<in> set (dc_monitors target)" for a
    using diff_monitor_raises [of "dc_monitors current" archived a lib] assms(3) that by auto
  then obtain parts where parts: "res_map ?part (dc_monitors target) = Inr parts"
    using res_map_exists by blast
  have kept: "df_unchanged y =
    (if \<exists>b \<in> set (dc_monitors current). mf_id b = mf_id a \<and> text_blind b a = a then [a] else []) \<and>
  df_creates y = (if mf_id a \<notin> mf_id ` set (dc_monitors current) \<union> mf_id ` set archived then [a] else []) \<and>
  map mu_after (filter (\<lambda>u. \<not> mu_restore u) (df_updates y)) =
    (if \<exists>b \<in> set (dc_monitors current). mf_id b = mf_id a \<and> changed_beyond_state (text_blind b a) a
     then [a] else []) \<and>
  map mu_after (filter mu_restore (df_updates y)) =
    (if mf_id a \<in> mf_id ` set archived - mf_id ` set (dc_monitors current) then [a] else []) \<and>
  df_pauses y =
    (if \<exists>b \<in> set (dc_monitors current). mf_id b = mf_id a \<and> mf_enabled b \<and> \<not> mf_enabled a then [a] else []) \<and>
  df_resumes y =
    (if mf_enabled a \<and> (mf_id a \<in> mf_id ` set archived - mf_id ` set (dc_monitors current) \<or>
       (\<exists>b \<in> set (dc_monitors current). mf_id b = mf_id a \<and> \<not> mf_enabled b)) then [a] else [])"
    if "a \<in> set (dc_monitors target)" "?part a = Inr y" for a y
    by (rule diff_monitor_seen [OF that(2,1) assms(1,2)])
  show thesis
    by (rule that [OF parts]; (intro parts_filter [OF parts] | intro parts_filter_map [OF parts]); use kept in blast)
qed

text \<open>C23. What the diff of a configuration change tells, for documents with unique ids and digests that do
  not collide on the values compared. The settings are reported as changed just when they differ; the
  monitors and groups created, restored, updated, paused, resumed, archived, deleted and unchanged are
  just those of the target, or of the current document, that are so - where a monitor is compared
  with the old one as the code sees it, without its \<open>expectedText\<close> when the new one has none, so that
  dropping that text alone is listed as unchanged. The calculation fails in exactly one case, with the
  type error of the canonical text: when a monitor that is there or was archived gets an
  \<open>expectedText\<close> it had not.
\<close>

theorem plan_tells_changes:
  assumes "collision_free lib (config_values current @ config_values target)" and "unique_ids current"
  shows "if \<exists>a \<in> set (dc_monitors target). gains_text (dc_monitors current) archived a
    then calculateConfigurationDiff lib current target archived = Inl undefined_error
    else \<exists>d. calculateConfigurationDiff lib current target archived = Inr d \<and>
      (df_settingsChanged d = [] \<longleftrightarrow> dc_settings current = dc_settings target) \<and>
      df_creates d = filter (\<lambda>a. mf_id a \<notin> mf_id ` set (dc_monitors current) \<union> mf_id ` set archived) (dc_monitors target) \<and>
      map mu_after (filter mu_restore (df_updates d)) =
        filter (\<lambda>a. mf_id a \<in> mf_id ` set archived - mf_id ` set (dc_monitors current)) (dc_monitors target) \<and>
      map mu_after (filter (\<lambda>u. \<not> mu_restore u) (df_updates d)) =
        filter (\<lambda>a. \<exists>b \<in> set (dc_monitors current). mf_id b = mf_id a \<and> changed_beyond_state (text_blind b a) a)
          (dc_monitors target) \<and>
      df_pauses d =
        filter (\<lambda>a. \<exists>b \<in> set (dc_monitors current). mf_id b = mf_id a \<and> mf_enabled b \<and> \<not> mf_enabled a) (dc_monitors target) \<and>
      df_resumes d =
        filter (\<lambda>a. mf_enabled a \<and> (mf_id a \<in> mf_id ` set archived - mf_id ` set (dc_monitors current) \<or>
          (\<exists>b \<in> set (dc_monitors current). mf_id b = mf_id a \<and> \<not> mf_enabled b))) (dc_monitors target) \<and>
      df_unchanged d =
        filter (\<lambda>a. \<exists>b \<in> set (dc_monitors current). mf_id b = mf_id a \<and> text_blind b a = a) (dc_monitors target) \<and>
      df_archives d = filter (\<lambda>b. mf_id b \<notin> mf_id ` set (dc_monitors target)) (dc_monitors current) \<and>
      df_groupCreates d = filter (\<lambda>a. gc_id a \<notin> gc_id ` set (dc_groups current)) (dc_groups target) \<and>
      map gu_after (df_groupUpdates d) =
        filter (\<lambda>a. gc_id a \<in> gc_id ` set (dc_groups current) \<and> a \<notin> set (dc_groups current)) (dc_groups target) \<and>
      df_groupDeletes d = filter (\<lambda>b. gc_id b \<notin> gc_id ` set (dc_groups target)) (dc_groups current)"
proof -
  have inside: "set (J_object (settings_entries (dc_settings c)) # map snd (settings_entries (dc_settings c)))
      \<subseteq> set (config_values current @ config_values target)" if "c \<in> {current, target}" for c
    using that settings_in_values [of c] by auto
  obtain settings where settings: "diffSettings lib (dc_settings current) (dc_settings target) = Inr settings"
    using diffSettings_returns [OF assms(1) inside inside, of current target] by auto
  have same: "settings = [] \<longleftrightarrow> dc_settings current = dc_settings target"
    by (rule diffSettings_empty [OF assms(1) inside inside settings]) simp_all
  obtain groups where groups: "res_map (diff_group lib (dc_groups current)) (dc_groups target) = Inr groups"
    "concat (map fst groups) = filter (\<lambda>a. gc_id a \<notin> gc_id ` set (dc_groups current)) (dc_groups target)"
    "map gu_after (concat (map snd groups)) =
       filter (\<lambda>a. gc_id a \<in> gc_id ` set (dc_groups current) \<and> a \<notin> set (dc_groups current)) (dc_groups target)"
    by (rule groups_diff [OF assms(1,2)])
  show ?thesis
  proof (cases "\<exists>a \<in> set (dc_monitors target). gains_text (dc_monitors current) archived a")
    case True
    from monitors_diff_raises [OF True, of lib] True show ?thesis
      by (simp add: calculateConfigurationDiff_def settings groups(1))
  next
    case False
    obtain monitors where monitors: "res_map (diff_monitor lib (dc_monitors current) archived) (dc_monitors target) = Inr monitors"
      and parts: "concat (map df_creates monitors) =
         filter (\<lambda>a. mf_id a \<notin> mf_id ` set (dc_monitors current) \<union> mf_id ` set archived) (dc_monitors target)"
      "map mu_after (filter mu_restore (concat (map df_updates monitors))) =
         filter (\<lambda>a. mf_id a \<in> mf_id ` set archived - mf_id ` set (dc_monitors current)) (dc_monitors target)"
      "map mu_after (filter (\<lambda>u. \<not> mu_restore u) (concat (map df_updates monitors))) =
         filter (\<lambda>a. \<exists>b \<in> set (dc_monitors current). mf_id b = mf_id a \<and> changed_beyond_state (text_blind b a) a)
           (dc_monitors target)"
      "concat (map df_pauses monitors) =
         filter (\<lambda>a. \<exists>b \<in> set (dc_monitors current). mf_id b = mf_id a \<and> mf_enabled b \<and> \<not> mf_enabled a) (dc_monitors target)"
      "concat (map df_resumes monitors) =
         filter (\<lambda>a. mf_enabled a \<and> (mf_id a \<in> mf_id ` set archived - mf_id ` set (dc_monitors current) \<or>
           (\<exists>b \<in> set (dc_monitors current). mf_id b = mf_id a \<and> \<not> mf_enabled b))) (dc_monitors target)"
      "concat (map df_unchanged monitors) =
         filter (\<lambda>a. \<exists>b \<in> set (dc_monitors current). mf_id b = mf_id a \<and> text_blind b a = a) (dc_monitors target)"
      using monitors_diff [OF assms False] by blast
    define d where "d = \<lparr>df_settingsChanged = settings, df_groupCreates = concat (map fst groups), df_groupUpdates = concat (map snd groups),
         df_groupDeletes = filter (\<lambda>g. gc_id g \<notin> gc_id ` set (dc_groups target)) (dc_groups current),
         df_creates = concat (map df_creates monitors), df_updates = concat (map df_updates monitors),
         df_pauses = concat (map df_pauses monitors), df_resumes = concat (map df_resumes monitors),
         df_archives = filter (\<lambda>m. mf_id m \<notin> mf_id ` set (dc_monitors target)) (dc_monitors current),
         df_unchanged = concat (map df_unchanged monitors)\<rparr>"
    have diff: "calculateConfigurationDiff lib current target archived = Inr d"
      by (simp add: calculateConfigurationDiff_def d_def settings groups(1) monitors by_id_None group_by_id_None)
    show ?thesis unfolding if_not_P [OF False]
      by (intro exI [of _ d] conjI diff) (simp_all only: d_def configuration_diff.select_convs same groups(2,3) parts)
  qed
qed

definition sample_monitor :: "string \<Rightarrow> monitor_config" where
  "sample_monitor i = \<lparr>mf_id = i, mf_name = i, mf_url = ''https://a.example/'', mf_enabled = True, mf_method = Method_get,
     mf_intervalMinutes = 1, mf_timeoutMs = 8000, mf_expectedStatus = \<lparr>es_minimum = 200, es_maximum = 299\<rparr>,
     mf_failureThreshold = 2, mf_recoveryThreshold = 2, mf_recipients = [''a@b.c''], mf_expectedText = None, mf_groupId = None\<rparr>"

definition sample_config :: "monitor_config list \<Rightarrow> declarative_config" where
  "sample_config ms = \<lparr>dc_settings = \<lparr>se_concurrency = 10, se_defaultTimeoutMs = 8000, se_defaultFailureThreshold = 2,
     se_defaultRecoveryThreshold = 2, se_defaultRecipients = [''a@b.c''], se_userAgent = ''Pulse''\<rparr>,
     dc_groups = [], dc_monitors = ms\<rparr>"

definition sample_config_lib :: config_lib where
  "sample_config_lib = \<lparr>li_isEmail = (\<lambda>_. True), li_newUrl = (\<lambda>_. None), li_lowerHostUrl = (\<lambda>u. u), li_sha256 = (\<lambda>s. s)\<rparr>"

lemma sample_hash:
  "hash_of sample_config_lib v = (case canonicalSerialize v of Inl e \<Rightarrow> Inl e | Inr t \<Rightarrow> Inr (''sha256:'' @ t))"
  by (simp add: hash_of_def hashCanonical_def sample_config_lib_def split: sum.split)

lemma sample_collision_free: "collision_free sample_config_lib vs"
  unfolding collision_free_def
proof (intro ballI impI)
  fix v w
  assume same: "hash_of sample_config_lib v = hash_of sample_config_lib w"
  show "canonicalSerialize v = canonicalSerialize w"
    using same [unfolded sample_hash] by (simp split: sum.splits)
qed

theorem plan_tells_changes_witness:
  "\<exists>d. calculateConfigurationDiff sample_config_lib
      (sample_config [sample_monitor ''a'', sample_monitor ''b''])
      (sample_config [(sample_monitor ''b'')\<lparr>mf_timeoutMs := 9000\<rparr>, sample_monitor ''c'']) [] = Inr d \<and>
    map mf_id (df_creates d) = [''c''] \<and> map mf_id (df_archives d) = [''a''] \<and> df_unchanged d = [] \<and>
    map (mf_id \<circ> mu_after) (filter (\<lambda>u. \<not> mu_restore u) (df_updates d)) = [''b'']"
proof -
  let ?old = "sample_config [sample_monitor ''a'', sample_monitor ''b'']"
  let ?new = "sample_config [(sample_monitor ''b'')\<lparr>mf_timeoutMs := 9000\<rparr>, sample_monitor ''c'']"
  have ids: "unique_ids ?old"
    by (simp add: unique_ids_def sample_config_def sample_monitor_def)
  have none: "\<not> (\<exists>a \<in> set (dc_monitors ?new). gains_text (dc_monitors ?old) [] a)"
    by (simp add: gains_text_def sample_config_def sample_monitor_def)
  show ?thesis using plan_tells_changes [OF sample_collision_free ids, where target = ?new and archived = "[]", unfolded if_not_P [OF none]]
  proof (elim exE conjE)
    fix d
    assume d: "calculateConfigurationDiff sample_config_lib ?old ?new [] = Inr d"
      "df_creates d = filter (\<lambda>a. mf_id a \<notin> mf_id ` set (dc_monitors ?old) \<union> mf_id ` set []) (dc_monitors ?new)"
      "map mu_after (filter (\<lambda>u. \<not> mu_restore u) (df_updates d)) =
        filter (\<lambda>a. \<exists>b \<in> set (dc_monitors ?old). mf_id b = mf_id a \<and> changed_beyond_state (text_blind b a) a)
          (dc_monitors ?new)"
      "df_unchanged d =
        filter (\<lambda>a. \<exists>b \<in> set (dc_monitors ?old). mf_id b = mf_id a \<and> text_blind b a = a) (dc_monitors ?new)"
      "df_archives d = filter (\<lambda>b. mf_id b \<notin> mf_id ` set (dc_monitors ?new)) (dc_monitors ?old)"
    have "map mf_id (map mu_after (filter (\<lambda>u. \<not> mu_restore u) (df_updates d))) = [''b'']"
      unfolding d(3) by (simp add: sample_config_def sample_monitor_def changed_beyond_state_def text_blind_def)
    moreover have "map mf_id (df_creates d) = [''c'']" "map mf_id (df_archives d) = [''a'']" "df_unchanged d = []"
      unfolding d(2,4,5) by (simp_all add: sample_config_def sample_monitor_def text_blind_def)
    ultimately show ?thesis using d(1) by (intro exI [of _ d] conjI) simp_all
  qed
qed

text \<open>An \<open>expectedText\<close> that is dropped leaves no trace in the diff: the monitor counts as unchanged.\<close>

lemma dropped_text_unreported:
  assumes "by_id current (mf_id b) = Some b"
  shows "diff_monitor lib current archived (b\<lparr>mf_expectedText := None\<rparr>) =
    Inr (empty_diff\<lparr>df_unchanged := [b\<lparr>mf_expectedText := None\<rparr>]\<rparr>)"
proof -
  let ?a = "b\<lparr>mf_expectedText := None\<rparr>"
  obtain changed where c: "changedMonitorFields lib b ?a = Inr changed"
    using changedMonitorFields_raises [of ?a b lib] by auto
  let ?f = "\<lambda>(key, v). if key = ''id'' then Inr []
        else res_bind (hash_of lib (get_key (monitor_entries b) key)) (\<lambda>hb.
          res_bind (hash_of lib v) (\<lambda>ha. Inr (if hb \<noteq> ha then [key] else [])))"
  obtain keys where keys: "res_map ?f (monitor_entries ?a) = Inr keys"
    "changed = map (\<lambda>key. ''monitors.'' @ mf_id b @ ''.'' @ key) (sort (concat keys))"
    using c by (auto simp: changedMonitorFields_def res_bind_Inr_iff)
  have same: "get_key (monitor_entries b) k = v" if "(k, v) \<in> set (monitor_entries ?a)" for k v
  proof -
    have "(k, v) \<in> set (monitor_entries b)" using that by (auto simp: monitor_entries_def fields_json_def)
    then show ?thesis by (rule get_key_entry)
  qed
  have "y = []" if "x \<in> set (monitor_entries ?a)" "?f x = Inr y" for x y
  proof -
    obtain k v where x: "x = (k, v)" by (cases x) blast
    with same that(1) have "get_key (monitor_entries b) k = v" by simp
    with that(2) x show ?thesis by (auto simp: res_bind_Inr_iff split: if_splits)
  qed
  then have "keys = map (\<lambda>_. []) (monitor_entries ?a)" by (intro res_map_values [OF keys(1)])
  then have "changed = []" using keys(2) by (simp add: map_replicate_const)
  with c assms show ?thesis by (simp add: diff_monitor_def Let_def empty_diff_def)
qed

end
