(* ===== verification/Registry_Sync.thy ===== *)
theory Registry_Sync
  imports Minute_Agreement Config_Valid
begin

text \<open>
  Bringing the monitor registry in line with a configuration, \<open>lib/scheduler/registry-sync.ts\<close>: the
  registry rows are upserted, states are created for new monitors, monitors that left the
  configuration are archived, and every monitor is moved to the state its configuration asks for, with
  the incident this resolves and the exceptions it records. It runs inside a transaction: an error
  leaves the tables as they were.

  The laws: registry, snapshots and incidents go on agreeing, no error is raised, and afterwards only
  enabled monitors of the configuration have an unresolved incident.
\<close>

subsection \<open>Tables\<close>

record registry_row =
  rg_id :: string
  rg_name :: string
  rg_url :: string
  rg_groupName :: "string option"
  rg_enabled :: bool
  rg_configHash :: string
  rg_firstSeenAt :: instant
  rg_lastSeenAt :: instant
  rg_archivedAt :: "instant option"

definition registry_row_checks :: "registry_row \<Rightarrow> bool" where
  "registry_row_checks r \<longleftrightarrow> rg_lastSeenAt r \<ge> rg_firstSeenAt r \<and>
     (case rg_archivedAt r of None \<Rightarrow> True | Some t \<Rightarrow> t \<ge> rg_firstSeenAt r)"

record registry_db =
  rd_registry :: "registry_row list"
  rd_minute :: minute_db

definition registry_constraints :: "registry_db \<Rightarrow> bool" where
  "registry_constraints db \<longleftrightarrow> list_all registry_row_checks (rd_registry db) \<and> minute_constraints (rd_minute db)"

datatype sync_mode = Mode_runtime | Mode_api

subsection \<open>Registry rows\<close>

definition group_names :: "declarative_config \<Rightarrow> string \<Rightarrow> string option" where
  "group_names config = map_of (rev (map (\<lambda>g. (gc_id g, gc_name g)) (dc_groups config)))"

definition desired_row :: "declarative_config \<Rightarrow> string \<Rightarrow> instant \<Rightarrow> monitor_config \<Rightarrow> registry_row" where
  "desired_row config hash now m =
     \<lparr>rg_id = mf_id m, rg_name = mf_name m, rg_url = mf_url m,
      rg_groupName = (if truthy (mf_groupId m) then group_names config (or_else (mf_groupId m) []) else None),
      rg_enabled = mf_enabled m, rg_configHash = hash, rg_firstSeenAt = now, rg_lastSeenAt = now, rg_archivedAt = None\<rparr>"

definition upserted_row :: "registry_row \<Rightarrow> registry_row \<Rightarrow> registry_row" where
  "upserted_row old excluded =
     old\<lparr>rg_name := rg_name excluded, rg_url := rg_url excluded, rg_groupName := rg_groupName excluded,
         rg_enabled := rg_enabled excluded, rg_configHash := rg_configHash excluded,
         rg_lastSeenAt := rg_lastSeenAt excluded, rg_archivedAt := rg_archivedAt excluded\<rparr>"

definition upsert_registry :: "registry_row list \<Rightarrow> registry_row list \<Rightarrow> js_error + registry_row list" where
  "upsert_registry new t =
    (if \<not> distinct (map rg_id new) then
       Inl (Error ''ON CONFLICT DO UPDATE command cannot affect row a second time'')
     else Inr (map (\<lambda>r. case row_at rg_id (rg_id r) new of Some e \<Rightarrow> upserted_row r e | None \<Rightarrow> r) t @
               filter (\<lambda>e. rg_id e \<notin> rg_id ` set t) new))"

definition left_out :: "string list \<Rightarrow> registry_row \<Rightarrow> bool" where
  "left_out desiredIds r \<longleftrightarrow> rg_archivedAt r = None \<and> rg_id r \<notin> set desiredIds"

definition archive_removed :: "string list \<Rightarrow> instant \<Rightarrow> registry_row list \<Rightarrow> registry_row list \<times> string list" where
  "archive_removed desiredIds now t =
     (sql_update (left_out desiredIds) (\<lambda>r. r\<lparr>rg_enabled := False, rg_archivedAt := Some now, rg_lastSeenAt := now\<rparr>) t,
      map rg_id (filter (left_out desiredIds) t))"

subsection \<open>Exceptions\<close>

fun event_text :: "exception_event \<Rightarrow> string" where
  "event_text Ex_failure = ''failure''"
| "event_text Ex_recovery = ''recovery''"
| "event_text Ex_pause = ''pause''"
| "event_text Ex_resume = ''resume''"
| "event_text Ex_scheduler_gap = ''scheduler_gap''"
| "event_text Ex_configuration = ''configuration''"

definition sync_exception ::
  "(string \<Rightarrow> byte list) \<Rightarrow> string \<Rightarrow> instant \<Rightarrow> string \<Rightarrow> exception_event \<Rightarrow> string option \<Rightarrow> monitor_exception" where
  "sync_exception sha256 hash now monitorId eventType errorCode =
    (let identity = event_text eventType @ ''/'' @ monitorId @ ''/'' @ hash in
     \<lparr>mx_id = deterministicUuid sha256 identity, mx_monitorId = monitorId, mx_eventType = eventType,
      mx_errorCode = errorCode, mx_identityHash = sha256 identity, mx_firstSeenAt = now, mx_lastSeenAt = now,
      mx_occurrenceCount = 1, mx_worstLatencyMs = None, mx_incidentId = None, mx_payloadId = None\<rparr>)"

definition monitor_exceptions ::
  "(string \<Rightarrow> byte list) \<Rightarrow> string \<Rightarrow> instant \<Rightarrow> (string \<Rightarrow> registry_row option) \<Rightarrow> monitor_config \<Rightarrow> monitor_exception list" where
  "monitor_exceptions sha256 hash now previousById m = (case previousById (mf_id m) of
      None \<Rightarrow> []
    | Some previous \<Rightarrow>
        (if rg_configHash previous \<noteq> hash then [sync_exception sha256 hash now (mf_id m) Ex_configuration None] else []) @
        (if rg_enabled previous \<noteq> mf_enabled m
         then [sync_exception sha256 hash now (mf_id m) (if mf_enabled m then Ex_resume else Ex_pause) None] else []))"

definition removed_exceptions ::
  "(string \<Rightarrow> byte list) \<Rightarrow> string \<Rightarrow> instant \<Rightarrow> string \<Rightarrow> monitor_exception list" where
  "removed_exceptions sha256 hash now i =
     [sync_exception sha256 hash now i Ex_pause (Some ''MONITOR_ARCHIVED''),
      sync_exception sha256 hash now i Ex_configuration None]"

text \<open>\<open>on conflict do nothing\<close>, of the primary key or of the identity index.\<close>

fun insert_exceptions :: "monitor_exception list \<Rightarrow> monitor_exception list \<Rightarrow> monitor_exception list" where
  "insert_exceptions [] t = t"
| "insert_exceptions (x # xs) t =
     insert_exceptions xs (if mx_id x \<in> mx_id ` set t \<or> exception_key x \<in> exception_key ` set t then t else t @ [x])"

subsection \<open>Lifecycle\<close>

fun reason_text :: "resolution_reason \<Rightarrow> string" where
  "reason_text Monitor_paused = ''monitor_paused''"
| "reason_text Monitor_archived = ''monitor_archived''"
| "reason_text Monitor_enabled = ''monitor_enabled''"
| "reason_text Monitor_restored = ''monitor_restored''"

definition resolved_incident :: "resolution \<Rightarrow> instant \<Rightarrow> incident \<Rightarrow> incident" where
  "resolved_incident r now i =
     i\<lparr>in_firstSuccessAt := Some (rs_resolvedAt r), in_resolvedAt := Some (rs_resolvedAt r),
       in_resolutionReason := Some (reason_text (rs_reason r)), in_updatedAt := now\<rparr>"

definition resolve_incident :: "sync_mode \<Rightarrow> instant \<Rightarrow> resolution \<Rightarrow> incident list \<Rightarrow> js_error + incident list" where
  "resolve_incident mode now r t =
    (let hit = (\<lambda>i. in_id i = rs_incidentId r \<and> in_resolvedAt i = None) in
     if mode = Mode_runtime \<and> length (filter hit t) \<noteq> 1
     then Inl (Error (''Active incident not found: '' @ rs_incidentId r))
     else Inr (sql_update hit (resolved_incident r now) t))"

definition settled_row :: "snapshot \<Rightarrow> snapshot \<Rightarrow> snapshot" where
  "settled_row new old =
     old\<lparr>m_state := m_state new, m_consecutiveFailures := m_consecutiveFailures new,
         m_consecutiveSuccesses := m_consecutiveSuccesses new, m_firstFailureAt := m_firstFailureAt new,
         m_firstSuccessAt := m_firstSuccessAt new, m_activeIncidentId := m_activeIncidentId new,
         m_version := m_version new, m_updatedAt := m_updatedAt new\<rparr>"

definition applyLifecycle ::
  "sync_mode \<Rightarrow> instant \<Rightarrow> (string \<Rightarrow> snapshot option) \<Rightarrow> minute_db \<Rightarrow> string \<times> lifecycle_target \<Rightarrow> js_error + minute_db" where
  "applyLifecycle mode now statesByMonitorId db = (\<lambda>(monitorId, target).
    (case statesByMonitorId monitorId of
       None \<Rightarrow> Inl (Error (''Monitor state not found: '' @ monitorId))
     | Some current \<Rightarrow>
        (let mutation = transitionLifecycle current target now in
         if \<not> lm_changed mutation then Inr db
         else res_bind (case lm_resolution mutation of
               None \<Rightarrow> Inr (md_incidents db)
             | Some r \<Rightarrow> resolve_incident mode now r (md_incidents db)) (\<lambda>incidents.
           Inr (db\<lparr>md_incidents := incidents,
                   md_states := sql_update (\<lambda>s. m_monitorId s = monitorId) (settled_row (lm_state mutation)) (md_states db)\<rparr>)))))"

definition monitor_target :: "monitor_config \<Rightarrow> string \<times> lifecycle_target" where
  "monitor_target m = (mf_id m, if mf_enabled m then Target_Active else Target_Paused)"

definition archive_target :: "string \<Rightarrow> string \<times> lifecycle_target" where
  "archive_target i = (i, Target_Archived)"

definition synchronizeRegistry ::
  "(string \<Rightarrow> byte list) \<Rightarrow> declarative_config \<Rightarrow> string \<Rightarrow> instant \<Rightarrow> sync_mode \<Rightarrow> registry_db \<Rightarrow> js_error + registry_db" where
  "synchronizeRegistry sha256 config hash now mode db =
    (let desiredIds = map mf_id (dc_monitors config);
         previousById = (if mode = Mode_runtime then (\<lambda>i. row_at rg_id i (rd_registry db)) else (\<lambda>_. None))
     in res_bind (upsert_registry (map (desired_row config hash now) (dc_monitors config)) (rd_registry db)) (\<lambda>upserted.
        let states = fst (sql_insert_new m_monitorId
              (map (\<lambda>m. initial_snapshot (mf_id m) (mf_enabled m) now) (dc_monitors config)) (md_states (rd_minute db)));
            (registry, removedIds) = archive_removed desiredIds now upserted;
            statesByMonitorId = (\<lambda>i. if i \<in> set (desiredIds @ removedIds) then row_at m_monitorId i states else None);
            exceptions = (if mode = Mode_runtime
              then concat (map (monitor_exceptions sha256 hash now previousById) (dc_monitors config)) @
                   concat (map (removed_exceptions sha256 hash now) removedIds) else [])
        in res_bind (run_steps (applyLifecycle mode now statesByMonitorId) ((rd_minute db)\<lparr>md_states := states\<rparr>)
             (map monitor_target (dc_monitors config))) (\<lambda>minute.
           res_bind (run_steps (applyLifecycle mode now statesByMonitorId) minute (map archive_target removedIds)) (\<lambda>minute.
             let db' = \<lparr>rd_registry = registry,
               rd_minute = minute\<lparr>md_exceptions := insert_exceptions exceptions (md_exceptions minute)\<rparr>\<rparr>
             in if registry_constraints db' then Inr db' else Inl (Error ''constraint violation'')))))"

subsection \<open>One lifecycle change\<close>

text \<open>What a lifecycle change never touches.\<close>

definition check_record :: "snapshot \<Rightarrow> string \<times> instant option \<times> instant option \<times> instant option \<times> instant option \<times>
    int option \<times> int option \<times> check_error_code option" where
  "check_record s = (m_monitorId s, m_activatedAt s, m_lastCheckedAt s, m_lastSuccessAt s, m_lastFailureAt s,
     m_lastStatusCode s, m_lastLatencyMs s, m_lastErrorCode s)"

lemma applyLifecycleEvent_record: "check_record (applyLifecycleEvent s ty at) = check_record s"
  by (cases ty) (simp_all add: check_record_def applyLifecycleEvent_def transitionLifecycleEvent_def lifecycleState_def Let_def)

lemma lifecycleAdvance_record: "check_record (lifecycleAdvance s target at) = check_record s"
  by (simp add: lifecycleAdvance_def Let_def applyLifecycleEvent_record)

lemma transitionLifecycle_record: "check_record (lm_state (transitionLifecycle s target at)) = check_record s"
  using lifecycleAdvance_record [of s target at]
  by (cases target) (simp_all add: transitionLifecycle_def Let_def check_record_def)

lemma settled_row_whole: "settled_row (lm_state (transitionLifecycle s target at)) s = lm_state (transitionLifecycle s target at)"
  using transitionLifecycle_record [of s target at]
  by (intro snapshot.equality) (simp_all add: settled_row_def check_record_def)

lemma transitionLifecycle_inv: "monitor_inv s \<Longrightarrow> monitor_inv (lm_state (transitionLifecycle s target at))"
  by (simp add: monitor_inv_def transitionLifecycle_ok lifecycle_chrono)

text \<open>The snapshots and incidents after a change of one monitor.\<close>

definition lifecycle_states :: "instant \<Rightarrow> string \<Rightarrow> lifecycle_target \<Rightarrow> snapshot list \<Rightarrow> snapshot list" where
  "lifecycle_states now i target = map (\<lambda>s. if m_monitorId s = i then lm_state (transitionLifecycle s target now) else s)"

definition closed_at :: "instant \<Rightarrow> incident \<Rightarrow> incident \<Rightarrow> bool" where
  "closed_at now inc inc' \<longleftrightarrow> inc' = inc \<or> in_resolvedAt inc = None \<and>
     (\<exists>reason. inc' = resolved_incident \<lparr>rs_incidentId = in_id inc, rs_resolvedAt = now, rs_reason = reason\<rparr> now inc)"

lemma closed_at_frame:
  "closed_at now inc inc' \<Longrightarrow> in_id inc' = in_id inc \<and> in_monitorId inc' = in_monitorId inc \<and>
     in_firstFailureAt inc' = in_firstFailureAt inc \<and> in_openedAt inc' = in_openedAt inc \<and>
     (in_resolvedAt inc' = None \<longrightarrow> inc' = inc)"
  by (auto simp: closed_at_def resolved_incident_def)

definition closes_only :: "instant \<Rightarrow> (incident \<Rightarrow> bool) \<Rightarrow> incident list \<Rightarrow> incident list \<Rightarrow> bool" where
  "closes_only now p t t' \<longleftrightarrow>
     list_all2 (\<lambda>inc inc'. if in_resolvedAt inc = None \<and> p inc then closed_at now inc inc' \<and> inc' \<noteq> inc else inc' = inc) t t'"

lemma in_outage_active:
  assumes "incident_ok s"
  shows "m_activeIncidentId s = Some i \<Longrightarrow> truthy (m_activeIncidentId s)"
  using assms by (auto simp: incident_ok_def split: if_splits)

lemma resolved_incident_changes: "in_resolvedAt inc = None \<Longrightarrow> resolved_incident r now inc \<noteq> inc"
  by (auto simp: resolved_incident_def dest!: arg_cong [where f = in_resolvedAt])

lemma applyLifecycle_step:
  assumes agree: "agreement db" and s: "s \<in> set (md_states db)" and states: "states (m_monitorId s) = Some s"
  obtains incidents where "applyLifecycle mode now states db (m_monitorId s, target) =
      Inr (db\<lparr>md_incidents := incidents, md_states := lifecycle_states now (m_monitorId s) target (md_states db)\<rparr>)"
    and "closes_only now (\<lambda>inc. lm_changed (transitionLifecycle s target now) \<and> in_monitorId inc = m_monitorId s) (md_incidents db) incidents"
proof (cases "lm_changed (transitionLifecycle s target now)")
  case False
  have "lm_state (transitionLifecycle x target now) = x" if "x \<in> set (md_states db)" "m_monitorId x = m_monitorId s" for x
    using agreement_same_monitor [OF agree that(1) s that(2)] False transitionLifecycle_unchanged by blast
  then have "lifecycle_states now (m_monitorId s) target (md_states db) = md_states db"
    unfolding lifecycle_states_def by (intro map_idI) simp
  moreover have "closes_only now (\<lambda>inc. False) t t" for t
    by (simp add: closes_only_def list.rel_refl)
  ultimately show ?thesis using False states by (intro that [of "md_incidents db"]) (simp_all add: applyLifecycle_def Let_def)
next
  case True
  let ?t = "transitionLifecycle s target now"
  have rows: "sql_update (\<lambda>x. m_monitorId x = m_monitorId s) (settled_row (lm_state ?t)) (md_states db) =
      lifecycle_states now (m_monitorId s) target (md_states db)"
    unfolding sql_update_def lifecycle_states_def
    using agreement_same_monitor [OF agree _ s] settled_row_whole by (intro map_cong refl) auto
  have ok: "incident_ok s" using agree s by (simp add: agreement_def monitor_inv_def snapshot_ok_def)
  show ?thesis
  proof (cases "m_activeIncidentId s")
    case None
    have none: "in_resolvedAt inc \<noteq> None" if "inc \<in> set (md_incidents db)" "in_monitorId inc = m_monitorId s" for inc
      using agreement_active [OF agree s, of "in_id inc"] None that by (auto simp: unresolved_of_def)
    have "closes_only now (\<lambda>inc. lm_changed ?t \<and> in_monitorId inc = m_monitorId s) (md_incidents db) (md_incidents db)"
      unfolding closes_only_def using none by (intro list.rel_refl_strong) auto
    moreover have "lm_resolution ?t = None" using None by (simp add: transitionLifecycle_resolution)
    ultimately show ?thesis using True states rows
      by (intro that [of "md_incidents db"]) (simp_all add: applyLifecycle_def Let_def)
  next
    case (Some i)
    let ?r = "\<lparr>rs_incidentId = i, rs_resolvedAt = now, rs_reason = resolutionReason (m_state s) target\<rparr>"
    let ?hit = "\<lambda>inc. in_id inc = i \<and> in_resolvedAt inc = None"
    have r: "lm_resolution ?t = Some ?r"
      using True Some in_outage_active [OF ok Some] by (simp add: transitionLifecycle_resolution)
    have hit: "?hit inc \<longleftrightarrow> in_resolvedAt inc = None \<and> in_monitorId inc = m_monitorId s" if "inc \<in> set (md_incidents db)" for inc
      using agreement_owner [OF agree that _ s] agreement_active [OF agree s, of "in_id inc"] Some that
      unfolding unresolved_of_def by auto
    obtain inc where inc: "inc \<in> set (md_incidents db)" "?hit inc"
      using agreement_active [OF agree s, of i] Some unfolding unresolved_of_def by blast
    have one: "length (filter ?hit (md_incidents db)) = 1"
    proof -
      have "distinct (map in_id (filter ?hit (md_incidents db)))"
        using agreement_distinct(2) [OF agree] by (rule distinct_map_filter)
      moreover have "set (map in_id (filter ?hit (md_incidents db))) = {i}" using inc by auto
      ultimately show ?thesis using distinct_card [of "map in_id (filter ?hit (md_incidents db))"] by simp
    qed
    have "closes_only now (\<lambda>inc. lm_changed ?t \<and> in_monitorId inc = m_monitorId s) (md_incidents db)
        (sql_update ?hit (resolved_incident ?r now) (md_incidents db))"
      unfolding closes_only_def sql_update_def list_all2_map2
    proof (rule list.rel_refl_strong)
      fix x assume x: "x \<in> set (md_incidents db)"
      show "if in_resolvedAt x = None \<and> lm_changed ?t \<and> in_monitorId x = m_monitorId s
          then closed_at now x (if ?hit x then resolved_incident ?r now x else x) \<and> (if ?hit x then resolved_incident ?r now x else x) \<noteq> x
          else (if ?hit x then resolved_incident ?r now x else x) = x"
        using hit [OF x] True resolved_incident_changes [of x ?r now] by (auto simp: closed_at_def)
    qed
    moreover have "applyLifecycle mode now states db (m_monitorId s, target) =
      Inr (db\<lparr>md_incidents := sql_update ?hit (resolved_incident ?r now) (md_incidents db),
              md_states := lifecycle_states now (m_monitorId s) target (md_states db)\<rparr>)"
      using True states rows r one by (simp add: applyLifecycle_def Let_def resolve_incident_def)
    ultimately show ?thesis by (rule that [rotated])
  qed
qed

lemma closes_only_sets:
  assumes "closes_only now p t t'"
  shows "inc \<in> set t \<Longrightarrow> \<exists>inc' \<in> set t'. closed_at now inc inc' \<and> (inc' = inc \<longleftrightarrow> \<not> (in_resolvedAt inc = None \<and> p inc))"
    and "inc' \<in> set t' \<Longrightarrow> \<exists>inc \<in> set t. closed_at now inc inc' \<and> (inc' = inc \<longleftrightarrow> \<not> (in_resolvedAt inc = None \<and> p inc))"
proof -
  have each: "length t = length t'" "\<And>n. n < length t \<Longrightarrow> closed_at now (t ! n) (t' ! n) \<and>
      (t' ! n = t ! n \<longleftrightarrow> \<not> (in_resolvedAt (t ! n) = None \<and> p (t ! n)))"
    using assms by (auto simp: closes_only_def list_all2_conv_all_nth closed_at_def split: if_splits)
  show "inc \<in> set t \<Longrightarrow> \<exists>inc' \<in> set t'. closed_at now inc inc' \<and> (inc' = inc \<longleftrightarrow> \<not> (in_resolvedAt inc = None \<and> p inc))"
    using each unfolding in_set_conv_nth by (metis nth_mem)
  show "inc' \<in> set t' \<Longrightarrow> \<exists>inc \<in> set t. closed_at now inc inc' \<and> (inc' = inc \<longleftrightarrow> \<not> (in_resolvedAt inc = None \<and> p inc))"
    using each unfolding in_set_conv_nth by (metis nth_mem)
qed

lemma closes_only_ids: "closes_only now p t t' \<Longrightarrow> map in_id t' = map in_id t"
  unfolding closes_only_def
  by (induction rule: list_all2_induct) (auto split: if_splits dest: closed_at_frame)

lemma lifecycle_step_agreement:
  assumes agree: "agreement db" and s: "s \<in> set (md_states db)"
    and closes: "closes_only now (\<lambda>inc. lm_changed (transitionLifecycle s target now) \<and> in_monitorId inc = m_monitorId s) (md_incidents db) incidents"
  shows "agreement (db\<lparr>md_incidents := incidents, md_states := lifecycle_states now (m_monitorId s) target (md_states db)\<rparr>)"
    (is "agreement ?db")
proof -
  let ?t = "transitionLifecycle s target now"
  define new where "new = (\<lambda>x. if m_monitorId x = m_monitorId s then lm_state (transitionLifecycle x target now) else x)"
  have states: "md_states ?db = map new (md_states db)" by (simp add: lifecycle_states_def new_def)
  have incs: "md_incidents ?db = incidents" by simp
  have same: "x = s" if "x \<in> set (md_states db)" "m_monitorId x = m_monitorId s" for x
    using agreement_same_monitor [OF agree that(1) s that(2)] .
  have mid: "m_monitorId (new x) = m_monitorId x" for x by (simp add: new_def transitionLifecycle_frame)
  have unresolved: "unresolved_of ?db m i \<longleftrightarrow> unresolved_of db m i \<and> \<not> (lm_changed ?t \<and> m = m_monitorId s)" for m i
  proof
    assume "unresolved_of ?db m i"
    then obtain inc' where inc': "inc' \<in> set incidents" "in_id inc' = i" "in_monitorId inc' = m" "in_resolvedAt inc' = None"
      by (auto simp: unresolved_of_def)
    then obtain inc where inc: "inc \<in> set (md_incidents db)" "closed_at now inc inc'"
      "inc' = inc \<longleftrightarrow> \<not> (in_resolvedAt inc = None \<and> lm_changed ?t \<and> in_monitorId inc = m_monitorId s)"
      using closes_only_sets(2) [OF closes] by blast
    with closed_at_frame [OF inc(2)] inc' have "inc' = inc" by blast
    with inc inc' show "unresolved_of db m i \<and> \<not> (lm_changed ?t \<and> m = m_monitorId s)"
      by (auto simp: unresolved_of_def)
  next
    assume *: "unresolved_of db m i \<and> \<not> (lm_changed ?t \<and> m = m_monitorId s)"
    then obtain inc where inc: "inc \<in> set (md_incidents db)" "in_id inc = i" "in_monitorId inc = m" "in_resolvedAt inc = None"
      by (auto simp: unresolved_of_def)
    with closes_only_sets(1) [OF closes inc(1)] * have "inc \<in> set incidents" by auto
    with inc show "unresolved_of ?db m i" by (auto simp: unresolved_of_def)
  qed
  have "map m_monitorId (md_states ?db) = map m_monitorId (md_states db)" unfolding states by (simp add: mid)
  then have "distinct (map m_monitorId (md_states ?db))" using agreement_distinct(1) [OF agree] by simp
  moreover have "distinct (map in_id (md_incidents ?db))"
    using agreement_distinct(2) [OF agree] closes_only_ids [OF closes] by simp
  moreover have "monitor_inv (new x) \<and> (\<forall>i. m_activeIncidentId (new x) = Some i \<longleftrightarrow> unresolved_of ?db (m_monitorId (new x)) i)"
    if x: "x \<in> set (md_states db)" for x
  proof -
    have inv: "monitor_inv x" using agree x by (simp add: agreement_def)
    show ?thesis
    proof (cases "m_monitorId x = m_monitorId s \<and> lm_changed ?t")
      case True
      then have "x = s" using same x by blast
      with True inv show ?thesis
        by (simp add: new_def transitionLifecycle_inv transitionLifecycle_cleared transitionLifecycle_frame unresolved)
    next
      case False
      then have "new x = x" using same [OF x] by (auto simp: new_def transitionLifecycle_unchanged)
      with False inv agreement_active [OF agree x] show ?thesis by (auto simp: unresolved)
    qed
  qed
  moreover have "\<exists>x \<in> set (md_states ?db). m_monitorId x = in_monitorId inc' \<and> began_before x inc'" if inc': "inc' \<in> set incidents" for inc'
  proof -
    obtain inc where inc: "inc \<in> set (md_incidents db)" "closed_at now inc inc'"
      using closes_only_sets(2) [OF closes inc'] by blast
    then obtain x where x: "x \<in> set (md_states db)" "m_monitorId x = in_monitorId inc" "began_before x inc"
      using agree unfolding agreement_def by blast
    have "began_before (new x) inc"
    proof (cases "m_monitorId x = m_monitorId s \<and> lm_changed ?t")
      case True
      then have "x = s" using same x(1) by blast
      with True x(3) transitionLifecycle_cleared(2) [of s target now] show ?thesis
        by (simp add: new_def began_before_def transitionLifecycle_frame needsCleanup_def)
    next
      case False
      then have "new x = x" using same [OF x(1)] by (auto simp: new_def transitionLifecycle_unchanged)
      with x(3) show ?thesis by simp
    qed
    then have "began_before (new x) inc'" using closed_at_frame [OF inc(2)] by (simp add: began_before_def)
    with x inc mid show ?thesis unfolding states using closed_at_frame [OF inc(2)] by (intro bexI [of _ "new x"]) auto
  qed
  ultimately show ?thesis unfolding agreement_def incs by (simp only: states set_map ball_simps) auto
qed

subsection \<open>All lifecycle changes\<close>

definition moved_states :: "instant \<Rightarrow> (string \<times> lifecycle_target) list \<Rightarrow> snapshot list \<Rightarrow> snapshot list" where
  "moved_states now targets = map (\<lambda>s. case map_of targets (m_monitorId s) of
     Some target \<Rightarrow> lm_state (transitionLifecycle s target now) | None \<Rightarrow> s)"

lemma closed_at_trans: "closed_at now a b \<Longrightarrow> closed_at now b c \<Longrightarrow> closed_at now a c"
  by (auto simp: closed_at_def resolved_incident_def)

lemma closes_only_closed: "closes_only now p t t' \<Longrightarrow> list_all2 (closed_at now) t t'"
  unfolding closes_only_def by (erule list_all2_mono) (auto simp: closed_at_def split: if_splits)

lemma moved_states_Cons:
  assumes "i \<notin> fst ` set targets"
  shows "moved_states now targets (lifecycle_states now i target t) = moved_states now ((i, target) # targets) t"
proof -
  have "map_of targets i = None" using assms by (simp add: map_of_eq_None_iff)
  then show ?thesis
    by (auto simp: moved_states_def lifecycle_states_def transitionLifecycle_frame split: option.split)
qed

lemma lifecycle_run:
  assumes "agreement db" "distinct (map fst targets)"
    and "\<forall>i \<in> fst ` set targets. \<exists>s \<in> set (md_states db). m_monitorId s = i \<and> states i = Some s"
  shows "\<exists>incidents. run_steps (applyLifecycle mode now states) db targets =
      Inr (db\<lparr>md_incidents := incidents, md_states := moved_states now targets (md_states db)\<rparr>) \<and>
    agreement (db\<lparr>md_incidents := incidents, md_states := moved_states now targets (md_states db)\<rparr>) \<and>
    list_all2 (closed_at now) (md_incidents db) incidents"
  using assms
proof (induction targets arbitrary: db)
  case Nil
  have "list_all2 (closed_at now) t t" for t by (rule list.rel_refl) (simp add: closed_at_def)
  moreover have "db\<lparr>md_incidents := md_incidents db, md_states := md_states db\<rparr> = db" by simp
  ultimately show ?case using Nil(1) by (intro exI [of _ "md_incidents db"]) (simp add: moved_states_def)
next
  case (Cons p targets)
  obtain i target where p: "p = (i, target)" by (cases p)
  from Cons.prems(3) obtain s where s: "s \<in> set (md_states db)" "m_monitorId s = i" "states i = Some s" by (auto simp: p)
  obtain incidents where step: "applyLifecycle mode now states db (i, target) =
      Inr (db\<lparr>md_incidents := incidents, md_states := lifecycle_states now i target (md_states db)\<rparr>)"
    and closes: "closes_only now (\<lambda>inc. lm_changed (transitionLifecycle s target now) \<and> in_monitorId inc = m_monitorId s)
      (md_incidents db) incidents"
    using applyLifecycle_step [OF Cons.prems(1) s(1), of states mode now target] s(2,3) by auto
  let ?db = "db\<lparr>md_incidents := incidents, md_states := lifecycle_states now i target (md_states db)\<rparr>"
  have agree: "agreement ?db" using lifecycle_step_agreement [OF Cons.prems(1) s(1) closes] s(2) by simp
  have fresh: "i \<notin> fst ` set targets" "distinct (map fst targets)" using Cons.prems(2) by (simp_all add: p)
  have "\<exists>x \<in> set (md_states ?db). m_monitorId x = j \<and> states j = Some x" if "j \<in> fst ` set targets" for j
  proof -
    obtain x where x: "x \<in> set (md_states db)" "m_monitorId x = j" "states j = Some x"
      using Cons.prems(3) \<open>j \<in> fst ` set targets\<close> by (auto simp: p)
    moreover have "j \<noteq> i" using fresh(1) that by blast
    ultimately show ?thesis by (intro bexI [of _ x]) (auto simp: lifecycle_states_def intro!: image_eqI [of _ _ x])
  qed
  then have "\<forall>j \<in> fst ` set targets. \<exists>x \<in> set (md_states ?db). m_monitorId x = j \<and> states j = Some x" by blast
  from Cons.IH [OF agree fresh(2) this] obtain incidents' where
    "run_steps (applyLifecycle mode now states) ?db targets =
      Inr (?db\<lparr>md_incidents := incidents', md_states := moved_states now targets (md_states ?db)\<rparr>)"
    "agreement (?db\<lparr>md_incidents := incidents', md_states := moved_states now targets (md_states ?db)\<rparr>)"
    "list_all2 (closed_at now) incidents incidents'" by auto
  moreover have "list_all2 (closed_at now) (md_incidents db) incidents'"
    by (rule list_all2_trans [OF closed_at_trans closes_only_closed [OF closes] \<open>list_all2 (closed_at now) incidents incidents'\<close>])
  ultimately show ?case using step
    by (intro exI [of _ incidents']) (simp add: p moved_states_Cons [OF fresh(1)])
qed

subsection \<open>The constraints\<close>

lemma closed_incidents_ok:
  assumes "list_all2 (closed_at now) t t'" "list_all incident_checks t" "one_active_per_monitor t"
    and "\<forall>inc \<in> set t. in_resolvedAt inc = None \<longrightarrow> in_openedAt inc \<le> now"
  shows "list_all incident_checks t' \<and> one_active_per_monitor t' \<and>
    set (map in_monitorId (filter (\<lambda>i. in_resolvedAt i = None) t')) \<subseteq> set (map in_monitorId (filter (\<lambda>i. in_resolvedAt i = None) t))"
  using assms
proof (induction rule: list_all2_induct)
  case Nil
  then show ?case by simp
next
  case (Cons inc t inc' t')
  have "incident_checks inc'" using Cons.hyps(1) Cons.prems
    by (auto simp: closed_at_def resolved_incident_def incident_checks_def)
  moreover have tail: "list_all incident_checks t' \<and> one_active_per_monitor t' \<and>
      set (map in_monitorId (filter (\<lambda>i. in_resolvedAt i = None) t')) \<subseteq> set (map in_monitorId (filter (\<lambda>i. in_resolvedAt i = None) t))"
    using Cons.prems by (intro Cons.IH) (simp_all add: one_active_per_monitor_def split: if_splits)
  ultimately show ?case
  proof (cases "in_resolvedAt inc' = None")
    case True
    then have "inc' = inc" using closed_at_frame [OF Cons.hyps(1)] by blast
    with True tail Cons.prems show ?thesis by (auto simp: one_active_per_monitor_def)
  next
    case False
    with tail \<open>incident_checks inc'\<close> show ?thesis by (auto simp: one_active_per_monitor_def)
  qed
qed

lemma moved_state_checks: "list_all monitor_state_checks t \<Longrightarrow> list_all monitor_state_checks (moved_states now targets t)"
proof -
  have "monitor_state_checks (lm_state (transitionLifecycle s target now))" if "monitor_state_checks s" for s target
  proof (cases "lm_changed (transitionLifecycle s target now)")
    case True
    with that transitionLifecycle_clean [OF True] transitionLifecycle_record [of s target now] show ?thesis
      by (simp add: monitor_state_checks_def needsCleanup_def check_record_def)
  next
    case False
    with that show ?thesis by (simp add: transitionLifecycle_unchanged)
  qed
  then show "list_all monitor_state_checks t \<Longrightarrow> list_all monitor_state_checks (moved_states now targets t)"
    by (auto simp: moved_states_def list_all_iff split: option.split)
qed

lemma insert_exceptions_ok:
  "list_all exception_checks xs \<Longrightarrow> list_all exception_checks t \<and> distinct (map mx_id t) \<Longrightarrow>
   list_all exception_checks (insert_exceptions xs t) \<and> distinct (map mx_id (insert_exceptions xs t))"
  by (induction xs arbitrary: t) (auto simp: Let_def)

lemma sync_exceptions_checks:
  "list_all exception_checks (concat (map (monitor_exceptions sha hash now previous) ms))"
  "list_all exception_checks (concat (map (removed_exceptions sha hash now) ids))"
  by (auto simp: list_all_iff monitor_exceptions_def removed_exceptions_def sync_exception_def exception_checks_def
      opt_nonneg_def Let_def split: option.splits if_splits)

subsection \<open>Registry and snapshots\<close>

text \<open>The state the registry row of a monitor asks for.\<close>

definition row_target :: "registry_row \<Rightarrow> lifecycle_target" where
  "row_target r = (if rg_archivedAt r \<noteq> None then Target_Archived else if rg_enabled r then Target_Active else Target_Paused)"

definition registry_agrees :: "registry_db \<Rightarrow> bool" where
  "registry_agrees db \<longleftrightarrow> distinct (map rg_id (rd_registry db)) \<and>
     rg_id ` set (rd_registry db) = m_monitorId ` set (md_states (rd_minute db)) \<and>
     (\<forall>r \<in> set (rd_registry db). \<forall>s \<in> set (md_states (rd_minute db)). m_monitorId s = rg_id r \<longrightarrow>
        reached (row_target r) (m_state s))"

lemma inserted_states:
  assumes agree: "agreement db"
    and ins: "sql_insert_new m_monitorId (map (\<lambda>m. initial_snapshot (mf_id m) (mf_enabled m) now) ms) (md_states db) = (t, new)"
  shows "agreement (db\<lparr>md_states := t\<rparr>) \<and> set (md_states db) \<subseteq> set t \<and>
    m_monitorId ` set t = m_monitorId ` set (md_states db) \<union> mf_id ` set ms \<and>
    (list_all monitor_state_checks (md_states db) \<longrightarrow> list_all monitor_state_checks t)"
proof -
  have t: "t = md_states db @ new" using ins by (rule sql_insert_new_append)
  have rows: "set new \<subseteq> (\<lambda>m. initial_snapshot (mf_id m) (mf_enabled m) now) ` set ms"
    using sql_insert_new_subset [OF ins] by simp
  have distinct: "distinct (map m_monitorId t)"
    using sql_insert_new_distinct [OF ins] agreement_distinct(1) [OF agree] by simp
  have keys: "m_monitorId ` set t = m_monitorId ` set (md_states db) \<union> mf_id ` set ms"
    using sql_insert_new_keys [OF ins] by (simp add: image_image initial_snapshot_def)
  have fresh: "m_monitorId s \<notin> m_monitorId ` set (md_states db)" if "s \<in> set new" for s
    using distinct that unfolding t by auto
  have unresolved: "unresolved_of (db\<lparr>md_states := t\<rparr>) = unresolved_of db" by (intro ext) (simp add: unresolved_of_def)
  have "monitor_inv s \<and> (\<forall>i. m_activeIncidentId s = Some i \<longleftrightarrow> unresolved_of db (m_monitorId s) i)" if "s \<in> set t" for s
  proof (cases "s \<in> set (md_states db)")
    case True
    then show ?thesis using agree by (simp add: agreement_def)
  next
    case False
    with that have new: "s \<in> set new" by (simp add: t)
    have "\<not> unresolved_of db (m_monitorId s) i" for i
      using fresh [OF new] agree unfolding agreement_def unresolved_of_def by (metis image_eqI)
    moreover have "monitor_inv s" "m_activeIncidentId s = None"
      using rows new by (auto simp: initial_snapshot_inv) (auto simp: initial_snapshot_def)
    ultimately show ?thesis by simp
  qed
  moreover have "\<exists>s \<in> set t. m_monitorId s = in_monitorId inc \<and> began_before s inc" if "inc \<in> set (md_incidents db)" for inc
    using agree that unfolding agreement_def t by auto
  moreover have "list_all monitor_state_checks new"
    using rows by (auto simp: list_all_iff monitor_state_checks_def initial_snapshot_def opt_nonneg_def)
  ultimately have "agreement (db\<lparr>md_states := t\<rparr>)" "list_all monitor_state_checks new"
    using distinct agreement_distinct(2) [OF agree] by (simp_all add: agreement_def unresolved)
  then show ?thesis using keys by (simp add: t)
qed

text \<open>The row of a monitor of the configuration, seen now for the first time or again.\<close>

definition configured_row :: "declarative_config \<Rightarrow> string \<Rightarrow> instant \<Rightarrow> registry_row list \<Rightarrow> registry_row \<Rightarrow> bool" where
  "configured_row config hash now t r \<longleftrightarrow>
    (\<exists>m \<in> set (dc_monitors config). mf_id m = rg_id r \<and> rg_name r = mf_name m \<and> rg_url r = mf_url m \<and>
       rg_enabled r = mf_enabled m \<and> rg_configHash r = hash \<and> rg_archivedAt r = None \<and> rg_lastSeenAt r = now \<and>
       (rg_firstSeenAt r = now \<or> (\<exists>r0 \<in> set t. rg_firstSeenAt r = rg_firstSeenAt r0)))"

lemma upsert_registry_rows:
  assumes "distinct (map rg_id t)" "distinct (map mf_id (dc_monitors config))"
  obtains u where "upsert_registry (map (desired_row config hash now) (dc_monitors config)) t = Inr u"
    "distinct (map rg_id u)" "rg_id ` set u = rg_id ` set t \<union> mf_id ` set (dc_monitors config)"
    "\<forall>r \<in> set u. if rg_id r \<in> mf_id ` set (dc_monitors config)
       then configured_row config hash now t r
       else r \<in> set t"
proof -
  define new where "new = map (desired_row config hash now) (dc_monitors config)"
  define merge where "merge = (\<lambda>r. case row_at rg_id (rg_id r) new of Some e \<Rightarrow> upserted_row r e | None \<Rightarrow> r)"
  have ids: "map rg_id new = map mf_id (dc_monitors config)" by (simp add: new_def desired_row_def)
  have all_ids: "rg_id ` set new = mf_id ` set (dc_monitors config)" by (simp add: new_def image_image desired_row_def)
  have at: "case row_at rg_id i new of None \<Rightarrow> i \<notin> mf_id ` set (dc_monitors config)
      | Some e \<Rightarrow> \<exists>m \<in> set (dc_monitors config). e = desired_row config hash now m \<and> mf_id m = i" for i
  proof (cases "row_at rg_id i new")
    case None
    then have "i \<notin> mf_id ` set (dc_monitors config)" using all_ids by (simp add: row_at_None_iff)
    with None show ?thesis by simp
  next
    case (Some e)
    then show ?thesis using row_at_Some [OF Some] by (auto simp: new_def desired_row_def)
  qed
  have mid: "rg_id (merge r) = rg_id r" for r by (simp add: merge_def upserted_row_def split: option.split)
  define u where "u = map merge t @ filter (\<lambda>e. rg_id e \<notin> rg_id ` set t) new"
  show thesis
  proof
    show "upsert_registry (map (desired_row config hash now) (dc_monitors config)) t = Inr u"
      using assms(2) ids by (simp add: upsert_registry_def u_def merge_def flip: new_def)
    have "distinct (map rg_id (filter (\<lambda>e. rg_id e \<notin> rg_id ` set t) new))"
      using assms(2) ids by (intro distinct_map_filter) simp
    moreover have "map rg_id (map merge t) = map rg_id t" by (simp add: mid)
    moreover have disjoint: "A \<inter> rg_id ` {e \<in> set new. rg_id e \<notin> A} = {}" for A by auto
    have "set (map rg_id t) \<inter> set (map rg_id (filter (\<lambda>e. rg_id e \<notin> rg_id ` set t) new)) = {}"
      unfolding set_map set_filter by (rule disjoint)
    ultimately show "distinct (map rg_id u)" using assms(1) by (simp only: u_def map_append distinct_append)
    show "rg_id ` set u = rg_id ` set t \<union> mf_id ` set (dc_monitors config)"
    proof -
      have "A \<union> rg_id ` {e \<in> set new. rg_id e \<notin> A} = A \<union> rg_id ` set new" for A by auto
      moreover have "rg_id ` merge ` set t = rg_id ` set t" by (simp add: image_image mid)
      ultimately show ?thesis unfolding u_def set_append image_Un set_map set_filter all_ids [symmetric] by simp
    qed
    show "\<forall>r \<in> set u. if rg_id r \<in> mf_id ` set (dc_monitors config)
       then configured_row config hash now t r
       else r \<in> set t"
    proof
      fix r assume "r \<in> set u"
      then consider r0 where "r0 \<in> set t" "r = merge r0" | "r \<in> set new" by (auto simp: u_def)
      then show "if rg_id r \<in> mf_id ` set (dc_monitors config)
       then configured_row config hash now t r
       else r \<in> set t"
      proof cases
        case 1
        show ?thesis
        proof (cases "row_at rg_id (rg_id r0) new")
          case None
          with 1 at [of "rg_id r0"] show ?thesis by (simp add: merge_def)
        next
          case (Some e)
          with at [of "rg_id r0"] obtain m where m: "m \<in> set (dc_monitors config)" "e = desired_row config hash now m" "mf_id m = rg_id r0"
            by auto
          then have "rg_id r \<in> mf_id ` set (dc_monitors config)" using mid 1(2) by (metis imageI)
          with m 1 Some show ?thesis by (auto simp: configured_row_def merge_def upserted_row_def desired_row_def intro!: bexI [of _ m])
        qed
      next
        case 2
        then show ?thesis by (auto simp: configured_row_def new_def desired_row_def)
      qed
    qed
  qed
qed

lemma moved_state:
  assumes "s \<in> set (moved_states now targets t)"
  obtains s0 where "s0 \<in> set t" "m_monitorId s = m_monitorId s0"
    "case map_of targets (m_monitorId s) of None \<Rightarrow> s = s0 | Some target \<Rightarrow> reached target (m_state s)"
  using assms
  by (auto simp: moved_states_def transitionLifecycle_frame transitionLifecycle_reached split: option.splits)

lemma moved_states_ids: "m_monitorId ` set (moved_states now targets t) = m_monitorId ` set t"
proof -
  have "map m_monitorId (moved_states now targets t) = map m_monitorId t"
    by (simp add: moved_states_def transitionLifecycle_frame split: option.split)
  then show ?thesis by (metis list.set_map)
qed

subsection \<open>The registry afterwards\<close>

definition archived_row :: "instant \<Rightarrow> registry_row \<Rightarrow> registry_row" where
  "archived_row now r = r\<lparr>rg_enabled := False, rg_archivedAt := Some now, rg_lastSeenAt := now\<rparr>"

text \<open>A row that is not of the configuration: archived now, or before.\<close>

definition retired_row :: "instant \<Rightarrow> registry_row list \<Rightarrow> string list \<Rightarrow> registry_row \<Rightarrow> bool" where
  "retired_row now old removed r \<longleftrightarrow> (\<exists>r0 \<in> set old.
     rg_archivedAt r0 = None \<and> r = archived_row now r0 \<and> rg_id r \<in> set removed \<or>
     rg_archivedAt r0 \<noteq> None \<and> r = r0 \<and> rg_id r \<notin> set removed)"

definition synced_rows ::
  "declarative_config \<Rightarrow> string \<Rightarrow> instant \<Rightarrow> registry_row list \<Rightarrow> registry_row list \<Rightarrow> string list \<Rightarrow> bool" where
  "synced_rows config hash now old rows removed \<longleftrightarrow>
     distinct (map rg_id rows) \<and> rg_id ` set rows = rg_id ` set old \<union> mf_id ` set (dc_monitors config) \<and>
     distinct (map mf_id (dc_monitors config) @ removed) \<and> set removed \<subseteq> rg_id ` set old \<and>
     (\<forall>r \<in> set rows. if rg_id r \<in> mf_id ` set (dc_monitors config) then configured_row config hash now old r
        else retired_row now old removed r)"

lemma synced_rowsD:
  assumes "synced_rows config hash now old rows removed" "r \<in> set rows"
  shows "rg_id r \<in> mf_id ` set (dc_monitors config) \<Longrightarrow> configured_row config hash now old r"
    and "rg_id r \<notin> mf_id ` set (dc_monitors config) \<Longrightarrow> retired_row now old removed r"
proof -
  from assms have "if rg_id r \<in> mf_id ` set (dc_monitors config) then configured_row config hash now old r
      else retired_row now old removed r" unfolding synced_rows_def by blast
  then show "rg_id r \<in> mf_id ` set (dc_monitors config) \<Longrightarrow> configured_row config hash now old r"
    "rg_id r \<notin> mf_id ` set (dc_monitors config) \<Longrightarrow> retired_row now old removed r" by simp_all
qed

lemma archived_row_id [simp]: "rg_id (archived_row now r) = rg_id r"
  by (simp add: archived_row_def)

lemma upsert_archive_synced:
  assumes "distinct (map rg_id old)" "distinct (map mf_id (dc_monitors config))"
  obtains u rows removed where "upsert_registry (map (desired_row config hash now) (dc_monitors config)) old = Inr u"
    "archive_removed (map mf_id (dc_monitors config)) now u = (rows, removed)" "synced_rows config hash now old rows removed"
proof -
  let ?ids = "mf_id ` set (dc_monitors config)" let ?out = "left_out (map mf_id (dc_monitors config))"
  obtain u where u: "upsert_registry (map (desired_row config hash now) (dc_monitors config)) old = Inr u" "distinct (map rg_id u)"
    "rg_id ` set u = rg_id ` set old \<union> ?ids"
    "\<forall>r \<in> set u. if rg_id r \<in> ?ids then configured_row config hash now old r else r \<in> set old"
    by (rule upsert_registry_rows [OF assms])
  define rows where "rows = sql_update ?out (archived_row now) u"
  define removed where "removed = map rg_id (filter ?out u)"
  have archive: "archive_removed (map mf_id (dc_monitors config)) now u = (rows, removed)"
    by (simp add: archive_removed_def rows_def removed_def archived_row_def [abs_def])
  have ids: "map rg_id rows = map rg_id u" by (simp add: rows_def map_key_sql_update)
  have out: "rg_id r \<in> set removed \<longleftrightarrow> ?out r" if "r \<in> set u" for r
  proof
    assume "rg_id r \<in> set removed"
    then obtain r1 where "r1 \<in> set u" "?out r1" "rg_id r1 = rg_id r" unfolding removed_def by auto
    moreover from this that u(2) have "r1 = r" by (metis distinct_map inj_onD)
    ultimately show "?out r" by simp
  qed (use that in \<open>simp add: removed_def\<close>)
  have "distinct (map mf_id (dc_monitors config) @ removed)"
    using assms(2) u(2) by (simp add: removed_def left_out_def distinct_map_filter) force
  moreover have "set removed \<subseteq> rg_id ` set old"
  proof
    fix i assume "i \<in> set removed"
    then obtain r where r: "r \<in> set u" "?out r" "i = rg_id r" by (auto simp: removed_def)
    then have "rg_id r \<notin> ?ids" by (simp add: left_out_def)
    with r u(4) show "i \<in> rg_id ` set old" by auto
  qed
  moreover have "if rg_id r \<in> ?ids then configured_row config hash now old r else retired_row now old removed r"
    if in_rows: "r \<in> set rows" for r
  proof -
    obtain r0 where r0: "r0 \<in> set u" "r = (if ?out r0 then archived_row now r0 else r0)"
      using in_rows unfolding rows_def sql_update_def set_map by blast
    have same: "rg_id r = rg_id r0" by (simp add: r0(2))
    show ?thesis
    proof (cases "rg_id r0 \<in> ?ids")
      case True
      then have "r = r0" by (simp add: r0(2) left_out_def)
      with bspec [OF u(4) r0(1)] True show ?thesis by simp
    next
      case False
      with bspec [OF u(4) r0(1)] have "r0 \<in> set old" by simp
      with False r0(2) out [OF r0(1)] have "retired_row now old removed r" unfolding retired_row_def
        by (intro bexI [of _ r0]) (auto simp: left_out_def)
      with False same show ?thesis by simp
    qed
  qed
  ultimately have "synced_rows config hash now old rows removed"
    unfolding synced_rows_def using ids u(2,3) by (metis list.set_map)
  with u(1) archive show thesis by (rule that)
qed

lemma synced_rows_checks:
  assumes "synced_rows config hash now old rows removed" "list_all registry_row_checks old" "\<forall>r \<in> set old. rg_firstSeenAt r \<le> now"
  shows "list_all registry_row_checks rows"
  unfolding list_all_iff
proof
  fix r assume "r \<in> set rows"
  from synced_rowsD [OF assms(1) this] have "configured_row config hash now old r \<or> retired_row now old removed r" by blast
  then show "registry_row_checks r"
  proof
    assume "configured_row config hash now old r"
    with assms(3) show ?thesis by (auto simp: configured_row_def registry_row_checks_def)
  next
    assume "retired_row now old removed r"
    with assms(2,3) show ?thesis
      by (auto simp: retired_row_def registry_row_checks_def archived_row_def list_all_iff)
  qed
qed

lemma synced_rows_configured:
  assumes "synced_rows config hash now old rows removed" "m \<in> set (dc_monitors config)"
  shows "\<exists>r \<in> set rows. rg_id r = mf_id m \<and> rg_name r = mf_name m \<and> rg_url r = mf_url m \<and> rg_enabled r = mf_enabled m \<and>
    rg_configHash r = hash \<and> rg_archivedAt r = None"
proof -
  from assms obtain r where r: "r \<in> set rows" "rg_id r = mf_id m" unfolding synced_rows_def by (metis UnCI imageE imageI)
  then have "rg_id r \<in> mf_id ` set (dc_monitors config)" using assms(2) by (metis imageI)
  then have "configured_row config hash now old r" by (rule synced_rowsD(1) [OF assms(1) r(1)])
  then obtain m' where m': "m' \<in> set (dc_monitors config)" "mf_id m' = rg_id r" "rg_name r = mf_name m'" "rg_url r = mf_url m'"
    "rg_enabled r = mf_enabled m'" "rg_configHash r = hash" "rg_archivedAt r = None"
    unfolding configured_row_def by blast
  have "distinct (map mf_id (dc_monitors config))" using assms(1) by (simp add: synced_rows_def)
  then have "m' = m" using m'(1,2) r(2) assms(2) by (metis distinct_map inj_onD)
  with r m' show ?thesis by blast
qed

lemma synced_rows_archived:
  assumes "synced_rows config hash now old rows removed" "r \<in> set rows"
  shows "rg_archivedAt r = None \<longleftrightarrow> rg_id r \<in> mf_id ` set (dc_monitors config)"
  using synced_rowsD [OF assms]
  by (cases "rg_id r \<in> mf_id ` set (dc_monitors config)") (auto simp: configured_row_def retired_row_def archived_row_def)

subsection \<open>Its agreement with the snapshots\<close>

definition sync_targets :: "declarative_config \<Rightarrow> string list \<Rightarrow> (string \<times> lifecycle_target) list" where
  "sync_targets config removed = map monitor_target (dc_monitors config) @ map archive_target removed"

lemma fst_sync_targets: "map fst (sync_targets config removed) = map mf_id (dc_monitors config) @ removed"
  by (simp add: sync_targets_def monitor_target_def archive_target_def comp_def)

lemma sync_target_at:
  assumes "distinct (map mf_id (dc_monitors config) @ removed)"
  shows "m \<in> set (dc_monitors config) \<Longrightarrow> map_of (sync_targets config removed) (mf_id m) =
      Some (if mf_enabled m then Target_Active else Target_Paused)"
    and "i \<in> set removed \<Longrightarrow> map_of (sync_targets config removed) i = Some Target_Archived"
    and "i \<notin> mf_id ` set (dc_monitors config) \<Longrightarrow> i \<notin> set removed \<Longrightarrow> map_of (sync_targets config removed) i = None"
proof -
  have distinct: "distinct (map fst (sync_targets config removed))" using assms unfolding fst_sync_targets .
  show "m \<in> set (dc_monitors config) \<Longrightarrow> map_of (sync_targets config removed) (mf_id m) =
      Some (if mf_enabled m then Target_Active else Target_Paused)"
    "i \<in> set removed \<Longrightarrow> map_of (sync_targets config removed) i = Some Target_Archived"
    using map_of_is_SomeI [OF distinct] by (auto simp: sync_targets_def monitor_target_def archive_target_def simp del: map_of_append)
  show "i \<notin> mf_id ` set (dc_monitors config) \<Longrightarrow> i \<notin> set removed \<Longrightarrow> map_of (sync_targets config removed) i = None"
    using fst_sync_targets [of config removed] by (metis map_of_eq_None_iff list.set_map set_append Un_iff)
qed

lemma synced_target_reached:
  assumes rows: "synced_rows config hash now old rows removed" and r: "r \<in> set rows"
    and s: "s \<in> set (moved_states now (sync_targets config removed) t)" "m_monitorId s = rg_id r"
    and before: "\<forall>r \<in> set old. \<forall>s \<in> set t. m_monitorId s = rg_id r \<longrightarrow> reached (row_target r) (m_state s)"
  shows "reached (row_target r) (m_state s)"
proof -
  obtain s0 where s0: "s0 \<in> set t" "m_monitorId s = m_monitorId s0"
    "case map_of (sync_targets config removed) (m_monitorId s) of None \<Rightarrow> s = s0 | Some target \<Rightarrow> reached target (m_state s)"
    by (rule moved_state [OF s(1)])
  have distinct: "distinct (map mf_id (dc_monitors config) @ removed)" using rows by (simp add: synced_rows_def)
  show ?thesis
  proof (cases "rg_id r \<in> mf_id ` set (dc_monitors config)")
    case True
    from synced_rowsD(1) [OF rows r this] obtain m where m: "m \<in> set (dc_monitors config)" "mf_id m = rg_id r"
      "rg_enabled r = mf_enabled m" "rg_archivedAt r = None" unfolding configured_row_def by blast
    with sync_target_at(1) [OF distinct m(1)] s0(3) s(2) show ?thesis by (simp add: row_target_def)
  next
    case False
    from synced_rowsD(2) [OF rows r this] have "retired_row now old removed r" .
    then consider "rg_archivedAt r \<noteq> None" "rg_id r \<in> set removed" | "r \<in> set old" "rg_id r \<notin> set removed"
      unfolding retired_row_def archived_row_def by auto
    then show ?thesis
    proof cases
      case 1
      with sync_target_at(2) [OF distinct 1(2)] s0(3) s(2) show ?thesis by (simp add: row_target_def)
    next
      case 2
      with sync_target_at(3) [OF distinct False 2(2)] s0 s(2) before show ?thesis by auto
    qed
  qed
qed

subsection \<open>Synchronizing\<close>

text \<open>What the caller's clock and document have to satisfy.\<close>

definition sync_admissible :: "registry_db \<Rightarrow> declarative_config \<Rightarrow> instant \<Rightarrow> bool" where
  "sync_admissible db config now \<longleftrightarrow> distinct (map mf_id (dc_monitors config)) \<and>
     (\<forall>r \<in> set (rd_registry db). rg_firstSeenAt r \<le> now) \<and>
     (\<forall>inc \<in> set (md_incidents (rd_minute db)). in_resolvedAt inc = None \<longrightarrow> in_openedAt inc \<le> now)"

lemma sync_moves:
  assumes agree: "agreement (rd_minute db)" "registry_agrees db" and rows: "synced_rows config hash now (rd_registry db) rows removed"
  obtains t incidents where
    "fst (sql_insert_new m_monitorId (map (\<lambda>m. initial_snapshot (mf_id m) (mf_enabled m) now) (dc_monitors config))
      (md_states (rd_minute db))) = t"
    "run_steps (applyLifecycle mode now
       (\<lambda>i. if i \<in> set (map mf_id (dc_monitors config) @ removed) then row_at m_monitorId i t else None))
       ((rd_minute db)\<lparr>md_states := t\<rparr>) (sync_targets config removed) =
      Inr ((rd_minute db)\<lparr>md_incidents := incidents, md_states := moved_states now (sync_targets config removed) t\<rparr>)"
    "agreement ((rd_minute db)\<lparr>md_incidents := incidents, md_states := moved_states now (sync_targets config removed) t\<rparr>)"
    "list_all2 (closed_at now) (md_incidents (rd_minute db)) incidents"
    "m_monitorId ` set t = rg_id ` set (rd_registry db) \<union> mf_id ` set (dc_monitors config)"
    "\<forall>r \<in> set (rd_registry db). \<forall>s \<in> set t. m_monitorId s = rg_id r \<longrightarrow> reached (row_target r) (m_state s)"
    "list_all monitor_state_checks (md_states (rd_minute db)) \<longrightarrow> list_all monitor_state_checks t"
proof -
  have registry: "rg_id ` set (rd_registry db) = m_monitorId ` set (md_states (rd_minute db))"
    "\<forall>r \<in> set (rd_registry db). \<forall>s \<in> set (md_states (rd_minute db)). m_monitorId s = rg_id r \<longrightarrow> reached (row_target r) (m_state s)"
    using agree(2) by (simp_all add: registry_agrees_def)
  obtain t new where ins: "sql_insert_new m_monitorId (map (\<lambda>m. initial_snapshot (mf_id m) (mf_enabled m) now) (dc_monitors config))
      (md_states (rd_minute db)) = (t, new)" by fastforce
  note t = inserted_states [OF agree(1) ins]
  then have agree_t: "agreement ((rd_minute db)\<lparr>md_states := t\<rparr>)" by simp
  let ?states = "\<lambda>i. if i \<in> set (map mf_id (dc_monitors config) @ removed) then row_at m_monitorId i t else None"
  have distinct: "distinct (map fst (sync_targets config removed))"
    using rows unfolding fst_sync_targets by (simp add: synced_rows_def)
  have in_t: "set (map mf_id (dc_monitors config) @ removed) \<subseteq> m_monitorId ` set t"
    using t rows registry(1) by (auto simp: synced_rows_def)
  have "\<exists>s \<in> set t. m_monitorId s = i \<and> ?states i = Some s" if "i \<in> fst ` set (sync_targets config removed)" for i
  proof -
    have i: "i \<in> set (map mf_id (dc_monitors config) @ removed)"
      using that fst_sync_targets [of config removed] by (metis list.set_map)
    then obtain s where s: "s \<in> set t" "m_monitorId s = i" using in_t by auto
    moreover have "row_at m_monitorId i t = Some s"
      using row_at_distinct [of m_monitorId t s] agreement_distinct(1) [OF agree_t] s by simp
    ultimately show ?thesis using i by auto
  qed
  then have states: "\<forall>i \<in> fst ` set (sync_targets config removed). \<exists>s \<in> set (md_states ((rd_minute db)\<lparr>md_states := t\<rparr>)).
      m_monitorId s = i \<and> ?states i = Some s" by simp
  have "reached (row_target r) (m_state s)" if r: "r \<in> set (rd_registry db)" and s: "s \<in> set t" "m_monitorId s = rg_id r" for r s
  proof -
    obtain x where x: "x \<in> set (md_states (rd_minute db))" "m_monitorId x = rg_id r"
      using registry(1) r by (metis imageE imageI)
    then have "x = s" using agreement_same_monitor [OF agree_t, of x s] t s by auto
    with registry(2) r x show ?thesis by blast
  qed
  then have before: "\<forall>r \<in> set (rd_registry db). \<forall>s \<in> set t. m_monitorId s = rg_id r \<longrightarrow> reached (row_target r) (m_state s)"
    by blast
  have sel: "md_states ((rd_minute db)\<lparr>md_states := t\<rparr>) = t" "md_incidents ((rd_minute db)\<lparr>md_states := t\<rparr>) = md_incidents (rd_minute db)"
    by simp_all
  have same: "(rd_minute db)\<lparr>md_states := t, md_incidents := x, md_states := y\<rparr> = (rd_minute db)\<lparr>md_incidents := x, md_states := y\<rparr>"
    for x y by simp
  from lifecycle_run [OF agree_t distinct states, of mode now, unfolded sel same]
  obtain incidents where result: "run_steps (applyLifecycle mode now ?states) ((rd_minute db)\<lparr>md_states := t\<rparr>) (sync_targets config removed) =
      Inr ((rd_minute db)\<lparr>md_incidents := incidents, md_states := moved_states now (sync_targets config removed) t\<rparr>)"
    "agreement ((rd_minute db)\<lparr>md_incidents := incidents, md_states := moved_states now (sync_targets config removed) t\<rparr>)"
    "list_all2 (closed_at now) (md_incidents (rd_minute db)) incidents"
    by blast
  have inserted: "fst (sql_insert_new m_monitorId (map (\<lambda>m. initial_snapshot (mf_id m) (mf_enabled m) now) (dc_monitors config))
      (md_states (rd_minute db))) = t" by (simp add: ins)
  have "m_monitorId ` set t = rg_id ` set (rd_registry db) \<union> mf_id ` set (dc_monitors config)"
    "list_all monitor_state_checks (md_states (rd_minute db)) \<longrightarrow> list_all monitor_state_checks t"
    using t registry(1) by auto
  then show thesis by (rule that [OF inserted result _ before])
qed

lemma synchronizeRegistry_result:
  assumes agree: "agreement (rd_minute db)" "registry_agrees db" and ok: "registry_constraints db"
    and adm: "sync_admissible db config now"
  obtains rows removed minute where
    "synchronizeRegistry sha config hash now mode db = Inr \<lparr>rd_registry = rows, rd_minute = minute\<rparr>"
    "synced_rows config hash now (rd_registry db) rows removed" "agreement minute"
    "registry_agrees \<lparr>rd_registry = rows, rd_minute = minute\<rparr>" "registry_constraints \<lparr>rd_registry = rows, rd_minute = minute\<rparr>"
proof -
  have "distinct (map rg_id (rd_registry db))" "distinct (map mf_id (dc_monitors config))"
    using agree(2) adm by (simp_all add: registry_agrees_def sync_admissible_def)
  then obtain u rows removed where u: "upsert_registry (map (desired_row config hash now) (dc_monitors config)) (rd_registry db) = Inr u"
    "archive_removed (map mf_id (dc_monitors config)) now u = (rows, removed)"
    and rows: "synced_rows config hash now (rd_registry db) rows removed"
    by (rule upsert_archive_synced)
  obtain t incidents where t: "fst (sql_insert_new m_monitorId
      (map (\<lambda>m. initial_snapshot (mf_id m) (mf_enabled m) now) (dc_monitors config)) (md_states (rd_minute db))) = t"
    "m_monitorId ` set t = rg_id ` set (rd_registry db) \<union> mf_id ` set (dc_monitors config)"
    "\<forall>r \<in> set (rd_registry db). \<forall>s \<in> set t. m_monitorId s = rg_id r \<longrightarrow> reached (row_target r) (m_state s)"
    "list_all monitor_state_checks (md_states (rd_minute db)) \<longrightarrow> list_all monitor_state_checks t"
    and run: "run_steps (applyLifecycle mode now
       (\<lambda>i. if i \<in> set (map mf_id (dc_monitors config) @ removed) then row_at m_monitorId i t else None))
       ((rd_minute db)\<lparr>md_states := t\<rparr>) (sync_targets config removed) =
      Inr ((rd_minute db)\<lparr>md_incidents := incidents, md_states := moved_states now (sync_targets config removed) t\<rparr>)"
    and moved: "agreement ((rd_minute db)\<lparr>md_incidents := incidents, md_states := moved_states now (sync_targets config removed) t\<rparr>)"
    and closed: "list_all2 (closed_at now) (md_incidents (rd_minute db)) incidents"
    by (rule sync_moves [OF agree rows])
  define exceptions where "exceptions = (if mode = Mode_runtime
    then concat (map (monitor_exceptions sha hash now (if mode = Mode_runtime then (\<lambda>i. row_at rg_id i (rd_registry db)) else (\<lambda>_. None)))
           (dc_monitors config)) @
      concat (map (removed_exceptions sha hash now) removed) else [])"
  define minute where "minute = (rd_minute db)\<lparr>md_incidents := incidents,
    md_states := moved_states now (sync_targets config removed) t,
    md_exceptions := insert_exceptions exceptions (md_exceptions (rd_minute db))\<rparr>"
  have minute_ok: "minute_constraints (rd_minute db)" using ok by (simp add: registry_constraints_def)
  have "list_all incident_checks incidents \<and> one_active_per_monitor incidents"
    using closed_incidents_ok [OF closed] minute_ok adm by (simp add: minute_constraints_def sync_admissible_def)
  moreover have "list_all exception_checks exceptions" by (simp add: exceptions_def sync_exceptions_checks)
  then have "list_all exception_checks (insert_exceptions exceptions (md_exceptions (rd_minute db))) \<and>
      distinct (map mx_id (insert_exceptions exceptions (md_exceptions (rd_minute db))))"
    using minute_ok by (intro insert_exceptions_ok) (simp_all add: minute_constraints_def)
  moreover have "list_all monitor_state_checks (moved_states now (sync_targets config removed) t)"
    using t(4) minute_ok by (intro moved_state_checks) (simp add: minute_constraints_def)
  moreover have "list_all registry_row_checks rows"
    using synced_rows_checks [OF rows] ok adm by (simp add: registry_constraints_def sync_admissible_def)
  ultimately have constraints: "registry_constraints \<lparr>rd_registry = rows, rd_minute = minute\<rparr>"
    using minute_ok by (simp add: registry_constraints_def minute_constraints_def minute_def)
  obtain middle where middle: "run_steps (applyLifecycle mode now
       (\<lambda>i. if i \<in> set (map mf_id (dc_monitors config) @ removed) then row_at m_monitorId i t else None))
       ((rd_minute db)\<lparr>md_states := t\<rparr>) (map monitor_target (dc_monitors config)) = Inr middle"
    "run_steps (applyLifecycle mode now
       (\<lambda>i. if i \<in> set (map mf_id (dc_monitors config) @ removed) then row_at m_monitorId i t else None))
       middle (map archive_target removed) =
      Inr ((rd_minute db)\<lparr>md_incidents := incidents, md_states := moved_states now (sync_targets config removed) t\<rparr>)"
    using run unfolding sync_targets_def run_steps_append by (auto simp: res_bind_Inr_iff)
  have "synchronizeRegistry sha config hash now mode db = Inr \<lparr>rd_registry = rows, rd_minute = minute\<rparr>"
    unfolding synchronizeRegistry_def Let_def u(1) res_bind_simps u(2) prod.case t(1) middle exceptions_def [symmetric]
    using constraints by (simp add: minute_def)
  moreover have "agreement minute" using moved by (simp add: minute_def agreement_def unresolved_of_def)
  moreover have "registry_agrees \<lparr>rd_registry = rows, rd_minute = minute\<rparr>"
    using rows synced_target_reached [OF rows _ _ _ t(3)] t(2) moved_states_ids [of now "sync_targets config removed" t]
    by (simp add: registry_agrees_def minute_def synced_rows_def)
  ultimately show thesis using rows constraints by (intro that)
qed

lemma open_incident_enabled:
  assumes "agreement (rd_minute db)" "registry_agrees db" "inc \<in> set (md_incidents (rd_minute db))" "in_resolvedAt inc = None"
  shows "(\<exists>r \<in> set (rd_registry db). rg_id r = in_monitorId inc \<and> rg_archivedAt r = None \<and> rg_enabled r) \<and>
    (\<exists>s \<in> set (md_states (rd_minute db)). m_monitorId s = in_monitorId inc \<and> m_activeIncidentId s = Some (in_id inc))"
proof -
  obtain s where s: "s \<in> set (md_states (rd_minute db))" "m_monitorId s = in_monitorId inc"
    using assms(1,3) unfolding agreement_def by blast
  then have active: "m_activeIncidentId s = Some (in_id inc)"
    using agreement_active [OF assms(1) s(1), of "in_id inc"] assms(3,4) by (auto simp: unresolved_of_def)
  have "incident_ok s" using assms(1) s(1) by (simp add: agreement_def monitor_inv_def snapshot_ok_def)
  with active have outage: "in_outage (m_state s)" by (auto simp: incident_ok_def split: if_splits)
  obtain r where r: "r \<in> set (rd_registry db)" "rg_id r = m_monitorId s"
    using assms(2) s(1) by (auto simp: registry_agrees_def) (metis imageE imageI)
  then have "reached (row_target r) (m_state s)" using assms(2) s(1) by (simp add: registry_agrees_def)
  with outage have "rg_archivedAt r = None" "rg_enabled r"
    by (auto simp: row_target_def reached_def in_outage_def split: if_splits)
  with r s active show ?thesis by auto
qed

lemma registry_sync_core:
  assumes "agreement (rd_minute db)" "registry_agrees db" "registry_constraints db" "sync_admissible db config now"
  shows "\<exists>db'. synchronizeRegistry sha config hash now mode db = Inr db' \<and>
    agreement (rd_minute db') \<and> registry_agrees db' \<and> registry_constraints db' \<and>
    (\<forall>m \<in> set (dc_monitors config). \<exists>r \<in> set (rd_registry db'). rg_id r = mf_id m \<and> rg_name r = mf_name m \<and>
       rg_url r = mf_url m \<and> rg_enabled r = mf_enabled m \<and> rg_configHash r = hash \<and> rg_archivedAt r = None) \<and>
    (\<forall>r \<in> set (rd_registry db'). rg_archivedAt r = None \<longleftrightarrow> rg_id r \<in> mf_id ` set (dc_monitors config)) \<and>
    (\<forall>inc \<in> set (md_incidents (rd_minute db')). in_resolvedAt inc = None \<longrightarrow>
       (\<exists>m \<in> set (dc_monitors config). mf_id m = in_monitorId inc \<and> mf_enabled m))"
proof -
  obtain rows removed minute where res:
    "synchronizeRegistry sha config hash now mode db = Inr \<lparr>rd_registry = rows, rd_minute = minute\<rparr>"
    and rows: "synced_rows config hash now (rd_registry db) rows removed" and agree: "agreement minute"
    and registry: "registry_agrees \<lparr>rd_registry = rows, rd_minute = minute\<rparr>"
    and ok: "registry_constraints \<lparr>rd_registry = rows, rd_minute = minute\<rparr>"
    by (rule synchronizeRegistry_result [OF assms])
  have "\<exists>m \<in> set (dc_monitors config). mf_id m = in_monitorId inc \<and> mf_enabled m"
    if inc: "inc \<in> set (md_incidents minute)" "in_resolvedAt inc = None" for inc
  proof -
    obtain r where r: "r \<in> set rows" "rg_id r = in_monitorId inc" "rg_archivedAt r = None" "rg_enabled r"
      using open_incident_enabled [OF _ registry] agree inc by auto
    then have "rg_id r \<in> mf_id ` set (dc_monitors config)" using synced_rows_archived [OF rows r(1)] by simp
    with synced_rowsD(1) [OF rows r(1)] r(2,4) show ?thesis by (auto simp: configured_row_def)
  qed
  with res agree registry ok synced_rows_configured [OF rows] synced_rows_archived [OF rows] show ?thesis
    by (intro exI [of _ "\<lparr>rd_registry = rows, rd_minute = minute\<rparr>"]) simp
qed

text \<open>C6. Synchronizing the registry with a configuration never fails and leaves every table in agreement. From
  tables that agree and satisfy their constraints, at a time no earlier than the first sighting of any
  monitor and the opening of any unresolved incident, in either mode: the transaction commits, monitors and
  incidents agree, every monitor is in the administrative state its registry row asks for, the unarchived rows
  are exactly the monitors of the configuration, with its fields and digest, and an incident is left
  unresolved only for a monitor the configuration has enabled.\<close>

theorem registry_sync_agrees:
  assumes "agreement (rd_minute db)" "registry_agrees db" "registry_constraints db" "sync_admissible db config now"
  shows "\<exists>db'. synchronizeRegistry sha config hash now mode db = Inr db' \<and>
    agreement (rd_minute db') \<and> registry_agrees db' \<and> registry_constraints db' \<and>
    (\<forall>m \<in> set (dc_monitors config). \<exists>r \<in> set (rd_registry db'). rg_id r = mf_id m \<and> rg_name r = mf_name m \<and>
       rg_url r = mf_url m \<and> rg_enabled r = mf_enabled m \<and> rg_configHash r = hash \<and> rg_archivedAt r = None) \<and>
    (\<forall>r \<in> set (rd_registry db'). rg_archivedAt r = None \<longleftrightarrow> rg_id r \<in> mf_id ` set (dc_monitors config)) \<and>
    (\<forall>inc \<in> set (md_incidents (rd_minute db')). in_resolvedAt inc = None \<longrightarrow>
       (\<exists>m \<in> set (dc_monitors config). mf_id m = in_monitorId inc \<and> mf_enabled m))"
  using assms by (rule registry_sync_core)

text \<open>A monitor in an outage leaves the configuration, and another one is new.\<close>

definition sample_down :: snapshot where
  "sample_down = (initial_snapshot ''api'' True 60)\<lparr>m_state := DOWN, m_consecutiveFailures := 2, m_activatedAt := Some 10,
     m_firstFailureAt := Some 100, m_lastCheckedAt := Some 160, m_lastFailureAt := Some 160, m_activeIncidentId := Some ''i'',
     m_version := 3\<rparr>"

definition sample_registry_db :: registry_db where
  "sample_registry_db = \<lparr>rd_registry = [\<lparr>rg_id = ''api'', rg_name = ''Api'', rg_url = ''https://a.example/'', rg_groupName = None,
       rg_enabled = True, rg_configHash = ''h'', rg_firstSeenAt = 5, rg_lastSeenAt = 5, rg_archivedAt = None\<rparr>],
     rd_minute = sample_minute_db\<lparr>md_states := [sample_down],
       md_incidents := [\<lparr>in_id = ''i'', in_monitorId = ''api'', in_openedAt = 160, in_firstFailureAt = 100,
         in_lastFailureAt = Some 160, in_firstSuccessAt = None, in_resolvedAt = None, in_openingErrorCode = None,
         in_openingStatusCode = None, in_resolutionReason = None, in_createdAt = 160, in_updatedAt = 160\<rparr>]\<rparr>\<rparr>"

lemma sample_registry_ready:
  "agreement (rd_minute sample_registry_db)" "registry_agrees sample_registry_db" "registry_constraints sample_registry_db"
  "sync_admissible sample_registry_db (sample_document []) 200"
proof -
  show "agreement (rd_minute sample_registry_db)"
    by (simp add: agreement_def sample_registry_db_def unresolved_of_def sample_down_def initial_snapshot_def monitor_inv_def
        snapshot_ok_def counters_ok_def incident_ok_def in_outage_def chrono_ok_def began_before_def opt_le_def)
  show "registry_agrees sample_registry_db"
    by (simp add: registry_agrees_def sample_registry_db_def sample_down_def initial_snapshot_def row_target_def reached_def CHECK_STATES_def)
  show "registry_constraints sample_registry_db"
    by (simp add: registry_constraints_def minute_constraints_def sample_registry_db_def sample_minute_db_def registry_row_checks_def
        sample_down_def initial_snapshot_def monitor_state_checks_def opt_nonneg_def incident_checks_def one_active_per_monitor_def)
  show "sync_admissible sample_registry_db (sample_document []) 200"
    by (simp add: sync_admissible_def sample_registry_db_def sample_document_def)
qed

theorem registry_sync_agrees_witness:
  "\<exists>db'. synchronizeRegistry (\<lambda>_. []) (sample_document []) ''h2'' 200 Mode_runtime sample_registry_db = Inr db' \<and>
     agreement (rd_minute db') \<and> (\<forall>inc \<in> set (md_incidents (rd_minute db')). in_monitorId inc = ''api'' \<longrightarrow> in_resolvedAt inc \<noteq> None)"
proof -
  obtain db' where db': "synchronizeRegistry (\<lambda>_. []) (sample_document []) ''h2'' 200 Mode_runtime sample_registry_db = Inr db'"
    "agreement (rd_minute db')" and open_only: "\<forall>inc \<in> set (md_incidents (rd_minute db')). in_resolvedAt inc = None \<longrightarrow>
       (\<exists>m \<in> set (dc_monitors (sample_document [])). mf_id m = in_monitorId inc \<and> mf_enabled m)"
    using registry_sync_agrees [OF sample_registry_ready, of "\<lambda>_. []" "''h2''" Mode_runtime] by blast
  have "in_resolvedAt inc \<noteq> None" if "inc \<in> set (md_incidents (rd_minute db'))" "in_monitorId inc = ''api''" for inc
    using bspec [OF open_only that(1)] that(2) by (auto simp: sample_document_def)
  with db' show ?thesis by blast
qed

end
