(* ===== verification/Service_Run.thy ===== *)
theory Service_Run
  imports Registry_Sync
begin

text \<open>
  The scheduler's two writers together: commits of minutes (\<open>Atomic_Minute\<close>) and registry synchronizations
  (\<open>Registry_Sync\<close>), interleaved in any order on the same tables.
\<close>

datatype service_op = Op_Minute minute_input | Op_Sync declarative_config string instant sync_mode

definition service_step :: "(string \<Rightarrow> byte list) \<Rightarrow> registry_db \<Rightarrow> service_op \<Rightarrow> js_error + registry_db" where
  "service_step sha256 db op = (case op of
      Op_Minute input \<Rightarrow> res_bind (minute_step sha256 (rd_minute db) input) (\<lambda>minute. Inr (db\<lparr>rd_minute := minute\<rparr>))
    | Op_Sync config hash now mode \<Rightarrow> synchronizeRegistry sha256 config hash now mode db)"

definition service_admissible :: "(string \<Rightarrow> byte list) \<Rightarrow> registry_db \<Rightarrow> service_op \<Rightarrow> bool" where
  "service_admissible sha256 db op = (case op of
      Op_Minute input \<Rightarrow> minute_admissible sha256 (rd_minute db) input
    | Op_Sync config hash now mode \<Rightarrow> sync_admissible db config now)"

definition service_inv :: "registry_db \<Rightarrow> bool" where
  "service_inv db \<longleftrightarrow> agreement (rd_minute db) \<and> registry_agrees db \<and> registry_constraints db"

text \<open>A minute moves no monitor between the administrative states.\<close>

lemma updated_state_kept:
  assumes "agreement db" "minute_admissible sha db input" "compute_minute sha input = Inr (batch, rows)"
    "minute_effects batch rows db = Inr db'" "s \<in> set (md_states db)"
  shows "m_monitorId (updated_state (mn_states rows) s) = m_monitorId s \<and>
    (m_state (updated_state (mn_states rows) s) = m_state s \<or>
     {m_state s, m_state (updated_state (mn_states rows) s)} \<subseteq> set CHECK_STATES)"
proof -
  obtain ch where ch: "updated_state (mn_states rows) s = (case ch s of None \<Rightarrow> s | Some (state, r) \<Rightarrow> state)"
    "changes_ok db rows ch"
    using minute_changes [OF assms(1-4)] assms(5) by blast
  show ?thesis
  proof (cases "ch s")
    case None
    with ch(1) show ?thesis by simp
  next
    case (Some c)
    obtain state r where c: "c = (state, r)" by (cases c)
    with ch(2) Some assms(5) have "good_change s state r" by (simp add: changes_ok_def)
    then have "m_monitorId state = m_monitorId s" "m_state s \<in> set CHECK_STATES" "m_state state \<in> set CHECK_STATES"
      unfolding good_change_def by blast+
    with ch(1) Some c show ?thesis by simp
  qed
qed

lemma minute_keeps_registry:
  assumes agree: "agreement (rd_minute db)" "registry_agrees db" and adm: "minute_admissible sha (rd_minute db) input"
    and step: "minute_step sha (rd_minute db) input = Inr minute"
  shows "registry_agrees (db\<lparr>rd_minute := minute\<rparr>)"
proof -
  obtain x where "persistAtomicMinute sha False input (rd_minute db) = Inr (minute, x)"
    using step by (auto simp: minute_step_def res_bind_Inr_iff)
  from persist_cases [OF this] obtain batch rows where c: "compute_minute sha input = Inr (batch, rows)"
    "minute = rd_minute db \<or> minute_effects batch rows (rd_minute db) = Inr minute" by (auto split: if_splits)
  from c(2) show ?thesis
  proof
    assume "minute = rd_minute db"
    with agree(2) show ?thesis by simp
  next
    assume e: "minute_effects batch rows (rd_minute db) = Inr minute"
    note kept = updated_state_kept [OF agree(1) adm c(1) e]
    have states: "md_states minute = map (updated_state (mn_states rows)) (md_states (rd_minute db))"
      by (rule minute_effects_shape(1) [OF e])
    have "m_monitorId ` set (md_states minute) = m_monitorId ` set (md_states (rd_minute db))"
      unfolding states set_map image_image using kept by (intro image_cong refl) blast
    moreover have "reached (row_target r) (m_state (updated_state (mn_states rows) s))"
      if "r \<in> set (rd_registry db)" "s \<in> set (md_states (rd_minute db))" "m_monitorId s = rg_id r" for r s
    proof -
      have "reached (row_target r) (m_state s)" using agree(2) that by (simp add: registry_agrees_def)
      with kept [OF that(2)] show ?thesis
        by (cases "row_target r") (auto simp: reached_def CHECK_STATES_def)
    qed
    ultimately show ?thesis using agree(2) kept by (auto simp: registry_agrees_def states)
  qed
qed

lemma service_step_inv:
  assumes "service_inv db" "service_admissible sha db op" "service_step sha db op = Inr db'"
  shows "service_inv db'"
proof (cases op)
  case (Op_Minute input)
  with assms(3) obtain minute where m: "minute_step sha (rd_minute db) input = Inr minute" "db' = db\<lparr>rd_minute := minute\<rparr>"
    by (auto simp: service_step_def res_bind_Inr_iff)
  then obtain x where "persistAtomicMinute sha False input (rd_minute db) = Inr (minute, x)"
    by (auto simp: minute_step_def res_bind_Inr_iff)
  from persist_cases [OF this] assms(1) have "minute_constraints minute"
    by (auto simp: service_inv_def registry_constraints_def split: if_splits)
  moreover have "agreement minute" "registry_agrees db'"
    using assms(1,2) m Op_Minute minute_step_agreement minute_keeps_registry
    by (auto simp: service_inv_def service_admissible_def)
  ultimately show ?thesis using assms(1) m(2) by (simp add: service_inv_def registry_constraints_def)
next
  case (Op_Sync config hash now mode)
  with assms registry_sync_core [of db config now sha hash mode] show ?thesis
    by (auto simp: service_inv_def service_admissible_def service_step_def)
qed

interpretation service_machine: invariant_machine "service_step sha" service_inv "service_admissible sha" for sha
  by unfold_locales (rule service_step_inv)

text \<open>C5. Minutes and synchronizations may interleave in any order. After every run of them from tables that agree,
  the tables agree: every monitor has a registry row and is in the administrative state this row asks for, its
  snapshot names exactly its unresolved incident, and no paused or archived monitor has an unresolved
  incident - however late the snapshots of a minute were read.\<close>

theorem service_run_agrees:
  assumes "service_inv db" "admissible_run (service_step sha) (service_admissible sha) db ops"
    and "run_steps (service_step sha) db ops = Inr db'"
  shows "service_inv db' \<and>
    (\<forall>inc \<in> set (md_incidents (rd_minute db')). in_resolvedAt inc = None \<longrightarrow>
       (\<exists>r \<in> set (rd_registry db'). rg_id r = in_monitorId inc \<and> rg_archivedAt r = None \<and> rg_enabled r) \<and>
       (\<exists>s \<in> set (md_states (rd_minute db')). m_monitorId s = in_monitorId inc \<and> m_activeIncidentId s = Some (in_id inc)))"
proof -
  have inv: "service_inv db'" using service_machine.inv_run assms by blast
  then show ?thesis using open_incident_enabled by (auto simp: service_inv_def)
qed

theorem service_run_agrees_witness:
  "\<exists>db'. run_steps (service_step (\<lambda>_. [])) sample_registry_db [Op_Sync (sample_document []) ''h2'' 200 Mode_runtime] = Inr db' \<and>
     service_inv db'"
proof -
  have inv: "service_inv sample_registry_db" using sample_registry_ready by (simp add: service_inv_def)
  obtain db' where db': "synchronizeRegistry (\<lambda>_. []) (sample_document []) ''h2'' 200 Mode_runtime sample_registry_db = Inr db'"
    using registry_sync_core [OF sample_registry_ready, of "\<lambda>_. []" "''h2''" Mode_runtime] by blast
  then have step: "service_step (\<lambda>_. []) sample_registry_db (Op_Sync (sample_document []) ''h2'' 200 Mode_runtime) = Inr db'"
    by (simp add: service_step_def)
  have "admissible_run (service_step (\<lambda>_. [])) (service_admissible (\<lambda>_. [])) sample_registry_db
      [Op_Sync (sample_document []) ''h2'' 200 Mode_runtime]"
    using sample_registry_ready(4) by (simp add: service_admissible_def step)
  moreover have "run_steps (service_step (\<lambda>_. [])) sample_registry_db [Op_Sync (sample_document []) ''h2'' 200 Mode_runtime] = Inr db'"
    by (simp add: step)
  ultimately show ?thesis using service_run_agrees [OF inv] by blast
qed

end
