(* ===== verification/Config_Acceptance.thy ===== *)
theory Config_Acceptance
  imports Service_Run Config_Plan Retention
begin

text \<open>
  How a configuration becomes the accepted one. The minute's cron reads the desired document and decides
  in one transaction, \<open>lib/config/acceptance.ts\<close>, \<open>lib/scheduler/configuration.ts\<close> and
  \<open>lib/scheduler/configuration-acceptance.ts\<close>; the dashboard changes the accepted configuration directly,
  \<open>lib/api/config-mutation.ts\<close>; a client of the API applies a plan, which leaves an approval and an
  operation for the cron to find, \<open>lib/api/config-service.ts\<close>; and the accepted snapshot is read back by
  \<open>lib/config/accepted-config.ts\<close>. A transaction that raises leaves its tables as they were.

  The configuration lock makes each of these transactions one step, and \<open>lockedNow\<close> its clock an
  argument. The parser of documents, the digests and the fresh ids are arguments too. A \<open>jsonb\<close> column
  gives back the value it was given.
\<close>

subsection \<open>Environment and tables\<close>

record config_env =
  ev_sha256 :: "string \<Rightarrow> byte list"
  ev_lib :: config_lib
  ev_parse :: "json \<Rightarrow> monitoring_input"

record config_db =
  cd_snapshots :: "config_snapshot list"
  cd_approvals :: "config_approval list"
  cd_operations :: "config_operation list"
  cd_registry :: registry_db

text \<open>A parameter that is \<open>null\<close> is SQL's null, which \<open>config_json\<close> does not take.\<close>

definition config_constraints :: "config_db \<Rightarrow> bool" where
  "config_constraints db \<longleftrightarrow>
     list_all config_snapshot_checks (cd_snapshots db) \<and> list_all (\<lambda>s. cs_configJson s \<noteq> J_null) (cd_snapshots db) \<and>
     distinct (map cs_id (cd_snapshots db)) \<and>
     list_all config_approval_checks (cd_approvals db) \<and> distinct (map ap_id (cd_approvals db)) \<and>
     list_all config_operation_checks (cd_operations db) \<and> distinct (map op_id (cd_operations db)) \<and>
     registry_constraints (cd_registry db)"

datatype acceptance_error =
    Invalid_document config_error | Raised js_error | Unavailable_configuration | Edge_config_unavailable

subsection \<open>The decision\<close>

record accepted_config =
  ac_config :: monitoring_config
  ac_hash :: string

datatype rejection = Invalid_configuration | Destructive_approval_required

fun rejection_text :: "rejection \<Rightarrow> string" where
  "rejection_text Invalid_configuration = ''INVALID_CONFIGURATION''"
| "rejection_text Destructive_approval_required = ''DESTRUCTIVE_APPROVAL_REQUIRED''"

datatype acceptance_result =
    Accepted monitoring_config string bool
  | Rejected rejection "string option" monitoring_config string
  | Unavailable

definition read_desired :: "config_env \<Rightarrow> json option \<Rightarrow> monitoring_input" where
  "read_desired env desired = (case desired of None \<Rightarrow> Malformed_runtime | Some v \<Rightarrow> ev_parse env v)"

definition evaluateConfigurationAcceptance ::
  "config_env \<Rightarrow> json option \<Rightarrow> accepted_config option \<Rightarrow> change_approval option \<Rightarrow> instant \<Rightarrow>
   config_error + acceptance_result" where
  "evaluateConfigurationAcceptance env desiredInput lastAccepted approval now =
    (let lib = ev_lib env; input = read_desired env desiredInput in
     case (hashMonitoringConfig lib input, validateMonitoringConfig lib input) of
       (Some candidateHash, Inr desired) \<Rightarrow>
         (case lastAccepted of
            None \<Rightarrow> Inr (Accepted desired candidateHash False)
          | Some latest \<Rightarrow>
              if candidateHash = ac_hash latest then Inr (Accepted desired candidateHash False)
              else res_bind (exportDeclarativeConfig lib (Runtime_2 (ac_config latest))) (\<lambda>previous.
                   res_bind (exportDeclarativeConfig lib (Runtime_2 desired)) (\<lambda>candidate.
                     let destructive = de_required (evaluateDestructiveChange previous candidate) in
                     if destructive \<and> \<not> isValidDestructiveChangeApproval approval candidateHash now
                     then Inr (Rejected Destructive_approval_required (Some candidateHash) (ac_config latest) (ac_hash latest))
                     else Inr (Accepted desired candidateHash destructive))))
     | _ \<Rightarrow>
         (case lastAccepted of
            None \<Rightarrow> Inr Unavailable
          | Some latest \<Rightarrow> Inr (Rejected Invalid_configuration None (ac_config latest) (ac_hash latest))))"

text \<open>The source that is read outside the transaction.\<close>

definition evaluateConfigurationSource ::
  "config_env \<Rightarrow> 'e + json option \<Rightarrow> accepted_config option \<Rightarrow> instant \<Rightarrow>
   config_error + json option \<times> acceptance_result \<times> bool" where
  "evaluateConfigurationSource env readDesired previous now =
    (let (desired, sourceError) = (case readDesired of
           Inl _ \<Rightarrow> (None, True)
         | Inr desired \<Rightarrow> (desired, desired = None \<or> desired = Some J_null))
     in res_bind (evaluateConfigurationAcceptance env desired previous None now) (\<lambda>result.
          Inr (desired, result, sourceError)))"

text \<open>\<open>consume\<close> acts on the state \<open>'s\<close>.\<close>

definition requireApprovalConsumption ::
  "config_env \<Rightarrow> acceptance_result \<Rightarrow> json option \<Rightarrow> accepted_config option \<Rightarrow> instant \<Rightarrow> ('s \<Rightarrow> bool \<times> 's) \<Rightarrow> 's \<Rightarrow>
   (config_error + acceptance_result) \<times> 's" where
  "requireApprovalConsumption env result desired previous now consume s = (case result of
      Accepted _ _ True \<Rightarrow>
        (case consume s of
           (True, s') \<Rightarrow> (Inr result, s')
         | (False, s') \<Rightarrow> (evaluateConfigurationAcceptance env desired previous None now, s'))
    | _ \<Rightarrow> (Inr result, s))"

subsection \<open>The accepted snapshot\<close>

text \<open>\<open>order by \<dots> desc limit 1\<close>.\<close>

fun newest_by :: "('a \<Rightarrow> 'k::linorder) \<Rightarrow> 'a list \<Rightarrow> 'a option" where
  "newest_by key [] = None"
| "newest_by key (x # xs) = (case newest_by key xs of
      None \<Rightarrow> Some x
    | Some y \<Rightarrow> Some (if key x < key y then y else x))"

definition snapshot_order :: "config_snapshot \<Rightarrow> instant \<times> instant" where
  "snapshot_order s = (or_epoch (cs_acceptedAt s), cs_seenAt s)"

record accepted_snapshot = accepted_config +
  ac_acceptedAt :: "instant option"

definition findAcceptedSnapshot :: "config_env \<Rightarrow> config_snapshot list \<Rightarrow> acceptance_error + accepted_snapshot option" where
  "findAcceptedSnapshot env t = (case newest_by snapshot_order (filter (\<lambda>s. cs_status s = Snap_accepted) t) of
      None \<Rightarrow> Inr None
    | Some row \<Rightarrow>
        (let raw = ev_parse env (cs_configJson row) in
         res_bind (map_error Invalid_document (validateMonitoringConfig (ev_lib env) raw)) (\<lambda>config.
           if hashMonitoringConfig (ev_lib env) raw \<noteq> Some (cs_configHash row)
           then Inl (Raised (Error ''Accepted monitoring configuration hash is invalid''))
           else Inr (Some \<lparr>ac_config = config, ac_hash = cs_configHash row, ac_acceptedAt = cs_acceptedAt row\<rparr>))))"

definition previous_config :: "accepted_snapshot option \<Rightarrow> accepted_config option" where
  "previous_config = map_option (\<lambda>s. \<lparr>ac_config = ac_config s, ac_hash = ac_hash s\<rparr>)"

subsection \<open>Acceptance by the cron\<close>

definition snapshot_observation ::
  "config_env \<Rightarrow> json option \<Rightarrow> acceptance_result \<Rightarrow> instant \<Rightarrow> string \<Rightarrow> js_error + config_snapshot" where
  "snapshot_observation env desired result now newId =
    (let document = (case desired of None \<Rightarrow> J_null | Some v \<Rightarrow> v);
         stored = (\<lambda>config. if document = J_null then monitoring_json config else document)
     in case result of
       Unavailable \<Rightarrow> res_bind (hashCanonical (li_sha256 (ev_lib env)) document) (\<lambda>hash.
         Inr \<lparr>cs_id = newId, cs_configVersion = 0, cs_configHash = hash, cs_configJson = document,
              cs_status = Snap_rejected, cs_rejectionReason = Some ''INVALID_CONFIGURATION_WITHOUT_FALLBACK'',
              cs_source = ''edge-config'', cs_seenAt = now, cs_acceptedAt = None\<rparr>)
     | Accepted config hash _ \<Rightarrow>
         Inr \<lparr>cs_id = newId, cs_configVersion = cf_configVersion config, cs_configHash = hash,
              cs_configJson = stored config, cs_status = Snap_accepted, cs_rejectionReason = None,
              cs_source = ''edge-config'', cs_seenAt = now, cs_acceptedAt = Some now\<rparr>
     | Rejected reason candidateHash config _ \<Rightarrow>
         res_bind (case candidateHash of None \<Rightarrow> hashCanonical (li_sha256 (ev_lib env)) document | Some h \<Rightarrow> Inr h) (\<lambda>hash.
         Inr \<lparr>cs_id = newId, cs_configVersion = cf_configVersion config, cs_configHash = hash,
              cs_configJson = stored config, cs_status = Snap_rejected, cs_rejectionReason = Some (rejection_text reason),
              cs_source = ''edge-config'', cs_seenAt = now, cs_acceptedAt = None\<rparr>))"

definition settle_operations :: "acceptance_result \<Rightarrow> instant \<Rightarrow> config_operation list \<Rightarrow> config_operation list" where
  "settle_operations result now = (case result of
      Accepted _ hash _ \<Rightarrow>
        sql_update (\<lambda>p. op_targetConfigHash p = hash \<and> op_state p = Op_written)
          (\<lambda>p. p\<lparr>op_state := Op_accepted, op_acceptedAt := Some now\<rparr>)
    | Rejected reason candidateHash _ _ \<Rightarrow>
        (if truthy candidateHash
         then sql_update (\<lambda>p. op_targetConfigHash p = or_else candidateHash [] \<and> op_state p = Op_written)
                (\<lambda>p. p\<lparr>op_state := Op_rejected, op_rejectionReason := Some (rejection_text reason)\<rparr>)
         else id)
    | Unavailable \<Rightarrow> id)"

definition writeSnapshotObservation ::
  "config_env \<Rightarrow> json option \<Rightarrow> acceptance_result \<Rightarrow> instant \<Rightarrow> string \<Rightarrow> config_db \<Rightarrow> acceptance_error + config_db" where
  "writeSnapshotObservation env desired result now newId db =
    res_bind (map_error Raised (snapshot_observation env desired result now newId)) (\<lambda>row.
      Inr (db\<lparr>cd_snapshots := cd_snapshots db @ [row],
              cd_operations := settle_operations result now (cd_operations db)\<rparr>))"

definition open_approval :: "string \<Rightarrow> instant \<Rightarrow> config_approval \<Rightarrow> bool" where
  "open_approval targetHash now a \<longleftrightarrow>
     ap_targetConfigHash a = targetHash \<and> ap_action a = ''destructive_config_change'' \<and>
     ap_consumedAt a = None \<and> ap_expiresAt a > now"

definition approval_of :: "config_approval \<Rightarrow> change_approval" where
  "approval_of a = \<lparr>ca_targetConfigHash = ap_targetConfigHash a, ca_action = ap_action a,
     ca_expiresAt = ap_expiresAt a, ca_consumedAt = ap_consumedAt a\<rparr>"

definition consumable :: "string \<Rightarrow> instant \<Rightarrow> config_approval \<Rightarrow> bool" where
  "consumable i now a \<longleftrightarrow> ap_id a = i \<and> ap_consumedAt a = None \<and> ap_expiresAt a > now"

definition consume_approval :: "string option \<Rightarrow> instant \<Rightarrow> config_approval list \<Rightarrow> bool \<times> config_approval list" where
  "consume_approval approvalId now t = (case approvalId of
      None \<Rightarrow> (False, t)
    | Some i \<Rightarrow>
        if i = [] then (False, t)
        else (length (filter (consumable i now) t) = 1,
              sql_update (consumable i now) (\<lambda>a. a\<lparr>ap_consumedAt := Some now\<rparr>) t))"

text \<open>The first decision, and the second one where an approval is needed and found.\<close>

definition decide ::
  "config_env \<Rightarrow> json option \<Rightarrow> accepted_config option \<Rightarrow> instant \<Rightarrow> config_approval list \<Rightarrow>
   config_error + acceptance_result \<times> string option" where
  "decide env desired previous now approvals =
    res_bind (evaluateConfigurationAcceptance env desired previous None now) (\<lambda>result.
      case result of
        Rejected Destructive_approval_required candidateHash _ _ \<Rightarrow>
          if truthy candidateHash then
            (case newest_by ap_createdAt (filter (open_approval (or_else candidateHash []) now) approvals) of
               None \<Rightarrow> Inr (result, None)
             | Some approval \<Rightarrow>
                 res_bind (evaluateConfigurationAcceptance env desired previous (Some (approval_of approval)) now)
                   (\<lambda>result. Inr (result, Some (ap_id approval))))
          else Inr (result, None)
      | _ \<Rightarrow> Inr (result, None))"

text \<open>The observation, then the registry, which shares the transaction.\<close>

definition commit_decision ::
  "config_env \<Rightarrow> json option \<Rightarrow> acceptance_result \<Rightarrow> instant \<Rightarrow> string \<Rightarrow> config_db \<Rightarrow>
   acceptance_error + acceptance_result \<times> config_db" where
  "commit_decision env desired guarded writtenAt newId db =
    res_bind (writeSnapshotObservation env desired guarded writtenAt newId db) (\<lambda>written.
    let synchronized = (\<lambda>config hash. map_error Raised
          (synchronizeRegistry (ev_sha256 env) (cf_document config) hash writtenAt Mode_runtime (cd_registry written)))
    in res_bind (case guarded of
        Unavailable \<Rightarrow> Inr (cd_registry written)
      | Accepted config hash _ \<Rightarrow> synchronized config hash
      | Rejected _ _ config hash \<Rightarrow> synchronized config hash) (\<lambda>registry.
    let db' = written\<lparr>cd_registry := registry\<rparr> in
    if config_constraints db' then Inr (guarded, db') else Inl (Raised (Error ''constraint violation''))))"

text \<open>The transaction: what it leaves, and the result, none when no configuration is available.\<close>

definition acceptance_transaction ::
  "config_env \<Rightarrow> json option \<Rightarrow> instant \<Rightarrow> instant \<Rightarrow> string \<Rightarrow> config_db \<Rightarrow>
   acceptance_error + acceptance_result \<times> config_db" where
  "acceptance_transaction env desired now writtenAt newId db =
    res_bind (findAcceptedSnapshot env (cd_snapshots db)) (\<lambda>snapshot.
    let previous = previous_config snapshot in
    res_bind (map_error Invalid_document (decide env desired previous now (cd_approvals db))) (\<lambda>(result, approvalId).
    let (guarded, approvals) = requireApprovalConsumption env result desired previous now
          (consume_approval approvalId now) (cd_approvals db) in
    res_bind (map_error Invalid_document guarded) (\<lambda>guarded.
      commit_decision env desired guarded writtenAt newId (db\<lparr>cd_approvals := approvals\<rparr>))))"

definition acceptDesiredConfiguration ::
  "config_env \<Rightarrow> json option \<Rightarrow> instant \<Rightarrow> instant \<Rightarrow> string \<Rightarrow> config_db \<Rightarrow>
   (acceptance_error + monitoring_config) \<times> config_db" where
  "acceptDesiredConfiguration env desired now writtenAt newId db =
    (case acceptance_transaction env desired now writtenAt newId db of
       Inl e \<Rightarrow> (Inl e, db)
     | Inr (Unavailable, db') \<Rightarrow> (Inl Unavailable_configuration, db')
     | Inr (Accepted config _ _, db') \<Rightarrow> (Inr config, db')
     | Inr (Rejected _ _ config _, db') \<Rightarrow> (Inr config, db'))"

subsection \<open>Changes from the dashboard\<close>

definition requireAcceptedConfig :: "config_env \<Rightarrow> config_snapshot list \<Rightarrow> acceptance_error + accepted_config" where
  "requireAcceptedConfig env t = (case findAcceptedSnapshot env t of
      Inr (Some s) \<Rightarrow> Inr \<lparr>ac_config = ac_config s, ac_hash = ac_hash s\<rparr>
    | _ \<Rightarrow> Inl Unavailable_configuration)"

definition change_approval_row :: "string \<Rightarrow> string \<Rightarrow> instant \<Rightarrow> string \<Rightarrow> config_approval" where
  "change_approval_row i principalKey now hash =
     \<lparr>ap_id = i, ap_targetConfigHash = hash, ap_action = ''destructive_config_change'', ap_createdByPrincipal = principalKey,
      ap_createdAt = now, ap_expiresAt = now + 600000, ap_consumedAt = Some now\<rparr>"

definition change_snapshot_row :: "string \<Rightarrow> monitoring_config \<Rightarrow> string \<Rightarrow> instant \<Rightarrow> config_snapshot" where
  "change_snapshot_row i target hash now =
     \<lparr>cs_id = i, cs_configVersion = cf_configVersion target, cs_configHash = hash, cs_configJson = monitoring_json target,
      cs_status = Snap_accepted, cs_rejectionReason = None, cs_source = ''api'', cs_seenAt = now, cs_acceptedAt = Some now\<rparr>"

text \<open>
  The two fresh ids are \<open>approvalId\<close> and \<open>snapshotId\<close>; \<open>written\<close> says whether Edge Config took the new
  document, the last effect of the transaction.
\<close>

definition change_transaction ::
  "config_env \<Rightarrow> string \<Rightarrow> (monitoring_config \<Rightarrow> js_error + monitoring_config) \<Rightarrow> instant \<Rightarrow> string \<Rightarrow> string \<Rightarrow> bool \<Rightarrow>
   config_db \<Rightarrow> acceptance_error + monitoring_config \<times> config_db" where
  "change_transaction env principalKey mutator now approvalId snapshotId written db =
    (let lib = ev_lib env in
    res_bind (requireAcceptedConfig env (cd_snapshots db)) (\<lambda>current.
    res_bind (map_error Raised (mutator (ac_config current))) (\<lambda>mutated.
    res_bind (map_error Invalid_document (validateMonitoringConfig lib (Runtime_2 mutated))) (\<lambda>target.
    let hash = hashDeclarativeConfig lib (cf_document target) in
    if hash = ac_hash current then Inr (ac_config current, db)
    else
    res_bind (map_error Invalid_document (exportDeclarativeConfig lib (Runtime_2 (ac_config current)))) (\<lambda>before.
    res_bind (map_error Invalid_document (exportDeclarativeConfig lib (Runtime_2 target))) (\<lambda>after'.
    res_bind (map_error Raised
        (synchronizeRegistry (ev_sha256 env) (cf_document target) hash now Mode_api (cd_registry db))) (\<lambda>registry.
    let approvals = (if de_required (evaluateDestructiveChange before after')
          then cd_approvals db @ [change_approval_row approvalId principalKey now hash] else cd_approvals db);
        db' = db\<lparr>cd_approvals := approvals, cd_snapshots := cd_snapshots db @ [change_snapshot_row snapshotId target hash now],
                 cd_registry := registry\<rparr>
    in if \<not> config_constraints db' then Inl (Raised (Error ''constraint violation''))
       else if \<not> written then Inl Edge_config_unavailable
       else Inr (target, db'))))))))"

definition applyConfigChange ::
  "config_env \<Rightarrow> string \<Rightarrow> (monitoring_config \<Rightarrow> js_error + monitoring_config) \<Rightarrow> instant \<Rightarrow> string \<Rightarrow> string \<Rightarrow> bool \<Rightarrow>
   config_db \<Rightarrow> (acceptance_error + monitoring_config) \<times> config_db" where
  "applyConfigChange env principalKey mutator now approvalId snapshotId written db =
    (case change_transaction env principalKey mutator now approvalId snapshotId written db of
       Inl e \<Rightarrow> (Inl e, db)
     | Inr (config, db') \<Rightarrow> (Inr config, db'))"

definition nextConfig :: "monitoring_config \<Rightarrow> group_config list option \<Rightarrow> monitor_config list option \<Rightarrow> monitoring_config" where
  "nextConfig current groups monitors =
     \<lparr>cf_configVersion = cf_configVersion current + 1,
      cf_document = (cf_document current)\<lparr>dc_groups := or_else groups (dc_groups (cf_document current)),
        dc_monitors := or_else monitors (dc_monitors (cf_document current))\<rparr>\<rparr>"

subsection \<open>The newest row\<close>

lemma newest_by_None: "newest_by key xs = None \<longleftrightarrow> xs = []"
  by (cases xs) (auto split: option.splits)

lemma newest_by_max: "newest_by key xs = Some m \<Longrightarrow> m \<in> set xs \<and> (\<forall>x \<in> set xs. key x \<le> key m)"
  by (induction xs arbitrary: m) (fastforce simp: newest_by_None split: option.splits if_splits)+

lemma newest_by_append: "(\<And>x. x \<in> set xs \<Longrightarrow> key x < key y) \<Longrightarrow> newest_by key (xs @ [y]) = Some y"
  by (induction xs) auto

lemma newest_by_filter: "newest_by key xs = Some m \<Longrightarrow> p m \<Longrightarrow> newest_by key (filter p xs) = Some m"
proof (induction xs arbitrary: m)
  case Nil
  then show ?case by simp
next
  case (Cons x xs)
  show ?case
  proof (cases "newest_by key xs")
    case None
    with Cons.prems show ?thesis by (simp add: newest_by_None)
  next
    case (Some y)
    show ?thesis
    proof (cases "key x < key y")
      case True
      with Some Cons.prems have "newest_by key (filter p xs) = Some m" "m = y" using Cons.IH [of m] by auto
      with True show ?thesis by simp
    next
      case False
      with Some Cons.prems have m: "m = x" by simp
      have "\<not> key x < key z" if "newest_by key (filter p xs) = Some z" for z
        using newest_by_max [OF that] newest_by_max [OF Some] False by fastforce
      with m Cons.prems(2) show ?thesis by (auto split: option.splits)
    qed
  qed
qed

subsection \<open>The decision\<close>

lemma evaluate_result:
  assumes "evaluateConfigurationAcceptance env desired previous approval now = Inr result"
  shows "case result of
      Accepted config hash consumed \<Rightarrow>
        hashMonitoringConfig (ev_lib env) (read_desired env desired) = Some hash \<and>
        validateMonitoringConfig (ev_lib env) (read_desired env desired) = Inr config \<and>
        (case previous of None \<Rightarrow> \<not> consumed | Some p \<Rightarrow>
           hash = ac_hash p \<and> \<not> consumed \<or>
           (\<exists>before candidate. exportDeclarativeConfig (ev_lib env) (Runtime_2 (ac_config p)) = Inr before \<and>
              exportDeclarativeConfig (ev_lib env) (Runtime_2 config) = Inr candidate \<and>
              consumed = de_required (evaluateDestructiveChange before candidate) \<and>
              (consumed \<longrightarrow> isValidDestructiveChangeApproval approval hash now)))
    | Rejected reason hash config oldHash \<Rightarrow> previous = Some \<lparr>ac_config = config, ac_hash = oldHash\<rparr> \<and>
        (reason = Destructive_approval_required \<longrightarrow> hash = hashMonitoringConfig (ev_lib env) (read_desired env desired))
    | Unavailable \<Rightarrow> previous = None"
  using assms
  by (auto simp: evaluateConfigurationAcceptance_def Let_def res_bind_Inr_iff
      split: option.splits sum.splits if_splits)

lemma evaluate_again:
  assumes "evaluateConfigurationAcceptance env desired previous None now =
    Inr (Rejected Destructive_approval_required hash config oldHash)"
  shows "evaluateConfigurationAcceptance env desired previous (Some approval) now =
      Inr (Rejected Destructive_approval_required hash config oldHash) \<or>
    (\<exists>target h. evaluateConfigurationAcceptance env desired previous (Some approval) now = Inr (Accepted target h True) \<and> hash = Some h)"
  using assms
  by (auto simp: evaluateConfigurationAcceptance_def Let_def res_bind_Inr_iff
      split: option.splits sum.splits if_splits)

lemma decide_result:
  assumes "decide env desired previous now approvals = Inr (result, i)"
  shows "evaluateConfigurationAcceptance env desired previous None now = Inr result \<and> (\<forall>c h. result \<noteq> Accepted c h True) \<or>
    (\<exists>c h a. result = Accepted c h True \<and> i = Some (ap_id a) \<and> a \<in> set approvals \<and> open_approval h now a \<and>
       evaluateConfigurationAcceptance env desired previous (Some (approval_of a)) now = Inr result)"
proof -
  obtain first where first: "evaluateConfigurationAcceptance env desired previous None now = Inr first"
    using assms by (auto simp: decide_def res_bind_Inr_iff)
  have unapproved: "first \<noteq> Accepted c h True" for c h
    using evaluate_result [OF first]
    by (auto simp: isValidDestructiveChangeApproval_def split: option.splits)
  show ?thesis
  proof (cases "\<exists>hash config oldHash. first = Rejected Destructive_approval_required hash config oldHash")
    case False
    then have "result = first" using assms first
      by (auto simp: decide_def split: acceptance_result.splits rejection.splits)
    with first unapproved show ?thesis by blast
  next
    case True
    then obtain hash config oldHash where r: "first = Rejected Destructive_approval_required hash config oldHash" by blast
    show ?thesis
    proof (cases "truthy hash \<and> newest_by ap_createdAt (filter (open_approval (or_else hash []) now) approvals) \<noteq> None")
      case False
      then have "result = first" using assms first r by (auto simp: decide_def split: if_splits option.splits)
      with first unapproved show ?thesis by blast
    next
      case True
      then obtain a where a: "newest_by ap_createdAt (filter (open_approval (or_else hash []) now) approvals) = Some a" by blast
      then have "a \<in> set approvals" "open_approval (or_else hash []) now a" using newest_by_max [OF a] by auto
      moreover have "evaluateConfigurationAcceptance env desired previous (Some (approval_of a)) now = Inr result \<and> i = Some (ap_id a)"
        using assms first r True a by (simp add: decide_def res_bind_Inr_iff)
      ultimately show ?thesis using evaluate_again [OF first [unfolded r], of "approval_of a"] r first
        by (auto simp: or_else_def)
    qed
  qed
qed

text \<open>Consuming: the ids are a key, so it finds one row or none.\<close>

definition consumed_row :: "instant \<Rightarrow> config_approval \<Rightarrow> config_approval \<Rightarrow> config_approval" where
  "consumed_row now a b = (if ap_id b = ap_id a then b\<lparr>ap_consumedAt := Some now\<rparr> else b)"

lemma key_filter: "distinct (map key xs) \<Longrightarrow> x \<in> set xs \<Longrightarrow> filter (\<lambda>y. key y = key x) xs = [x]"
  by (induction xs) (auto simp: filter_empty_conv, metis imageI)

lemma consume_open:
  assumes "distinct (map ap_id t)" "a \<in> set t" "open_approval h now a"
  shows "consume_approval (Some (ap_id a)) now t = (False, t) \<and> ap_id a = [] \<or>
    consume_approval (Some (ap_id a)) now t = (True, map (consumed_row now a) t)"
proof -
  have row: "consumable (ap_id a) now b \<longleftrightarrow> ap_id b = ap_id a" if "b \<in> set t" for b
    using that assms inj_onD [of ap_id "set t" b a]
    by (auto simp: consumable_def open_approval_def distinct_map)
  have "filter (consumable (ap_id a) now) t = filter (\<lambda>b. ap_id b = ap_id a) t" using row by (intro filter_cong) auto
  then have "length (filter (consumable (ap_id a) now) t) = 1" using key_filter [OF assms(1,2)] by simp
  moreover have "sql_update (consumable (ap_id a) now) (\<lambda>b. b\<lparr>ap_consumedAt := Some now\<rparr>) t = map (consumed_row now a) t"
    using row by (auto simp: sql_update_def consumed_row_def)
  ultimately show ?thesis by (auto simp: consume_approval_def)
qed

text \<open>What the transaction decided, and the approval it used up.\<close>

definition decided ::
  "config_env \<Rightarrow> json option \<Rightarrow> accepted_config option \<Rightarrow> instant \<Rightarrow> config_approval list \<Rightarrow> acceptance_result \<Rightarrow>
   config_approval list \<Rightarrow> bool" where
  "decided env desired previous now t result t' \<longleftrightarrow>
     evaluateConfigurationAcceptance env desired previous None now = Inr result \<and>
       (\<forall>c h. result \<noteq> Accepted c h True) \<and> t' = t \<or>
     (\<exists>c h a. result = Accepted c h True \<and> a \<in> set t \<and> open_approval h now a \<and> t' = map (consumed_row now a) t \<and>
       evaluateConfigurationAcceptance env desired previous (Some (approval_of a)) now = Inr result)"

lemma guarded_decided:
  assumes "distinct (map ap_id t)" "decide env desired previous now t = Inr (result, i)"
    "requireApprovalConsumption env result desired previous now (consume_approval i now) t = (Inr guarded, t')"
  shows "decided env desired previous now t guarded t'"
  using decide_result [OF assms(2)]
proof (elim disjE conjE exE)
  assume "evaluateConfigurationAcceptance env desired previous None now = Inr result" "\<forall>c h. result \<noteq> Accepted c h True"
  with assms(3) show ?thesis
    by (auto simp: decided_def requireApprovalConsumption_def split: acceptance_result.splits bool.splits)
next
  fix c h a
  assume r: "result = Accepted c h True" "i = Some (ap_id a)" and a: "a \<in> set t" "open_approval h now a"
    and e: "evaluateConfigurationAcceptance env desired previous (Some (approval_of a)) now = Inr result"
  show ?thesis
    using consume_open [OF assms(1) a]
  proof (elim disjE conjE)
    assume "consume_approval (Some (ap_id a)) now t = (True, map (consumed_row now a) t)"
    with assms(3) r a e show ?thesis unfolding decided_def requireApprovalConsumption_def by auto
  next
    assume c: "consume_approval (Some (ap_id a)) now t = (False, t)"
    then have g: "evaluateConfigurationAcceptance env desired previous None now = Inr guarded" "t' = t"
      using assms(3) r by (auto simp: requireApprovalConsumption_def)
    have "guarded \<noteq> Accepted c h True" for c h
      using evaluate_result [OF g(1)] by (auto simp: isValidDestructiveChangeApproval_def split: option.splits)
    with g show ?thesis by (auto simp: decided_def)
  qed
qed

end
