(* ===== verification/Config_Service.thy ===== *)
theory Config_Service
  imports Config_Acceptance
begin

text \<open>
  The configuration service of the API, \<open>lib/api/config-service.ts\<close>: a plan against the accepted
  configuration and its application, which leaves an approval for a destructive change, writes the
  document to Edge Config, \<open>lib/config/edge-config-write.ts\<close>, and records the operation. The tables are
  those of \<open>Config_Acceptance\<close>; the HTTP call is an argument.
\<close>

subsection \<open>Edge Config\<close>

record edge_env =
  ee_configId :: "string option"
  ee_token :: "string option"
  ee_teamId :: "string option"

record edge_request =
  er_url :: string
  er_method :: string
  er_authorization :: string
  er_body :: json
  er_timeoutMs :: int

record edge_response =
  es_ok :: bool
  es_version :: "string option"

definition digit_value :: "char \<Rightarrow> int" where
  "digit_value c = int (of_char c) - 48"

definition all_digits :: "string \<Rightarrow> bool" where
  "all_digits s \<longleftrightarrow> s \<noteq> [] \<and> list_all (\<lambda>c. 0 \<le> digit_value c \<and> digit_value c \<le> 9) s"

definition digits_value :: "string \<Rightarrow> int" where
  "digits_value = foldl (\<lambda>n c. 10 * n + digit_value c) 0"

text \<open>The version is exact while it is below \<open>2\<^sup>5\<^sup>3\<close>, as every version Edge Config counts is.\<close>

definition writeMonitoringEdgeConfig ::
  "edge_env \<Rightarrow> (edge_request \<Rightarrow> js_error + edge_response) \<Rightarrow> monitoring_config \<Rightarrow> js_error + int option" where
  "writeMonitoringEdgeConfig env fetch config =
    (if \<not> (truthy (ee_configId env) \<and> truthy (ee_token env)) then Inl (Error ''Edge Config is unavailable'')
     else
       let teamQuery = (if truthy (ee_teamId env) then ''?teamId='' @ encodeURIComponent (or_else (ee_teamId env) []) else [])
       in res_bind (fetch
            \<lparr>er_url = ''https://api.vercel.com/v1/edge-config/'' @ encodeURIComponent (or_else (ee_configId env) []) @ ''/items'' @ teamQuery,
             er_method = ''PATCH'', er_authorization = ''Bearer '' @ or_else (ee_token env) [],
             er_body = J_object [(''items'', J_array [J_object [(''operation'', J_string ''upsert''),
               (''key'', J_string ''monitoring''), (''value'', monitoring_json config)]])],
             er_timeoutMs = 8000\<rparr>) (\<lambda>response.
          if \<not> es_ok response then Inl (Error ''Edge Config write failed'')
          else Inr (if truthy (es_version response) \<and> all_digits (or_else (es_version response) [])
            then Some (digits_value (or_else (es_version response) [])) else None)))"

subsection \<open>The service\<close>

datatype service_error =
    Config_not_initialized | Version_conflict | Edge_config_write_failed
  | Apply_refused apply_error | Service_raised acceptance_error

record service_apply =
  sa_principalKey :: string
  sa_requestId :: string
  sa_idempotencyKey :: string
  sa_ifMatch :: "string option"
  sa_request :: apply_request

definition readAccepted :: "config_env \<Rightarrow> config_snapshot list \<Rightarrow> service_error + accepted_config" where
  "readAccepted env t = (case findAcceptedSnapshot env t of
      Inr (Some s) \<Rightarrow> Inr \<lparr>ac_config = ac_config s, ac_hash = ac_hash s\<rparr>
    | _ \<Rightarrow> Inl Config_not_initialized)"

definition service_plan ::
  "config_env \<Rightarrow> string \<Rightarrow> declarative_input \<Rightarrow> config_db \<Rightarrow> service_error + configuration_plan" where
  "service_plan env baseConfigHash targetConfig db =
    res_bind (readAccepted env (cd_snapshots db)) (\<lambda>current.
      if baseConfigHash \<noteq> ac_hash current then Inl Version_conflict
      else res_bind (map_error (Service_raised \<circ> Invalid_document)
          (exportDeclarativeConfig (ev_lib env) (Runtime_2 (ac_config current)))) (\<lambda>document.
        map_error (Apply_refused \<circ> Plan_failed)
          (createConfigurationPlan (ev_lib env) (Version_2 document) targetConfig (Some (ac_hash current)) [])))"

definition findOperation :: "string \<Rightarrow> string \<Rightarrow> config_operation list \<Rightarrow> config_operation option" where
  "findOperation principalKey idempotencyKey t =
     find (\<lambda>p. op_principalKey p = principalKey \<and> op_idempotencyKey p = idempotencyKey) t"

definition readOperation :: "string \<Rightarrow> config_operation list \<Rightarrow> config_operation option" where
  "readOperation i t = find (\<lambda>p. op_id p = i) t"

definition apply_approval :: "string \<Rightarrow> configuration_plan \<Rightarrow> string \<Rightarrow> instant \<Rightarrow> config_approval" where
  "apply_approval i plan principalKey now =
     \<lparr>ap_id = i, ap_targetConfigHash = pl_targetConfigHash plan, ap_action = ''destructive_config_change'',
      ap_createdByPrincipal = principalKey, ap_createdAt = now, ap_expiresAt = now + 10 * 60000, ap_consumedAt = None\<rparr>"

definition written_operation ::
  "string \<Rightarrow> service_apply \<Rightarrow> configuration_plan \<Rightarrow> string \<Rightarrow> monitoring_config \<Rightarrow> int option \<Rightarrow> instant \<Rightarrow> config_operation" where
  "written_operation i input plan currentHash target version now =
     \<lparr>op_id = i, op_principalKey = sa_principalKey input, op_requestId = sa_requestId input,
      op_idempotencyKey = sa_idempotencyKey input, op_baseConfigHash = currentHash,
      op_targetConfigHash = pl_targetConfigHash plan, op_planHash = pl_planHash plan,
      op_desiredConfig = monitoring_json target, op_diffJson = diff_json (pl_diff plan), op_state = Op_written,
      op_edgeConfigVersion = version, op_rejectionReason = None, op_createdAt = now, op_writtenAt = Some now,
      op_acceptedAt = None, op_failedAt = None\<rparr>"

definition apply_transaction ::
  "config_env \<Rightarrow> (monitoring_config \<Rightarrow> js_error + int option) \<Rightarrow> service_apply \<Rightarrow> instant \<Rightarrow> string \<Rightarrow> string \<Rightarrow>
   config_db \<Rightarrow> service_error + config_operation \<times> config_db" where
  "apply_transaction env writeEdgeConfig input now approvalId operationId db =
    (case findOperation (sa_principalKey input) (sa_idempotencyKey input) (cd_operations db) of
       Some existing \<Rightarrow> Inr (existing, db)
     | None \<Rightarrow>
        res_bind (readAccepted env (cd_snapshots db)) (\<lambda>current.
        res_bind (map_error (Service_raised \<circ> Invalid_document)
            (exportDeclarativeConfig (ev_lib env) (Runtime_2 (ac_config current)))) (\<lambda>document.
        res_bind (map_error Apply_refused (validateApplyPreconditions (ev_lib env)
            \<lparr>ai_ifMatch = sa_ifMatch input, ai_request = sa_request input, ai_currentConfig = document,
             ai_currentConfigHash = ac_hash current, ai_archivedMonitors = []\<rparr>)) (\<lambda>plan.
        res_bind (map_error (Service_raised \<circ> Invalid_document) (toMonitoringConfig (ev_lib env)
            (Version_2 (pl_targetConfig plan)) (cf_configVersion (ac_config current) + 1))) (\<lambda>target.
        let approvals = (if de_required (pl_destructiveChange plan)
              then cd_approvals db @ [apply_approval approvalId plan (sa_principalKey input) now] else cd_approvals db)
        in res_bind (map_error (\<lambda>_. Edge_config_write_failed) (writeEdgeConfig target)) (\<lambda>version.
        let operation = written_operation operationId input plan (ac_hash current) target version now;
            db' = db\<lparr>cd_approvals := approvals, cd_operations := cd_operations db @ [operation]\<rparr>
        in if config_constraints db' then Inr (operation, db')
           else Inl (Service_raised (Raised (Error ''constraint violation'')))))))))"

definition service_apply_config ::
  "config_env \<Rightarrow> (monitoring_config \<Rightarrow> js_error + int option) \<Rightarrow> service_apply \<Rightarrow> instant \<Rightarrow> string \<Rightarrow> string \<Rightarrow>
   config_db \<Rightarrow> (service_error + config_operation) \<times> config_db" where
  "service_apply_config env writeEdgeConfig input now approvalId operationId db =
    (case apply_transaction env writeEdgeConfig input now approvalId operationId db of
       Inl e \<Rightarrow> (Inl e, db)
     | Inr (operation, db') \<Rightarrow> (Inr operation, db'))"

end
