(* ===== verification/Config_Run.thy ===== *)
theory Config_Run
  imports Config_Service
begin

text \<open>
  The writers of the configuration together: acceptance by the cron, changes from the dashboard, plans
  applied by the API, the retention of snapshots and the minutes, in any order.

  The laws: a destructive change is accepted only with an approval that this uses up, and the registry
  is always the one of the accepted snapshot that is read back.
\<close>

subsection \<open>One transaction of the cron\<close>

lemma map_error_Inr_iff [simp]: "map_error f r = Inr x \<longleftrightarrow> r = Inr x"
  by (auto simp: map_error_def split: sum.splits)

lemma map_error_Inr [simp]: "map_error f (Inr x) = Inr x"
  by simp

definition accepted_rows :: "config_snapshot list \<Rightarrow> config_snapshot list" where
  "accepted_rows t = filter (\<lambda>s. cs_status s = Snap_accepted) t"

definition result_target :: "acceptance_result \<Rightarrow> (monitoring_config \<times> string) option" where
  "result_target result = (case result of
      Unavailable \<Rightarrow> None | Accepted config hash _ \<Rightarrow> Some (config, hash) | Rejected _ _ config hash \<Rightarrow> Some (config, hash))"

definition sync_to :: "config_env \<Rightarrow> instant \<Rightarrow> (monitoring_config \<times> string) option \<Rightarrow> registry_db \<Rightarrow> registry_db \<Rightarrow> bool" where
  "sync_to env now goal db db' = (case goal of
      None \<Rightarrow> db' = db
    | Some (config, hash) \<Rightarrow> synchronizeRegistry (ev_sha256 env) (cf_document config) hash now Mode_runtime db = Inr db')"

lemma commit_result:
  assumes "commit_decision env desired guarded writtenAt newId db = Inr (result, db')"
  shows "result = guarded \<and> (\<exists>row. snapshot_observation env desired guarded writtenAt newId = Inr row \<and>
     cd_snapshots db' = cd_snapshots db @ [row]) \<and> cd_approvals db' = cd_approvals db \<and>
     sync_to env writtenAt (result_target guarded) (cd_registry db) (cd_registry db') \<and> config_constraints db'"
proof -
  obtain row where row: "snapshot_observation env desired guarded writtenAt newId = Inr row"
    using assms by (auto simp: commit_decision_def writeSnapshotObservation_def res_bind_Inr_iff)
  show ?thesis using assms
    by (cases guarded) (auto simp: commit_decision_def writeSnapshotObservation_def res_bind_Inr_iff Let_def row
        sync_to_def result_target_def split: if_splits)
qed

lemma transaction_result:
  assumes "config_constraints db" "acceptance_transaction env desired now writtenAt newId db = Inr (result, db')"
  obtains snapshot row where "findAcceptedSnapshot env (cd_snapshots db) = Inr snapshot"
    "decided env desired (previous_config snapshot) now (cd_approvals db) result (cd_approvals db')"
    "snapshot_observation env desired result writtenAt newId = Inr row" "cd_snapshots db' = cd_snapshots db @ [row]"
    "sync_to env writtenAt (result_target result) (cd_registry db) (cd_registry db')" "config_constraints db'"
proof -
  obtain snapshot where find: "findAcceptedSnapshot env (cd_snapshots db) = Inr snapshot"
    using assms(2) by (auto simp: acceptance_transaction_def Let_def res_bind_Inr_iff)
  obtain first i where first: "decide env desired (previous_config snapshot) now (cd_approvals db) = Inr (first, i)"
    using assms(2) find by (auto simp: acceptance_transaction_def Let_def res_bind_Inr_iff)
  obtain g t where g: "requireApprovalConsumption env first desired (previous_config snapshot) now (consume_approval i now)
      (cd_approvals db) = (g, t)" by fastforce
  obtain guarded where guarded: "g = Inr guarded"
    "commit_decision env desired guarded writtenAt newId (db\<lparr>cd_approvals := t\<rparr>) = Inr (result, db')"
    using assms(2) find first g by (auto simp: acceptance_transaction_def Let_def res_bind_Inr_iff)
  have "distinct (map ap_id (cd_approvals db))" using assms(1) by (simp add: config_constraints_def)
  then have "decided env desired (previous_config snapshot) now (cd_approvals db) guarded t"
    using guarded_decided first g guarded(1) by blast
  then show thesis using commit_result [OF guarded(2)] find by (auto intro: that)
qed

text \<open>What the accepted snapshot is.\<close>

lemma find_accepted:
  assumes "findAcceptedSnapshot env t = Inr (Some s)"
  obtains row where "newest_by snapshot_order (accepted_rows t) = Some row"
    "validateMonitoringConfig (ev_lib env) (ev_parse env (cs_configJson row)) = Inr (ac_config s)"
    "hashMonitoringConfig (ev_lib env) (ev_parse env (cs_configJson row)) = Some (ac_hash s)"
    "ac_hash s = cs_configHash row"
  using assms
  by (auto simp: findAcceptedSnapshot_def accepted_rows_def Let_def res_bind_Inr_iff split: option.splits if_splits)

lemma exported_document:
  assumes "lawful_lib lib" "validateMonitoringConfig lib input = Inr c" "exportDeclarativeConfig lib (Runtime_2 c) = Inr d"
  shows "d = cf_document c"
proof -
  have "validateMonitoringConfig lib (Runtime_2 c) = Inr c"
    "validateDeclarativeConfig lib (Version_2 (cf_document c)) = Inr (cf_document c)"
    using validated_typed [OF assms(1,2)] assms(3) by (auto simp: exportDeclarativeConfig_def split: if_splits)
  with assms(3) show ?thesis by (simp add: exportDeclarativeConfig_def)
qed

lemma observed_row:
  assumes "snapshot_observation env desired result writtenAt newId = Inr row"
  shows "case result of
      Accepted config hash _ \<Rightarrow> cs_status row = Snap_accepted \<and> cs_configHash row = hash \<and> cs_acceptedAt row = Some writtenAt \<and>
        cs_seenAt row = writtenAt \<and> (\<forall>v. desired = Some v \<longrightarrow> v \<noteq> J_null \<longrightarrow> cs_configJson row = v)
    | _ \<Rightarrow> cs_status row = Snap_rejected"
  using assms by (auto simp: snapshot_observation_def Let_def res_bind_Inr_iff split: acceptance_result.splits option.splits)


subsection \<open>Destructive changes\<close>

text \<open>What the parser of documents is known for, beside the library: there is no document in \<open>null\<close>.\<close>

definition lawful_env :: "config_env \<Rightarrow> bool" where
  "lawful_env env \<longleftrightarrow> lawful_lib (ev_lib env) \<and> ev_parse env J_null = Malformed_runtime"

lemma accepted_rows_append [simp]: "accepted_rows (t @ u) = accepted_rows t @ accepted_rows u"
  by (simp add: accepted_rows_def)

lemma accepted_decision:
  assumes "lawful_env env" "decided env desired previous now t (Accepted config hash consumed) t'"
  shows "validateMonitoringConfig (ev_lib env) (read_desired env desired) = Inr config \<and>
    hashMonitoringConfig (ev_lib env) (read_desired env desired) = Some hash \<and>
    (\<exists>v. desired = Some v \<and> v \<noteq> J_null)"
proof -
  obtain approval where "evaluateConfigurationAcceptance env desired previous approval now = Inr (Accepted config hash consumed)"
    using assms(2) by (auto simp: decided_def)
  from evaluate_result [OF this]
  have "validateMonitoringConfig (ev_lib env) (read_desired env desired) = Inr config"
    "hashMonitoringConfig (ev_lib env) (read_desired env desired) = Some hash" by simp_all
  moreover from this(2) assms(1) have "\<exists>v. desired = Some v \<and> v \<noteq> J_null"
    by (auto simp: read_desired_def hashMonitoringConfig_def lawful_env_def split: option.splits)
  ultimately show ?thesis by blast
qed

text \<open>Whether an accepted document needed an approval.\<close>

lemma consumed_iff_destructive:
  assumes "lawful_lib (ev_lib env)" "validateMonitoringConfig (ev_lib env) input = Inr (ac_config p)"
    "evaluateConfigurationAcceptance env desired (Some p) approval now = Inr (Accepted config hash consumed)"
  shows "consumed \<longleftrightarrow> hash \<noteq> ac_hash p \<and> de_required (evaluateDestructiveChange (cf_document (ac_config p)) (cf_document config))"
proof -
  note r = evaluate_result [OF assms(3), simplified]
  show ?thesis
  proof (cases "hash = ac_hash p")
    case True
    have "\<not> consumed" using assms(3) True
      by (auto simp: evaluateConfigurationAcceptance_def Let_def res_bind_Inr_iff split: option.splits sum.splits if_splits)
    with True show ?thesis by simp
  next
    case False
    with r obtain before candidate where e: "exportDeclarativeConfig (ev_lib env) (Runtime_2 (ac_config p)) = Inr before"
      "exportDeclarativeConfig (ev_lib env) (Runtime_2 config) = Inr candidate"
      "consumed = de_required (evaluateDestructiveChange before candidate)" by blast
    have "before = cf_document (ac_config p)" "candidate = cf_document config"
      using exported_document [OF assms(1)] assms(2) e(1,2) r by blast+
    with e(3) False show ?thesis by simp
  qed
qed

text \<open>C2. A destructive change is accepted only with an approval, and uses it up. When the cron's transaction
  answers with a configuration, either it is the accepted one, no snapshot is accepted and no approval is touched;
  or it is the desired document, validated, and its snapshot is accepted. If that document has
  another digest than the accepted one and the change is destructive, there was an approval of exactly this
  digest, neither expired nor consumed, and it is consumed now, no other row being changed; otherwise no approval is touched.\<close>

theorem destructive_needs_approval:
  assumes "lawful_env env" "config_constraints db" "findAcceptedSnapshot env (cd_snapshots db) = Inr (Some prev)"
    and "acceptDesiredConfiguration env desired now writtenAt newId db = (Inr config, db')"
  shows "(config = ac_config prev \<and> cd_approvals db' = cd_approvals db \<and>
      accepted_rows (cd_snapshots db') = accepted_rows (cd_snapshots db)) \<or>
    (\<exists>row. accepted_rows (cd_snapshots db') = accepted_rows (cd_snapshots db) @ [row] \<and> cs_acceptedAt row = Some writtenAt \<and>
      validateMonitoringConfig (ev_lib env) (read_desired env desired) = Inr config \<and>
      hashMonitoringConfig (ev_lib env) (read_desired env desired) = Some (cs_configHash row) \<and>
      (if cs_configHash row \<noteq> ac_hash prev \<and>
          de_required (evaluateDestructiveChange (cf_document (ac_config prev)) (cf_document config))
       then \<exists>a \<in> set (cd_approvals db). ap_targetConfigHash a = cs_configHash row \<and> ap_consumedAt a = None \<and>
          now < ap_expiresAt a \<and> cd_approvals db' = map (consumed_row now a) (cd_approvals db)
       else cd_approvals db' = cd_approvals db))"
proof -
  let ?p = "\<lparr>ac_config = ac_config prev, ac_hash = ac_hash prev\<rparr> :: accepted_config"
  obtain result where tr: "acceptance_transaction env desired now writtenAt newId db = Inr (result, db')"
    "(\<exists>hash consumed. result = Accepted config hash consumed) \<or> (\<exists>reason hash old. result = Rejected reason hash config old)"
    using assms(4) by (auto simp: acceptDesiredConfiguration_def split: sum.splits prod.splits acceptance_result.splits)
  obtain snapshot row where find: "findAcceptedSnapshot env (cd_snapshots db) = Inr snapshot"
    and d0: "decided env desired (previous_config snapshot) now (cd_approvals db) result (cd_approvals db')"
    and d12: "snapshot_observation env desired result writtenAt newId = Inr row" "cd_snapshots db' = cd_snapshots db @ [row]"
    by (rule transaction_result [OF assms(2) tr(1)])
  have "decided env desired (Some ?p) now (cd_approvals db) result (cd_approvals db')"
    using d0 find assms(3) by (auto simp: previous_config_def)
  note d = this d12
  show ?thesis using tr(2)
  proof (elim disjE exE)
    fix reason hash old
    assume r: "result = Rejected reason hash config old"
    then have "evaluateConfigurationAcceptance env desired (Some ?p) None now = Inr (Rejected reason hash config old)"
      "cd_approvals db' = cd_approvals db" using d(1) by (auto simp: decided_def)
    with evaluate_result [OF this(1)] observed_row [OF d(2)] r d(3) show ?thesis
      by (auto simp: accepted_rows_def)
  next
    fix hash consumed
    assume r: "result = Accepted config hash consumed"
    obtain input where prev: "validateMonitoringConfig (ev_lib env) input = Inr (ac_config ?p)"
      using find_accepted [OF assms(3)] by (metis accepted_config.select_convs(1))
    obtain approval where "evaluateConfigurationAcceptance env desired (Some ?p) approval now = Inr (Accepted config hash consumed)"
      using d(1) r by (auto simp: decided_def)
    then have iff: "consumed \<longleftrightarrow> hash \<noteq> ac_hash prev \<and>
        de_required (evaluateDestructiveChange (cf_document (ac_config prev)) (cf_document config))"
      using consumed_iff_destructive [OF _ prev] assms(1) by (simp add: lawful_env_def)
    have "if consumed then \<exists>a \<in> set (cd_approvals db). ap_targetConfigHash a = hash \<and> ap_consumedAt a = None \<and>
          now < ap_expiresAt a \<and> cd_approvals db' = map (consumed_row now a) (cd_approvals db)
        else cd_approvals db' = cd_approvals db"
      using d(1) r by (auto simp: decided_def open_approval_def)
    moreover have "validateMonitoringConfig (ev_lib env) (read_desired env desired) = Inr config"
      "hashMonitoringConfig (ev_lib env) (read_desired env desired) = Some hash"
      using accepted_decision assms(1) d(1) r by blast+
    moreover have "cs_configHash row = hash" "cs_acceptedAt row = Some writtenAt"
      "accepted_rows (cd_snapshots db') = accepted_rows (cd_snapshots db) @ [row]"
      using observed_row [OF d(2)] r d(3) by (simp_all add: accepted_rows_def)
    ultimately show ?thesis using iff by (intro disjI2 exI [of _ row]) (simp split: if_splits)
  qed
qed

subsection \<open>Every writer keeps the registry of the accepted snapshot\<close>

datatype config_op =
    Cron_accepts "json option" instant instant string
  | Dashboard_changes string "monitoring_config \<Rightarrow> js_error + monitoring_config" instant string string bool
  | Api_applies "monitoring_config \<Rightarrow> js_error + int option" service_apply instant string string
  | Snapshots_retained instant int int
  | Minute_commits minute_input

definition config_step :: "config_env \<Rightarrow> config_db \<Rightarrow> config_op \<Rightarrow> js_error + config_db" where
  "config_step env db op = (case op of
      Cron_accepts desired now writtenAt newId \<Rightarrow> Inr (snd (acceptDesiredConfiguration env desired now writtenAt newId db))
    | Dashboard_changes principalKey mutator now approvalId snapshotId written \<Rightarrow>
        Inr (snd (applyConfigChange env principalKey mutator now approvalId snapshotId written db))
    | Api_applies writeEdgeConfig input now approvalId operationId \<Rightarrow>
        Inr (snd (service_apply_config env writeEdgeConfig input now approvalId operationId db))
    | Snapshots_retained cutoff acceptedLimit limit \<Rightarrow>
        Inr (db\<lparr>cd_snapshots := fst (retain_snapshots_sql cutoff acceptedLimit limit (cd_snapshots db))\<rparr>)
    | Minute_commits input \<Rightarrow>
        res_bind (service_step (ev_sha256 env) (cd_registry db) (Op_Minute input)) (\<lambda>registry.
          Inr (db\<lparr>cd_registry := registry\<rparr>)))"

text \<open>The lock's clock is ahead of every instant it stamped.\<close>

definition clock_ahead :: "config_db \<Rightarrow> instant \<Rightarrow> bool" where
  "clock_ahead db t \<longleftrightarrow>
     (\<forall>s \<in> set (accepted_rows (cd_snapshots db)). or_epoch (cs_acceptedAt s) < t) \<and>
     (\<forall>r \<in> set (rd_registry (cd_registry db)). rg_firstSeenAt r \<le> t) \<and>
     (\<forall>inc \<in> set (md_incidents (rd_minute (cd_registry db))). in_resolvedAt inc = None \<longrightarrow> in_openedAt inc \<le> t)"

text \<open>A document that was written is read back as the document it was.\<close>

definition config_admissible :: "config_env \<Rightarrow> config_db \<Rightarrow> config_op \<Rightarrow> bool" where
  "config_admissible env db op = (case op of
      Cron_accepts desired now writtenAt newId \<Rightarrow> clock_ahead db writtenAt
    | Dashboard_changes principalKey mutator now approvalId snapshotId written \<Rightarrow> clock_ahead db now \<and>
        (\<forall>current mutated target. requireAcceptedConfig env (cd_snapshots db) = Inr current \<longrightarrow>
           mutator (ac_config current) = Inr mutated \<longrightarrow>
           validateMonitoringConfig (ev_lib env) (Runtime_2 mutated) = Inr target \<longrightarrow>
           ev_parse env (monitoring_json target) = Runtime_2 target)
    | Api_applies writeEdgeConfig input now approvalId operationId \<Rightarrow> True
    | Snapshots_retained cutoff acceptedLimit limit \<Rightarrow> 1 \<le> acceptedLimit
    | Minute_commits input \<Rightarrow> service_admissible (ev_sha256 env) (cd_registry db) (Op_Minute input))"

definition registry_matches :: "registry_db \<Rightarrow> monitoring_config \<Rightarrow> string \<Rightarrow> bool" where
  "registry_matches db config hash \<longleftrightarrow>
     (\<forall>m \<in> set (dc_monitors (cf_document config)). \<exists>r \<in> set (rd_registry db). rg_id r = mf_id m \<and> rg_name r = mf_name m \<and>
        rg_url r = mf_url m \<and> rg_enabled r = mf_enabled m \<and> rg_configHash r = hash \<and> rg_archivedAt r = None) \<and>
     (\<forall>r \<in> set (rd_registry db). rg_archivedAt r = None \<longleftrightarrow> rg_id r \<in> mf_id ` set (dc_monitors (cf_document config)))"

definition registry_follows :: "config_env \<Rightarrow> config_snapshot list \<Rightarrow> registry_db \<Rightarrow> bool" where
  "registry_follows env t db \<longleftrightarrow> (case findAcceptedSnapshot env t of
      Inl e \<Rightarrow> False
    | Inr None \<Rightarrow> \<forall>r \<in> set (rd_registry db). rg_archivedAt r \<noteq> None
    | Inr (Some s) \<Rightarrow> registry_matches db (ac_config s) (ac_hash s))"

definition config_inv :: "config_env \<Rightarrow> config_db \<Rightarrow> bool" where
  "config_inv env db \<longleftrightarrow> service_inv (cd_registry db) \<and> config_constraints db \<and>
     distinct (map cs_acceptedAt (accepted_rows (cd_snapshots db))) \<and>
     registry_follows env (cd_snapshots db) (cd_registry db)"

lemma validated_ids:
  assumes "lawful_lib lib" "validateMonitoringConfig lib input = Inr c"
  shows "distinct (map mf_id (dc_monitors (cf_document c)))"
  using validated_typed [OF assms] by (simp add: document_typed_def validateMonitorCollection_def)

lemma sync_follows:
  assumes "service_inv db" "distinct (map mf_id (dc_monitors (cf_document config)))"
    "\<forall>r \<in> set (rd_registry db). rg_firstSeenAt r \<le> now"
    "\<forall>inc \<in> set (md_incidents (rd_minute db)). in_resolvedAt inc = None \<longrightarrow> in_openedAt inc \<le> now"
  shows "\<exists>db'. synchronizeRegistry sha (cf_document config) hash now mode db = Inr db' \<and>
    service_inv db' \<and> registry_matches db' config hash"
proof -
  have "sync_admissible db (cf_document config) now" using assms(2-4) by (simp add: sync_admissible_def)
  with assms(1) registry_sync_core [of db "cf_document config" now sha hash mode] show ?thesis
    by (auto simp: service_inv_def registry_matches_def)
qed

lemma synced_follows:
  assumes "synchronizeRegistry sha (cf_document config) hash now mode db = Inr db'"
    "service_inv db" "distinct (map mf_id (dc_monitors (cf_document config)))"
    "\<forall>r \<in> set (rd_registry db). rg_firstSeenAt r \<le> now"
    "\<forall>inc \<in> set (md_incidents (rd_minute db)). in_resolvedAt inc = None \<longrightarrow> in_openedAt inc \<le> now"
  shows "service_inv db' \<and> registry_matches db' config hash"
  using sync_follows [OF assms(2-5), of sha hash mode] assms(1) by auto

text \<open>The accepted snapshot after a new row, and after rows that are not accepted.\<close>

lemma find_unchanged:
  "accepted_rows t = accepted_rows u \<Longrightarrow> findAcceptedSnapshot env t = findAcceptedSnapshot env u"
  by (simp add: findAcceptedSnapshot_def accepted_rows_def)

lemma find_newest:
  assumes "accepted_rows t' = accepted_rows t @ [row]" "cs_acceptedAt row = Some at"
    "\<forall>s \<in> set (accepted_rows t). or_epoch (cs_acceptedAt s) < at"
    "validateMonitoringConfig (ev_lib env) (ev_parse env (cs_configJson row)) = Inr config"
    "hashMonitoringConfig (ev_lib env) (ev_parse env (cs_configJson row)) = Some (cs_configHash row)"
  shows "findAcceptedSnapshot env t' = Inr (Some \<lparr>ac_config = config, ac_hash = cs_configHash row, ac_acceptedAt = Some at\<rparr>)"
proof -
  have "newest_by snapshot_order (accepted_rows t @ [row]) = Some row"
    using assms(2,3) by (intro newest_by_append) (auto simp: snapshot_order_def or_epoch_def less_prod_def)
  then have "newest_by snapshot_order (filter (\<lambda>s. cs_status s = Snap_accepted) t') = Some row"
    using assms(1) by (simp add: accepted_rows_def)
  then show ?thesis using assms(2,4,5) by (simp add: findAcceptedSnapshot_def)
qed

lemma distinct_accepted_append:
  assumes "distinct (map cs_acceptedAt (accepted_rows t))" "accepted_rows t' = accepted_rows t @ [row]"
    "cs_acceptedAt row = Some at" "\<forall>s \<in> set (accepted_rows t). or_epoch (cs_acceptedAt s) < at"
  shows "distinct (map cs_acceptedAt (accepted_rows t'))"
proof -
  have "cs_acceptedAt s \<noteq> Some at" if "s \<in> set (accepted_rows t)" for s
    using bspec [OF assms(4) that] by (auto simp: or_epoch_def)
  then show ?thesis using assms(1-3) by (force simp: image_iff)
qed

lemma find_validated:
  assumes "findAcceptedSnapshot env t = Inr (Some s)"
  shows "\<exists>input. validateMonitoringConfig (ev_lib env) input = Inr (ac_config s)"
  using find_accepted [OF assms] by metis

lemma acceptance_inv:
  assumes env: "lawful_env env" and inv: "config_inv env db" and ahead: "clock_ahead db writtenAt"
    and tr: "acceptance_transaction env desired now writtenAt newId db = Inr (result, db')"
  shows "config_inv env db'"
proof -
  have lib: "lawful_lib (ev_lib env)" using env by (simp add: lawful_env_def)
  have ok: "config_constraints db" "service_inv (cd_registry db)" "distinct (map cs_acceptedAt (accepted_rows (cd_snapshots db)))"
    and follows: "registry_follows env (cd_snapshots db) (cd_registry db)" using inv by (simp_all add: config_inv_def)
  obtain snapshot row where find: "findAcceptedSnapshot env (cd_snapshots db) = Inr snapshot"
    and d: "decided env desired (previous_config snapshot) now (cd_approvals db) result (cd_approvals db')"
    and row: "snapshot_observation env desired result writtenAt newId = Inr row" "cd_snapshots db' = cd_snapshots db @ [row]"
    and sync: "sync_to env writtenAt (result_target result) (cd_registry db) (cd_registry db')"
    and ok': "config_constraints db'"
    by (rule transaction_result [OF ok(1) tr])
  have clock: "\<forall>s \<in> set (accepted_rows (cd_snapshots db)). or_epoch (cs_acceptedAt s) < writtenAt"
    "\<forall>r \<in> set (rd_registry (cd_registry db)). rg_firstSeenAt r \<le> writtenAt"
    "\<forall>inc \<in> set (md_incidents (rd_minute (cd_registry db))). in_resolvedAt inc = None \<longrightarrow> in_openedAt inc \<le> writtenAt"
    using ahead by (simp_all add: clock_ahead_def)
  show ?thesis
  proof (cases result)
    case (Accepted config hash consumed)
    from accepted_decision [OF env d [unfolded Accepted]] obtain v where
      v: "desired = Some v" "v \<noteq> J_null" "validateMonitoringConfig (ev_lib env) (ev_parse env v) = Inr config"
      "hashMonitoringConfig (ev_lib env) (ev_parse env v) = Some hash" by (auto simp: read_desired_def)
    note r = observed_row [OF row(1), unfolded Accepted, simplified]
    have rows: "accepted_rows (cd_snapshots db') = accepted_rows (cd_snapshots db) @ [row]"
      using r row(2) by (simp add: accepted_rows_def)
    have "findAcceptedSnapshot env (cd_snapshots db') =
        Inr (Some \<lparr>ac_config = config, ac_hash = cs_configHash row, ac_acceptedAt = Some writtenAt\<rparr>)"
      using find_newest [OF rows _ clock(1)] r v by simp
    moreover have "service_inv (cd_registry db') \<and> registry_matches (cd_registry db') config hash"
      using sync Accepted synced_follows [OF _ ok(2) validated_ids [OF lib v(3)] clock(2,3)]
      by (simp add: sync_to_def result_target_def)
    moreover have "distinct (map cs_acceptedAt (accepted_rows (cd_snapshots db')))"
      using distinct_accepted_append [OF ok(3) rows _ clock(1)] r by simp
    ultimately show ?thesis using ok' r by (simp add: config_inv_def registry_follows_def)
  next
    case (Rejected reason hash config old)
    then have "evaluateConfigurationAcceptance env desired (previous_config snapshot) None now = Inr result"
      using d by (simp add: decided_def)
    from evaluate_result [OF this] Rejected obtain s where s: "snapshot = Some s" "ac_config s = config" "ac_hash s = old"
      by (auto simp: previous_config_def)
    have "cs_status row = Snap_rejected" using observed_row [OF row(1)] Rejected by simp
    then have rows: "accepted_rows (cd_snapshots db') = accepted_rows (cd_snapshots db)" using row(2) by (simp add: accepted_rows_def)
    obtain input where "validateMonitoringConfig (ev_lib env) input = Inr config"
      using find_validated find s(1,2) by blast
    then have "service_inv (cd_registry db') \<and> registry_matches (cd_registry db') config old"
      using sync Rejected synced_follows [OF _ ok(2) validated_ids [OF lib] clock(2,3)]
      by (simp add: sync_to_def result_target_def)
    then show ?thesis using ok(3) ok' rows find_unchanged [OF rows] find s by (simp add: config_inv_def registry_follows_def)
  next
    case Unavailable
    then have "cs_status row = Snap_rejected" using observed_row [OF row(1)] by simp
    then have rows: "accepted_rows (cd_snapshots db') = accepted_rows (cd_snapshots db)" using row(2) by (simp add: accepted_rows_def)
    moreover have "cd_registry db' = cd_registry db" using sync Unavailable by (simp add: sync_to_def result_target_def)
    ultimately show ?thesis using ok ok' follows find_unchanged [OF rows] by (simp add: config_inv_def registry_follows_def)
  qed
qed

lemma change_inv:
  assumes env: "lawful_env env" and inv: "config_inv env db" and ahead: "clock_ahead db now"
    and reads: "\<forall>current mutated target. requireAcceptedConfig env (cd_snapshots db) = Inr current \<longrightarrow>
       mutator (ac_config current) = Inr mutated \<longrightarrow>
       validateMonitoringConfig (ev_lib env) (Runtime_2 mutated) = Inr target \<longrightarrow>
       ev_parse env (monitoring_json target) = Runtime_2 target"
    and tr: "change_transaction env principalKey mutator now approvalId snapshotId written db = Inr (config, db')"
  shows "config_inv env db'"
proof -
  have lib: "lawful_lib (ev_lib env)" using env by (simp add: lawful_env_def)
  have ok: "config_constraints db" "service_inv (cd_registry db)" "distinct (map cs_acceptedAt (accepted_rows (cd_snapshots db)))"
    using inv by (simp_all add: config_inv_def)
  have clock: "\<forall>s \<in> set (accepted_rows (cd_snapshots db)). or_epoch (cs_acceptedAt s) < now"
    "\<forall>r \<in> set (rd_registry (cd_registry db)). rg_firstSeenAt r \<le> now"
    "\<forall>inc \<in> set (md_incidents (rd_minute (cd_registry db))). in_resolvedAt inc = None \<longrightarrow> in_openedAt inc \<le> now"
    using ahead by (simp_all add: clock_ahead_def)
  obtain current mutated target where c: "requireAcceptedConfig env (cd_snapshots db) = Inr current"
    "mutator (ac_config current) = Inr mutated" "validateMonitoringConfig (ev_lib env) (Runtime_2 mutated) = Inr target"
    using tr by (auto simp: change_transaction_def Let_def res_bind_Inr_iff)
  define hash where "hash = hashDeclarativeConfig (ev_lib env) (cf_document target)"
  show ?thesis
  proof (cases "hash = ac_hash current")
    case True
    then have "db' = db" using tr c by (simp add: change_transaction_def Let_def hash_def)
    with inv show ?thesis by simp
  next
    case False
    define row where "row = change_snapshot_row snapshotId target hash now"
    obtain registry where w: "synchronizeRegistry (ev_sha256 env) (cf_document target) hash now Mode_api (cd_registry db) = Inr registry"
      "cd_snapshots db' = cd_snapshots db @ [row]" "cd_registry db' = registry" "config_constraints db'"
      using tr c False by (auto simp: change_transaction_def Let_def res_bind_Inr_iff hash_def row_def split: if_splits)
    have rows: "accepted_rows (cd_snapshots db') = accepted_rows (cd_snapshots db) @ [row]"
      using w(2) by (simp add: accepted_rows_def row_def change_snapshot_row_def)
    have parse: "ev_parse env (monitoring_json target) = Runtime_2 target" using reads c by blast
    have "validateMonitoringConfig (ev_lib env) (Runtime_2 target) = Inr target"
      using validated_typed [OF lib c(3)] by simp
    then have "findAcceptedSnapshot env (cd_snapshots db') =
        Inr (Some \<lparr>ac_config = target, ac_hash = cs_configHash row, ac_acceptedAt = Some now\<rparr>)"
      by (intro find_newest [OF rows _ clock(1)]) (simp_all add: parse hashMonitoringConfig_def hash_def row_def change_snapshot_row_def)
    moreover have "service_inv registry \<and> registry_matches registry target hash"
      using synced_follows [OF w(1) ok(2) validated_ids [OF lib c(3)] clock(2,3)] .
    moreover have "distinct (map cs_acceptedAt (accepted_rows (cd_snapshots db')))"
      by (rule distinct_accepted_append [OF ok(3) rows _ clock(1)]) (simp add: row_def change_snapshot_row_def)
    ultimately show ?thesis using w(3,4) by (simp add: config_inv_def registry_follows_def row_def change_snapshot_row_def)
  qed
qed

text \<open>Retention keeps the accepted snapshot: it is the newest.\<close>

lemma newest_accepted_first:
  assumes "distinct (map cs_acceptedAt (accepted_rows t))" "newest_by snapshot_order (accepted_rows t) = Some m"
    and checks: "list_all config_snapshot_checks t"
  shows "newest_accepted t \<noteq> [] \<and> hd (newest_accepted t) = m"
proof -
  let ?sorted = "sort_key accepted_order (accepted_rows t)"
  have m: "m \<in> set (accepted_rows t)" "\<forall>x \<in> set (accepted_rows t). snapshot_order x \<le> snapshot_order m"
    using newest_by_max [OF assms(2)] by auto
  then have ne: "?sorted \<noteq> []" by (metis empty_iff empty_set set_sort)
  then have last_in: "last ?sorted \<in> set (accepted_rows t)" by (metis last_in_set set_sort)
  obtain i where i: "i < length ?sorted" "?sorted ! i = m" using m(1) by (metis in_set_conv_nth set_sort)
  have "accepted_order (?sorted ! i) \<le> accepted_order (?sorted ! (length ?sorted - 1))"
    using sorted_nth_mono [OF sorted_sort_key, of i "length ?sorted - 1" accepted_order "accepted_rows t"] i(1) by simp
  then have "accepted_order m \<le> accepted_order (last ?sorted)" using i(2) ne by (simp add: last_conv_nth)
  then have "or_epoch (cs_acceptedAt m) \<le> or_epoch (cs_acceptedAt (last ?sorted))"
    by (auto simp: accepted_order_def less_eq_prod_def less_prod_def)
  moreover have "or_epoch (cs_acceptedAt (last ?sorted)) \<le> or_epoch (cs_acceptedAt m)"
    using bspec [OF m(2) last_in] by (auto simp: snapshot_order_def less_eq_prod_def less_prod_def)
  ultimately have same: "or_epoch (cs_acceptedAt m) = or_epoch (cs_acceptedAt (last ?sorted))" by simp
  have stamped: "\<exists>at. cs_acceptedAt x = Some at" if "x \<in> set (accepted_rows t)" for x
    using checks that by (auto simp: list_all_iff config_snapshot_checks_def accepted_rows_def)
  have "cs_acceptedAt m = cs_acceptedAt (last ?sorted)"
    using same stamped [OF m(1)] stamped [OF last_in] by (auto simp: or_epoch_def)
  then have "m = last ?sorted" using assms(1) m(1) last_in by (auto simp: distinct_map dest: inj_onD)
  with ne show ?thesis by (simp add: newest_accepted_def accepted_rows_def hd_rev)
qed

lemma retained_snapshots:
  assumes "list_all config_snapshot_checks t" "distinct (map cs_id t)" "distinct (map cs_acceptedAt (accepted_rows t))"
    "1 \<le> acceptedLimit"
  obtains p where "fst (retain_snapshots_sql cutoff acceptedLimit limit t) = filter p t"
    "\<forall>m. newest_by snapshot_order (accepted_rows t) = Some m \<longrightarrow> p m"
proof -
  define doomed where "doomed = map cs_id (filter (\<lambda>s. cs_status s = Snap_rejected \<and> cs_seenAt s < cutoff) t)
     @ map cs_id (drop (nat acceptedLimit) (newest_accepted t))"
  have "cs_id m \<notin> set (take (nat limit) doomed)" if new: "newest_by snapshot_order (accepted_rows t) = Some m" for m
  proof -
    note first = newest_accepted_first [OF assms(3) new assms(1)]
    have m: "m \<in> set t" "cs_status m = Snap_accepted" using newest_by_max [OF new] by (auto simp: accepted_rows_def)
    have same: "s = m" if "s \<in> set t" "cs_id s = cs_id m" for s
      using assms(2) that m(1) by (auto simp: distinct_map dest: inj_onD)
    have "set (newest_accepted t) = set (accepted_rows t)" by (simp add: newest_accepted_def accepted_rows_def)
    then have sub: "set (drop n (newest_accepted t)) \<subseteq> set t" for n
      using set_drop_subset [of n "newest_accepted t"] by (auto simp: accepted_rows_def)
    have "distinct (accepted_rows t)" using assms(3) by (simp add: distinct_map)
    then have "distinct (newest_accepted t)" by (simp add: newest_accepted_def accepted_rows_def)
    then have "m \<notin> set (tl (newest_accepted t))" using first by (cases "newest_accepted t") auto
    moreover have "set (drop (nat acceptedLimit) (newest_accepted t)) \<subseteq> set (tl (newest_accepted t))"
      using assms(4) set_drop_subset_set_drop [of 1 "nat acceptedLimit" "newest_accepted t"] by (simp add: drop_Suc)
    ultimately have "m \<notin> set (drop (nat acceptedLimit) (newest_accepted t))" by blast
    then have "cs_id s \<noteq> cs_id m" if "s \<in> set (drop (nat acceptedLimit) (newest_accepted t))" for s
      using that same subsetD [OF sub that] by auto
    moreover have "cs_id s \<noteq> cs_id m" if "s \<in> set t" "cs_status s = Snap_rejected" for s
      using that same [OF that(1)] m(2) by auto
    ultimately have "cs_id m \<notin> set doomed" unfolding doomed_def set_append set_map set_filter by (auto simp: eq_commute)
    then show ?thesis by (meson in_set_takeD)
  qed
  then show thesis
    by (intro that [of "\<lambda>s. cs_id s \<notin> set (take (nat limit) doomed)"])
      (simp_all add: retain_snapshots_sql_def Let_def doomed_def)
qed

lemma retention_inv:
  assumes inv: "config_inv env db" and limit: "1 \<le> acceptedLimit"
  shows "config_inv env (db\<lparr>cd_snapshots := fst (retain_snapshots_sql cutoff acceptedLimit limit (cd_snapshots db))\<rparr>)"
proof -
  let ?t = "cd_snapshots db"
  have ok: "list_all config_snapshot_checks ?t" "distinct (map cs_id ?t)" "distinct (map cs_acceptedAt (accepted_rows ?t))"
    using inv by (simp_all add: config_inv_def config_constraints_def)
  obtain p where p: "fst (retain_snapshots_sql cutoff acceptedLimit limit ?t) = filter p ?t"
    "\<forall>m. newest_by snapshot_order (accepted_rows ?t) = Some m \<longrightarrow> p m"
    by (rule retained_snapshots [OF ok limit])
  have rows: "accepted_rows (filter p ?t) = filter p (accepted_rows ?t)"
    by (simp add: accepted_rows_def conj_commute)
  have "newest_by snapshot_order (accepted_rows (filter p ?t)) = newest_by snapshot_order (accepted_rows ?t)"
    using p(2) newest_by_filter [of snapshot_order "accepted_rows ?t" _ p] rows
    by (cases "newest_by snapshot_order (accepted_rows ?t)") (auto simp: newest_by_None)
  then have "findAcceptedSnapshot env (filter p ?t) = findAcceptedSnapshot env ?t"
    by (simp add: findAcceptedSnapshot_def accepted_rows_def)
  then show ?thesis using inv rows p(1)
    by (auto simp: config_inv_def config_constraints_def registry_follows_def list_all_iff distinct_map_filter)
qed

lemma api_inv:
  assumes "config_inv env db" "apply_transaction env writeEdgeConfig input now approvalId operationId db = Inr (operation, db')"
  shows "config_inv env db'"
proof (cases "findOperation (sa_principalKey input) (sa_idempotencyKey input) (cd_operations db)")
  case None
  obtain current where c: "readAccepted env (cd_snapshots db) = Inr current"
    using assms(2) None by (auto simp: apply_transaction_def res_bind_Inr_iff)
  obtain document where d: "exportDeclarativeConfig (ev_lib env) (Runtime_2 (ac_config current)) = Inr document"
    using assms(2) None c by (auto simp: apply_transaction_def res_bind_Inr_iff)
  obtain plan where p: "validateApplyPreconditions (ev_lib env) \<lparr>ai_ifMatch = sa_ifMatch input, ai_request = sa_request input,
      ai_currentConfig = document, ai_currentConfigHash = ac_hash current, ai_archivedMonitors = []\<rparr> = Inr plan"
    using assms(2) None c d by (auto simp: apply_transaction_def res_bind_Inr_iff)
  obtain target version where "toMonitoringConfig (ev_lib env) (Version_2 (pl_targetConfig plan)) (cf_configVersion (ac_config current) + 1)
      = Inr target" "writeEdgeConfig target = Inr version"
    using assms(2) None c d p by (auto simp: apply_transaction_def Let_def res_bind_Inr_iff)
  then have "cd_snapshots db' = cd_snapshots db \<and> cd_registry db' = cd_registry db \<and> config_constraints db'"
    using assms(2) None c d p by (auto simp: apply_transaction_def Let_def split: if_splits)
  then show ?thesis using assms(1) by (simp add: config_inv_def)
next
  case (Some existing)
  then show ?thesis using assms by (simp add: apply_transaction_def)
qed

lemma minute_inv:
  assumes "config_inv env db" "service_admissible (ev_sha256 env) (cd_registry db) (Op_Minute input)"
    "service_step (ev_sha256 env) (cd_registry db) (Op_Minute input) = Inr registry"
  shows "config_inv env (db\<lparr>cd_registry := registry\<rparr>)"
proof -
  have inv: "service_inv registry" using service_step_inv [OF _ assms(2,3)] assms(1) by (simp add: config_inv_def)
  have "rd_registry registry = rd_registry (cd_registry db)"
    using assms(3) by (auto simp: service_step_def res_bind_Inr_iff)
  then show ?thesis using assms(1) inv
    by (auto simp: config_inv_def config_constraints_def service_inv_def registry_follows_def registry_matches_def
        split: sum.splits option.splits)
qed

lemma config_step_inv:
  assumes env: "lawful_env env" and inv: "config_inv env db" and adm: "config_admissible env db op"
    and step: "config_step env db op = Inr db'"
  shows "config_inv env db'"
proof (cases op)
  case (Cron_accepts desired now writtenAt newId)
  show ?thesis
  proof (cases "acceptance_transaction env desired now writtenAt newId db")
    case (Inr r)
    then obtain result new where r: "acceptance_transaction env desired now writtenAt newId db = Inr (result, new)"
      by (cases r) simp
    then have "db' = new" using step Cron_accepts
      by (cases result) (simp_all add: config_step_def acceptDesiredConfiguration_def)
    then show ?thesis using acceptance_inv [OF env inv _ r] adm Cron_accepts by (simp add: config_admissible_def)
  qed (use step inv Cron_accepts in \<open>simp add: config_step_def acceptDesiredConfiguration_def\<close>)
next
  case (Dashboard_changes principalKey mutator now approvalId snapshotId written)
  show ?thesis
  proof (cases "change_transaction env principalKey mutator now approvalId snapshotId written db")
    case (Inr r)
    then obtain config new where r: "change_transaction env principalKey mutator now approvalId snapshotId written db = Inr (config, new)"
      by (cases r) simp
    then have "db' = new" using step Dashboard_changes by (simp add: config_step_def applyConfigChange_def)
    then show ?thesis using change_inv [OF env inv _ _ r] adm Dashboard_changes by (simp add: config_admissible_def)
  qed (use step inv Dashboard_changes in \<open>simp add: config_step_def applyConfigChange_def\<close>)
next
  case (Api_applies writeEdgeConfig input now approvalId operationId)
  show ?thesis
  proof (cases "apply_transaction env writeEdgeConfig input now approvalId operationId db")
    case (Inr r)
    then obtain operation new where r: "apply_transaction env writeEdgeConfig input now approvalId operationId db = Inr (operation, new)"
      by (cases r) simp
    then have "db' = new" using step Api_applies by (simp add: config_step_def service_apply_config_def)
    then show ?thesis using api_inv [OF inv r] by simp
  qed (use step inv Api_applies in \<open>simp add: config_step_def service_apply_config_def\<close>)
next
  case (Snapshots_retained cutoff acceptedLimit limit)
  then show ?thesis using step adm retention_inv [OF inv] by (auto simp: config_step_def config_admissible_def)
next
  case (Minute_commits input)
  then show ?thesis using step adm minute_inv [OF inv] by (auto simp: config_step_def config_admissible_def res_bind_Inr_iff)
qed

interpretation config_machine: invariant_machine "config_step env" "config_inv env"
    "\<lambda>db op. lawful_env env \<and> config_admissible env db op" for env
  by unfold_locales (auto intro: config_step_inv)

lemma admissible_run_conj:
  "p \<Longrightarrow> admissible_run step adm s es \<Longrightarrow> admissible_run step (\<lambda>s e. p \<and> adm s e) s es"
  by (induction es arbitrary: s) (auto split: sum.splits)

text \<open>C1. The registry always is the one of the accepted snapshot that is read back, whoever wrote it last. After
  every run of cron acceptances, dashboard changes, plans applied by the API, retention passes and minutes, in
  any order: the accepted snapshot reads back without an error, the unarchived registry rows are exactly the monitors
  of its configuration, with their fields and its digest, and every table still agrees and satisfies its
  constraints. The clock of the configuration lock has to be ahead of what it stamped before.\<close>

theorem config_run_follows:
  assumes "lawful_env env" "config_inv env db" "admissible_run (config_step env) (config_admissible env) db ops"
    and "run_steps (config_step env) db ops = Inr db'"
  shows "\<exists>snapshot. findAcceptedSnapshot env (cd_snapshots db') = Inr snapshot \<and>
    (case snapshot of
       None \<Rightarrow> \<forall>r \<in> set (rd_registry (cd_registry db')). rg_archivedAt r \<noteq> None
     | Some s \<Rightarrow> registry_matches (cd_registry db') (ac_config s) (ac_hash s)) \<and>
    service_inv (cd_registry db') \<and> config_constraints db'"
proof -
  have "config_inv env db'" using config_machine.inv_run [OF assms(2) admissible_run_conj [OF assms(1,3)] assms(4)] .
  then show ?thesis by (auto simp: config_inv_def registry_follows_def split: sum.splits)
qed

subsection \<open>An answer every minute\<close>


definition stamps_ahead :: "config_db \<Rightarrow> instant \<Rightarrow> instant \<Rightarrow> string \<Rightarrow> bool" where
  "stamps_ahead db now writtenAt newId \<longleftrightarrow> newId \<notin> cs_id ` set (cd_snapshots db) \<and>
     (\<forall>p \<in> set (cd_operations db). op_createdAt p \<le> writtenAt) \<and>
     (\<forall>a \<in> set (cd_approvals db). \<forall>h. open_approval h now a \<longrightarrow> ap_createdAt a \<le> now)"

lemma exports_fitting:
  assumes "lawful_lib lib" "validateMonitoringConfig lib input = Inr c" "fits (monitoring_json c)"
  shows "exportDeclarativeConfig lib (Runtime_2 c) = Inr (cf_document c)"
  using validated_typed [OF assms(1,2)] assms(3) by (simp add: exportDeclarativeConfig_def)




lemma settled_operations:
  assumes "list_all config_operation_checks t" "\<forall>p \<in> set t. op_createdAt p \<le> now"
  shows "list_all config_operation_checks (settle_operations result now t) \<and>
    map op_id (settle_operations result now t) = map op_id t"
proof -
  have "list_all config_operation_checks (sql_update q f t) \<and> map op_id (sql_update q f t) = map op_id t"
    if "\<And>p. p \<in> set t \<Longrightarrow> config_operation_checks (f p)" "\<And>p. op_id (f p) = op_id p" for q f
    using that assms(1) by (auto simp: sql_update_def list_all_iff)
  moreover have "config_operation_checks (p\<lparr>op_state := Op_accepted, op_acceptedAt := Some now\<rparr>)" if "p \<in> set t" for p
  proof -
    have "config_operation_checks p" "op_createdAt p \<le> now" using that assms by (simp_all add: list_all_iff)
    then show ?thesis by (auto simp: config_operation_checks_def split: option.splits)
  qed
  moreover have "config_operation_checks (p\<lparr>op_state := Op_rejected, op_rejectionReason := reason\<rparr>)" if "p \<in> set t" for p reason
  proof -
    have "config_operation_checks p" using that assms(1) by (simp add: list_all_iff)
    then show ?thesis by (auto simp: config_operation_checks_def split: option.splits)
  qed
  ultimately show ?thesis using assms(1) by (cases result) (simp_all add: settle_operations_def)
qed


lemma observed_checks:
  assumes "snapshot_observation env desired result writtenAt newId = Inr row"
    "\<forall>config hash. result_target result = Some (config, hash) \<longrightarrow> 0 \<le> cf_configVersion config"
    "result \<noteq> Unavailable"
  shows "config_snapshot_checks row \<and> cs_configJson row \<noteq> J_null \<and> cs_id row = newId"
  using assms
  by (auto simp: snapshot_observation_def result_target_def config_snapshot_checks_def monitoring_json_def Let_def res_bind_Inr_iff
      split: acceptance_result.splits option.splits if_splits)


lemma commit_answers:
  assumes inv: "config_inv env db" and ahead: "clock_ahead db writtenAt" "stamps_ahead db now writtenAt newId"
    and approvals: "list_all config_approval_checks t" "distinct (map ap_id t)"
    and row: "snapshot_observation env desired guarded writtenAt newId = Inr row"
    and goal: "result_target guarded = Some (config, hash)" "0 \<le> cf_configVersion config"
      "distinct (map mf_id (dc_monitors (cf_document config)))"
  shows "\<exists>db'. commit_decision env desired guarded writtenAt newId (db\<lparr>cd_approvals := t\<rparr>) = Inr (guarded, db')"
proof -
  have ok: "config_constraints db" "service_inv (cd_registry db)" using inv by (simp_all add: config_inv_def)
  obtain registry where s: "synchronizeRegistry (ev_sha256 env) (cf_document config) hash writtenAt Mode_runtime (cd_registry db) =
      Inr registry" "service_inv registry"
    using sync_follows [OF ok(2) goal(3)] ahead(1) unfolding clock_ahead_def by blast
  have "guarded \<noteq> Unavailable" using goal(1) by (auto simp: result_target_def)
  then have r: "config_snapshot_checks row" "cs_configJson row \<noteq> J_null" "cs_id row = newId"
    using observed_checks [OF row] goal(1,2) by auto
  have p: "list_all config_operation_checks (settle_operations guarded writtenAt (cd_operations db))"
    "map op_id (settle_operations guarded writtenAt (cd_operations db)) = map op_id (cd_operations db)"
    using settled_operations ok(1) ahead(2) by (simp_all add: config_constraints_def stamps_ahead_def)
  let ?db = "db\<lparr>cd_approvals := t, cd_snapshots := cd_snapshots db @ [row],
      cd_operations := settle_operations guarded writtenAt (cd_operations db)\<rparr>"
  have w: "writeSnapshotObservation env desired guarded writtenAt newId (db\<lparr>cd_approvals := t\<rparr>) = Inr ?db"
    by (simp add: writeSnapshotObservation_def row)
  have c: "config_constraints (?db\<lparr>cd_registry := registry\<rparr>)"
    using ok(1) s(2) r p approvals ahead(2) by (simp add: config_constraints_def service_inv_def stamps_ahead_def)
  have "commit_decision env desired guarded writtenAt newId (db\<lparr>cd_approvals := t\<rparr>) =
      Inr (guarded, ?db\<lparr>cd_registry := registry\<rparr>)"
    unfolding commit_decision_def w res_bind_simps Let_def using goal(1) s(1) c
    by (cases guarded) (simp_all add: result_target_def)
  then show ?thesis by blast
qed



subsection \<open>Where the clocks disagree\<close>

text \<open>An approval that is younger than the instant the cron read first cannot be consumed: the check of
  \<open>consumed_at\<close> refuses the row, and the transaction raises.\<close>

lemma consumed_approval_not_younger:
  assumes "config_constraints db" "acceptance_transaction env desired now writtenAt newId db = Inr (Accepted c h True, db')"
  shows "\<exists>a \<in> set (cd_approvals db). open_approval h now a \<and> ap_createdAt a \<le> now"
proof -
  obtain snapshot where d: "decided env desired (previous_config snapshot) now (cd_approvals db) (Accepted c h True) (cd_approvals db')"
    and ok: "config_constraints db'"
    by (rule transaction_result [OF assms])
  then obtain a where a: "a \<in> set (cd_approvals db)" "open_approval h now a"
    "cd_approvals db' = map (consumed_row now a) (cd_approvals db)" by (auto simp: decided_def)
  then have "consumed_row now a a \<in> set (cd_approvals db')" by simp
  then have "config_approval_checks (consumed_row now a a)" using ok by (simp add: config_constraints_def list_all_iff)
  then have "ap_createdAt a \<le> now" by (simp add: consumed_row_def config_approval_checks_def)
  with a show ?thesis by blast
qed

text \<open>Without a document and without an accepted configuration the observation cannot be recorded: its
  \<open>config_json\<close> is null.\<close>

lemma missing_document_unrecorded:
  assumes "config_constraints db" "findAcceptedSnapshot env (cd_snapshots db) = Inr None"
  shows "acceptance_transaction env None now writtenAt newId db \<noteq> Inr (result, db')"
proof
  assume tr: "acceptance_transaction env None now writtenAt newId db = Inr (result, db')"
  obtain snapshot row where find: "findAcceptedSnapshot env (cd_snapshots db) = Inr snapshot"
    and d: "decided env None (previous_config snapshot) now (cd_approvals db) result (cd_approvals db')"
    and row: "snapshot_observation env None result writtenAt newId = Inr row" "cd_snapshots db' = cd_snapshots db @ [row]"
    and ok: "config_constraints db'"
    by (rule transaction_result [OF assms(1) tr])
  have "evaluateConfigurationAcceptance env None None approval now = Inr Unavailable" for approval
    by (simp add: evaluateConfigurationAcceptance_def read_desired_def hashMonitoringConfig_def Let_def)
  then have "result = Unavailable" using d find assms(2) by (auto simp: decided_def previous_config_def)
  then have "cs_configJson row = J_null" using row(1) by (auto simp: snapshot_observation_def Let_def res_bind_Inr_iff)
  with ok row(2) show False by (simp add: config_constraints_def)
qed

subsection \<open>An example\<close>

definition accepted_sample :: monitoring_config where
  "accepted_sample = \<lparr>cf_configVersion = 3, cf_document = sample_document [''b@c.de'']\<rparr>"

definition paused_sample :: monitoring_config where
  "paused_sample = \<lparr>cf_configVersion = 4, cf_document = (sample_document [''b@c.de''])
     \<lparr>dc_monitors := map (\<lambda>m. m\<lparr>mf_enabled := False\<rparr>) (dc_monitors (sample_document [''b@c.de'']))\<rparr>\<rparr>"

definition acceptance_env :: config_env where
  "acceptance_env = \<lparr>ev_sha256 = (\<lambda>_. []), ev_lib = validation_lib\<lparr>li_sha256 := (\<lambda>t. t)\<rparr>,
     ev_parse = (\<lambda>v. if v = monitoring_json accepted_sample then Runtime_2 accepted_sample
       else if v = monitoring_json paused_sample then Runtime_2 paused_sample else Malformed_runtime)\<rparr>"

lemma acceptance_env_lawful: "lawful_env acceptance_env"
  using validation_lib_lawful by (simp add: lawful_env_def lawful_lib_def acceptance_env_def monitoring_json_def validation_lib_def)

lemma sample_int4: "int_string 4 = ''4''"
  by (simp add: int_string_def nat_string.simps) code_simp

lemma fits_accepted: "fits (monitoring_json accepted_sample)"
  using sample_fits by (simp add: accepted_sample_def)

lemma fits_paused: "fits (monitoring_json paused_sample)"
proof -
  have "utf8_length (x # s) = (if (of_char x :: nat) < 128 then 1 else 2) + utf8_length s" "utf8_length [] = 0" for x s
    by (simp_all add: utf8_length_def)
  then have "utf8_length (canonical_text (monitoring_json paused_sample)) \<le> 1000"
    unfolding canonical_text_def monitoring_json_def document_entries_def sample_document_def sample_settings_def paused_sample_def
      monitoring_config.select_convs declarative_config.select_convs list.map monitor_json_def monitor_entries_def
      fields_json_def group_json_def settings_entries_def
    by (simp add: by_key_def nullable_def sample_ints sample_int4 quote_json_def escape_char_def short_escape_def)
  then show ?thesis by (simp add: fits_def MAX_CONFIG_BYTES_def)
qed

lemma paused_validates:
  "validateMonitoringConfig (ev_lib acceptance_env) (Runtime_2 paused_sample) = Inr paused_sample"
proof -
  have "monitoringConfigSchema (ev_lib acceptance_env) paused_sample = Inr paused_sample" by code_simp
  moreover have "normalizeMonitoringConfig (ev_lib acceptance_env) paused_sample = paused_sample" by code_simp
  moreover have "assertConfigSize (monitoring_json paused_sample) = Inr ()" using fits_paused assertConfigSize_fits by simp
  ultimately show ?thesis by (simp add: validateMonitoringConfig_def)
qed

lemma accepted_validates:
  "validateMonitoringConfig (ev_lib acceptance_env) (Runtime_2 accepted_sample) = Inr accepted_sample"
proof -
  have "monitoringConfigSchema (ev_lib acceptance_env) accepted_sample = Inr accepted_sample" by code_simp
  moreover have "normalizeMonitoringConfig (ev_lib acceptance_env) accepted_sample = accepted_sample" by code_simp
  moreover have "assertConfigSize (monitoring_json accepted_sample) = Inr ()" using fits_accepted assertConfigSize_fits by simp
  ultimately show ?thesis by (simp add: validateMonitoringConfig_def)
qed

lemma sample_hashes_differ:
  "hashDeclarativeConfig (ev_lib acceptance_env) (cf_document paused_sample) \<noteq>
   hashDeclarativeConfig (ev_lib acceptance_env) (cf_document accepted_sample)"
proof -
  have n: "normalizeDeclarativeConfig (ev_lib acceptance_env) (cf_document paused_sample) = cf_document paused_sample"
    "normalizeDeclarativeConfig (ev_lib acceptance_env) (cf_document accepted_sample) = cf_document accepted_sample"
    by code_simp+
  show ?thesis
    unfolding hashDeclarativeConfig_def n
    by (simp add: declarative_json_def document_entries_def paused_sample_def accepted_sample_def sample_document_def
        sample_settings_def monitor_json_def monitor_entries_def fields_json_def group_json_def settings_entries_def
        digest_def hashCanonical_def by_key_def nullable_def sample_ints quote_json_def escape_char_def short_escape_def acceptance_env_def)
qed

lemma sample_destructive: "de_required (evaluateDestructiveChange (cf_document accepted_sample) (cf_document paused_sample))"
  by (simp add: evaluateDestructiveChange_def Let_def activeMonitors_def accepted_sample_def paused_sample_def sample_document_def)

definition accepted_hash :: string where
  "accepted_hash = hashDeclarativeConfig (ev_lib acceptance_env) (cf_document accepted_sample)"

definition sample_config_db :: config_db where
  "sample_config_db =
     \<lparr>cd_snapshots = [\<lparr>cs_id = ''s0'', cs_configVersion = 3, cs_configHash = accepted_hash, cs_configJson = monitoring_json accepted_sample,
        cs_status = Snap_accepted, cs_rejectionReason = None, cs_source = ''api'', cs_seenAt = 100, cs_acceptedAt = Some 100\<rparr>],
      cd_approvals = [\<lparr>ap_id = ''a0'', ap_targetConfigHash = hashDeclarativeConfig (ev_lib acceptance_env) (cf_document paused_sample),
        ap_action = ''destructive_config_change'', ap_createdByPrincipal = ''admin'', ap_createdAt = 150, ap_expiresAt = 600150,
        ap_consumedAt = None\<rparr>],
      cd_operations = [],
      cd_registry = \<lparr>rd_registry = map (desired_row (cf_document accepted_sample) accepted_hash 100)
          (dc_monitors (cf_document accepted_sample)),
        rd_minute = sample_minute_db\<lparr>md_states := [initial_snapshot ''web'' True 100]\<rparr>\<rparr>\<rparr>"

lemma sample_find:
  "findAcceptedSnapshot acceptance_env (cd_snapshots sample_config_db) =
     Inr (Some \<lparr>ac_config = accepted_sample, ac_hash = accepted_hash, ac_acceptedAt = Some 100\<rparr>)"
proof -
  have "ev_parse acceptance_env (monitoring_json accepted_sample) = Runtime_2 accepted_sample" by (simp add: acceptance_env_def)
  moreover have "hashMonitoringConfig (ev_lib acceptance_env) (Runtime_2 accepted_sample) = Some accepted_hash"
    by (simp add: hashMonitoringConfig_def accepted_hash_def)
  ultimately show ?thesis using accepted_validates by (simp add: findAcceptedSnapshot_def sample_config_db_def)
qed

lemma sample_registry_matches: "registry_matches (cd_registry sample_config_db) accepted_sample accepted_hash"
  by (simp add: registry_matches_def sample_config_db_def accepted_sample_def sample_document_def desired_row_def)

lemma sample_service_inv: "service_inv (cd_registry sample_config_db)"
proof -
  let ?db = "cd_registry sample_config_db"
  have "agreement (rd_minute ?db)"
    by (simp add: agreement_def sample_config_db_def sample_minute_db_def unresolved_of_def initial_snapshot_def monitor_inv_def
        snapshot_ok_def counters_ok_def incident_ok_def in_outage_def chrono_ok_def began_before_def opt_le_def)
  moreover have "registry_agrees ?db"
    by (simp add: registry_agrees_def sample_config_db_def accepted_sample_def sample_document_def desired_row_def
        initial_snapshot_def row_target_def reached_def CHECK_STATES_def)
  moreover have "registry_constraints ?db"
    by (simp add: registry_constraints_def minute_constraints_def sample_config_db_def sample_minute_db_def registry_row_checks_def
        desired_row_def accepted_sample_def sample_document_def initial_snapshot_def monitor_state_checks_def opt_nonneg_def
        one_active_per_monitor_def)
  ultimately show ?thesis by (simp add: service_inv_def)
qed

lemma sample_constraints: "config_constraints sample_config_db"
proof -
  have "registry_constraints (cd_registry sample_config_db)" using sample_service_inv by (simp add: service_inv_def)
  then show ?thesis
    by (simp add: config_constraints_def sample_config_db_def config_snapshot_checks_def config_approval_checks_def monitoring_json_def)
qed

lemma sample_config_inv: "config_inv acceptance_env sample_config_db"
  using sample_service_inv sample_constraints sample_registry_matches
  by (simp add: config_inv_def registry_follows_def sample_find) (simp add: sample_config_db_def accepted_rows_def)

lemma sample_clocks: "clock_ahead sample_config_db 201" "stamps_ahead sample_config_db 200 201 ''s1''"
  by (simp_all add: clock_ahead_def stamps_ahead_def sample_config_db_def accepted_rows_def or_epoch_def
      sample_minute_db_def desired_row_def accepted_sample_def sample_document_def)



lemma sample_evaluations:
  fixes p defines "p \<equiv> Some \<lparr>ac_config = accepted_sample, ac_hash = accepted_hash\<rparr> :: accepted_config option"
  defines "h \<equiv> hashDeclarativeConfig (ev_lib acceptance_env) (cf_document paused_sample)"
  shows "evaluateConfigurationAcceptance acceptance_env (Some (monitoring_json paused_sample)) p None 200 =
      Inr (Rejected Destructive_approval_required (Some h) accepted_sample accepted_hash)"
    "evaluateConfigurationAcceptance acceptance_env (Some (monitoring_json paused_sample)) p
      (Some (approval_of (hd (cd_approvals sample_config_db)))) 200 = Inr (Accepted paused_sample h True)"
proof -
  have r: "read_desired acceptance_env (Some (monitoring_json paused_sample)) = Runtime_2 paused_sample"
    by (simp add: read_desired_def acceptance_env_def monitoring_json_def paused_sample_def accepted_sample_def)
  have h: "hashMonitoringConfig (ev_lib acceptance_env) (Runtime_2 paused_sample) = Some h" "h \<noteq> accepted_hash"
    using sample_hashes_differ by (simp_all add: hashMonitoringConfig_def h_def accepted_hash_def)
  have lib: "lawful_lib (ev_lib acceptance_env)" using acceptance_env_lawful by (simp add: lawful_env_def)
  have e: "exportDeclarativeConfig (ev_lib acceptance_env) (Runtime_2 accepted_sample) = Inr (cf_document accepted_sample)"
    "exportDeclarativeConfig (ev_lib acceptance_env) (Runtime_2 paused_sample) = Inr (cf_document paused_sample)"
    using exports_fitting [OF lib] accepted_validates paused_validates fits_accepted fits_paused by blast+
  have "isValidDestructiveChangeApproval (Some (approval_of (hd (cd_approvals sample_config_db)))) h 200"
    by (simp add: isValidDestructiveChangeApproval_def approval_of_def sample_config_db_def h_def)
  moreover have "\<not> isValidDestructiveChangeApproval None h 200" by (simp add: isValidDestructiveChangeApproval_def)
  ultimately show "evaluateConfigurationAcceptance acceptance_env (Some (monitoring_json paused_sample)) p None 200 =
      Inr (Rejected Destructive_approval_required (Some h) accepted_sample accepted_hash)"
    "evaluateConfigurationAcceptance acceptance_env (Some (monitoring_json paused_sample)) p
      (Some (approval_of (hd (cd_approvals sample_config_db)))) 200 = Inr (Accepted paused_sample h True)"
    using h(2) sample_destructive
    by (simp_all add: evaluateConfigurationAcceptance_def Let_def r h(1) paused_validates p_def e)
qed

lemma sample_hash_named: "hashDeclarativeConfig (ev_lib acceptance_env) (cf_document paused_sample) \<noteq> []"
proof -
  have "plain_json (declarative_json (normalizeDeclarativeConfig (ev_lib acceptance_env) (cf_document paused_sample)))" by code_simp
  from plain_json_text [OF this] show ?thesis by (auto simp: hashDeclarativeConfig_def digest_def hashCanonical_def)
qed

lemma sample_accepts:
  "\<exists>db'. acceptDesiredConfiguration acceptance_env (Some (monitoring_json paused_sample)) 200 201 ''s1'' sample_config_db =
     (Inr paused_sample, db')"
proof -
  define h where "h = hashDeclarativeConfig (ev_lib acceptance_env) (cf_document paused_sample)"
  let ?p = "\<lparr>ac_config = accepted_sample, ac_hash = accepted_hash\<rparr> :: accepted_config"
  let ?d = "Some (monitoring_json paused_sample)"
  obtain a where a: "cd_approvals sample_config_db = [a]" "open_approval h 200 a" "ap_id a = ''a0''" "consumable ''a0'' 200 a"
    "config_approval_checks (a\<lparr>ap_consumedAt := Some 200\<rparr>)"
    by (simp add: sample_config_db_def open_approval_def consumable_def h_def config_approval_checks_def)
  have h: "h \<noteq> []" using sample_hash_named by (simp add: h_def)
  note e = sample_evaluations [folded h_def, unfolded a(1) list.sel]
  have d: "decide acceptance_env ?d (Some ?p) 200 (cd_approvals sample_config_db) = Inr (Accepted paused_sample h True, Some ''a0'')"
    using a h by (simp add: decide_def e or_else_def)
  let ?t = "[a\<lparr>ap_consumedAt := Some 200\<rparr>]"
  have g: "requireApprovalConsumption acceptance_env (Accepted paused_sample h True) ?d (Some ?p) 200
      (consume_approval (Some ''a0'') 200) (cd_approvals sample_config_db) = (Inr (Accepted paused_sample h True), ?t)"
    using a by (simp add: requireApprovalConsumption_def consume_approval_def sql_update_def)
  obtain row where row: "snapshot_observation acceptance_env ?d (Accepted paused_sample h True) 201 ''s1'' = Inr row"
    by (simp add: snapshot_observation_def Let_def)
  have "result_target (Accepted paused_sample h True) = Some (paused_sample, h)" "0 \<le> cf_configVersion paused_sample"
    "distinct (map mf_id (dc_monitors (cf_document paused_sample)))"
    by (simp_all add: result_target_def paused_sample_def sample_document_def)
  from commit_answers [OF sample_config_inv sample_clocks _ _ row this, of ?t] a(5)
  obtain db' where "commit_decision acceptance_env ?d (Accepted paused_sample h True) 201 ''s1''
      (sample_config_db\<lparr>cd_approvals := ?t\<rparr>) = Inr (Accepted paused_sample h True, db')" by auto
  moreover have "previous_config (Some \<lparr>ac_config = accepted_sample, ac_hash = accepted_hash, ac_acceptedAt = Some 100\<rparr>) = Some ?p"
    by (simp add: previous_config_def)
  ultimately have "acceptance_transaction acceptance_env ?d 200 201 ''s1'' sample_config_db = Inr (Accepted paused_sample h True, db')"
    unfolding acceptance_transaction_def sample_find res_bind_simps Let_def using d g by simp
  then show ?thesis by (simp add: acceptDesiredConfiguration_def)
qed

theorem destructive_needs_approval_witness:
  "\<exists>db'. acceptDesiredConfiguration acceptance_env (Some (monitoring_json paused_sample)) 200 201 ''s1'' sample_config_db =
     (Inr paused_sample, db') \<and> map ap_consumedAt (cd_approvals db') = [Some 200]"
proof -
  obtain db' where db': "acceptDesiredConfiguration acceptance_env (Some (monitoring_json paused_sample)) 200 201 ''s1'' sample_config_db =
      (Inr paused_sample, db')" using sample_accepts by blast
  have other: "paused_sample \<noteq> accepted_sample" by (simp add: paused_sample_def accepted_sample_def)
  have "read_desired acceptance_env (Some (monitoring_json paused_sample)) = Runtime_2 paused_sample"
    by (simp add: read_desired_def acceptance_env_def monitoring_json_def paused_sample_def accepted_sample_def)
  then have "hashMonitoringConfig (ev_lib acceptance_env) (read_desired acceptance_env (Some (monitoring_json paused_sample))) =
      Some (hashDeclarativeConfig (ev_lib acceptance_env) (cf_document paused_sample))"
    by (simp add: hashMonitoringConfig_def)
  with destructive_needs_approval [OF acceptance_env_lawful sample_constraints sample_find db'] other
  have "\<exists>a \<in> set (cd_approvals sample_config_db). cd_approvals db' = map (consumed_row 200 a) (cd_approvals sample_config_db)"
    using sample_hashes_differ sample_destructive by (auto simp: accepted_hash_def)
  with db' show ?thesis by (auto simp: sample_config_db_def consumed_row_def)
qed

theorem config_run_follows_witness:
  "\<exists>db'. run_steps (config_step acceptance_env) sample_config_db
     [Cron_accepts (Some (monitoring_json paused_sample)) 200 201 ''s1'', Snapshots_retained 300 1 10] = Inr db' \<and>
   (\<exists>s. findAcceptedSnapshot acceptance_env (cd_snapshots db') = Inr s) \<and> config_constraints db'"
proof -
  let ?ops = "[Cron_accepts (Some (monitoring_json paused_sample)) 200 201 ''s1'', Snapshots_retained 300 1 10]"
  have "admissible_run (config_step acceptance_env) (config_admissible acceptance_env) sample_config_db ?ops"
    using sample_clocks by (simp add: config_admissible_def config_step_def)
  moreover obtain db' where db': "run_steps (config_step acceptance_env) sample_config_db ?ops = Inr db'"
    by (simp add: config_step_def)
  ultimately show ?thesis
    using config_run_follows [OF acceptance_env_lawful sample_config_inv, of ?ops db'] by blast
qed

end
