(* ===== verification/Spec2Isabelle.thy ===== *)
theory Spec2Isabelle
  imports Monitor_Life Codec Storage_Policy Tables Rollups Rollup_Laws Notifications Outbox Bounded_Work
    Delivery Atomic_Minute Minute_Agreement Maintenance Maintenance_Laws Sweep_Laws Tables_Store
    Retention Retention_Laws Maintenance_Sql Leases Cron_Runs Idempotency
    Config_Json Public_Url Checker Config_Schema Config_Plan Config_Valid Plan_Laws Registry_Sync Service_Run
    Config_Acceptance Config_Service Config_Run
begin

text \<open>
  A model of the core of Pulse, an uptime monitor that runs as scheduled jobs over PostgreSQL: what it
  checks, when it calls a monitor down, whom it tells, how long it keeps what it measured, and how a
  change of its configuration takes effect. Each theory below opens with the file it models and the
  correspondence of its types; names of definitions are those of the source where HOL allows it.

  How the parts interact. Every minute the cron (\<open>lib/scheduler\<close>) takes a lease and opens a run record,
  accepts the desired configuration, brings the registry in line with it, checks every enabled monitor
  over HTTP, advances each monitor's state machine and commits the minute: packed telemetry, snapshots,
  incidents and outbox rows in one statement. Delivery passes then drain the outbox, and the maintenance
  jobs roll the telemetry up and remove what the storage governor's mode no longer keeps. The dashboard
  and the API change the configuration through the same snapshots and approvals.

  \<^item> Shared: \<open>Prelude\<close> (errors as sums, instants, JavaScript strings and sets, SQL insert, update, upsert
    and group by on lists, the machines \<open>invariant_machine\<close> and \<open>progress_machine\<close> whose interpretations
    carry the invariants), \<open>Iso_Time\<close> (\<open>toISOString\<close>), \<open>Ids\<close> (\<open>lib/ids\<close>), \<open>Tables\<close> and \<open>Tables_Store\<close>
    (the rows, CHECK constraints and unique keys of \<open>lib/db/schema.ts\<close>).
  \<^item> Monitors: \<open>Monitor_State\<close> and \<open>Monitor_Life\<close> (\<open>lib/monitoring/state-machine.ts\<close>,
    \<open>lib/scheduler/lifecycle.ts\<close>): the transitions, their refinement of a failure and recovery automaton,
    when an incident is opened and resolved and at which instant, and what a lifecycle change leaves.
  \<^item> Checks: \<open>Public_Url\<close> (\<open>lib/net/public-url.ts\<close>) and \<open>Checker\<close> (\<open>lib/checker\<close>): only public addresses
    are reached, and every check settles.
  \<^item> The minute: \<open>Codec\<close> (\<open>lib/storage/codec.ts\<close>) with its round trip, \<open>Atomic_Minute\<close>
    (\<open>lib/storage/atomic-minute.ts\<close>) and \<open>Minute_Agreement\<close>: commits are idempotent and keep outages and
    incidents in agreement.
  \<^item> Notifications: \<open>Notifications\<close> (payloads, keys, domain-expiry policy), \<open>Outbox\<close>
    (\<open>lib/notifications/sql.ts\<close>, \<open>enqueue.ts\<close>), \<open>Bounded_Work\<close> (\<open>lib/async/bounded-work.ts\<close>) and \<open>Delivery\<close>
    (\<open>lib/notifications/delivery.ts\<close>): constraints, exclusive claims, accounting and back-off.
  \<^item> Storage: \<open>Storage_Policy\<close> (\<open>governor.ts\<close>, \<open>histogram.ts\<close>, the CASE of \<open>MEASURE_USAGE_SQL\<close>), \<open>Rollups\<close> and
    \<open>Rollup_Laws\<close> (\<open>lib/storage/sql.ts\<close>), \<open>Retention\<close>, \<open>Retention_Laws\<close> and \<open>Maintenance_Sql\<close>
    (\<open>lib/maintenance/sql.ts\<close>), \<open>Maintenance\<close>, \<open>Maintenance_Laws\<close> and \<open>Sweep_Laws\<close>
    (\<open>lib/maintenance/budget.ts\<close>, \<open>coordinator.ts\<close>): what a roll-up row says of the decoded telemetry, that
    retention removes only what the policy lets go, and that the jobs end and reach every task.
  \<^item> Jobs and requests: \<open>Leases\<close>, \<open>Cron_Runs\<close> (\<open>lib/scheduler\<close>) and \<open>Idempotency\<close> (\<open>lib/api/idempotency.ts\<close>).
  \<^item> Configuration: \<open>Config_Json\<close>, \<open>Config_Schema\<close>, \<open>Config_Valid\<close>, \<open>Config_Plan\<close>, \<open>Plan_Laws\<close>
    (\<open>lib/config\<close>), \<open>Registry_Sync\<close> (\<open>lib/scheduler/registry-sync.ts\<close>), \<open>Service_Run\<close>,
    \<open>Config_Acceptance\<close>, \<open>Config_Service\<close> (\<open>lib/config/acceptance.ts\<close>, \<open>lib/scheduler\<close>,
    \<open>lib/api/config-mutation.ts\<close>, \<open>config-service.ts\<close>) and \<open>Config_Run\<close>: documents, plans, approvals and the
    registry agree, whoever writes.

  How the code is rendered. A thrown error is \<open>Inl\<close> of a value, a normal return \<open>Inr\<close>; a nullable column or
  field is an \<open>option\<close>. An instant is an integer number of milliseconds. A table is a list of rows, a
  statement a function on it, a transaction one step; an interleaving is a list of steps, and invariants
  of interleavings come from \<open>invariant_machine\<close>, interpreted on the step of the model. Where PostgreSQL
  may choose among rows that tie, the model takes the first of the list. Integers keep their width where
  the code relies on it: bytes and 32-bit words in the codec and the identifiers, the 64-bit products of
  the governor's CASE, the 32-bit cast of a stored latency in the roll-ups.

  Parameters. What is not in the repository is an argument of the definitions that use it, with its
  documented behaviour as the hypotheses of the theorems: SHA-256, \<open>new URL\<close>, \<open>ipaddr.js\<close>, undici, DNS and
  the UTF-8 decoder, Resend, Zod's reading of an unknown value, fresh identifiers, clocks, and the
  failures of statements.

  Bounds and termination. The check follows at most five redirects and recurses on those left, so no fuel
  is involved. The drains of the maintenance pass and the rounds of the sweep run until a budget of time is spent: they are
  \<open>partial_function (option)\<close>, and that they return is a theorem of its own, for any store whose full
  batches take time. The worker pool is a step relation that is shown to terminate. Strings of
  configuration documents are code units below U+0100, numbers the integers that canonical JSON writes
  without an exponent.

  Not modelled: the dependency poller and its adapters, domain health beyond its alert policy, the Porkbun
  webhooks, sign-in, invites, tokens and device authorization, monitors, groups and reports of the HTTP
  API beyond the configuration they write, read models and pages, mail bodies, scripts, and the CLI, which
  is written in Go. They read what is modelled here, or keep tables of their own; what they pass to the
  modelled parts is quantified over.
\<close>

end
